(* ===== verification/Prelude.thy ===== *)
theory Prelude
  imports Complex_Main "HOL-Library.Char_ord" "HOL-Library.List_Lexorder" "HOL-Library.AList"
    "HOL-Library.Multiset"
begin

text \<open>
  Shared vocabulary of the development.

  \<^item> \<open>'a res\<close> is the outcome of a TypeScript function that may throw: \<open>Inl msg\<close> is a thrown
    \<open>Error\<close> (the fixed part of its message), \<open>Inr x\<close> a returned value.  \<open>bindE\<close>, \<open>mapE\<close> and
    \<open>foldE\<close> are sequencing, \<open>Array.map\<close> with a throwing callback, and a \<open>for .. of\<close> loop whose
    body may throw.
  \<^item> A JavaScript \<open>Map\<close> is an association list in insertion order (\<open>AList.update\<close> is
    \<open>Map.set\<close>, \<open>map_of\<close> is \<open>Map.get\<close>), a \<open>Set\<close> of values is a distinct list in insertion order.
  \<^item> \<open>Array.prototype.sort\<close> with a comparator is the stable insertion sort \<open>sort_by\<close>; without a
    comparator it orders strings by code units, which is \<open>sort\<close> at type \<open>string\<close>.
  \<^item> \<open>localeCompare\<close> (ICU collation) is a parameter \<open>lc\<close> of whatever sorts with it; the locale
    \<open>comparator\<close> states the one law its documentation gives, that it is a consistent comparator.
\<close>

named_theorems res_simps "sequencing of possibly throwing computations"

section \<open>Throwing computations\<close>

type_synonym 'a res = "string + 'a"

definition bindE :: "'e + 'a \<Rightarrow> ('a \<Rightarrow> 'e + 'b) \<Rightarrow> 'e + 'b" where
  "bindE m f = (case m of Inl e \<Rightarrow> Inl e | Inr x \<Rightarrow> f x)"

fun mapE :: "('a \<Rightarrow> 'e + 'b) \<Rightarrow> 'a list \<Rightarrow> 'e + 'b list" where
  "mapE f [] = Inr []"
| "mapE f (x # xs) = bindE (f x) (\<lambda>y. bindE (mapE f xs) (\<lambda>ys. Inr (y # ys)))"

fun foldE :: "('s \<Rightarrow> 'a \<Rightarrow> 'e + 's) \<Rightarrow> 's \<Rightarrow> 'a list \<Rightarrow> 'e + 's" where
  "foldE f s [] = Inr s"
| "foldE f s (x # xs) = bindE (f s x) (\<lambda>s'. foldE f s' xs)"

lemma bindE_simps [simp, res_simps]:
  "bindE (Inl e) f = Inl e" "bindE (Inr x) f = f x"
  by (simp_all add: bindE_def)

lemma bindE_Inr_iff [res_simps]:
  "bindE m f = Inr y \<longleftrightarrow> (\<exists>x. m = Inr x \<and> f x = Inr y)"
  by (cases m) simp_all

lemma bindE_InrE [elim!]:
  assumes "bindE m f = Inr y"
  obtains x where "m = Inr x" "f x = Inr y"
  using assms by (auto simp: bindE_Inr_iff)

lemma if_Inl_Inr_iff [res_simps]:
  "(if c then Inl e else m) = Inr y \<longleftrightarrow> \<not> c \<and> m = Inr y"
  by simp

lemma option_Inl_Inr_iff [res_simps]:
  "(case x of None \<Rightarrow> Inl e | Some z \<Rightarrow> f z) = Inr y \<longleftrightarrow> (\<exists>z. x = Some z \<and> f z = Inr y)"
  by (cases x) simp_all

lemma mapE_length: "mapE f xs = Inr ys \<Longrightarrow> length ys = length xs"
  by (induction xs arbitrary: ys) auto

lemma mapE_nth: "mapE f xs = Inr ys \<Longrightarrow> i < length xs \<Longrightarrow> f (xs ! i) = Inr (ys ! i)"
proof (induction xs arbitrary: ys i)
  case Nil
  then show ?case by simp
next
  case (Cons x xs)
  then show ?case by (cases i) auto
qed

lemma mapE_set: "mapE f xs = Inr ys \<Longrightarrow> y \<in> set ys \<Longrightarrow> \<exists>x \<in> set xs. f x = Inr y"
  by (metis in_set_conv_nth mapE_length mapE_nth)

lemma mapE_set_conv: "mapE f xs = Inr ys \<Longrightarrow> x \<in> set xs \<Longrightarrow> \<exists>y \<in> set ys. f x = Inr y"
  by (metis in_set_conv_nth mapE_length mapE_nth)

lemma mapE_all_Inr: "(\<And>x. x \<in> set xs \<Longrightarrow> f x = Inr (g x)) \<Longrightarrow> mapE f xs = Inr (map g xs)"
  by (induction xs) auto

lemma mapE_cong [fundef_cong]:
  "xs = ys \<Longrightarrow> (\<And>x. x \<in> set ys \<Longrightarrow> f x = g x) \<Longrightarrow> mapE f xs = mapE g ys"
  by (induction ys arbitrary: xs) auto

lemma bindE_cong [fundef_cong]:
  "m = n \<Longrightarrow> (\<And>x. n = Inr x \<Longrightarrow> f x = g x) \<Longrightarrow> bindE m f = bindE n g"
  by (cases n) auto

lemma foldE_cong [fundef_cong]:
  "s = t \<Longrightarrow> xs = ys \<Longrightarrow> (\<And>u x. x \<in> set ys \<Longrightarrow> f u x = g u x) \<Longrightarrow> foldE f s xs = foldE g t ys"
proof (induction ys arbitrary: s t xs)
  case Nil
  then show ?case by simp
next
  case (Cons y ys)
  then have "f t y = g t y" "\<And>u. foldE f u ys = foldE g u ys" by auto
  then show ?case using Cons.prems by simp
qed

lemma mapE_fixed: "(\<And>x. x \<in> set xs \<Longrightarrow> f x = Inr x) \<Longrightarrow> mapE f xs = Inr xs"
  using mapE_all_Inr [of xs f id] by simp

lemma mapE_map: "mapE f (map g xs) = mapE (\<lambda>x. f (g x)) xs"
  by (induction xs) simp_all

lemma foldE_append: "foldE f s (xs @ ys) = bindE (foldE f s xs) (\<lambda>s'. foldE f s' ys)"
proof (induction xs arbitrary: s)
  case Nil
  then show ?case by simp
next
  case (Cons x xs)
  then show ?case by (cases "f s x") simp_all
qed

lemma foldE_invariant:
  assumes step: "\<And>s x s'. x \<in> set xs \<Longrightarrow> P s \<Longrightarrow> f s x = Inr s' \<Longrightarrow> P s'"
    and "P s" and "foldE f s xs = Inr t"
  shows "P t"
  using assms
proof (induction xs arbitrary: s)
  case Nil
  then show ?case by simp
next
  case (Cons x xs)
  from Cons.prems(3) obtain s' where s': "f s x = Inr s'" and rest: "foldE f s' xs = Inr t"
    by auto
  have "P s'" using Cons.prems(1)[OF _ Cons.prems(2) s'] by simp
  with Cons.prems(1) rest show ?case by (intro Cons.IH [of s']) auto
qed

section \<open>Insertion-ordered sets and maps\<close>

definition set_add :: "'a \<Rightarrow> 'a list \<Rightarrow> 'a list" where
  "set_add x xs = (if x \<in> set xs then xs else xs @ [x])"

definition to_set :: "'a list \<Rightarrow> 'a list" where
  "to_set xs = fold set_add xs []"

lemma set_set_add [simp]: "set (set_add x xs) = insert x (set xs)"
  by (auto simp: set_add_def)

lemma distinct_set_add [simp]: "distinct (set_add x xs) = distinct xs"
  by (simp add: set_add_def)

lemma set_fold_set_add [simp]: "set (fold set_add xs acc) = set acc \<union> set xs"
  by (induction xs arbitrary: acc) auto

lemma distinct_fold_set_add [simp]: "distinct (fold set_add xs acc) = distinct acc"
  by (induction xs arbitrary: acc) auto

lemma set_to_set [simp]: "set (to_set xs) = set xs"
  by (simp add: to_set_def)

lemma distinct_to_set [simp]: "distinct (to_set xs)"
  by (simp add: to_set_def)

lemma fold_set_add_distinct:
  "distinct (acc @ xs) \<Longrightarrow> fold set_add xs acc = acc @ xs"
proof (induction xs arbitrary: acc)
  case Nil
  then show ?case by simp
next
  case (Cons x xs)
  then have "x \<notin> set acc" by auto
  with Cons show ?case by (simp add: set_add_def)
qed

lemma to_set_distinct: "distinct xs \<Longrightarrow> to_set xs = xs"
  by (simp add: to_set_def fold_set_add_distinct)

lemma update_new: "k \<notin> fst ` set al \<Longrightarrow> AList.update k v al = al @ [(k, v)]"
  by (induction al) auto

lemma map_of_eq_None_set: "map_of al k = None \<longleftrightarrow> k \<notin> fst ` set al"
  by (simp add: map_of_eq_None_iff)

section \<open>Comparators and sorting\<close>

fun insort_by :: "('a \<Rightarrow> 'a \<Rightarrow> int) \<Rightarrow> 'a \<Rightarrow> 'a list \<Rightarrow> 'a list" where
  "insort_by cmp x [] = [x]"
| "insort_by cmp x (y # ys) = (if cmp x y \<le> 0 then x # y # ys else y # insort_by cmp x ys)"

definition sort_by :: "('a \<Rightarrow> 'a \<Rightarrow> int) \<Rightarrow> 'a list \<Rightarrow> 'a list" where
  "sort_by cmp xs = foldr (insort_by cmp) xs []"

text \<open>\<open>a || b\<close> on comparator results: the first non-zero one decides.\<close>

definition or_cmp :: "int \<Rightarrow> int \<Rightarrow> int" where
  "or_cmp a b = (if a \<noteq> 0 then a else b)"

lemma set_insort_by [simp]: "set (insort_by cmp x ys) = insert x (set ys)"
  by (induction ys) auto

lemma mset_insort_by [simp]: "mset (insort_by cmp x ys) = add_mset x (mset ys)"
  by (induction ys) auto

lemma mset_sort_by [simp]: "mset (sort_by cmp xs) = mset xs"
  by (induction xs) (simp_all add: sort_by_def)

lemma set_sort_by [simp]: "set (sort_by cmp xs) = set xs"
  by (metis mset_sort_by set_mset_mset)

lemma length_sort_by [simp]: "length (sort_by cmp xs) = length xs"
  by (metis mset_sort_by size_mset)

lemma distinct_sort_by [simp]: "distinct (sort_by cmp xs) = distinct xs"
  by (metis mset_sort_by mset_eq_imp_distinct_iff)

lemma sort_by_Nil [simp]: "sort_by cmp [] = []"
  by (simp add: sort_by_def)

lemma sort_by_Cons: "sort_by cmp (x # xs) = insort_by cmp x (sort_by cmp xs)"
  by (simp add: sort_by_def)

lemma sum_list_sort_by:
  fixes f :: "'a \<Rightarrow> 'b::comm_monoid_add"
  shows "sum_list (map f (sort_by cmp xs)) = sum_list (map f xs)"
  by (metis mset_map mset_sort_by sum_mset_sum_list)

lemma sort_by_sorted: "sorted_wrt (\<lambda>a b. cmp a b \<le> 0) xs \<Longrightarrow> sort_by cmp xs = xs"
proof (induction xs)
  case Nil
  then show ?case by simp
next
  case (Cons x xs)
  then show ?case by (cases xs) (simp_all add: sort_by_Cons)
qed

text \<open>
  The contract of a comparator handed to \<open>Array.prototype.sort\<close>: swapping the arguments flips the
  sign, and "not after" is transitive.  Under it the sorted array is ordered, and two arrays with
  the same elements sort to the same array whenever only identical elements compare equal.
\<close>

locale comparator =
  fixes cmp :: "'a \<Rightarrow> 'a \<Rightarrow> int"
  assumes cmp_swap: "sgn (cmp y x) = - sgn (cmp x y)"
    and cmp_trans: "cmp x y \<le> 0 \<Longrightarrow> cmp y z \<le> 0 \<Longrightarrow> cmp x z \<le> 0"
begin

lemma cmp_refl: "cmp x x = 0"
  using cmp_swap [of x x] by (simp add: sgn_if split: if_splits)

lemma cmp_total: "cmp x y \<le> 0 \<or> cmp y x \<le> 0"
  using cmp_swap [of x y] by (auto simp: sgn_if split: if_splits)

lemma not_le_swap: "\<not> cmp x y \<le> 0 \<Longrightarrow> cmp y x \<le> 0"
  using cmp_total by blast

lemma sorted_insort_by:
  "sorted_wrt (\<lambda>a b. cmp a b \<le> 0) ys \<Longrightarrow> sorted_wrt (\<lambda>a b. cmp a b \<le> 0) (insort_by cmp x ys)"
proof (induction ys)
  case Nil
  then show ?case by simp
next
  case (Cons y ys)
  show ?case
  proof (cases "cmp x y \<le> 0")
    case True
    with Cons.prems show ?thesis by (auto intro: cmp_trans)
  next
    case False
    then have "cmp y x \<le> 0" by (rule not_le_swap)
    with False Cons show ?thesis by auto
  qed
qed

lemma sorted_sort_by: "sorted_wrt (\<lambda>a b. cmp a b \<le> 0) (sort_by cmp xs)"
  by (induction xs) (simp_all add: sort_by_def sorted_insort_by)

lemma sorted_unique:
  assumes "mset xs = mset ys"
    and "sorted_wrt (\<lambda>a b. cmp a b \<le> 0) xs" and "sorted_wrt (\<lambda>a b. cmp a b \<le> 0) ys"
    and anti: "\<And>a b. a \<in> set xs \<Longrightarrow> b \<in> set xs \<Longrightarrow> cmp a b = 0 \<Longrightarrow> a = b"
  shows "xs = ys"
  using assms
proof (induction xs arbitrary: ys)
  case Nil
  then show ?case by simp
next
  case (Cons x xs)
  then obtain y zs where ys: "ys = y # zs" by (cases ys) auto
  have set_eq: "set (x # xs) = set (y # zs)" using Cons.prems(1) ys by (metis set_mset_mset)
  have "x = y"
  proof (rule ccontr)
    assume "x \<noteq> y"
    then have "y \<in> set xs" "x \<in> set zs" using set_eq by (auto dest: equalityD1 equalityD2)
    then have "cmp x y \<le> 0" "cmp y x \<le> 0" using Cons.prems(2,3) ys by auto
    then have "cmp x y = 0" using cmp_swap [of x y] by (auto simp: sgn_if split: if_splits)
    with Cons.prems(4) \<open>y \<in> set xs\<close> \<open>x \<noteq> y\<close> show False by auto
  qed
  moreover have "xs = zs"
    using Cons.prems ys \<open>x = y\<close> by (intro Cons.IH) auto
  ultimately show ?case using ys by simp
qed

lemma sort_by_unique:
  assumes "mset xs = mset ys"
    and "\<And>a b. a \<in> set xs \<Longrightarrow> b \<in> set xs \<Longrightarrow> cmp a b = 0 \<Longrightarrow> a = b"
  shows "sort_by cmp xs = sort_by cmp ys"
  using assms by (intro sorted_unique) (auto simp: sorted_sort_by)

end

text \<open>The comparator \<open>(a, b) => f(a, b) || g(a, b)\<close> of two consistent comparators is consistent,
  and so is a comparator applied to a key.\<close>

lemma comparator_or:
  assumes f: "comparator f" and g: "comparator g"
  shows "comparator (\<lambda>a b. or_cmp (f a b) (g a b))"
proof (rule comparator.intro)
  show "sgn (or_cmp (f y x) (g y x)) = - sgn (or_cmp (f x y) (g x y))" for x y
    using comparator.cmp_swap [OF f, of y x] comparator.cmp_swap [OF g, of y x]
    by (auto simp: or_cmp_def sgn_if split: if_splits)
next
  fix x y z
  assume xy: "or_cmp (f x y) (g x y) \<le> 0" and yz: "or_cmp (f y z) (g y z) \<le> 0"
  have f_le: "f x y \<le> 0" "f y z \<le> 0" using xy yz by (auto simp: or_cmp_def split: if_splits)
  then have xz: "f x z \<le> 0" by (rule comparator.cmp_trans [OF f])
  show "or_cmp (f x z) (g x z) \<le> 0"
  proof (cases "f x z = 0")
    case True
    then have "f z x = 0" using comparator.cmp_swap [OF f, of z x] by (auto simp: sgn_if split: if_splits)
    then have "f z y \<le> 0" "f y x \<le> 0"
      using f_le comparator.cmp_trans [OF f, of z x y] comparator.cmp_trans [OF f, of y z x] by auto
    then have "f x y = 0" "f y z = 0"
      using f_le comparator.cmp_swap [OF f, of y x] comparator.cmp_swap [OF f, of z y]
      by (auto simp: sgn_if split: if_splits)
    then have "g x y \<le> 0" "g y z \<le> 0" using xy yz by (auto simp: or_cmp_def)
    then have "g x z \<le> 0" by (rule comparator.cmp_trans [OF g])
    with True show ?thesis by (simp add: or_cmp_def)
  next
    case False
    with xz show ?thesis by (simp add: or_cmp_def)
  qed
qed

lemma comparator_key:
  assumes "comparator cmp"
  shows "comparator (\<lambda>a b. cmp (key a) (key b))"
proof (rule comparator.intro)
  show "sgn (cmp (key y) (key x)) = - sgn (cmp (key x) (key y))" for x y
    by (rule comparator.cmp_swap [OF assms])
  show "cmp (key x) (key y) \<le> 0 \<Longrightarrow> cmp (key y) (key z) \<le> 0 \<Longrightarrow> cmp (key x) (key z) \<le> 0" for x y z
    by (rule comparator.cmp_trans [OF assms])
qed

definition int_cmp :: "int \<Rightarrow> int \<Rightarrow> int" where
  "int_cmp a b = a - b"

interpretation int_order: comparator int_cmp
proof
  show "sgn (int_cmp y x) = - sgn (int_cmp x y)" for x y
    by (cases x y rule: linorder_cases) (simp_all add: int_cmp_def)
  show "int_cmp x y \<le> 0 \<Longrightarrow> int_cmp y z \<le> 0 \<Longrightarrow> int_cmp x z \<le> 0" for x y z
    by (simp add: int_cmp_def)
qed

text \<open>Comparison of strings by code units, which is what \<open><\<close> on strings and a bare
  \<open>.sort()\<close> use; it is one instance of the comparator contract.\<close>

definition code_unit_cmp :: "string \<Rightarrow> string \<Rightarrow> int" where
  "code_unit_cmp a b = (if a < b then -1 else if a = b then 0 else 1)"

lemma code_unit_cmp_le: "code_unit_cmp a b \<le> 0 \<longleftrightarrow> a \<le> b"
  by (auto simp: code_unit_cmp_def le_less)

lemma code_unit_cmp_swap: "sgn (code_unit_cmp b a) = - sgn (code_unit_cmp a b)"
proof -
  consider "a < b" | "a = b" | "b < a" by (rule linorder_cases)
  then show ?thesis by cases (simp_all add: code_unit_cmp_def less_not_sym)
qed

interpretation code_units: comparator code_unit_cmp
proof
  show "sgn (code_unit_cmp y x) = - sgn (code_unit_cmp x y)" for x y
    by (rule code_unit_cmp_swap)
  show "code_unit_cmp x y \<le> 0 \<Longrightarrow> code_unit_cmp y z \<le> 0 \<Longrightarrow> code_unit_cmp x z \<le> 0" for x y z
    unfolding code_unit_cmp_le by (rule order_trans)
qed

section \<open>Strings\<close>

text \<open>White space removed by \<open>String.prototype.trim\<close>, for code units below 256.\<close>

definition js_space :: "char \<Rightarrow> bool" where
  "js_space c = (of_char c \<in> {9, 10, 11, 12, 13, 32, 160 :: nat})"

definition trim :: "string \<Rightarrow> string" where
  "trim s = rev (dropWhile js_space (rev (dropWhile js_space s)))"

text \<open>The \<open>nonEmpty(value, label)\<close> helper repeated in every module of the source.\<close>

definition non_empty :: "string \<Rightarrow> string \<Rightarrow> string res" where
  "non_empty label v = (if trim v = [] then Inl (label @ '' must be non-empty'') else Inr (trim v))"

lemma dropWhile_idem [simp]: "dropWhile P (dropWhile P xs) = dropWhile P xs"
  by (induction xs) auto

lemma dropWhile_rev_fixed:
  assumes "dropWhile P xs = xs"
  shows "dropWhile P (rev (dropWhile P (rev xs))) = rev (dropWhile P (rev xs))"
proof -
  have pre: "rev (dropWhile P (rev xs)) = take (length (dropWhile P (rev xs))) xs"
  proof -
    have "rev xs = takeWhile P (rev xs) @ dropWhile P (rev xs)" by simp
    then have "xs = rev (dropWhile P (rev xs)) @ rev (takeWhile P (rev xs))"
      by (metis rev_append rev_rev_ident)
    then show ?thesis by (metis append_eq_conv_conj length_rev)
  qed
  show ?thesis
  proof (cases "rev (dropWhile P (rev xs))")
    case Nil
    then show ?thesis by (simp only: dropWhile.simps)
  next
    case (Cons a as)
    then have "\<exists>bs. xs = a # bs" using pre by (cases xs) (auto simp: take_Cons split: nat.splits)
    then have "\<not> P a" using assms by (metis dropWhile.simps(2) dropWhile_eq_Cons_conv list.sel(1))
    then show ?thesis using Cons by simp
  qed
qed

lemma trim_idem [simp]: "trim (trim s) = trim s"
proof -
  let ?P = js_space and ?a = "dropWhile js_space s"
  have "dropWhile ?P (rev (dropWhile ?P (rev ?a))) = rev (dropWhile ?P (rev ?a))"
    by (rule dropWhile_rev_fixed) simp
  then show ?thesis by (simp add: trim_def)
qed

lemma non_empty_Inr: "non_empty l v = Inr w \<Longrightarrow> w = trim v \<and> w \<noteq> [] \<and> trim w = w"
  by (auto simp: non_empty_def split: if_splits)

lemma non_empty_canonical: "trim v = v \<Longrightarrow> v \<noteq> [] \<Longrightarrow> non_empty l v = Inr v"
  by (simp add: non_empty_def)

text \<open>The duplicate-refusing normalisation loop over an array of ids that most modules repeat:
  every element is trimmed, must be non-empty and must not repeat.\<close>

fun unique_ids :: "string \<Rightarrow> string list \<Rightarrow> string list \<Rightarrow> string list res" where
  "unique_ids label seen [] = Inr []"
| "unique_ids label seen (v # vs) =
     bindE (non_empty label v) (\<lambda>i.
       if i \<in> set seen then Inl (''duplicate '' @ label)
       else bindE (unique_ids label (i # seen) vs) (\<lambda>is. Inr (i # is)))"

lemma unique_ids_Inr:
  "unique_ids l seen vs = Inr ids \<Longrightarrow>
     ids = map trim vs \<and> distinct ids \<and> set ids \<inter> set seen = {} \<and> [] \<notin> set ids"
proof (induction vs arbitrary: seen ids)
  case Nil
  then show ?case by simp
next
  case (Cons v vs)
  then show ?case by (fastforce dest: non_empty_Inr split: if_splits)
qed

lemma unique_ids_canonical:
  "distinct (seen @ vs) \<Longrightarrow> (\<forall>v \<in> set vs. trim v = v \<and> v \<noteq> []) \<Longrightarrow> unique_ids l seen vs = Inr vs"
proof (induction vs arbitrary: seen)
  case Nil
  then show ?case by simp
next
  case (Cons v vs)
  then have "unique_ids l (v # seen) vs = Inr vs" by (intro Cons.IH) auto
  with Cons.prems show ?case by (auto simp: non_empty_canonical)
qed

end
