(* ===== verification/JsValue.thy ===== *)
theory JsValue
  imports Prelude
begin

text \<open>
  JavaScript values as they reach the constructors from JSON or from a caller that is not
  type-checked, and the decimal text of \<open>BigInt\<close>s.

  \<open>JNum\<close> holds a finite number; every finite double is a rational.  \<open>JNonFinite\<close> stands for
  \<open>NaN\<close> and the infinities, which no check of the source accepts as a count.  An object is its
  own enumerable properties in insertion order.
\<close>

section \<open>Values\<close>

datatype jsval =
    JUndefined
  | JNull
  | JBool bool
  | JNum rat
  | JNonFinite
  | JBigInt int
  | JStr string
  | JArr "jsval list"
  | JObj "(string \<times> jsval) list"

fun is_object :: "jsval \<Rightarrow> bool" where
  "is_object (JObj fs) = True"
| "is_object _ = False"

fun keys_of :: "jsval \<Rightarrow> string list" where
  "keys_of (JObj fs) = map fst fs"
| "keys_of _ = []"

fun field :: "string \<Rightarrow> jsval \<Rightarrow> jsval" where
  "field k (JObj fs) = (case map_of fs k of None \<Rightarrow> JUndefined | Some v \<Rightarrow> v)"
| "field k _ = JUndefined"

definition has_own :: "string \<Rightarrow> jsval \<Rightarrow> bool" where
  "has_own k v = (k \<in> set (keys_of v))"

text \<open>\<open>assertKnownKeys(value, allowed, label)\<close>, repeated in most modules.\<close>

definition assert_known_keys :: "string list \<Rightarrow> string \<Rightarrow> jsval \<Rightarrow> unit res" where
  "assert_known_keys allowed label v =
     (if \<not> is_object v then Inl (label @ '' must be an object'')
      else if \<not> list_all (\<lambda>k. k \<in> set allowed) (keys_of v) then Inl (label @ '' contains unknown field'')
      else Inr ())"

lemma assert_known_keys_object [simp]:
  "assert_known_keys ks l (JObj fs) = Inr () \<longleftrightarrow> fst ` set fs \<subseteq> set ks"
  by (auto simp: assert_known_keys_def list_all_iff)

text \<open>The idiom \<open>Object.keys(v).sort().join('\\u0000') === expected.join('\\u0000')\<close>.\<close>

fun join_nul :: "string list \<Rightarrow> string" where
  "join_nul [] = []"
| "join_nul [x] = x"
| "join_nul (x # y # ys) = x @ CHR 0x00 # join_nul (y # ys)"

definition keys_are :: "string list \<Rightarrow> jsval \<Rightarrow> bool" where
  "keys_are expected v = (join_nul (sort (keys_of v)) = join_nul (sort expected))"

definition max_safe :: int where
  "max_safe = 9007199254740991"

definition safe_int :: "int \<Rightarrow> bool" where
  "safe_int i = (\<bar>i\<bar> \<le> max_safe)"

text \<open>\<open>Number.isSafeInteger(v)\<close>, returning the integer.\<close>

fun safe_integer :: "jsval \<Rightarrow> int option" where
  "safe_integer (JNum r) = (if of_int \<lfloor>r\<rfloor> = r \<and> safe_int \<lfloor>r\<rfloor> then Some \<lfloor>r\<rfloor> else None)"
| "safe_integer _ = None"

lemma safe_integer_of_int [simp]: "safe_int i \<Longrightarrow> safe_integer (JNum (of_int i)) = Some i"
  by simp

lemma safe_integer_Some: "safe_integer v = Some i \<Longrightarrow> v = JNum (of_int i) \<and> safe_int i"
  by (cases v) (auto split: if_splits)

text \<open>\<open>nonEmpty(value: unknown, label)\<close>: a string that is not blank, trimmed.\<close>

fun non_empty_val :: "string \<Rightarrow> jsval \<Rightarrow> string res" where
  "non_empty_val label (JStr s) = non_empty label s"
| "non_empty_val label _ = Inl (label @ '' must be a non-empty string'')"

fun as_strings :: "string \<Rightarrow> jsval list \<Rightarrow> string list res" where
  "as_strings label [] = Inr []"
| "as_strings label (JStr s # vs) = bindE (as_strings label vs) (\<lambda>ss. Inr (s # ss))"
| "as_strings label (v # vs) = Inl (label @ '' must be a non-empty string'')"

lemma non_empty_val_Inr:
  "non_empty_val l v = Inr w \<Longrightarrow> \<exists>s. v = JStr s \<and> w = trim s \<and> w \<noteq> []"
  by (cases v) (auto dest: non_empty_Inr)

text \<open>The loop over an \<open>unknown\<close> array of ids: every element a non-blank string, none repeated.\<close>

fun unique_id_vals :: "string \<Rightarrow> string list \<Rightarrow> jsval list \<Rightarrow> string list res" where
  "unique_id_vals label seen [] = Inr []"
| "unique_id_vals label seen (v # vs) =
     bindE (non_empty_val label v) (\<lambda>i.
       if i \<in> set seen then Inl (''duplicate '' @ label)
       else bindE (unique_id_vals label (i # seen) vs) (\<lambda>is. Inr (i # is)))"

definition canonical_ids :: "string list \<Rightarrow> bool" where
  "canonical_ids ids = (distinct ids \<and> (\<forall>i \<in> set ids. trim i = i \<and> i \<noteq> []))"

lemma unique_id_vals_Inr:
  "unique_id_vals l seen vs = Inr ids \<Longrightarrow>
     distinct ids \<and> set ids \<inter> set seen = {} \<and> (\<forall>i \<in> set ids. trim i = i \<and> i \<noteq> [])"
proof (induction vs arbitrary: seen ids)
  case Nil
  then show ?case by simp
next
  case (Cons v vs)
  then show ?case by (fastforce dest: non_empty_val_Inr split: if_splits)
qed

lemma unique_id_vals_canonical_Inr: "unique_id_vals l [] vs = Inr ids \<Longrightarrow> canonical_ids ids"
  using unique_id_vals_Inr by (fastforce simp: canonical_ids_def)

lemma unique_id_vals_strings: "unique_id_vals l seen (map JStr vs) = unique_ids l seen vs"
  by (induction vs arbitrary: seen) (simp_all cong: if_cong)

lemma unique_id_vals_canonical: "canonical_ids ids \<Longrightarrow> unique_id_vals l [] (map JStr ids) = Inr ids"
  using unique_ids_canonical [of "[]" ids l] by (simp add: canonical_ids_def unique_id_vals_strings)

text \<open>\<open>stringList(value, label)\<close>, repeated in the epistemic modules.\<close>

definition string_list_val :: "string \<Rightarrow> jsval \<Rightarrow> string list res" where
  "string_list_val label v =
     (case v of JUndefined \<Rightarrow> Inr [] | JArr vs \<Rightarrow> unique_id_vals label [] vs | _ \<Rightarrow> Inl (label @ '' must be an array''))"

lemma string_list_val_Inr: "string_list_val l v = Inr ids \<Longrightarrow> canonical_ids ids"
  by (auto simp: string_list_val_def canonical_ids_def dest!: unique_id_vals_canonical_Inr split: jsval.splits)

lemma string_list_val_canonical: "canonical_ids ids \<Longrightarrow> string_list_val l (JArr (map JStr ids)) = Inr ids"
  by (simp add: string_list_val_def unique_id_vals_canonical)

fun member_val :: "('a \<Rightarrow> string) \<Rightarrow> 'a list \<Rightarrow> string \<Rightarrow> jsval \<Rightarrow> 'a res" where
  "member_val name values label (JStr s) =
     (case List.find (\<lambda>x. name x = s) values of Some x \<Rightarrow> Inr x | None \<Rightarrow> Inl (''invalid '' @ label))"
| "member_val name values label _ = Inl (''invalid '' @ label)"

lemma member_val_Inr: "member_val name values l v = Inr x \<Longrightarrow> v = JStr (name x) \<and> x \<in> set values"
  by (cases v) (auto simp: find_Some_iff split: option.splits)

section \<open>Decimal text\<close>

definition digit_char :: "nat \<Rightarrow> char" where
  "digit_char d = char_of (48 + d)"

definition digit_val :: "char \<Rightarrow> nat" where
  "digit_val c = of_char c - 48"

definition is_digit :: "char \<Rightarrow> bool" where
  "is_digit c = (48 \<le> (of_char c :: nat) \<and> (of_char c :: nat) \<le> 57)"

fun show_nat :: "nat \<Rightarrow> string" where
  "show_nat n = (if n < 10 then [digit_char n] else show_nat (n div 10) @ [digit_char (n mod 10)])"

declare show_nat.simps [simp del]

definition show_int :: "int \<Rightarrow> string" where
  "show_int i = (if i < 0 then CHR ''-'' # show_nat (nat (- i)) else show_nat (nat i))"

definition read_nat :: "string \<Rightarrow> nat" where
  "read_nat s = foldl (\<lambda>n c. 10 * n + digit_val c) 0 s"

text \<open>The regular expressions \<open>(?:0|[1-9]\\d*)\<close> and \<open>-?(?:0|[1-9]\\d*)\<close>, anchored.\<close>

definition canonical_nat_text :: "string \<Rightarrow> bool" where
  "canonical_nat_text s =
     (s \<noteq> [] \<and> list_all is_digit s \<and> (hd s = CHR ''0'' \<longrightarrow> length s = 1))"

definition canonical_int_text :: "string \<Rightarrow> bool" where
  "canonical_int_text s =
     (case s of [] \<Rightarrow> False
      | c # cs \<Rightarrow> if c = CHR ''-'' then canonical_nat_text cs else canonical_nat_text s)"

definition read_int :: "string \<Rightarrow> int" where
  "read_int s =
     (case s of [] \<Rightarrow> 0
      | c # cs \<Rightarrow> if c = CHR ''-'' then - int (read_nat cs) else int (read_nat s))"

lemma digit_val_char [simp]: "d < 10 \<Longrightarrow> digit_val (digit_char d) = d"
  by (simp add: digit_val_def digit_char_def)

lemma is_digit_char [simp]: "d < 10 \<Longrightarrow> is_digit (digit_char d)"
  by (simp add: is_digit_def digit_char_def)

lemma digit_char_val: "is_digit c \<Longrightarrow> digit_char (digit_val c) = c"
  by (simp add: is_digit_def digit_char_def digit_val_def)

lemma digit_val_less: "is_digit c \<Longrightarrow> digit_val c < 10"
  unfolding is_digit_def digit_val_def by arith

lemma is_digit_minus [simp]: "\<not> is_digit (CHR ''-'')" and is_digit_dot [simp]: "\<not> is_digit (CHR ''.'')"
  by (simp_all add: is_digit_def)

lemma is_digit_zero [simp]: "is_digit (CHR ''0'')" and digit_val_zero [simp]: "digit_val (CHR ''0'') = 0"
  by (simp_all add: is_digit_def digit_val_def)

lemma digit_char_0 [simp]: "digit_char 0 = CHR ''0''"
  by code_simp

lemma digit_char_is_zero: "d < 10 \<Longrightarrow> digit_char d = CHR ''0'' \<longleftrightarrow> d = 0"
  by (metis digit_val_char digit_val_zero digit_char_0)

lemma read_nat_Nil [simp]: "read_nat [] = 0"
  by (simp add: read_nat_def)

lemma read_nat_snoc [simp]: "read_nat (s @ [c]) = 10 * read_nat s + digit_val c"
  by (simp add: read_nat_def)

lemma read_nat_append: "read_nat (s @ t) = read_nat s * 10 ^ length t + read_nat t"
proof (induction t rule: rev_induct)
  case Nil
  then show ?case by simp
next
  case (snoc c t)
  have "read_nat ((s @ t) @ [c]) = 10 * read_nat (s @ t) + digit_val c"
    by (rule read_nat_snoc)
  with snoc show ?case by (simp add: algebra_simps)
qed

lemma read_nat_Cons: "read_nat (c # s) = digit_val c * 10 ^ length s + read_nat s"
  using read_nat_append [of "[c]" s] read_nat_snoc [of "[]" c] by simp

lemma read_nat_zeros [simp]: "read_nat (replicate k (CHR ''0'') @ s) = read_nat s"
  by (induction k) (simp_all add: read_nat_Cons)

lemma read_nat_less: "list_all is_digit s \<Longrightarrow> read_nat s < 10 ^ length s"
proof (induction s rule: rev_induct)
  case Nil
  then show ?case by simp
next
  case (snoc c s)
  then have "read_nat s < 10 ^ length s" "digit_val c < 10" by (simp_all add: digit_val_less)
  then show ?case by simp
qed

lemma read_show_nat [simp]: "read_nat (show_nat n) = n"
proof (induction n rule: show_nat.induct)
  case (1 n)
  show ?case
  proof (cases "n < 10")
    case True
    then show ?thesis using read_nat_snoc [of "[]" "digit_char n"] by (simp add: show_nat.simps [of n])
  next
    case False
    then have "read_nat (show_nat (n div 10)) = n div 10" by (rule "1.IH")
    with False show ?thesis by (simp add: show_nat.simps [of n])
  qed
qed

lemma show_nat_digits [simp]: "list_all is_digit (show_nat n)"
proof (induction n rule: show_nat.induct)
  case (1 n)
  then show ?case by (cases "n < 10") (simp_all add: show_nat.simps [of n])
qed

lemma show_nat_not_Nil [simp]: "show_nat n \<noteq> []"
  by (subst show_nat.simps) simp

lemma show_nat_inj: "show_nat m = show_nat n \<longleftrightarrow> m = n"
  by (metis read_show_nat)

lemma hd_show_nat: "0 < n \<Longrightarrow> hd (show_nat n) \<noteq> CHR ''0''"
proof (induction n rule: show_nat.induct)
  case (1 n)
  show ?case
  proof (cases "n < 10")
    case True
    then show ?thesis using "1.prems" by (simp add: show_nat.simps [of n] digit_char_is_zero)
  next
    case False
    then have "hd (show_nat (n div 10)) \<noteq> CHR ''0''" by (intro "1.IH") simp_all
    with False show ?thesis by (simp add: show_nat.simps [of n] hd_append)
  qed
qed

lemma canonical_show_nat [simp]: "canonical_nat_text (show_nat n)"
proof (cases "n = 0")
  case True
  then show ?thesis by (simp add: canonical_nat_text_def show_nat.simps)
next
  case False
  then show ?thesis by (simp add: canonical_nat_text_def hd_show_nat)
qed

lemma read_nat_lower:
  assumes "list_all is_digit s" "s \<noteq> []" "hd s \<noteq> CHR ''0''"
  shows "10 ^ (length s - 1) \<le> read_nat s"
proof -
  obtain c t where s: "s = c # t" using assms(2) by (cases s) auto
  then have "is_digit c" "c \<noteq> CHR ''0''" using assms by simp_all
  then have "1 \<le> digit_val c"
    by (metis digit_char_0 digit_char_val less_one linorder_le_less_linear)
  then have "1 * 10 ^ length t \<le> digit_val c * (10 ^ length t :: nat)" by (rule mult_le_mono1)
  then have "10 ^ length t \<le> digit_val c * (10 ^ length t :: nat) + read_nat t" by linarith
  then show ?thesis using s by (simp add: read_nat_Cons)
qed

lemma length_show_nat_le: "0 < k \<Longrightarrow> length (show_nat n) \<le> k \<longleftrightarrow> n < 10 ^ k"
proof
  assume k: "0 < k" and "length (show_nat n) \<le> k"
  then have "10 ^ length (show_nat n) \<le> (10 ^ k :: nat)" by (simp add: power_increasing)
  moreover have "n < 10 ^ length (show_nat n)" using read_nat_less [OF show_nat_digits, of n] by simp
  ultimately show "n < 10 ^ k" by (rule order_less_le_trans [rotated])
next
  assume k: "0 < k" and n: "n < 10 ^ k"
  show "length (show_nat n) \<le> k"
  proof (cases "n = 0")
    case True
    then show ?thesis using k by (simp add: show_nat.simps)
  next
    case False
    then have "10 ^ (length (show_nat n) - 1) \<le> n"
      using read_nat_lower [of "show_nat n"] by (simp add: hd_show_nat)
    with n have "(10::nat) ^ (length (show_nat n) - 1) < 10 ^ k" by (rule order_le_less_trans [rotated])
    then have "length (show_nat n) - 1 < k" by (subst (asm) power_strict_increasing_iff) simp_all
    then show ?thesis by simp
  qed
qed

lemma show_read_nat: "canonical_nat_text s \<Longrightarrow> show_nat (read_nat s) = s"
proof (induction s rule: rev_induct)
  case Nil
  then show ?case by (simp add: canonical_nat_text_def)
next
  case (snoc c s)
  then have c: "is_digit c" and ds: "list_all is_digit s" by (simp_all add: canonical_nat_text_def)
  then have dc: "digit_val c < 10" "digit_char (digit_val c) = c"
    by (simp_all add: digit_val_less digit_char_val)
  show ?case
  proof (cases "s = []")
    case True
    then show ?thesis using dc read_nat_snoc [of "[]" c] by (simp add: show_nat.simps)
  next
    case False
    then have "hd s \<noteq> CHR ''0''" using snoc.prems by (auto simp: canonical_nat_text_def)
    then have "canonical_nat_text s" and low: "10 ^ (length s - 1) \<le> read_nat s"
      using False ds read_nat_lower [of s] by (simp_all add: canonical_nat_text_def)
    then have "show_nat (read_nat s) = s" using snoc.IH by simp
    moreover have "1 \<le> read_nat s" using low one_le_power [of "10 :: nat" "length s - 1"] by linarith
    ultimately have "show_nat (read_nat s) = s" "1 \<le> read_nat s" .
    with dc show ?thesis by (simp add: show_nat.simps [of "10 * read_nat s + digit_val c"])
  qed
qed

lemma show_nat_hd_minus [simp]: "hd (show_nat n) \<noteq> CHR ''-''" 
  by (metis hd_in_set is_digit_minus list.pred_set show_nat_digits show_nat_not_Nil)

lemma show_nat_Cons: "show_nat n = c # cs \<Longrightarrow> c \<noteq> CHR ''-'' \<and> is_digit c"
  by (metis is_digit_minus list.pred_inject(2) show_nat_digits)

lemma read_show_int [simp]: "read_int (show_int i) = i"
  by (auto simp: read_int_def show_int_def split: list.splits dest: show_nat_Cons)
     (metis nat_eq_iff2 not_less read_show_nat)

lemma canonical_show_int [simp]: "canonical_int_text (show_int i)"
  using canonical_show_nat [of "nat i"]
  by (auto simp: canonical_int_text_def show_int_def simp del: canonical_show_nat
      split: list.splits dest: show_nat_Cons)
     simp

end
