(* ===== verification/Json.thy ===== *)
theory Json
  imports JsValue
begin

text \<open>
  \<open>immutableJson\<close> of \<open>src/src/epistemic/evidence.ts\<close>: the canonical copy of a JSON-compatible value
  that events, evidence and claims store.  Object keys are sorted with \<open>localeCompare\<close>, the parameter
  \<open>lc\<close>.  Cycles cannot be written as a \<open>jsval\<close>; a cyclic value is refused by the source.
\<close>

definition forbidden_keys :: "string list" where
  "forbidden_keys = [''__proto__'', ''constructor'', ''prototype'']"

lemma size_field_less [termination_simp]: "kv \<in> set fs \<Longrightarrow> size (snd kv) < size_list (size_prod (\<lambda>_. 0) size) fs"
  by (induction fs) (auto simp: less_Suc_eq_le trans_le_add1 trans_le_add2 split: prod.splits)

lemma size_item_less: "v \<in> set vs \<Longrightarrow> size v < size_list size vs"
  by (induction vs) (auto simp: less_Suc_eq_le trans_le_add1 trans_le_add2)

function clone_json :: "(string \<Rightarrow> string \<Rightarrow> int) \<Rightarrow> jsval \<Rightarrow> jsval res" where
  "clone_json lc JNull = Inr JNull"
| "clone_json lc (JStr s) = Inr (JStr s)"
| "clone_json lc (JBool b) = Inr (JBool b)"
| "clone_json lc (JNum r) = Inr (JNum r)"
| "clone_json lc JNonFinite = Inl ''must contain only finite JSON-compatible numbers''"
| "clone_json lc JUndefined = Inl ''must be JSON-compatible''"
| "clone_json lc (JBigInt i) = Inl ''must be JSON-compatible''"
| "clone_json lc (JArr vs) = bindE (mapE (\<lambda>v. clone_json lc v) vs) (\<lambda>ws. Inr (JArr ws))"
| "clone_json lc (JObj fs) =
     bindE (mapE (\<lambda>kv. if fst kv \<in> set forbidden_keys then Inl ''is not an allowed JSON field''
                       else bindE (clone_json lc (snd kv)) (\<lambda>w. Inr (fst kv, w)))
            (sort_by (\<lambda>a b. lc (fst a) (fst b)) fs)) (\<lambda>ws. Inr (JObj ws))"
  by pat_completeness auto
termination
  by (relation "measure (\<lambda>(lc, v). size v)") (auto simp: size_field_less size_item_less less_SucI)

section \<open>The stored form\<close>

text \<open>The invariant of a stored value: finite, no forbidden key, keys in collation order.\<close>

fun canonical_json :: "(string \<Rightarrow> string \<Rightarrow> int) \<Rightarrow> jsval \<Rightarrow> bool" where
  "canonical_json lc JNull = True"
| "canonical_json lc (JStr s) = True"
| "canonical_json lc (JBool b) = True"
| "canonical_json lc (JNum r) = True"
| "canonical_json lc (JArr vs) = (\<forall>v \<in> set vs. canonical_json lc v)"
| "canonical_json lc (JObj fs) =
     ((\<forall>kv \<in> set fs. fst kv \<notin> set forbidden_keys \<and> canonical_json lc (snd kv))
      \<and> sorted_wrt (\<lambda>a b. lc (fst a) (fst b) \<le> 0) fs)"
| "canonical_json lc _ = False"

lemma clone_canonical_json: "canonical_json lc v \<Longrightarrow> clone_json lc v = Inr v"
proof (induction lc v rule: clone_json.induct)
  case (8 lc vs)
  then have "mapE (\<lambda>v. clone_json lc v) vs = Inr vs" by (intro mapE_fixed) simp
  then show ?case by simp
next
  case (9 lc fs)
  then have s: "sort_by (\<lambda>a b. lc (fst a) (fst b)) fs = fs" by (intro sort_by_sorted) simp
  have "mapE (\<lambda>kv. if fst kv \<in> set forbidden_keys then Inl ''is not an allowed JSON field''
      else bindE (clone_json lc (snd kv)) (\<lambda>w. Inr (fst kv, w))) fs = Inr fs"
  proof (rule mapE_fixed)
    fix kv assume kv: "kv \<in> set fs"
    then have "clone_json lc (snd kv) = Inr (snd kv)" using 9 by simp
    then show "(if fst kv \<in> set forbidden_keys then Inl ''is not an allowed JSON field''
      else bindE (clone_json lc (snd kv)) (\<lambda>w. Inr (fst kv, w))) = Inr kv" using kv 9(2) by simp
  qed
  then show ?case using s by simp
qed simp_all

lemma clone_json_canonical:
  assumes "comparator lc"
  shows "clone_json lc v = Inr w \<Longrightarrow> canonical_json lc w"
  using assms
proof (induction lc v arbitrary: w rule: clone_json.induct)
  case (8 lc vs)
  then obtain ws where ws: "mapE (\<lambda>v. clone_json lc v) vs = Inr ws" "w = JArr ws" by auto
  then have "canonical_json lc x" if "x \<in> set ws" for x
    using mapE_set [OF ws(1) that] 8 by blast
  then show ?case using ws by simp
next
  case (9 lc fs)
  let ?cmp = "\<lambda>a b :: string \<times> jsval. lc (fst a) (fst b)"
  let ?f = "\<lambda>kv. if fst kv \<in> set forbidden_keys then Inl ''is not an allowed JSON field''
      else bindE (clone_json lc (snd kv)) (\<lambda>w. Inr (fst kv, w))"
  obtain ws where ws: "mapE ?f (sort_by ?cmp fs) = Inr ws" "w = JObj ws" using 9(2) by auto
  have elem: "fst kv \<notin> set forbidden_keys \<and> canonical_json lc (snd kv)" if kv: "kv \<in> set ws" for kv
  proof -
    obtain x where x: "x \<in> set (sort_by ?cmp fs)" "?f x = Inr kv" using mapE_set [OF ws(1) kv] by blast
    then have "fst x \<notin> set forbidden_keys" "\<exists>v. clone_json lc (snd x) = Inr v \<and> kv = (fst x, v)"
      by (auto split: if_splits)
    then show ?thesis using 9(1) [of x "snd kv"] x(1) 9(3) by auto
  qed
  have keys: "map fst ws = map fst (sort_by ?cmp fs)"
  proof (rule nth_equalityI)
    show "length (map fst ws) = length (map fst (sort_by ?cmp fs))" using mapE_length [OF ws(1)] by simp
    fix i assume "i < length (map fst ws)"
    then have i: "i < length (sort_by ?cmp fs)" using mapE_length [OF ws(1)] by simp
    then have "?f (sort_by ?cmp fs ! i) = Inr (ws ! i)" by (rule mapE_nth [OF ws(1)])
    then show "map fst ws ! i = map fst (sort_by ?cmp fs) ! i"
      using i mapE_length [OF ws(1)] by (auto split: if_splits) (metis fst_conv)
  qed
  have "sorted_wrt (\<lambda>a b. ?cmp a b \<le> 0) (sort_by ?cmp fs)"
    by (rule comparator.sorted_sort_by) (rule comparator_key [OF 9(3)])
  then have "sorted_wrt (\<lambda>k l. lc k l \<le> 0) (map fst ws)" unfolding keys sorted_wrt_map .
  then show ?case using ws elem by (simp add: sorted_wrt_map)
qed auto

lemma clone_json_not_null:
  "clone_json lc v = Inr w \<Longrightarrow> v \<noteq> JNull \<Longrightarrow> w \<noteq> JNull"
  by (cases v) auto

lemma canonical_json_not_undefined: "canonical_json lc w \<Longrightarrow> w \<noteq> JUndefined"
  by auto

end
