(* ===== verification/Money.thy ===== *)
theory Money
  imports JsValue
begin

text \<open>
  Exact money (\<open>src/src/economics/money.ts\<close>): a \<open>BigInt\<close> coefficient, a decimal scale, a currency
  and an economic basis.  \<open>money_value\<close> is the abstract value, the rational the amount denotes, and
  \<open>canonical_money\<close> the invariant of every amount the module hands out.  The locale
  \<open>exact_amount\<close> is the contract the ledger, the close and the allocation rely on when they add
  amounts up group by group; \<open>add_money\<close> provides it.
\<close>

section \<open>Data\<close>

datatype economic_basis =
  BList | BEstimated | BProviderObserved | BBilled | BEffective | BAllocated | BFullCost

definition economic_bases :: "economic_basis list" where
  "economic_bases = [BList, BEstimated, BProviderObserved, BBilled, BEffective, BAllocated, BFullCost]"

fun basis_name :: "economic_basis \<Rightarrow> string" where
  "basis_name BList = ''list''"
| "basis_name BEstimated = ''estimated''"
| "basis_name BProviderObserved = ''provider_observed''"
| "basis_name BBilled = ''billed''"
| "basis_name BEffective = ''effective''"
| "basis_name BAllocated = ''allocated''"
| "basis_name BFullCost = ''full_cost''"

definition assert_basis :: "string \<Rightarrow> economic_basis res" where
  "assert_basis b =
     (case List.find (\<lambda>x. basis_name x = b) economic_bases of
        Some x \<Rightarrow> Inr x | None \<Rightarrow> Inl ''unsupported economic basis'')"

record money =
  coefficient :: int
  scale :: nat
  currency :: string
  basis :: economic_basis

definition max_money_scale :: nat where "max_money_scale = 1000"
definition max_money_coefficient_digits :: nat where "max_money_coefficient_digits = 16384"

definition assert_currency :: "string \<Rightarrow> string res" where
  "assert_currency c =
     (if length c = 3 \<and> list_all (\<lambda>x. 65 \<le> (of_char x :: nat) \<and> (of_char x :: nat) \<le> 90) c then Inr c
      else Inl ''currency must be a three-letter uppercase code'')"

section \<open>Operations\<close>

definition pow10 :: "nat \<Rightarrow> int res" where
  "pow10 e = (if e > max_money_scale then Inl ''decimal scale must be between 0 and 1000'' else Inr (10 ^ e))"

definition assert_scale :: "int \<Rightarrow> nat res" where
  "assert_scale s = (if s < 0 \<or> s > int max_money_scale then Inl ''money scale must be between 0 and 1000''
                     else Inr (nat s))"

definition coefficient_digits :: "int \<Rightarrow> nat" where
  "coefficient_digits c = length (show_nat (nat \<bar>c\<bar>))"

definition assert_coefficient_size :: "int \<Rightarrow> unit res" where
  "assert_coefficient_size c =
     (if coefficient_digits c > max_money_coefficient_digits
      then Inl ''money coefficient exceeds the 16384-digit limit'' else Inr ())"

text \<open>The loop of \<open>normalize\<close>: trailing decimal zeros move out of the scale.\<close>

fun strip_zeros :: "int \<Rightarrow> nat \<Rightarrow> int \<times> nat" where
  "strip_zeros c 0 = (c, 0)"
| "strip_zeros c (Suc s) = (if c mod 10 = 0 then strip_zeros (c div 10) s else (c, Suc s))"

definition normalize :: "int \<Rightarrow> int \<Rightarrow> string \<Rightarrow> economic_basis \<Rightarrow> money res" where
  "normalize c s cur b =
     bindE (assert_scale s) (\<lambda>sc.
     bindE (assert_coefficient_size c) (\<lambda>_.
       let (c', s') = strip_zeros c (if c = 0 then 0 else sc)
       in Inr \<lparr>coefficient = c', scale = s', currency = cur, basis = b\<rparr>))"

text \<open>\<open>PLAIN_DECIMAL\<close>: the regular expression \<open>^-?(?:0|[1-9]\\d*)(?:\\.(\\d+))?$\<close>.\<close>

definition unsigned_part :: "string \<Rightarrow> string" where
  "unsigned_part s = (case s of [] \<Rightarrow> [] | c # cs \<Rightarrow> if c = CHR ''-'' then cs else s)"

definition whole_part :: "string \<Rightarrow> string" where
  "whole_part u = takeWhile (\<lambda>c. c \<noteq> CHR ''.'') u"

definition fraction_part :: "string \<Rightarrow> string" where
  "fraction_part u = tl (dropWhile (\<lambda>c. c \<noteq> CHR ''.'') u)"

definition plain_decimal :: "string \<Rightarrow> bool" where
  "plain_decimal s =
     (let u = unsigned_part s
      in canonical_nat_text (whole_part u)
         \<and> (CHR ''.'' \<in> set u \<longrightarrow> fraction_part u \<noteq> [])
         \<and> list_all is_digit (fraction_part u))"

definition money :: "string \<Rightarrow> string \<Rightarrow> string \<Rightarrow> money res" where
  "money amount cur b =
     (if \<not> plain_decimal amount then Inl ''money amount must be a plain decimal string''
      else
     bindE (assert_currency cur) (\<lambda>cur'.
     bindE (assert_basis b) (\<lambda>b'.
       let negative = (amount \<noteq> [] \<and> hd amount = CHR ''-'');
           u = unsigned_part amount;
           sc = length (fraction_part u);
           digits = whole_part u @ fraction_part u
       in bindE (assert_scale (int sc)) (\<lambda>_.
          if length digits > max_money_coefficient_digits
          then Inl ''money coefficient exceeds the 16384-digit limit''
          else normalize (if negative then - int (read_nat digits) else int (read_nat digits))
                 (int sc) cur' b'))))"

definition assert_compatible :: "money \<Rightarrow> money \<Rightarrow> unit res" where
  "assert_compatible a b =
     (if currency a \<noteq> currency b then Inl ''money currency mismatch''
      else if basis a \<noteq> basis b then Inl ''money economic basis mismatch''
      else Inr ())"

definition aligned_coefficients :: "money \<Rightarrow> money \<Rightarrow> (int \<times> int \<times> nat) res" where
  "aligned_coefficients a b =
     bindE (assert_compatible a b) (\<lambda>_.
       let sc = max (scale a) (scale b)
       in bindE (pow10 (sc - scale a)) (\<lambda>pa.
          bindE (pow10 (sc - scale b)) (\<lambda>pb.
            Inr (coefficient a * pa, coefficient b * pb, sc))))"

definition add_money :: "money \<Rightarrow> money \<Rightarrow> money res" where
  "add_money a b =
     bindE (aligned_coefficients a b) (\<lambda>(ac, bc, sc). normalize (ac + bc) (int sc) (currency a) (basis a))"

definition negate_money :: "money \<Rightarrow> money res" where
  "negate_money m = normalize (- coefficient m) (int (scale m)) (currency m) (basis m)"

definition subtract_money :: "money \<Rightarrow> money \<Rightarrow> money res" where
  "subtract_money a b = bindE (negate_money b) (add_money a)"

definition compare_money :: "money \<Rightarrow> money \<Rightarrow> int res" where
  "compare_money a b =
     bindE (aligned_coefficients a b) (\<lambda>(ac, bc, sc).
       Inr (if ac < bc then -1 else if ac > bc then 1 else 0))"

definition pad_start :: "nat \<Rightarrow> string \<Rightarrow> string" where
  "pad_start n s = replicate (n - length s) (CHR ''0'') @ s"

definition format_money_amount :: "money \<Rightarrow> string" where
  "format_money_amount m =
     (let sign = (if coefficient m < 0 then ''-'' else []);
          digits = show_nat (nat \<bar>coefficient m\<bar>)
      in if scale m = 0 then sign @ digits
         else let padded = pad_start (scale m + 1) digits; split = length padded - scale m
              in sign @ take split padded @ ''.'' @ drop split padded)"

definition money_to_json :: "money \<Rightarrow> jsval" where
  "money_to_json m =
     JObj [(''coefficient'', JStr (show_int (coefficient m))), (''scale'', JNum (of_nat (scale m))),
           (''currency'', JStr (currency m)), (''basis'', JStr (basis_name (basis m)))]"

definition money_keys :: "string list" where
  "money_keys = [''coefficient'', ''scale'', ''currency'', ''basis'']"

definition money_from_json :: "jsval \<Rightarrow> money res" where
  "money_from_json v =
     (if \<not> is_object v then Inl ''money JSON must be an object''
      else if \<not> list_all (\<lambda>k. k \<in> set money_keys) (keys_of v) then Inl ''money JSON contains unknown field''
      else if \<not> list_all (\<lambda>k. has_own k v) money_keys then Inl ''money JSON is missing field''
      else case field ''coefficient'' v of
        JStr ctext \<Rightarrow>
          (if \<not> canonical_int_text ctext then Inl ''money coefficient must be a canonical integer string''
           else if ctext = ''-0'' then Inl ''money coefficient must use canonical zero''
           else if length (unsigned_part ctext) > max_money_coefficient_digits
             then Inl ''money coefficient exceeds the 16384-digit limit''
           else case safe_integer (field ''scale'' v) of
             None \<Rightarrow> Inl ''money scale must be between 0 and 1000''
           | Some s \<Rightarrow>
             bindE (assert_scale s) (\<lambda>_.
             case field ''currency'' v of
               JStr cur \<Rightarrow> bindE (assert_currency cur) (\<lambda>cur'.
                 (case field ''basis'' v of
                    JStr b \<Rightarrow> bindE (assert_basis b) (\<lambda>b'.
                      bindE (normalize (read_int ctext) s cur' b') (\<lambda>parsed.
                        if show_int (coefficient parsed) \<noteq> ctext \<or> int (scale parsed) \<noteq> s
                        then Inl ''money JSON must use normalized coefficient and scale''
                        else Inr parsed))
                  | _ \<Rightarrow> Inl ''unsupported economic basis''))
             | _ \<Rightarrow> Inl ''currency must be a three-letter uppercase code''))
      | _ \<Rightarrow> Inl ''money coefficient must be a canonical integer string'')"

section \<open>The value of an amount and the canonical form\<close>

definition money_value :: "money \<Rightarrow> rat" where
  "money_value m = of_int (coefficient m) / 10 ^ scale m"

definition canonical_money :: "money \<Rightarrow> bool" where
  "canonical_money m =
     (scale m \<le> max_money_scale \<and> coefficient_digits (coefficient m) \<le> max_money_coefficient_digits
      \<and> (0 < scale m \<longrightarrow> coefficient m mod 10 \<noteq> 0) \<and> assert_currency (currency m) = Inr (currency m))"

definition money_ident :: "money \<Rightarrow> string \<times> economic_basis" where
  "money_ident m = (currency m, basis m)"

lemma money_ident_iff: "money_ident a = money_ident b \<longleftrightarrow> currency a = currency b \<and> basis a = basis b"
  by (simp add: money_ident_def)

lemma assert_basis_name [simp]: "assert_basis (basis_name b) = Inr b"
  by (cases b) (simp_all add: assert_basis_def economic_bases_def)

lemma assert_basis_Inr: "assert_basis s = Inr b \<Longrightarrow> s = basis_name b"
  by (auto simp: assert_basis_def find_Some_iff split: option.splits)

lemma assert_currency_Inr: "assert_currency c = Inr d \<Longrightarrow> d = c"
  by (auto simp: assert_currency_def split: if_splits)

lemma basis_name_inj [simp]: "basis_name a = basis_name b \<longleftrightarrow> a = b"
  by (metis Inr_inject assert_basis_name)

lemma strip_zeros_value: "strip_zeros c s = (c', s') \<Longrightarrow> c * 10 ^ s' = c' * 10 ^ s \<and> s' \<le> s"
proof (induction c s arbitrary: c' s' rule: strip_zeros.induct)
  case (1 c)
  then show ?case by simp
next
  case (2 c s)
  show ?case
  proof (cases "c mod 10 = 0")
    case True
    with "2.prems" have "strip_zeros (c div 10) s = (c', s')" by simp
    then have "c div 10 * 10 ^ s' = c' * 10 ^ s" "s' \<le> s" using "2.IH" [OF True] by auto
    moreover have "c = c div 10 * 10" using True mult_div_mod_eq [of 10 c] by linarith
    ultimately show ?thesis by (metis le_Suc_eq mult.assoc mult.commute power_Suc)
  next
    case False
    with "2.prems" show ?thesis by simp
  qed
qed

lemma strip_zeros_done: "strip_zeros c s = (c', s') \<Longrightarrow> 0 < s' \<Longrightarrow> c' mod 10 \<noteq> 0"
  by (induction c s arbitrary: c' s' rule: strip_zeros.induct) (auto split: if_splits)

lemma strip_zeros_fixed: "0 < s \<longrightarrow> c mod 10 \<noteq> 0 \<Longrightarrow> strip_zeros c s = (c, s)"
  by (cases s) auto

lemma strip_zeros_abs: "strip_zeros c s = (c', s') \<Longrightarrow> \<bar>c'\<bar> \<le> \<bar>c\<bar>"
proof (induction c s arbitrary: c' s' rule: strip_zeros.induct)
  case (1 c)
  then show ?case by simp
next
  case (2 c s)
  show ?case
  proof (cases "c mod 10 = 0")
    case True
    with 2 have "\<bar>c'\<bar> \<le> \<bar>c div 10\<bar>" by simp
    moreover have "\<bar>c div 10\<bar> \<le> \<bar>c\<bar>" using True by (auto elim: dvdE)
    ultimately show ?thesis by simp
  next
    case False
    with "2.prems" show ?thesis by simp
  qed
qed

lemma coefficient_digits_iff:
  "coefficient_digits c \<le> max_money_coefficient_digits \<longleftrightarrow> nat \<bar>c\<bar> < 10 ^ max_money_coefficient_digits"
  unfolding coefficient_digits_def by (rule length_show_nat_le) (simp add: max_money_coefficient_digits_def)

lemma coefficient_digits_mono:
  "\<bar>c\<bar> \<le> \<bar>d\<bar> \<Longrightarrow> coefficient_digits d \<le> max_money_coefficient_digits \<Longrightarrow>
   coefficient_digits c \<le> max_money_coefficient_digits"
  unfolding coefficient_digits_iff
  by (rule order_le_less_trans [where y = "nat \<bar>d\<bar>"]) (simp_all add: nat_mono)

lemma normalize_Inr:
  assumes "normalize c s cur b = Inr m"
  shows "0 \<le> s" "s \<le> int max_money_scale" "coefficient_digits c \<le> max_money_coefficient_digits"
    "money_value m = of_int c / 10 ^ nat s" "currency m = cur" "basis m = b"
    "assert_currency cur = Inr cur \<Longrightarrow> canonical_money m"
proof -
  from assms have s: "0 \<le> s" "s \<le> int max_money_scale"
    and d: "coefficient_digits c \<le> max_money_coefficient_digits"
    by (auto simp: normalize_def assert_scale_def assert_coefficient_size_def split: if_splits)
  obtain c' s' where strip: "strip_zeros c (if c = 0 then 0 else nat s) = (c', s')"
    by (cases "strip_zeros c (if c = 0 then 0 else nat s)") auto
  with assms have m: "m = \<lparr>coefficient = c', scale = s', currency = cur, basis = b\<rparr>"
    by (auto simp: normalize_def assert_scale_def assert_coefficient_size_def split: if_splits)
  show "0 \<le> s" "s \<le> int max_money_scale" "coefficient_digits c \<le> max_money_coefficient_digits"
    "currency m = cur" "basis m = b"
    using s d m by simp_all
  have eq: "c * 10 ^ s' = c' * 10 ^ (if c = 0 then 0 else nat s)" and le: "s' \<le> nat s"
    using strip_zeros_value [OF strip] by (auto split: if_splits)
  show "money_value m = of_int c / 10 ^ nat s"
  proof (cases "c = 0")
    case True
    then show ?thesis using strip m by (simp add: money_value_def)
  next
    case False
    then have "of_int (c * 10 ^ s') = (of_int (c' * 10 ^ nat s) :: rat)" using eq by simp
    then show ?thesis using m by (simp add: money_value_def field_simps)
  qed
  assume "assert_currency cur = Inr cur"
  then show "canonical_money m"
    using m s le d strip_zeros_done [OF strip]
      coefficient_digits_mono [OF strip_zeros_abs [OF strip] d]
    by (auto simp: canonical_money_def)
qed

lemma normalize_Inl:
  assumes "normalize c (int s) cur b = Inl e" "s \<le> max_money_scale"
  shows "10 ^ max_money_coefficient_digits \<le> \<bar>c\<bar>"
proof -
  have "max_money_coefficient_digits < coefficient_digits c"
    using assms by (auto simp: normalize_def assert_scale_def assert_coefficient_size_def split: if_splits prod.splits)
  then have "\<not> nat \<bar>c\<bar> < 10 ^ max_money_coefficient_digits"
    using coefficient_digits_iff [of c] by linarith
  then have "int (10 ^ max_money_coefficient_digits) \<le> int (nat \<bar>c\<bar>)"
    by (simp only: not_less of_nat_le_iff)
  then show ?thesis by simp
qed

lemma normalize_canonical:
  assumes "canonical_money m"
  shows "normalize (coefficient m) (int (scale m)) (currency m) (basis m) = Inr m"
proof -
  have "coefficient m = 0 \<Longrightarrow> scale m = 0" using assms by (auto simp: canonical_money_def)
  then have "strip_zeros (coefficient m) (if coefficient m = 0 then 0 else scale m) = (coefficient m, scale m)"
    using assms by (auto simp: canonical_money_def strip_zeros_fixed)
  then show ?thesis using assms
    by (simp add: normalize_def assert_scale_def assert_coefficient_size_def canonical_money_def)
qed

section \<open>Arithmetic is exact\<close>

lemma aligned_Inr:
  assumes "aligned_coefficients a b = Inr (ac, bc, sc)"
  shows "money_ident a = money_ident b" "sc = max (scale a) (scale b)"
    "of_int ac = money_value a * 10 ^ sc" "of_int bc = money_value b * 10 ^ sc"
proof -
  from assms have *: "currency a = currency b" "basis a = basis b" "sc = max (scale a) (scale b)"
    "ac = coefficient a * 10 ^ (sc - scale a)" "bc = coefficient b * 10 ^ (sc - scale b)"
    by (auto simp: aligned_coefficients_def assert_compatible_def pow10_def Let_def split: if_splits)
  then show "money_ident a = money_ident b" "sc = max (scale a) (scale b)"
    by (simp_all add: money_ident_def)
  have p: "(10::rat) ^ (sc - k) = 10 ^ sc / 10 ^ k" if "k \<le> sc" for k
    using that by (simp add: power_diff)
  have "of_int ac = (of_int (coefficient a) * 10 ^ (sc - scale a) :: rat)"
    "of_int bc = (of_int (coefficient b) * 10 ^ (sc - scale b) :: rat)" unfolding * by simp_all
  moreover have "scale a \<le> sc" "scale b \<le> sc" using *(3) by simp_all
  ultimately show "of_int ac = money_value a * 10 ^ sc" "of_int bc = money_value b * 10 ^ sc"
    by (simp_all add: money_value_def p)
qed

lemma aligned_defined:
  assumes "money_ident a = money_ident b" "scale a \<le> max_money_scale" "scale b \<le> max_money_scale"
  shows "\<exists>ac bc. aligned_coefficients a b = Inr (ac, bc, max (scale a) (scale b))"
  using assms
  by (auto simp: aligned_coefficients_def assert_compatible_def pow10_def money_ident_def Let_def max_def)

lemma add_money_Inr:
  assumes "add_money a b = Inr c"
  shows "money_value c = money_value a + money_value b"
    "money_ident c = money_ident a" "money_ident b = money_ident a"
    "assert_currency (currency a) = Inr (currency a) \<Longrightarrow> canonical_money c"
proof -
  from assms obtain ac bc sc where al: "aligned_coefficients a b = Inr (ac, bc, sc)"
    and n: "normalize (ac + bc) (int sc) (currency a) (basis a) = Inr c"
    by (auto simp: add_money_def)
  note n' = normalize_Inr [OF n] and al' = aligned_Inr [OF al]
  have "money_value c = of_int (ac + bc) / 10 ^ sc" using n'(4) by simp
  also have "\<dots> = (of_int ac + of_int bc) / 10 ^ sc" by simp
  also have "\<dots> = money_value a + money_value b"
    unfolding al'(3,4) by (simp add: add_divide_distrib)
  finally show "money_value c = money_value a + money_value b" .
  show "money_ident c = money_ident a" using n' by (simp add: money_ident_def)
  show "money_ident b = money_ident a" using al'(1) by simp
  show "assert_currency (currency a) = Inr (currency a) \<Longrightarrow> canonical_money c" using n'(7) .
qed

lemma add_money_refused:
  assumes "add_money a b = Inl e" "canonical_money a" "canonical_money b"
  shows "money_ident a \<noteq> money_ident b
    \<or> 10 ^ max_money_coefficient_digits \<le> \<bar>(money_value a + money_value b) * 10 ^ max (scale a) (scale b)\<bar>"
proof (cases "money_ident a = money_ident b")
  case True
  obtain ac bc where al: "aligned_coefficients a b = Inr (ac, bc, max (scale a) (scale b))"
    using aligned_defined [OF True] assms(2,3) by (auto simp only: canonical_money_def)
  note rejected = normalize_Inl [OF assms(1) [unfolded add_money_def al bindE_simps prod.case]]
  have "10 ^ max_money_coefficient_digits \<le> \<bar>ac + bc\<bar>"
    using rejected assms(2,3) by (simp add: canonical_money_def)
  then have "(10 :: rat) ^ max_money_coefficient_digits \<le> of_int \<bar>ac + bc\<bar>"
    by (metis of_int_le_iff of_int_numeral of_int_power)
  moreover have "of_int (ac + bc) = (money_value a + money_value b) * 10 ^ max (scale a) (scale b)"
    using aligned_Inr(3,4) [OF al] by (simp add: algebra_simps)
  ultimately show ?thesis by simp
qed simp

lemma negate_money_Inr:
  assumes "negate_money a = Inr c"
  shows "money_value c = - money_value a" "money_ident c = money_ident a"
    "assert_currency (currency a) = Inr (currency a) \<Longrightarrow> canonical_money c"
  using normalize_Inr [OF assms [unfolded negate_money_def]]
  by (simp_all add: money_value_def money_ident_def)

lemma subtract_money_Inr:
  assumes "subtract_money a b = Inr c"
  shows "money_value c = money_value a - money_value b" "money_ident c = money_ident a"
    "money_ident b = money_ident a"
proof -
  from assms obtain x where x: "negate_money b = Inr x" "add_money a x = Inr c"
    by (auto simp: subtract_money_def)
  show "money_value c = money_value a - money_value b" "money_ident c = money_ident a"
    "money_ident b = money_ident a"
    using negate_money_Inr(1,2) [OF x(1)] add_money_Inr(1-3) [OF x(2)] by simp_all
qed

lemma compare_money_Inr:
  assumes "compare_money a b = Inr k"
  shows "money_ident a = money_ident b"
    "k = (if money_value a < money_value b then -1 else if money_value a > money_value b then 1 else 0)"
proof -
  from assms obtain ac bc sc where al: "aligned_coefficients a b = Inr (ac, bc, sc)"
    and k: "k = (if ac < bc then -1 else if ac > bc then 1 else 0)"
    by (auto simp: compare_money_def)
  have p: "(0::rat) < 10 ^ sc" by simp
  have "ac < bc \<longleftrightarrow> money_value a * 10 ^ sc < money_value b * 10 ^ sc"
    "bc < ac \<longleftrightarrow> money_value b * 10 ^ sc < money_value a * 10 ^ sc"
    using aligned_Inr(3,4) [OF al] by (metis of_int_less_iff)+
  then show "k = (if money_value a < money_value b then -1 else if money_value a > money_value b then 1 else 0)"
    using k p by simp
  show "money_ident a = money_ident b" by (rule aligned_Inr(1) [OF al])
qed

lemma compare_money_zero:
  "compare_money a b = Inr 0 \<Longrightarrow> money_value a = money_value b"
  using compare_money_Inr(2) [of a b 0] by (auto split: if_splits)

lemma compare_money_pos:
  "compare_money a b = Inr k \<Longrightarrow> 0 < k \<longleftrightarrow> money_value b < money_value a"
  using compare_money_Inr(2) [of a b k] by (auto split: if_splits)

lemma compare_money_total:
  assumes "money_ident a = money_ident b" "canonical_money a" "canonical_money b"
  shows "compare_money a b = Inr (if money_value a < money_value b then -1
           else if money_value a > money_value b then 1 else 0)"
proof -
  obtain ac bc where "aligned_coefficients a b = Inr (ac, bc, max (scale a) (scale b))"
    using aligned_defined [OF assms(1)] assms(2,3) by (auto simp only: canonical_money_def)
  then have "\<exists>k. compare_money a b = Inr k" by (simp add: compare_money_def)
  then show ?thesis using compare_money_Inr(2) by blast
qed

lemma money_value_nonneg: "0 \<le> money_value m \<longleftrightarrow> 0 \<le> coefficient m"
  unfolding money_value_def
  using pos_le_divide_eq [of "10 ^ scale m :: rat" 0 "of_int (coefficient m)"] by simp

lemma money_value_neg: "money_value m < 0 \<longleftrightarrow> coefficient m < 0"
  using money_value_nonneg [of m] by (simp add: not_le [symmetric])

text \<open>Two canonical amounts of one identity with the same value are the same record: an amount has
  exactly one representation, so equality of canonical JSON is equality of money.\<close>

lemma canonical_money_unique:
  assumes "canonical_money a" "canonical_money b" "money_ident a = money_ident b"
    and val: "money_value a = money_value b"
  shows "a = b"
proof -
  have same: "scale x = scale y"
    if c: "canonical_money x" "canonical_money y" "money_value x = money_value y" "scale x \<le> scale y"
    for x y :: "money"
  proof (rule ccontr)
    assume "scale x \<noteq> scale y"
    then obtain k where k: "scale y = scale x + Suc k"
      using \<open>scale x \<le> scale y\<close> by (metis le_Suc_ex add_Suc_right le_neq_implies_less less_imp_Suc_add)
    have "of_int (coefficient y) = (of_int (coefficient x * 10 ^ Suc k) :: rat)"
      using c(3) k by (simp add: money_value_def field_simps power_add)
    then have "coefficient y = coefficient x * 10 ^ Suc k" by (simp only: of_int_eq_iff)
    then have "coefficient y mod 10 = 0" by simp
    then show False using c(2) k by (simp add: canonical_money_def)
  qed
  have s: "scale a = scale b"
    using same [of a b] same [of b a] assms by (cases "scale a \<le> scale b") auto
  then have "coefficient a = coefficient b" using val by (simp add: money_value_def)
  then show ?thesis using s assms(3) by (cases a; cases b) (simp add: money_ident_def)
qed

lemma money_zero:
  assumes "assert_currency cur = Inr cur"
  shows "money ''0'' cur (basis_name b) = Inr \<lparr>coefficient = 0, scale = 0, currency = cur, basis = b\<rparr>"
  using assms
  by (simp add: money_def plain_decimal_def unsigned_part_def whole_part_def fraction_part_def
      canonical_nat_text_def assert_scale_def max_money_scale_def max_money_coefficient_digits_def
      normalize_def assert_coefficient_size_def coefficient_digits_def read_nat_Cons show_nat.simps)

section \<open>Interface: adding exact amounts\<close>

text \<open>
  What the projections rely on: an addition that returns has returned the exact sum, within one
  identity.  Everything that folds amounts together is proved once here.
\<close>

locale exact_amount =
  fixes add :: "'m \<Rightarrow> 'm \<Rightarrow> 'm res"
    and val :: "'m \<Rightarrow> rat"
    and ident :: "'m \<Rightarrow> 'i"
  assumes add_val: "add a b = Inr c \<Longrightarrow> val c = val a + val b"
    and add_ident: "add a b = Inr c \<Longrightarrow> ident c = ident a \<and> ident b = ident a"
begin

lemma fold_add_val: "foldE add a xs = Inr c \<Longrightarrow> val c = val a + sum_list (map val xs)"
  by (induction xs arbitrary: a) (auto dest!: add_val)

lemma fold_add_ident:
  "foldE add a xs = Inr c \<Longrightarrow> ident c = ident a \<and> (\<forall>x \<in> set xs. ident x = ident a)"
  by (induction xs arbitrary: a) (auto dest!: add_ident)

end

interpretation exact_money: exact_amount add_money money_value money_ident
  by unfold_locales (simp_all add: add_money_Inr)

section \<open>Round trips through JSON and decimal text\<close>

lemma is_digit_not_minus: "is_digit c \<Longrightarrow> c \<noteq> CHR ''-'' \<and> c \<noteq> CHR ''.''"
  by auto

lemma digits_no_dot: "list_all is_digit s \<Longrightarrow> CHR ''.'' \<notin> set s"
  by (auto simp: list_all_iff)

lemma unsigned_show_int: "unsigned_part (show_int c) = show_nat (nat \<bar>c\<bar>)"
proof (cases "c < 0")
  case True
  then show ?thesis by (simp add: unsigned_part_def show_int_def)
next
  case False
  then show ?thesis by (auto simp: unsigned_part_def show_int_def split: list.splits dest: show_nat_Cons)
qed

lemma show_int_not_negative_zero: "show_int c \<noteq> ''-0''"
proof
  assume *: "show_int c = ''-0''"
  then have "read_int ''-0'' = c" by (metis read_show_int)
  then have "c = 0" by (simp add: read_int_def read_nat_Cons)
  with * show False by (simp add: show_int_def show_nat.simps)
qed

lemma money_json_roundtrip:
  assumes "canonical_money m"
  shows "money_from_json (money_to_json m) = Inr m"
proof -
  have sc: "safe_integer (JNum (rat_of_nat (scale m))) = Some (int (scale m))"
    using assms safe_integer_of_int [of "int (scale m)"]
    by (simp add: canonical_money_def max_money_scale_def safe_int_def max_safe_def)
  have digits: "length (show_nat (nat \<bar>coefficient m\<bar>)) \<le> max_money_coefficient_digits"
    using assms by (simp add: canonical_money_def coefficient_digits_def)
  have scale: "assert_scale (int (scale m)) = Inr (scale m)"
    using assms by (simp add: canonical_money_def assert_scale_def)
  show ?thesis
    using assms digits
    by (simp add: money_from_json_def money_to_json_def money_keys_def has_own_def sc scale
        unsigned_show_int show_int_not_negative_zero normalize_canonical canonical_money_def
        del: safe_integer.simps)
qed

lemma money_from_json_Inr:
  assumes "money_from_json v = Inr m"
  shows "canonical_money m" "field ''coefficient'' v = JStr (show_int (coefficient m))"
    "field ''currency'' v = JStr (currency m)" "field ''basis'' v = JStr (basis_name (basis m))"
    "field ''scale'' v = JNum (of_nat (scale m))"
proof -
  from assms obtain ctext s cur b where
    c: "field ''coefficient'' v = JStr ctext" and s: "safe_integer (field ''scale'' v) = Some s"
    and cur: "field ''currency'' v = JStr cur" "assert_currency cur = Inr cur"
    and b: "field ''basis'' v = JStr (basis_name b)"
    and n: "normalize (read_int ctext) s cur b = Inr m"
    and eq: "show_int (coefficient m) = ctext" "int (scale m) = s"
    by (auto simp: money_from_json_def split: if_splits jsval.splits option.splits)
      (metis assert_currency_Inr assert_basis_Inr read_show_int)
  note n' = normalize_Inr [OF n]
  show "canonical_money m" using n'(7) cur(2) .
  show "field ''coefficient'' v = JStr (show_int (coefficient m))" using c eq by simp
  show "field ''currency'' v = JStr (currency m)" "field ''basis'' v = JStr (basis_name (basis m))"
    using cur b n' by simp_all
  show "field ''scale'' v = JNum (of_nat (scale m))"
    using safe_integer_Some [OF s] eq(2) by auto
qed

lemma plain_decimal_parts:
  assumes w: "canonical_nat_text w" and f: "list_all is_digit f"
    and u: "u = (if f = [] then w else w @ ''.'' @ f)"
    and s: "s = (if neg then CHR ''-'' # u else u)"
  shows "unsigned_part s = u" "whole_part u = w" "fraction_part u = f" "plain_decimal s"
    "s \<noteq> [] \<and> hd s = CHR ''-'' \<longleftrightarrow> neg"
proof -
  have wd: "list_all is_digit w" "w \<noteq> []" using w by (simp_all add: canonical_nat_text_def)
  then have nodot: "CHR ''.'' \<notin> set w" by (simp add: digits_no_dot)
  then have tw: "takeWhile (\<lambda>c. c \<noteq> CHR ''.'') w = w" "dropWhile (\<lambda>c. c \<noteq> CHR ''.'') w = []"
    by (auto simp: takeWhile_eq_all_conv dropWhile_eq_Nil_conv)
  have "takeWhile (\<lambda>c. c \<noteq> CHR ''.'') (w @ x) = w @ takeWhile (\<lambda>c. c \<noteq> CHR ''.'') x"
    "dropWhile (\<lambda>c. c \<noteq> CHR ''.'') (w @ x) = dropWhile (\<lambda>c. c \<noteq> CHR ''.'') x" for x
    using nodot by (auto simp: takeWhile_append2 dropWhile_append2 intro!: takeWhile_append2 dropWhile_append2)
  then show whole: "whole_part u = w" and frac: "fraction_part u = f"
    using u tw by (simp_all add: whole_part_def fraction_part_def del: dropWhile_eq_Nil_conv)
  obtain c cs where wc: "w = c # cs" "c \<noteq> CHR ''-''"
    using wd is_digit_not_minus by (cases w) auto
  then show uns: "unsigned_part s = u" and "s \<noteq> [] \<and> hd s = CHR ''-'' \<longleftrightarrow> neg"
    using s u by (auto simp: unsigned_part_def)
  show "plain_decimal s"
    unfolding plain_decimal_def Let_def uns whole frac using w f u nodot by auto
qed

text \<open>A decimal text is cut out of the zero-padded digits of the absolute coefficient.\<close>

lemma padded_parts:
  fixes n sc :: nat
  defines "p \<equiv> pad_start (sc + 1) (show_nat n)"
  defines "k \<equiv> length p - sc"
  shows "canonical_nat_text (take k p)" "list_all is_digit (drop k p)" "length (drop k p) = sc"
    "read_nat p = n" "length p = max (sc + 1) (length (show_nat n))"
    "sc = 0 \<Longrightarrow> p = show_nat n"
proof -
  let ?d = "show_nat n"
  have dig: "list_all is_digit p"
    using show_nat_digits [of n] by (auto simp: p_def pad_start_def list_all_iff simp del: show_nat_digits)
  then have dig': "list_all is_digit (take k p)" "list_all is_digit (drop k p)"
    by (auto simp: list_all_iff dest: in_set_takeD in_set_dropD)
  show len: "length p = max (sc + 1) (length ?d)" by (simp add: p_def pad_start_def)
  show "list_all is_digit (drop k p)" by (rule dig')
  show "length (drop k p) = sc" using len by (simp add: k_def)
  show "read_nat p = n" by (simp add: p_def pad_start_def)
  show "sc = 0 \<Longrightarrow> p = ?d" by (cases ?d) (simp_all add: p_def pad_start_def)
  have "k > 0" using len by (simp add: k_def)
  have "hd (take k p) = CHR ''0'' \<longrightarrow> length (take k p) = 1"
  proof (cases "length ?d \<le> sc")
    case True
    then show ?thesis using len by (simp add: k_def)
  next
    case False
    then have p: "p = ?d" by (simp add: p_def pad_start_def)
    show ?thesis
    proof (cases "n = 0")
      case True
      then have "length ?d = 1" by (simp add: show_nat.simps)
      then show ?thesis using p \<open>k > 0\<close> by (simp add: k_def)
    next
      case False
      then show ?thesis using p \<open>k > 0\<close> by (simp add: hd_take hd_show_nat)
    qed
  qed
  moreover have "take k p \<noteq> []" using \<open>k > 0\<close> len by auto
  ultimately show "canonical_nat_text (take k p)" using dig' by (simp add: canonical_nat_text_def)
qed

definition decimal_text :: "bool \<Rightarrow> nat \<Rightarrow> nat \<Rightarrow> string" where
  "decimal_text neg n sc =
     (let p = pad_start (sc + 1) (show_nat n); k = length p - sc;
          u = (if drop k p = [] then take k p else take k p @ ''.'' @ drop k p)
      in if neg then CHR ''-'' # u else u)"

lemma money_decimal_text:
  "money (decimal_text neg n sc) cur b =
     bindE (assert_currency cur) (\<lambda>cur'. bindE (assert_basis b) (\<lambda>b'. bindE (assert_scale (int sc)) (\<lambda>_.
       if max (sc + 1) (length (show_nat n)) > max_money_coefficient_digits
       then Inl ''money coefficient exceeds the 16384-digit limit''
       else normalize (if neg then - int n else int n) (int sc) cur' b')))"
proof -
  define p where "p = pad_start (sc + 1) (show_nat n)"
  define k where "k = length p - sc"
  note f = padded_parts [of sc n, folded p_def, folded k_def]
  define u where "u = (if drop k p = [] then take k p else take k p @ ''.'' @ drop k p)"
  have fm: "decimal_text neg n sc = (if neg then CHR ''-'' # u else u)"
    by (simp add: decimal_text_def Let_def u_def p_def k_def)
  note parts = plain_decimal_parts [OF f(1,2) u_def fm]
  have "length (take k p) + length (drop k p) = max (sc + 1) (length (show_nat n))"
    using f(5) by (metis append_take_drop_id length_append)
  moreover have "read_nat (take k p @ drop k p) = n" using f(4) by simp
  ultimately show ?thesis
    unfolding money_def Let_def parts(1-3) length_append f(3)
    using parts(4,5) by (auto simp: bindE_def split: sum.splits)
qed

lemma decimal_text_split:
  "decimal_text neg n sc =
     (if sc = 0 then (if neg then ''-'' else []) @ show_nat n
      else let p = pad_start (sc + 1) (show_nat n); k = length p - sc
           in (if neg then ''-'' else []) @ take k p @ ''.'' @ drop k p)"
proof -
  define p where "p = pad_start (sc + 1) (show_nat n)"
  have "drop (length p - sc) p = [] \<longleftrightarrow> sc = 0"
    using padded_parts(3) [of sc n, folded p_def] by (metis length_0_conv)
  moreover have "sc = 0 \<Longrightarrow> p = show_nat n"
    using padded_parts(6) [of sc n] by (simp add: p_def)
  ultimately show ?thesis
    unfolding decimal_text_def Let_def p_def [symmetric]
    by (cases "sc = 0") (simp_all del: drop_eq_Nil)
qed

lemma format_is_decimal_text:
  "format_money_amount m = decimal_text (coefficient m < 0) (nat \<bar>coefficient m\<bar>) (scale m)"
  unfolding format_money_amount_def decimal_text_split Let_def by (rule refl)

lemma money_format_roundtrip:
  assumes "canonical_money m"
  shows "money (format_money_amount m) (currency m) (basis_name (basis m)) = Inr m"
proof -
  have n: "(if coefficient m < 0 then - int (nat \<bar>coefficient m\<bar>) else int (nat \<bar>coefficient m\<bar>)) = coefficient m"
    by simp
  have "assert_currency (currency m) = Inr (currency m)" "assert_scale (int (scale m)) = Inr (scale m)"
    and len: "\<not> max_money_coefficient_digits < max (scale m + 1) (length (show_nat (nat \<bar>coefficient m\<bar>)))"
    using assms
    by (simp_all add: canonical_money_def assert_scale_def coefficient_digits_def not_less
        max_money_scale_def max_money_coefficient_digits_def)
  then show ?thesis
    unfolding format_is_decimal_text money_decimal_text n if_not_P [OF len]
    using normalize_canonical [OF assms] by simp
qed

lemma money_Inr:
  assumes "money a cur b = Inr m"
  shows "canonical_money m" "currency m = cur" "basis_name (basis m) = b"
proof -
  from assms obtain b' c s where "assert_currency cur = Inr cur" "assert_basis b = Inr b'"
    and n: "normalize c s cur b' = Inr m"
    unfolding money_def Let_def by (auto split: if_splits) (metis assert_currency_Inr)+
  then show "canonical_money m" "currency m = cur" "basis_name (basis m) = b"
    using normalize_Inr [OF n] assert_basis_Inr [of b b'] by simp_all
qed

section \<open>Properties\<close>

text \<open>C1: Addition is exact or refused.  For canonical amounts \<open>addMoney\<close> returns the canonical
  amount of the exact sum, of the common currency and basis; it throws only when the currencies or
  bases differ, or when the sum written at the larger scale needs more than 16384 digits.\<close>

theorem add_money_exact:
  assumes "canonical_money a" "canonical_money b"
  shows "case add_money a b of
      Inr c \<Rightarrow> canonical_money c \<and> money_value c = money_value a + money_value b
        \<and> money_ident c = money_ident a \<and> money_ident b = money_ident a
    | Inl e \<Rightarrow> money_ident a \<noteq> money_ident b
        \<or> 10 ^ max_money_coefficient_digits
            \<le> \<bar>(money_value a + money_value b) * 10 ^ max (scale a) (scale b)\<bar>"
proof (cases "add_money a b")
  case (Inr c)
  then show ?thesis using add_money_Inr [OF Inr] assms(1) by (simp add: canonical_money_def)
next
  case (Inl e)
  then show ?thesis using add_money_refused [OF Inl assms] by simp
qed

definition dollars :: "int \<Rightarrow> nat \<Rightarrow> money" where
  "dollars c s = \<lparr>coefficient = c, scale = s, currency = ''USD'', basis = BBilled\<rparr>"

lemma canonical_dollars: "canonical_money (dollars 15 1)" "canonical_money (dollars 505 2)"
  "canonical_money (dollars (-5) 3)"
  by (simp_all add: dollars_def canonical_money_def coefficient_digits_def show_nat.simps
      max_money_scale_def max_money_coefficient_digits_def assert_currency_def)

theorem add_money_exact_witness:
  "money_value (dollars 15 1) + money_value (dollars 505 2) = 655 / 100 \<and>
   (case add_money (dollars 15 1) (dollars 505 2) of
      Inr c \<Rightarrow> money_value c = 655 / 100 | Inl e \<Rightarrow> 10 ^ max_money_coefficient_digits \<le> (655 :: rat))"
  using add_money_exact [OF canonical_dollars(1,2)]
  by (cases "add_money (dollars 15 1) (dollars 505 2)") (simp_all add: dollars_def money_value_def money_ident_def)

text \<open>\<open>compareMoney\<close> on canonical amounts orders them by exact value whatever their scales, and
  refuses exactly the pairs of different currency or basis; it answers 0 only for the very same
  amount, because an amount has one canonical form.\<close>

theorem compare_money_decides:
  assumes "canonical_money a" "canonical_money b"
  shows "case compare_money a b of
      Inr k \<Rightarrow> money_ident a = money_ident b \<and> (k = -1 \<longleftrightarrow> money_value a < money_value b)
        \<and> (k = 1 \<longleftrightarrow> money_value b < money_value a) \<and> (k = 0 \<longleftrightarrow> a = b)
    | Inl e \<Rightarrow> money_ident a \<noteq> money_ident b"
proof (cases "money_ident a = money_ident b")
  case True
  show ?thesis
    using canonical_money_unique [OF assms True] True
    unfolding compare_money_total [OF True assms] by auto
next
  case False
  then show ?thesis using compare_money_Inr(1) [of a b] by (cases "compare_money a b") auto
qed

theorem compare_money_decides_witness:
  "case compare_money (dollars 15 1) (dollars 505 2) of Inr k \<Rightarrow> k = -1 | Inl e \<Rightarrow> False"
  using compare_money_decides [OF canonical_dollars(1,2)]
  by (cases "compare_money (dollars 15 1) (dollars 505 2)") (simp_all add: dollars_def money_value_def money_ident_def)

text \<open>C2: Every canonical amount survives both its interchange forms, the JSON object and the decimal
  text with its currency and basis, and whatever either parser accepts is canonical.\<close>

theorem money_interchange:
  "(canonical_money m \<longrightarrow> money_from_json (money_to_json m) = Inr m
      \<and> money (format_money_amount m) (currency m) (basis_name (basis m)) = Inr m)
   \<and> (money_from_json v = Inr m \<longrightarrow> canonical_money m \<and> field ''basis'' v = JStr (basis_name (basis m)))
   \<and> (money amount cur b = Inr m \<longrightarrow> canonical_money m \<and> currency m = cur \<and> basis_name (basis m) = b)"
  using money_json_roundtrip money_format_roundtrip money_from_json_Inr(1,4) money_Inr by blast

theorem money_interchange_witness:
  "money_from_json (money_to_json (dollars (-5) 3)) = Inr (dollars (-5) 3) \<and>
   money ''-0.005'' ''USD'' ''billed'' = Inr (dollars (-5) 3)"
proof -
  have "format_money_amount (dollars (-5) 3) = ''-0.005''"
    by (simp add: format_money_amount_def dollars_def show_nat.simps pad_start_def digit_char_def numeral_3_eq_3)
      code_simp
  then show ?thesis using money_interchange [of "dollars (-5) 3"] canonical_dollars(3)
    by (simp add: dollars_def)
qed

end
