(* ===== verification/EpiTime.thy ===== *)
theory EpiTime
  imports JsValue
begin

text \<open>
  Instants and half-open intervals (\<open>src/src/epistemic/time.ts\<close>).

  An \<open>Instant\<close> is a string that \<open>Date.parse\<close> reads and \<open>toISOString\<close> writes back unchanged, so it
  stands for exactly one number of milliseconds; the model keeps that number.  \<open>to_iso\<close> and the
  calendar below it follow the ECMAScript definitions of \<open>DayFromYear\<close>, \<open>YearFromTime\<close>,
  \<open>MonthFromTime\<close> and \<open>Date.prototype.toISOString\<close>; \<open>parse_iso\<close> reads the fixed-width fields of
  that format.  \<open>instant\<close> is the source's check: anything whose canonical form is not the input
  itself is refused.
\<close>

type_synonym instant_ms = int

section \<open>The calendar\<close>

definition day_from_year :: "int \<Rightarrow> int" where
  "day_from_year y = 365 * (y - 1970) + (y - 1969) div 4 - (y - 1901) div 100 + (y - 1601) div 400"

definition leap :: "int \<Rightarrow> bool" where
  "leap y = (y mod 4 = 0 \<and> (y mod 100 \<noteq> 0 \<or> y mod 400 = 0))"

definition year_from_day :: "int \<Rightarrow> int" where
  "year_from_day d =
     (let e = 1970 + (400 * d) div 146097
      in if day_from_year (e + 1) \<le> d then e + 1 else if day_from_year e \<le> d then e else e - 1)"

text \<open>Days before the first of month \<open>m\<close> (0 = January), and the month of day \<open>n\<close> of the year.\<close>

definition month_start :: "bool \<Rightarrow> nat \<Rightarrow> nat" where
  "month_start l m =
     (if m = 0 then 0 else if m = 1 then 31
      else [0, 31, 59, 90, 120, 151, 181, 212, 243, 273, 304, 334] ! m + (if l then 1 else 0))"

definition month_from :: "bool \<Rightarrow> nat \<Rightarrow> nat" where
  "month_from l n =
     (if n < month_start l 1 then 0 else if n < month_start l 2 then 1
      else if n < month_start l 3 then 2 else if n < month_start l 4 then 3
      else if n < month_start l 5 then 4 else if n < month_start l 6 then 5
      else if n < month_start l 7 then 6 else if n < month_start l 8 then 7
      else if n < month_start l 9 then 8 else if n < month_start l 10 then 9
      else if n < month_start l 11 then 10 else 11)"

definition pad :: "nat \<Rightarrow> nat \<Rightarrow> string" where
  "pad k n = replicate (k - length (show_nat n)) (CHR ''0'') @ show_nat n"

definition year_text :: "int \<Rightarrow> string" where
  "year_text y =
     (if 0 \<le> y \<and> y \<le> 9999 then pad 4 (nat y)
      else (if y < 0 then CHR ''-'' else CHR ''+'') # pad 6 (nat \<bar>y\<bar>))"

definition to_iso :: "instant_ms \<Rightarrow> string" where
  "to_iso ms =
     (let day = ms div 86400000; t = nat (ms mod 86400000);
          y = year_from_day day; n = nat (day - day_from_year y);
          m = month_from (leap y) n; dt = n - month_start (leap y) m + 1
      in year_text y @ ''-'' @ pad 2 (m + 1) @ ''-'' @ pad 2 dt @ ''T'' @ pad 2 (t div 3600000)
         @ '':'' @ pad 2 (t div 60000 mod 60) @ '':'' @ pad 2 (t div 1000 mod 60)
         @ ''.'' @ pad 3 (t mod 1000) @ ''Z'')"

definition parse_year :: "string \<Rightarrow> int \<times> string" where
  "parse_year s =
     (if s \<noteq> [] \<and> (hd s = CHR ''-'' \<or> hd s = CHR ''+'')
      then ((if hd s = CHR ''-'' then - 1 else 1) * int (read_nat (take 6 (drop 1 s))), drop 7 s)
      else (int (read_nat (take 4 s)), drop 4 s))"

definition parse_fields :: "int \<Rightarrow> string \<Rightarrow> instant_ms" where
  "parse_fields y r =
     (day_from_year y + int (month_start (leap y) (read_nat (take 2 (drop 1 r)) - 1))
        + int (read_nat (take 2 (drop 4 r))) - 1) * 86400000
     + int (read_nat (take 2 (drop 7 r))) * 3600000 + int (read_nat (take 2 (drop 10 r))) * 60000
     + int (read_nat (take 2 (drop 13 r))) * 1000 + int (read_nat (take 3 (drop 16 r)))"

definition parse_iso :: "string \<Rightarrow> instant_ms" where
  "parse_iso s = (case parse_year s of (y, r) \<Rightarrow> parse_fields y r)"

definition max_time :: int where
  "max_time = 8640000000000000"

definition instant :: "string \<Rightarrow> instant_ms res" where
  "instant v =
     (let ms = parse_iso v
      in if \<bar>ms\<bar> \<le> max_time \<and> to_iso ms = v then Inr ms
         else Inl ''timestamp must be canonical UTC ISO-8601'')"

fun instant_val :: "string \<Rightarrow> jsval \<Rightarrow> instant_ms res" where
  "instant_val label (JStr s) = instant s"
| "instant_val label _ = Inl (label @ '' must be canonical UTC ISO-8601'')"

section \<open>Reading back what is written\<close>

lemma div_bounds:
  fixes z k :: int
  assumes "0 < k"
  shows "k * (z div k) \<le> z" "z < k * (z div k) + k"
  using mult_div_mod_eq [of k z] pos_mod_bound [OF assms, of z] pos_mod_sign [OF assms, of z]
  by linarith+

lemma day_from_year_bounds:
  "146097 * (y - 1970) - 600 \<le> day_from_year y * 400"
  "day_from_year y * 400 \<le> 146097 * (y - 1970) + 600"
  using div_bounds [of 4 "y - 1969"] div_bounds [of 100 "y - 1901"] div_bounds [of 400 "y - 1601"]
  unfolding day_from_year_def by simp_all

lemma year_from_day_bounds:
  "day_from_year (year_from_day d) \<le> d" "d < day_from_year (year_from_day d + 1)"
proof -
  define q where "q = (400 * d) div 146097"
  have q: "146097 * q \<le> 400 * d" "400 * d < 146097 * q + 146097"
    unfolding q_def using div_bounds [of 146097 "400 * d"] by simp_all
  have "day_from_year (1970 + (q - 1)) \<le> d" using day_from_year_bounds [of "1970 + (q - 1)"] q by simp
  moreover have "d < day_from_year (1970 + (q + 2))"
    using day_from_year_bounds [of "1970 + (q + 2)"] q by simp
  moreover have "year_from_day d =
      (if day_from_year (q + 1971) \<le> d then q + 1971
       else if day_from_year (q + 1970) \<le> d then q + 1970 else q + 1969)"
    by (simp add: year_from_day_def Let_def q_def ac_simps)
  ultimately show "day_from_year (year_from_day d) \<le> d" "d < day_from_year (year_from_day d + 1)"
    by (simp_all add: ac_simps)
qed

lemma div_step:
  fixes z k :: int
  assumes "0 < k"
  shows "(z + 1) div k = z div k + (if (z + 1) mod k = 0 then 1 else 0)"
proof (cases "(z + 1) mod k = 0")
  case True
  then have "z = k * ((z + 1) div k - 1) + (k - 1)"
    using mult_div_mod_eq [of k "z + 1"] by (simp add: algebra_simps)
  then have "z div k = (z + 1) div k - 1" using assms by (intro int_div_pos_eq [where r = "k - 1"]) simp_all
  with True show ?thesis by simp
next
  case False
  have "0 \<le> (z + 1) mod k" "(z + 1) mod k < k" using assms by simp_all
  moreover have "z = k * ((z + 1) div k) + ((z + 1) mod k - 1)"
    using mult_div_mod_eq [of k "z + 1"] by (simp add: algebra_simps)
  ultimately have "z div k = (z + 1) div k"
    using False by (intro int_div_pos_eq [where r = "(z + 1) mod k - 1"]) simp_all
  with False show ?thesis by simp
qed

lemma shifted_mod:
  fixes y k c :: int
  shows "(y - k * c) mod k = 0 \<longleftrightarrow> y mod k = 0"
  by (metis diff_add_cancel mod_mult_self4 add.commute)

lemma year_day_length:
  "day_from_year (y + 1) - day_from_year y = (if leap y then 366 else 365)"
proof -
  have s4: "(y - 1968) div 4 = (y - 1969) div 4 + (if y mod 4 = 0 then 1 else 0)"
    using div_step [of 4 "y - 1969"] shifted_mod [of y 4 492] by (simp add: algebra_simps)
  have s100: "(y - 1900) div 100 = (y - 1901) div 100 + (if y mod 100 = 0 then 1 else 0)"
    using div_step [of 100 "y - 1901"] shifted_mod [of y 100 19] by (simp add: algebra_simps)
  have s400: "(y - 1600) div 400 = (y - 1601) div 400 + (if y mod 400 = 0 then 1 else 0)"
    using div_step [of 400 "y - 1601"] shifted_mod [of y 400 4] by (simp add: algebra_simps)
  have a: "day_from_year (y + 1) = 365 * (y - 1970) + 365 + (y - 1968) div 4 - (y - 1900) div 100 + (y - 1600) div 400"
    by (simp add: day_from_year_def algebra_simps)
  have "day_from_year (y + 1) - day_from_year y
      = 365 + (if y mod 4 = 0 then 1 else 0) - (if y mod 100 = 0 then 1 else 0) + (if y mod 400 = 0 then 1 else 0)"
    unfolding a s4 s100 s400 unfolding day_from_year_def by simp
  moreover have "100 dvd y" if "400 dvd y" using dvd_trans [OF _ that, of 100] by simp
  moreover have "4 dvd y" if "100 dvd y" using dvd_trans [OF _ that, of 4] by simp
  ultimately show ?thesis unfolding leap_def mod_eq_0_iff_dvd by (cases "400 dvd y"; cases "100 dvd y"; cases "4 dvd y") simp_all
qed

lemma month_start_simps [simp]:
  "month_start l 0 = 0" "month_start l (Suc 0) = 31"
  "month_start l 2 = 59 + (if l then 1 else 0)" "month_start l 3 = 90 + (if l then 1 else 0)"
  "month_start l 4 = 120 + (if l then 1 else 0)" "month_start l 5 = 151 + (if l then 1 else 0)"
  "month_start l 6 = 181 + (if l then 1 else 0)" "month_start l 7 = 212 + (if l then 1 else 0)"
  "month_start l 8 = 243 + (if l then 1 else 0)" "month_start l 9 = 273 + (if l then 1 else 0)"
  "month_start l 10 = 304 + (if l then 1 else 0)" "month_start l 11 = 334 + (if l then 1 else 0)"
  by (simp_all add: month_start_def eval_nat_numeral)

lemma month_from_bounds:
  assumes "n < (if l then 366 else 365)"
  shows "month_from l n < 12 \<and> month_start l (month_from l n) \<le> n
     \<and> n < month_start l (month_from l n) + 31"
  using assms by (auto simp: month_from_def split: if_splits)

lemma length_pad: "n < 10 ^ k \<Longrightarrow> 0 < k \<Longrightarrow> length (pad k n) = k"
  using length_show_nat_le [of k n] by (simp add: pad_def)

lemma read_pad [simp]: "read_nat (pad k n) = n"
  by (simp add: pad_def)

lemma digits_pad: "list_all is_digit (pad k n)"
  using show_nat_digits [of n] by (auto simp: pad_def list_all_iff simp del: show_nat_digits)

lemma take_pad: "n < 10 ^ k \<Longrightarrow> 0 < k \<Longrightarrow> take k (pad k n @ s) = pad k n"
  and drop_pad: "n < 10 ^ k \<Longrightarrow> 0 < k \<Longrightarrow> drop (k + j) (pad k n @ s) = drop j s"
  by (simp_all add: length_pad)

lemma hd_pad: "n < 10 ^ k \<Longrightarrow> 0 < k \<Longrightarrow> is_digit (hd (pad k n @ s))"
  using digits_pad [of k n] length_pad [of n k]
  by (cases "pad k n") auto

lemma year_range:
  assumes "\<bar>ms\<bar> \<le> max_time"
  shows "\<bar>year_from_day (ms div 86400000)\<bar> < 1000000"
proof -
  define d where "d = ms div 86400000"
  define y where "y = year_from_day d"
  have d: "- 100000000 \<le> d" "d \<le> 100000000"
    using assms div_bounds [of 86400000 ms] unfolding max_time_def d_def by linarith+
  have "146097 * (y - 1970) - 600 \<le> day_from_year y * 400" "day_from_year y \<le> d"
    "day_from_year (y + 1) * 400 \<le> 146097 * (y + 1 - 1970) + 600" "d < day_from_year (y + 1)"
    using day_from_year_bounds year_from_day_bounds unfolding y_def by blast+
  note b = this
  have "146097 * (y - 1970) \<le> 40000000600" using b d by linarith
  moreover have "- 40000000600 \<le> 146097 * (y - 1969)"
  proof -
    have "- 40000000000 \<le> day_from_year (y + 1) * 400" using b(4) d(1) by linarith
    then show ?thesis using b(3) by (simp add: algebra_simps)
  qed
  ultimately have "y < 1000000" "- 1000000 < y" by simp_all
  then have "\<bar>y\<bar> < 1000000" by (simp add: abs_less_iff)
  then show ?thesis by (simp add: y_def d_def)
qed
text \<open>The two layouts share their tail, so the fields are read back once for both.\<close>

lemma read_fields:
  assumes "a < 100" "b < 100" "c < 100" "d < 100" "e < 100" "f < 1000"
    and r: "r = ''-'' @ pad 2 a @ ''-'' @ pad 2 b @ ''T'' @ pad 2 c @ '':'' @ pad 2 d @ '':''
            @ pad 2 e @ ''.'' @ pad 3 f @ ''Z''"
  shows "read_nat (take 2 (drop 1 r)) = a" "read_nat (take 2 (drop 4 r)) = b"
    "read_nat (take 2 (drop 7 r)) = c" "read_nat (take 2 (drop 10 r)) = d"
    "read_nat (take 2 (drop 13 r)) = e" "read_nat (take 3 (drop 16 r)) = f"
proof -
  have len: "length (pad 2 a) = 2" "length (pad 2 b) = 2" "length (pad 2 c) = 2"
    "length (pad 2 d) = 2" "length (pad 2 e) = 2" "length (pad 3 f) = 3"
    using assms(1-6) by (simp_all add: length_pad)
  note split = r take_append drop_append
  show "read_nat (take 2 (drop 1 r)) = a" using len by (simp add: split)
  show "read_nat (take 2 (drop 4 r)) = b" using len by (simp add: split)
  show "read_nat (take 2 (drop 7 r)) = c" using len by (simp add: split)
  show "read_nat (take 2 (drop 10 r)) = d" using len by (simp add: split)
  show "read_nat (take 2 (drop 13 r)) = e" using len by (simp add: split)
  show "read_nat (take 3 (drop 16 r)) = f" using len by (simp add: split)
qed

lemma split_time:
  "(t::nat) = t div 3600000 * 3600000 + t div 60000 mod 60 * 60000 + t div 1000 mod 60 * 1000 + t mod 1000"
proof -
  define a b c where "a = t div 1000" and "b = a div 60" and "c = b div 60"
  define r s u where "r = t mod 1000" and "s = a mod 60" and "u = b mod 60"
  have bc: "t div 60000 = b" "t div 3600000 = c"
    by (simp_all add: a_def b_def c_def div_mult2_eq [symmetric])
  have "t = a * 1000 + r" "a = b * 60 + s" "b = c * 60 + u"
    by (simp_all add: a_def b_def c_def r_def s_def u_def)
  then have "t = c * 3600000 + u * 60000 + s * 1000 + r" by simp
  then show ?thesis unfolding bc r_def s_def u_def a_def .
qed

lemma to_iso_fields:
  fixes ms :: int
  defines "day \<equiv> ms div 86400000" and "t \<equiv> nat (ms mod 86400000)"
  defines "y \<equiv> year_from_day day"
  defines "n \<equiv> nat (day - day_from_year y)"
  defines "m \<equiv> month_from (leap y) n"
  shows "m < 12" "month_start (leap y) m \<le> n" "n - month_start (leap y) m + 1 < 100"
    "int n = day - day_from_year y" "t div 3600000 < 100" "t div 60000 mod 60 < 100"
    "t div 1000 mod 60 < 100" "t mod 1000 < 1000"
    "ms = day * 86400000 + int t"
    "t = t div 3600000 * 3600000 + t div 60000 mod 60 * 60000 + t div 1000 mod 60 * 1000 + t mod 1000"
proof -
  have n: "int n = day - day_from_year y"
    using year_from_day_bounds(1) [of day] by (simp add: n_def y_def)
  have "n < (if leap y then 366 else 365)"
    using n year_from_day_bounds(2) [of day] year_day_length [of y] by (auto simp: y_def split: if_splits)
  note b = month_from_bounds [OF this, folded m_def]
  show "m < 12" "month_start (leap y) m \<le> n" "n - month_start (leap y) m + 1 < 100"
    using b by linarith+
  show "int n = day - day_from_year y" by (rule n)
  have t: "t < 86400000" by (simp add: t_def nat_less_iff)
  show "t div 3600000 < 100" "t div 60000 mod 60 < 100" "t div 1000 mod 60 < 100" "t mod 1000 < 1000"
    using t by (simp_all add: less_mult_imp_div_less order_less_trans [OF mod_less_divisor])
  show "ms = day * 86400000 + int t" by (simp add: day_def t_def)
  show "t = t div 3600000 * 3600000 + t div 60000 mod 60 * 60000 + t div 1000 mod 60 * 1000 + t mod 1000"
    by (rule split_time)
qed

lemma parse_year_text:
  assumes "\<bar>y\<bar> < 1000000" and s: "s = year_text y @ r"
  shows "parse_year s = (y, r)"
proof (cases "0 \<le> y \<and> y \<le> 9999")
  case True
  then have "nat y < 10 ^ 4" by (simp add: nat_less_iff)
  then have len: "length (pad 4 (nat y)) = 4" and dig: "is_digit (hd (pad 4 (nat y) @ r))"
    by (simp_all add: length_pad hd_pad)
  then have "hd s \<noteq> CHR ''-'' \<and> hd s \<noteq> CHR ''+''"
    using True s by (auto simp: year_text_def is_digit_def)
  then show ?thesis using len True s by (simp add: year_text_def parse_year_def)
next
  case False
  then have "nat \<bar>y\<bar> < 10 ^ 6" using assms(1) by (simp add: nat_less_iff)
  then have len: "length (pad 6 (nat \<bar>y\<bar>)) = 6" by (simp add: length_pad)
  have "year_text y = (if y < 0 then CHR ''-'' else CHR ''+'') # pad 6 (nat \<bar>y\<bar>)"
    unfolding year_text_def using False by (rule if_not_P)
  with s have "s = (if y < 0 then CHR ''-'' else CHR ''+'') # pad 6 (nat \<bar>y\<bar>) @ r" by simp
  then show ?thesis using len by (auto simp: parse_year_def)
qed

lemma parse_to_iso:
  assumes "\<bar>ms\<bar> \<le> max_time"
  shows "parse_iso (to_iso ms) = ms"
proof -
  note f = to_iso_fields [of ms]
  let ?day = "ms div 86400000" and ?t = "nat (ms mod 86400000)"
  let ?y = "year_from_day ?day"
  let ?n = "nat (?day - day_from_year ?y)"
  let ?m = "month_from (leap ?y) ?n"
  define r where "r = ''-'' @ pad 2 (?m + 1) @ ''-'' @ pad 2 (?n - month_start (leap ?y) ?m + 1) @ ''T''
    @ pad 2 (?t div 3600000) @ '':'' @ pad 2 (?t div 60000 mod 60) @ '':''
    @ pad 2 (?t div 1000 mod 60) @ ''.'' @ pad 3 (?t mod 1000) @ ''Z''"
  have iso: "to_iso ms = year_text ?y @ r" by (simp add: to_iso_def r_def Let_def)
  have m1: "?m + 1 < 100" using f(1) by simp
  note fields = read_fields [OF m1 f(3) f(5) f(6) f(7) f(8) r_def]
  note yr = parse_year_text [OF year_range [OF assms] iso]
  have "parse_iso (to_iso ms) =
      (day_from_year ?y + int (month_start (leap ?y) ?m) + int (?n - month_start (leap ?y) ?m + 1) - 1) * 86400000
      + int (?t div 3600000) * 3600000 + int (?t div 60000 mod 60) * 60000
      + int (?t div 1000 mod 60) * 1000 + int (?t mod 1000)"
    by (simp only: parse_iso_def yr prod.case parse_fields_def fields add_diff_cancel_right')
  also have "\<dots> = (day_from_year ?y + int ?n) * 86400000 + int (?t div 3600000 * 3600000
      + ?t div 60000 mod 60 * 60000 + ?t div 1000 mod 60 * 1000 + ?t mod 1000)"
    using f(2) by simp
  also have "\<dots> = ?day * 86400000 + int ?t"
    using f(4) f(10) by simp
  also have "\<dots> = ms" using f(9) by simp
  finally show ?thesis .
qed

text \<open>An instant is accepted exactly when it is the canonical text of the milliseconds it denotes.\<close>

lemma instant_iff: "instant v = Inr ms \<longleftrightarrow> \<bar>ms\<bar> \<le> max_time \<and> v = to_iso ms"
  by (auto simp: instant_def Let_def parse_to_iso split: if_splits)

lemma instant_to_iso [simp]: "\<bar>ms\<bar> \<le> max_time \<Longrightarrow> instant (to_iso ms) = Inr ms"
  by (simp add: instant_iff)

lemma instant_inj: "instant v = Inr ms \<Longrightarrow> instant w = Inr ms \<Longrightarrow> v = w"
  by (simp add: instant_iff)

section \<open>Half-open intervals\<close>

record time_interval =
  from_ms :: instant_ms
  to_ms :: instant_ms

definition interval_of :: "instant_ms \<Rightarrow> instant_ms \<Rightarrow> time_interval res" where
  "interval_of f t = (if f \<ge> t then Inl ''time interval start must be before end''
                      else Inr \<lparr>from_ms = f, to_ms = t\<rparr>)"

definition interval :: "string \<Rightarrow> string \<Rightarrow> time_interval res" where
  "interval f t = bindE (instant f) (\<lambda>cf. bindE (instant t) (\<lambda>ct. interval_of cf ct))"

definition interval_contains :: "time_interval \<Rightarrow> instant_ms \<Rightarrow> bool" where
  "interval_contains i p = (from_ms i \<le> p \<and> p < to_ms i)"

datatype interval_relation = IEqual | IContains | IWithin | IDisjoint | IOverlaps

definition interval_relation :: "time_interval \<Rightarrow> time_interval \<Rightarrow> interval_relation" where
  "interval_relation a b =
     (if from_ms a = from_ms b \<and> to_ms a = to_ms b then IEqual
      else if from_ms a \<le> from_ms b \<and> to_ms a \<ge> to_ms b then IContains
      else if from_ms b \<le> from_ms a \<and> to_ms b \<ge> to_ms a then IWithin
      else if to_ms a \<le> from_ms b \<or> to_ms b \<le> from_ms a then IDisjoint
      else IOverlaps)"

lemma interval_of_Inr:
  "interval_of f t = Inr i \<longleftrightarrow> f < t \<and> i = \<lparr>from_ms = f, to_ms = t\<rparr>"
  by (auto simp: interval_of_def)

definition interval_points :: "time_interval \<Rightarrow> instant_ms set" where
  "interval_points i = {p. interval_contains i p}"

lemma interval_points_eq: "interval_points i = {from_ms i ..< to_ms i}"
  by (auto simp: interval_points_def interval_contains_def)

lemma interval_points_subset:
  "from_ms b < to_ms b \<Longrightarrow>
   interval_points b \<subseteq> interval_points a \<longleftrightarrow> from_ms a \<le> from_ms b \<and> to_ms b \<le> to_ms a"
  by (auto simp: interval_points_eq)

lemma interval_points_disjoint:
  assumes "from_ms a < to_ms a" "from_ms b < to_ms b"
  shows "interval_points a \<inter> interval_points b = {} \<longleftrightarrow> to_ms a \<le> from_ms b \<or> to_ms b \<le> from_ms a"
proof -
  have "max (from_ms a) (from_ms b) \<in> interval_points a \<inter> interval_points b"
    if "\<not> (to_ms a \<le> from_ms b \<or> to_ms b \<le> from_ms a)"
    using that assms by (auto simp: interval_points_eq)
  then show ?thesis by (auto simp: interval_points_eq)
qed

section \<open>Properties\<close>

text \<open>C3: \<open>instant\<close> accepts a string exactly when it is the canonical ISO-8601 text of a moment
  within the range of \<open>Date\<close>; the moment it reads is the one that text denotes, and two accepted
  strings denote the same moment only when they are the same string.\<close>

theorem instant_canonical:
  "instant v = Inr ms \<longleftrightarrow> \<bar>ms\<bar> \<le> max_time \<and> v = to_iso ms"
  by (rule instant_iff)

text \<open>Of two intervals the constructor accepts, \<open>intervalRelation\<close> answers exactly the relation
  between the sets of instants that \<open>intervalContains\<close> admits: equality, proper inclusion either
  way, no common instant, or a partial overlap.\<close>

theorem interval_relation_points:
  assumes a: "interval fa ta = Inr a" and b: "interval fb tb = Inr b"
  shows "interval_relation a b =
    (if interval_points a = interval_points b then IEqual
     else if interval_points b \<subset> interval_points a then IContains
     else if interval_points a \<subset> interval_points b then IWithin
     else if interval_points a \<inter> interval_points b = {} then IDisjoint else IOverlaps)"
proof -
  have wf: "from_ms a < to_ms a" "from_ms b < to_ms b"
    using a b by (auto simp: interval_def interval_of_Inr)
  note sub = interval_points_subset [OF wf(1), of b] interval_points_subset [OF wf(2), of a]
  have eq: "interval_points a = interval_points b \<longleftrightarrow> from_ms a = from_ms b \<and> to_ms a = to_ms b"
    and ba: "interval_points b \<subset> interval_points a \<longleftrightarrow>
      from_ms a \<le> from_ms b \<and> to_ms b \<le> to_ms a \<and> \<not> (from_ms a = from_ms b \<and> to_ms a = to_ms b)"
    and ab: "interval_points a \<subset> interval_points b \<longleftrightarrow>
      from_ms b \<le> from_ms a \<and> to_ms a \<le> to_ms b \<and> \<not> (from_ms a = from_ms b \<and> to_ms a = to_ms b)"
    unfolding psubset_eq set_eq_subset sub by linarith+
  show ?thesis
    unfolding interval_relation_def eq ba ab interval_points_disjoint [OF wf] by (simp split: if_split)
qed

theorem interval_relation_points_witness:
  "\<exists>a b. interval (to_iso 0) (to_iso 5) = Inr a \<and> interval (to_iso 3) (to_iso 9) = Inr b \<and>
     interval_relation a b = IOverlaps \<and> interval_points a \<inter> interval_points b \<noteq> {}"
proof -
  have "interval (to_iso 0) (to_iso 5) = Inr \<lparr>from_ms = 0, to_ms = 5\<rparr>"
    "interval (to_iso 3) (to_iso 9) = Inr \<lparr>from_ms = 3, to_ms = 9\<rparr>"
    by (simp_all add: interval_def interval_of_def max_time_def)
  from interval_relation_points [OF this] this show ?thesis
    by (auto simp: interval_relation_def split: if_splits)
qed

lemma instant_val_bound: "instant_val l v = Inr t \<Longrightarrow> \<bar>t\<bar> \<le> max_time"
  by (cases v) (auto simp: instant_iff)

end
