(* ===== verification/Close.thy ===== *)
theory Close
  imports Json Money EpiTime
begin

text \<open>
  Period-close metadata (\<open>src/src/economics/close.ts\<close>): half-open periods of epoch milliseconds, the
  metadata of the three close-control events, and the body of the projection digest.  The digest
  itself, SHA-256 of the canonical JSON text, is the parameter \<open>sha\<close> of the functions that use it.
\<close>

definition close_schema_version :: int where
  "close_schema_version = 1"

record economic_period =
  start_ms :: int
  end_ms :: int
  period_subject_of :: string

record finalization_metadata =
  fin_start :: int
  fin_end :: int
  fin_digest :: string
  fin_count :: int

record control_metadata =
  ctl_start :: int
  ctl_end :: int
  ctl_close_id :: string
  ctl_reason :: string

definition safe_epoch :: "string \<Rightarrow> jsval \<Rightarrow> int res" where
  "safe_epoch label v =
     (case safe_integer v of
        None \<Rightarrow> Inl (''economic period '' @ label @ '' must be a safe integer timestamp'')
      | Some i \<Rightarrow> if \<bar>i\<bar> > max_time
          then Inl (''economic period '' @ label @ '' is outside the supported date range'') else Inr i)"

definition period_subject :: "int \<Rightarrow> int \<Rightarrow> string" where
  "period_subject s e = ''economic-period:'' @ show_int s @ '':'' @ show_int e"

definition canonical_period :: "jsval \<Rightarrow> jsval \<Rightarrow> economic_period res" where
  "canonical_period s e =
     bindE (safe_epoch ''startMs'' s) (\<lambda>st.
     bindE (safe_epoch ''endMs'' e) (\<lambda>en.
       if st \<ge> en then Inl ''economic period must be a non-empty half-open interval''
       else Inr \<lparr>start_ms = st, end_ms = en, period_subject_of = period_subject st en\<rparr>))"

definition exact_keys :: "jsval \<Rightarrow> string list \<Rightarrow> string \<Rightarrow> unit res" where
  "exact_keys v keys label =
     (if \<not> is_object v then Inl (label @ '' must be an object'')
      else if sort (keys_of v) \<noteq> sort keys then Inl (label @ '' contains unknown or missing fields'')
      else Inr ())"

definition is_hex :: "char \<Rightarrow> bool" where
  "is_hex c = (is_digit c \<or> (97 \<le> (of_char c :: nat) \<and> (of_char c :: nat) \<le> 102))"

definition digest_text :: "string \<Rightarrow> bool" where
  "digest_text s = (length s = 64 \<and> list_all is_hex s)"

fun digest_val :: "string \<Rightarrow> jsval \<Rightarrow> string res" where
  "digest_val label (JStr s) = (if digest_text s then Inr s else Inl (label @ '' must be a lowercase SHA-256 digest''))"
| "digest_val label _ = Inl (label @ '' must be a lowercase SHA-256 digest'')"

definition close_version :: "jsval \<Rightarrow> string \<Rightarrow> unit res" where
  "close_version v label =
     (if v \<noteq> JNum (of_int close_schema_version) then Inl (label @ '' must use close schema version 1'') else Inr ())"

definition close_finalization_metadata :: "jsval \<Rightarrow> finalization_metadata res" where
  "close_finalization_metadata v =
     bindE (exact_keys v [''closeSchemaVersion'', ''periodStartMs'', ''periodEndMs'', ''projectionDigest'', ''eventCount'']
              ''close finalization metadata'') (\<lambda>_.
     bindE (close_version (field ''closeSchemaVersion'' v) ''close finalization metadata closeSchemaVersion'') (\<lambda>_.
     bindE (canonical_period (field ''periodStartMs'' v) (field ''periodEndMs'' v)) (\<lambda>p.
       case safe_integer (field ''eventCount'' v) of
         None \<Rightarrow> Inl ''close finalization metadata eventCount must be a non-negative safe integer''
       | Some n \<Rightarrow>
           if n < 0 then Inl ''close finalization metadata eventCount must be a non-negative safe integer''
           else bindE (digest_val ''close finalization metadata projectionDigest'' (field ''projectionDigest'' v)) (\<lambda>d.
             Inr \<lparr>fin_start = start_ms p, fin_end = end_ms p, fin_digest = d, fin_count = n\<rparr>))))"

fun blank_val :: "jsval \<Rightarrow> bool" where
  "blank_val (JStr s) = (trim s = [])"
| "blank_val _ = True"

fun text_of :: "jsval \<Rightarrow> string" where
  "text_of (JStr s) = s"
| "text_of _ = []"

definition control_metadata :: "string \<Rightarrow> jsval \<Rightarrow> control_metadata res" where
  "control_metadata label v =
     bindE (exact_keys v [''closeSchemaVersion'', ''periodStartMs'', ''periodEndMs'', ''closeEventId'', ''reason''] label) (\<lambda>_.
     bindE (close_version (field ''closeSchemaVersion'' v) (label @ '' closeSchemaVersion'')) (\<lambda>_.
     bindE (canonical_period (field ''periodStartMs'' v) (field ''periodEndMs'' v)) (\<lambda>p.
       if blank_val (field ''closeEventId'' v) then Inl (label @ '' closeEventId must be non-empty'')
       else if blank_val (field ''reason'' v) then Inl (label @ '' reason must be non-empty'')
       else Inr \<lparr>ctl_start = start_ms p, ctl_end = end_ms p, ctl_close_id = text_of (field ''closeEventId'' v),
                 ctl_reason = text_of (field ''reason'' v)\<rparr>)))"

definition close_reopen_metadata :: "jsval \<Rightarrow> control_metadata res" where
  "close_reopen_metadata = control_metadata ''close reopen metadata''"

definition close_invalidation_metadata :: "jsval \<Rightarrow> control_metadata res" where
  "close_invalidation_metadata = control_metadata ''close invalidation metadata''"

section \<open>The projection and its digest\<close>

record close_balance =
  bal_role :: string
  bal_amount :: money
  bal_events :: "string list"

text \<open>The \<open>currency\<close> and \<open>basis\<close> of a balance row are those of its amount.\<close>

definition balance_key :: "close_balance \<Rightarrow> string" where
  "balance_key b = bal_role b @ CHR 0x00 # currency (bal_amount b) @ CHR 0x00 # basis_name (basis (bal_amount b))"

definition balance_body :: "close_balance \<Rightarrow> jsval" where
  "balance_body b =
     JObj [(''role'', JStr (bal_role b)), (''currency'', JStr (currency (bal_amount b))),
           (''basis'', JStr (basis_name (basis (bal_amount b)))), (''amount'', money_to_json (bal_amount b)),
           (''eventIds'', JArr (map JStr (sort (bal_events b))))]"

definition close_digest_body :: "(string \<Rightarrow> string \<Rightarrow> int) \<Rightarrow> int \<Rightarrow> int \<Rightarrow> string list \<Rightarrow> close_balance list \<Rightarrow> jsval" where
  "close_digest_body lc s e ids bs =
     JObj [(''periodStartMs'', JNum (of_int s)), (''periodEndMs'', JNum (of_int e)),
           (''eventIds'', JArr (map JStr (sort ids))),
           (''balances'', JArr (map balance_body (sort_by (\<lambda>a b. lc (balance_key a) (balance_key b)) bs)))]"

definition close_projection_digest ::
    "(string \<Rightarrow> string \<Rightarrow> int) \<Rightarrow> (jsval \<Rightarrow> string) \<Rightarrow> int \<Rightarrow> int \<Rightarrow> string list \<Rightarrow> close_balance list \<Rightarrow> string" where
  "close_projection_digest lc sha s e ids bs = sha (close_digest_body lc s e ids bs)"

end
