(* ===== verification/Events.thy ===== *)
theory Events
  imports Close
begin

text \<open>
  Economic events (\<open>src/src/economics/events.ts\<close>): the vocabulary of kinds and roles, the validation
  every event passes at construction and again whenever a stored row is read, and the JSON form.
  \<open>canonical_event\<close> is the invariant of every event the constructor returns.
\<close>

section \<open>Kinds and roles\<close>

datatype event_kind =
    UsageObserved | ChargeEstimated | ProviderChargeObserved | BillObserved | PriceAsserted
  | PriceCorrected | CreditApplied | DiscountApplied | CommitmentRecognized | TaxRecognized
  | FxTranslated | CostAllocated | AllocationReversed | TrueUp | WriteOff
  | CloseFinalized | CloseReopened | CloseInvalidated

definition economic_event_kinds :: "event_kind list" where
  "economic_event_kinds =
     [UsageObserved, ChargeEstimated, ProviderChargeObserved, BillObserved, PriceAsserted, PriceCorrected,
      CreditApplied, DiscountApplied, CommitmentRecognized, TaxRecognized, FxTranslated, CostAllocated,
      AllocationReversed, TrueUp, WriteOff, CloseFinalized, CloseReopened, CloseInvalidated]"

fun kind_name :: "event_kind \<Rightarrow> string" where
  "kind_name UsageObserved = ''usage_observed''"
| "kind_name ChargeEstimated = ''charge_estimated''"
| "kind_name ProviderChargeObserved = ''provider_charge_observed''"
| "kind_name BillObserved = ''bill_observed''"
| "kind_name PriceAsserted = ''price_asserted''"
| "kind_name PriceCorrected = ''price_corrected''"
| "kind_name CreditApplied = ''credit_applied''"
| "kind_name DiscountApplied = ''discount_applied''"
| "kind_name CommitmentRecognized = ''commitment_recognized''"
| "kind_name TaxRecognized = ''tax_recognized''"
| "kind_name FxTranslated = ''fx_translated''"
| "kind_name CostAllocated = ''cost_allocated''"
| "kind_name AllocationReversed = ''allocation_reversed''"
| "kind_name TrueUp = ''true_up''"
| "kind_name WriteOff = ''write_off''"
| "kind_name CloseFinalized = ''close_finalized''"
| "kind_name CloseReopened = ''close_reopened''"
| "kind_name CloseInvalidated = ''close_invalidated''"

datatype event_role = RUsage | RCharge | RPrice | RAdjustment | RTranslation | RAllocation | RControl

fun role_name :: "event_role \<Rightarrow> string" where
  "role_name RUsage = ''usage''"
| "role_name RCharge = ''charge''"
| "role_name RPrice = ''price''"
| "role_name RAdjustment = ''adjustment''"
| "role_name RTranslation = ''translation''"
| "role_name RAllocation = ''allocation''"
| "role_name RControl = ''control''"

text \<open>\<open>EVENT_ROLE_BY_KIND\<close>, read by \<open>economicEventRole\<close>.\<close>

fun role_of_kind :: "event_kind \<Rightarrow> event_role" where
  "role_of_kind UsageObserved = RUsage"
| "role_of_kind ChargeEstimated = RCharge"
| "role_of_kind ProviderChargeObserved = RCharge"
| "role_of_kind BillObserved = RCharge"
| "role_of_kind PriceAsserted = RPrice"
| "role_of_kind PriceCorrected = RPrice"
| "role_of_kind CreditApplied = RAdjustment"
| "role_of_kind DiscountApplied = RAdjustment"
| "role_of_kind CommitmentRecognized = RAdjustment"
| "role_of_kind TaxRecognized = RAdjustment"
| "role_of_kind FxTranslated = RTranslation"
| "role_of_kind CostAllocated = RAllocation"
| "role_of_kind AllocationReversed = RAllocation"
| "role_of_kind TrueUp = RAdjustment"
| "role_of_kind WriteOff = RAdjustment"
| "role_of_kind CloseFinalized = RControl"
| "role_of_kind CloseReopened = RControl"
| "role_of_kind CloseInvalidated = RControl"

definition monetary_event_kinds :: "event_kind list" where
  "monetary_event_kinds =
     [ChargeEstimated, ProviderChargeObserved, BillObserved, CreditApplied, PriceCorrected, DiscountApplied,
      CommitmentRecognized, TaxRecognized, FxTranslated, CostAllocated, AllocationReversed, TrueUp, WriteOff]"

definition event_kind_val :: "jsval \<Rightarrow> event_kind res" where
  "event_kind_val = member_val kind_name economic_event_kinds ''economic event kind''"

definition economic_event_role :: "jsval \<Rightarrow> event_role res" where
  "economic_event_role v = bindE (event_kind_val v) (\<lambda>k. Inr (role_of_kind k))"

section \<open>Construction\<close>

record economic_event =
  ev_id :: string
  ev_kind :: event_kind
  ev_subject :: string
  ev_occurred :: instant_ms
  ev_recorded :: instant_ms
  ev_amount :: "money option"
  ev_sources :: "string list"
  ev_reversal :: "string option"
  ev_metadata :: jsval
  ev_schema :: int

definition event_keys :: "string list" where
  "event_keys = [''id'', ''kind'', ''subject'', ''occurredAt'', ''recordedAt'', ''amount'', ''sourceEventIds'',
     ''reversalOf'', ''metadata'', ''schemaVersion'']"

definition charge_bases :: "economic_basis list" where
  "charge_bases = [BList, BEstimated, BProviderObserved, BBilled]"

definition basis_allowed :: "event_kind \<Rightarrow> economic_basis \<Rightarrow> bool" where
  "basis_allowed k b =
     (if k = ChargeEstimated then b = BList \<or> b = BEstimated
      else if k = ProviderChargeObserved then b = BProviderObserved
      else if k = BillObserved then b = BBilled
      else if k = CostAllocated \<or> k = AllocationReversed then b = BAllocated
      else True)"

definition validate_event_basis :: "event_kind \<Rightarrow> money option \<Rightarrow> unit res" where
  "validate_event_basis k amount =
     (case amount of None \<Rightarrow> Inr ()
      | Some m \<Rightarrow>
          if role_of_kind k = RAdjustment \<and> basis m \<notin> set charge_bases
          then Inl ''economic event adjusts a charge and must carry a basis a charge can hold''
          else if \<not> basis_allowed k (basis m) then Inl ''economic event requires a compatible economic basis''
          else Inr ())"

definition event_ids_val :: "jsval \<Rightarrow> string list res" where
  "event_ids_val v =
     (case v of JUndefined \<Rightarrow> Inr []
      | JArr vs \<Rightarrow> unique_id_vals ''economic event sourceEventIds'' [] vs
      | _ \<Rightarrow> Inl ''economic event sourceEventIds must be an array'')"

definition canonical_amount :: "jsval \<Rightarrow> money option res" where
  "canonical_amount v =
     (case v of JUndefined \<Rightarrow> Inr None | JNull \<Rightarrow> Inr None
      | _ \<Rightarrow> (case field ''coefficient'' v of
          JBigInt c \<Rightarrow>
            if \<not> keys_are [''basis'', ''coefficient'', ''currency'', ''scale''] v
            then Inl ''economic event amount contains unknown or missing Money fields''
            else bindE (money_from_json (JObj [(''coefficient'', JStr (show_int c)), (''scale'', field ''scale'' v),
                          (''currency'', field ''currency'' v), (''basis'', field ''basis'' v)])) (\<lambda>m. Inr (Some m))
        | _ \<Rightarrow> Inl ''economic event amount must be an exact Money value''))"

definition optional_text :: "string \<Rightarrow> jsval \<Rightarrow> string option res" where
  "optional_text label v =
     (case v of JUndefined \<Rightarrow> Inr None | JNull \<Rightarrow> Inr None
      | _ \<Rightarrow> bindE (non_empty_val label v) (\<lambda>s. Inr (Some s)))"

definition optional_json :: "(string \<Rightarrow> string \<Rightarrow> int) \<Rightarrow> jsval \<Rightarrow> jsval res" where
  "optional_json lc v = (if v = JUndefined \<or> v = JNull then Inr JNull else clone_json lc v)"

text \<open>The branches of \<open>economicEvent\<close> on the three close-control kinds.\<close>

definition validate_control :: "event_kind \<Rightarrow> money option \<Rightarrow> jsval \<Rightarrow> unit res" where
  "validate_control k amount metadata =
     (if k = CloseFinalized then
        (if amount \<noteq> None then Inl ''economic event close_finalized must not have an amount''
         else bindE (close_finalization_metadata metadata) (\<lambda>_. Inr ()))
      else if k = CloseReopened then
        (if amount \<noteq> None then Inl ''economic event close_reopened must not have an amount''
         else bindE (close_reopen_metadata metadata) (\<lambda>_. Inr ()))
      else if k = CloseInvalidated then
        (if amount \<noteq> None then Inl ''economic event close_invalidated must not have an amount''
         else bindE (close_invalidation_metadata metadata) (\<lambda>_. Inr ()))
      else Inr ())"

definition schema_version_val :: "string \<Rightarrow> jsval \<Rightarrow> int res" where
  "schema_version_val label v =
     (case safe_integer v of
        None \<Rightarrow> Inl (label @ '' must be a positive safe integer'')
      | Some n \<Rightarrow> if n < 1 then Inl (label @ '' must be a positive safe integer'') else Inr n)"

definition economic_event :: "(string \<Rightarrow> string \<Rightarrow> int) \<Rightarrow> jsval \<Rightarrow> economic_event res" where
  "economic_event lc v =
     bindE (assert_known_keys event_keys ''economic event'' v) (\<lambda>_.
     bindE (non_empty_val ''economic event id'' (field ''id'' v)) (\<lambda>i.
     bindE (event_kind_val (field ''kind'' v)) (\<lambda>k.
     bindE (non_empty_val ''economic event subject'' (field ''subject'' v)) (\<lambda>subj.
     bindE (instant_val ''economic event occurredAt'' (field ''occurredAt'' v)) (\<lambda>occ.
     bindE (instant_val ''economic event recordedAt'' (field ''recordedAt'' v)) (\<lambda>rec.
     bindE (canonical_amount (field ''amount'' v)) (\<lambda>amount.
       if k = UsageObserved \<and> amount \<noteq> None
       then Inl ''economic event usage_observed must not carry a monetary amount''
       else if k \<in> set monetary_event_kinds \<and> amount = None then Inl ''economic event requires an amount''
       else
     bindE (validate_event_basis k amount) (\<lambda>_.
     bindE (event_ids_val (field ''sourceEventIds'' v)) (\<lambda>sources.
       if role_of_kind k = RAdjustment \<and> sources = []
       then Inl ''economic event adjusts a charge and must name it: sourceEventIds is empty''
       else
     bindE (optional_text ''economic event reversalOf'' (field ''reversalOf'' v)) (\<lambda>reversal.
       if reversal = Some i then Inl ''economic event cannot reverse itself''
       else if k = AllocationReversed \<and> reversal = None
       then Inl ''economic event allocation_reversed requires reversalOf''
       else
     bindE (optional_json lc (field ''metadata'' v)) (\<lambda>metadata.
     bindE (validate_control k amount metadata) (\<lambda>_.
     bindE (schema_version_val ''economic event schemaVersion'' (field ''schemaVersion'' v)) (\<lambda>schema.
       Inr \<lparr>ev_id = i, ev_kind = k, ev_subject = subj, ev_occurred = occ, ev_recorded = rec,
            ev_amount = amount, ev_sources = sources, ev_reversal = reversal, ev_metadata = metadata,
            ev_schema = schema\<rparr>)))))))))))))"

text \<open>The objects a canonical amount and a canonical event are, as they are passed back in.\<close>

definition money_object :: "money \<Rightarrow> jsval" where
  "money_object m =
     JObj [(''coefficient'', JBigInt (coefficient m)), (''scale'', JNum (of_nat (scale m))),
           (''currency'', JStr (currency m)), (''basis'', JStr (basis_name (basis m)))]"

definition text_or_null :: "string option \<Rightarrow> jsval" where
  "text_or_null t = (case t of None \<Rightarrow> JNull | Some s \<Rightarrow> JStr s)"

definition event_object :: "jsval \<Rightarrow> economic_event \<Rightarrow> jsval" where
  "event_object amount e =
     JObj [(''id'', JStr (ev_id e)), (''kind'', JStr (kind_name (ev_kind e))), (''subject'', JStr (ev_subject e)),
           (''occurredAt'', JStr (to_iso (ev_occurred e))), (''recordedAt'', JStr (to_iso (ev_recorded e))),
           (''amount'', amount), (''sourceEventIds'', JArr (map JStr (ev_sources e))),
           (''reversalOf'', text_or_null (ev_reversal e)), (''metadata'', ev_metadata e),
           (''schemaVersion'', JNum (of_int (ev_schema e)))]"

definition event_value :: "economic_event \<Rightarrow> jsval" where
  "event_value e = event_object (case ev_amount e of None \<Rightarrow> JNull | Some m \<Rightarrow> money_object m) e"

definition economic_event_to_json :: "(string \<Rightarrow> string \<Rightarrow> int) \<Rightarrow> economic_event \<Rightarrow> jsval res" where
  "economic_event_to_json lc e =
     bindE (economic_event lc (event_value e)) (\<lambda>item.
       Inr (event_object (case ev_amount item of None \<Rightarrow> JNull | Some m \<Rightarrow> money_to_json m) item))"

definition economic_event_from_json :: "(string \<Rightarrow> string \<Rightarrow> int) \<Rightarrow> jsval \<Rightarrow> economic_event res" where
  "economic_event_from_json lc v =
     bindE (assert_known_keys event_keys ''economic event JSON'' v) (\<lambda>_.
       if \<not> list_all (\<lambda>k. has_own k v) event_keys then Inl ''economic event JSON is missing field''
       else if field ''amount'' v \<noteq> JNull \<and> \<not> is_object (field ''amount'' v)
       then Inl ''economic event JSON amount must be a Money object or null''
       else bindE (if field ''amount'' v = JNull then Inr JNull
                   else bindE (money_from_json (field ''amount'' v)) (\<lambda>m. Inr (money_object m))) (\<lambda>amount.
         economic_event lc
           (JObj [(''id'', field ''id'' v), (''kind'', field ''kind'' v), (''subject'', field ''subject'' v),
                  (''occurredAt'', field ''occurredAt'' v), (''recordedAt'', field ''recordedAt'' v),
                  (''amount'', amount), (''sourceEventIds'', field ''sourceEventIds'' v),
                  (''reversalOf'', field ''reversalOf'' v), (''metadata'', field ''metadata'' v),
                  (''schemaVersion'', field ''schemaVersion'' v)])))"

section \<open>The invariant of an event\<close>

definition event_rules :: "economic_event \<Rightarrow> bool" where
  "event_rules e =
     ((ev_kind e = UsageObserved \<longrightarrow> ev_amount e = None)
      \<and> (ev_kind e \<in> set monetary_event_kinds \<longrightarrow> ev_amount e \<noteq> None)
      \<and> (\<forall>m. ev_amount e = Some m \<longrightarrow> basis_allowed (ev_kind e) (basis m)
           \<and> (role_of_kind (ev_kind e) = RAdjustment \<longrightarrow> basis m \<in> set charge_bases))
      \<and> (role_of_kind (ev_kind e) = RAdjustment \<longrightarrow> ev_sources e \<noteq> [])
      \<and> ev_reversal e \<noteq> Some (ev_id e)
      \<and> (ev_kind e = AllocationReversed \<longrightarrow> ev_reversal e \<noteq> None)
      \<and> validate_control (ev_kind e) (ev_amount e) (ev_metadata e) = Inr ())"

definition event_shape :: "(string \<Rightarrow> string \<Rightarrow> int) \<Rightarrow> economic_event \<Rightarrow> bool" where
  "event_shape lc e =
     (trim (ev_id e) = ev_id e \<and> ev_id e \<noteq> [] \<and> trim (ev_subject e) = ev_subject e \<and> ev_subject e \<noteq> []
      \<and> \<bar>ev_occurred e\<bar> \<le> max_time \<and> \<bar>ev_recorded e\<bar> \<le> max_time
      \<and> (\<forall>m. ev_amount e = Some m \<longrightarrow> canonical_money m) \<and> canonical_ids (ev_sources e)
      \<and> (\<forall>r. ev_reversal e = Some r \<longrightarrow> trim r = r \<and> r \<noteq> [])
      \<and> canonical_json lc (ev_metadata e) \<and> 1 \<le> ev_schema e \<and> ev_schema e \<le> max_safe)"

definition canonical_event :: "(string \<Rightarrow> string \<Rightarrow> int) \<Rightarrow> economic_event \<Rightarrow> bool" where
  "canonical_event lc e = (event_shape lc e \<and> event_rules e)"

lemma event_kind_val_name [simp]: "event_kind_val (JStr (kind_name k)) = Inr k"
  by (cases k) (simp_all add: event_kind_val_def economic_event_kinds_def)

lemma validate_event_basis_Inr:
  "validate_event_basis k amount = Inr () \<longleftrightarrow>
     (\<forall>m. amount = Some m \<longrightarrow> basis_allowed k (basis m) \<and> (role_of_kind k = RAdjustment \<longrightarrow> basis m \<in> set charge_bases))"
  by (auto simp: validate_event_basis_def split: option.splits)

lemma canonical_amount_money: "canonical_money m \<Longrightarrow> canonical_amount (money_object m) = Inr (Some m)"
  using money_json_roundtrip [of m]
  by (simp add: canonical_amount_def money_object_def keys_are_def money_to_json_def)

lemma canonical_amount_canonical:
  assumes "canonical_amount v = Inr a"
  shows "a = Some m \<Longrightarrow> canonical_money m"
proof -
  assume a: "a = Some m"
  then obtain w where "money_from_json w = Inr m"
    using assms unfolding canonical_amount_def by (auto split: jsval.splits if_splits)
  then show ?thesis by (rule money_from_json_Inr(1))
qed

lemma canonical_amount_null [simp]: "canonical_amount JNull = Inr None"
  by (simp add: canonical_amount_def)

lemma optional_text_or_null:
  "(\<And>r. t = Some r \<Longrightarrow> trim r = r \<and> r \<noteq> []) \<Longrightarrow> optional_text l (text_or_null t) = Inr t"
  by (cases t) (simp_all add: optional_text_def text_or_null_def non_empty_canonical)

lemma optional_text_Inr: "optional_text l v = Inr (Some r) \<Longrightarrow> trim r = r \<and> r \<noteq> []"
  by (auto simp: optional_text_def split: jsval.splits dest: non_empty_Inr)

lemma optional_json_canonical: "canonical_json lc v \<Longrightarrow> optional_json lc v = Inr v"
  by (auto simp: optional_json_def clone_canonical_json)

lemma optional_json_Inr: "comparator lc \<Longrightarrow> optional_json lc v = Inr w \<Longrightarrow> canonical_json lc w"
  by (auto simp: optional_json_def clone_json_canonical split: if_splits)

lemma schema_version_Inr: "schema_version_val l v = Inr n \<longleftrightarrow> v = JNum (of_int n) \<and> 1 \<le> n \<and> n \<le> max_safe"
  by (auto simp: schema_version_val_def safe_int_def split: option.splits if_splits dest!: safe_integer_Some)

lemma event_ids_val_Inr: "event_ids_val v = Inr ids \<Longrightarrow> canonical_ids ids"
  by (auto simp: event_ids_val_def canonical_ids_def dest!: unique_id_vals_canonical_Inr split: jsval.splits)

lemma event_object_fields [simp]:
  "field ''id'' (event_object a e) = JStr (ev_id e)"
  "field ''kind'' (event_object a e) = JStr (kind_name (ev_kind e))"
  "field ''subject'' (event_object a e) = JStr (ev_subject e)"
  "field ''occurredAt'' (event_object a e) = JStr (to_iso (ev_occurred e))"
  "field ''recordedAt'' (event_object a e) = JStr (to_iso (ev_recorded e))"
  "field ''amount'' (event_object a e) = a"
  "field ''sourceEventIds'' (event_object a e) = JArr (map JStr (ev_sources e))"
  "field ''reversalOf'' (event_object a e) = text_or_null (ev_reversal e)"
  "field ''metadata'' (event_object a e) = ev_metadata e"
  "field ''schemaVersion'' (event_object a e) = JNum (of_int (ev_schema e))"
  "assert_known_keys event_keys l (event_object a e) = Inr ()"
  "list_all (\<lambda>k. has_own k (event_object a e)) event_keys"
  by (simp_all add: event_object_def event_keys_def has_own_def)

lemma economic_event_canonical:
  assumes "canonical_event lc e"
  shows "economic_event lc (event_value e) = Inr e"
proof -
  let ?a = "case ev_amount e of None \<Rightarrow> JNull | Some m \<Rightarrow> money_object m"
  have shape: "event_shape lc e" and rules: "event_rules e" using assms by (simp_all add: canonical_event_def)
  have amount: "canonical_amount ?a = Inr (ev_amount e)"
    using shape by (cases "ev_amount e") (simp_all add: event_shape_def canonical_amount_money)
  have basis: "validate_event_basis (ev_kind e) (ev_amount e) = Inr ()"
    using rules by (simp add: event_rules_def validate_event_basis_Inr)
  have ids: "event_ids_val (JArr (map JStr (ev_sources e))) = Inr (ev_sources e)"
    using shape by (simp add: event_ids_val_def unique_id_vals_canonical event_shape_def)
  have rev: "optional_text l (text_or_null (ev_reversal e)) = Inr (ev_reversal e)" for l
    using shape by (intro optional_text_or_null) (simp add: event_shape_def)
  have meta: "optional_json lc (ev_metadata e) = Inr (ev_metadata e)"
    using shape by (simp add: event_shape_def optional_json_canonical)
  have schema: "schema_version_val l (JNum (of_int (ev_schema e))) = Inr (ev_schema e)" for l
    using shape by (simp add: schema_version_Inr event_shape_def)
  show ?thesis
    unfolding economic_event_def event_value_def event_object_fields bindE_simps amount basis ids rev meta schema
    using shape rules
    by (simp add: event_shape_def event_rules_def non_empty_canonical amount basis ids rev meta schema)
qed

lemma economic_event_Inr:
  assumes "comparator lc" "economic_event lc v = Inr e"
  shows "canonical_event lc e"
proof -
  from assms(2) obtain i k subj occ rec amount sources reversal metadata schema u1 u2 where
    i: "non_empty_val ''economic event id'' (field ''id'' v) = Inr i"
    and subj: "non_empty_val ''economic event subject'' (field ''subject'' v) = Inr subj"
    and occ: "instant_val ''economic event occurredAt'' (field ''occurredAt'' v) = Inr occ"
    and rec: "instant_val ''economic event recordedAt'' (field ''recordedAt'' v) = Inr rec"
    and amount: "canonical_amount (field ''amount'' v) = Inr amount"
    and guards: "\<not> (k = UsageObserved \<and> amount \<noteq> None)" "\<not> (k \<in> set monetary_event_kinds \<and> amount = None)"
      "\<not> (role_of_kind k = RAdjustment \<and> sources = [])" "reversal \<noteq> Some i"
      "\<not> (k = AllocationReversed \<and> reversal = None)"
    and basis: "validate_event_basis k amount = Inr u1"
    and sources: "event_ids_val (field ''sourceEventIds'' v) = Inr sources"
    and reversal: "optional_text ''economic event reversalOf'' (field ''reversalOf'' v) = Inr reversal"
    and metadata: "optional_json lc (field ''metadata'' v) = Inr metadata"
    and control: "validate_control k amount metadata = Inr u2"
    and schema: "schema_version_val ''economic event schemaVersion'' (field ''schemaVersion'' v) = Inr schema"
    and made: "\<lparr>ev_id = i, ev_kind = k, ev_subject = subj, ev_occurred = occ, ev_recorded = rec,
            ev_amount = amount, ev_sources = sources, ev_reversal = reversal, ev_metadata = metadata,
            ev_schema = schema\<rparr> = e"
    unfolding economic_event_def bindE_Inr_iff if_Inl_Inr_iff sum.inject
    by (elim exE conjE) (rule that; assumption)
  note e = made [symmetric]
  have "trim i = i \<and> i \<noteq> []" "trim subj = subj \<and> subj \<noteq> []"
    using i subj by (auto dest!: non_empty_val_Inr)
  moreover have "\<bar>occ\<bar> \<le> max_time" "\<bar>rec\<bar> \<le> max_time"
    using instant_val_bound [OF occ] instant_val_bound [OF rec] .
  moreover have "canonical_json lc metadata" by (rule optional_json_Inr [OF assms(1) metadata])
  moreover have "trim r = r \<and> r \<noteq> []" if "reversal = Some r" for r
    using optional_text_Inr reversal that by blast
  ultimately have "event_shape lc e"
    using canonical_amount_canonical [OF amount] event_ids_val_Inr [OF sources] schema unfolding e by (auto simp: event_shape_def schema_version_Inr)
  moreover have "event_rules e"
    using guards basis control unfolding e by (auto simp: event_rules_def validate_event_basis_Inr)
  ultimately show ?thesis by (simp add: canonical_event_def)
qed

lemma economic_event_json:
  assumes "canonical_event lc e"
  shows "economic_event_to_json lc e
      = Inr (event_object (case ev_amount e of None \<Rightarrow> JNull | Some m \<Rightarrow> money_to_json m) e)"
    "economic_event_from_json lc (event_object (case ev_amount e of None \<Rightarrow> JNull | Some m \<Rightarrow> money_to_json m) e) = Inr e"
proof -
  show "economic_event_to_json lc e
      = Inr (event_object (case ev_amount e of None \<Rightarrow> JNull | Some m \<Rightarrow> money_to_json m) e)"
    by (simp add: economic_event_to_json_def economic_event_canonical [OF assms])
  have rebuild: "JObj [(''id'', JStr (ev_id e)), (''kind'', JStr (kind_name (ev_kind e))), (''subject'', JStr (ev_subject e)),
           (''occurredAt'', JStr (to_iso (ev_occurred e))), (''recordedAt'', JStr (to_iso (ev_recorded e))),
           (''amount'', a), (''sourceEventIds'', JArr (map JStr (ev_sources e))),
           (''reversalOf'', text_or_null (ev_reversal e)), (''metadata'', ev_metadata e),
           (''schemaVersion'', JNum (of_int (ev_schema e)))] = event_object a e" for a
    by (simp add: event_object_def)
  note made = economic_event_canonical [OF assms, unfolded event_value_def]
  show "economic_event_from_json lc (event_object (case ev_amount e of None \<Rightarrow> JNull | Some m \<Rightarrow> money_to_json m) e) = Inr e"
  proof (cases "ev_amount e")
    case None
    then show ?thesis using made
      unfolding economic_event_from_json_def event_object_fields bindE_simps rebuild by simp
  next
    case (Some m)
    then have "canonical_money m" using assms by (simp add: canonical_event_def event_shape_def)
    then have j: "money_from_json (money_to_json m) = Inr m" by (rule money_json_roundtrip)
    moreover have "is_object (money_to_json m)" "money_to_json m \<noteq> JNull" by (simp_all add: money_to_json_def)
    ultimately show ?thesis using made Some
      unfolding economic_event_from_json_def event_object_fields bindE_simps rebuild by simp
  qed
qed

lemma economic_event_from_json_Inr:
  "comparator lc \<Longrightarrow> economic_event_from_json lc v = Inr e \<Longrightarrow> canonical_event lc e"
  by (auto simp: economic_event_from_json_def economic_event_Inr split: if_splits)

end
