(* ===== verification/Rate.thy ===== *)
theory Rate
  imports Money EpiTime
begin

text \<open>
  Exact rational rates (\<open>src/src/economics/rate.ts\<close>): reduction to lowest terms, conversion that is
  either exact or refused, and the selection of a historical rate from a bitemporal book with
  explicit supersession edges.
\<close>

section \<open>Rates\<close>

record exact_rate =
  numerator :: int
  denominator :: int
  source_unit :: string
  target_unit :: string
  valid_time :: "time_interval option"

definition interval_to_json :: "time_interval \<Rightarrow> jsval" where
  "interval_to_json i = JObj [(''from'', JStr (to_iso (from_ms i))), (''to'', JStr (to_iso (to_ms i)))]"

definition canonical_valid_time :: "jsval \<Rightarrow> time_interval res" where
  "canonical_valid_time v =
     (if \<not> is_object v then Inl ''rate validTime must be a half-open interval''
      else if \<not> keys_are [''from'', ''to''] v then Inl ''rate validTime contains unknown or missing fields''
      else case (field ''from'' v, field ''to'' v) of
        (JStr f, JStr t) \<Rightarrow>
          (case interval f t of Inl e \<Rightarrow> Inl (''rate validTime is invalid: '' @ e) | Inr i \<Rightarrow> Inr i)
      | _ \<Rightarrow> Inl ''rate validTime bounds must be canonical timestamps'')"

text \<open>The loop of \<open>gcd\<close> on absolute values.\<close>

function gcd_loop :: "int \<Rightarrow> int \<Rightarrow> int" where
  "gcd_loop x y = (if y = 0 then x else gcd_loop y (x mod y))"
  by auto
termination by (relation "measure (\<lambda>(x, y). nat \<bar>y\<bar>)") (auto simp: abs_mod_less)

declare gcd_loop.simps [simp del]

definition rate_gcd :: "int \<Rightarrow> int \<Rightarrow> int" where
  "rate_gcd a b = gcd_loop \<bar>a\<bar> \<bar>b\<bar>"

definition exact_rate :: "int \<Rightarrow> int \<Rightarrow> string \<Rightarrow> string \<Rightarrow> jsval \<Rightarrow> exact_rate res" where
  "exact_rate num den su tu vt =
     (if den = 0 then Inl ''rate denominator must be non-zero''
      else
     bindE (non_empty ''rate source unit'' su) (\<lambda>su'.
     bindE (non_empty ''rate target unit'' tu) (\<lambda>tu'.
       let s = (if den < 0 then - 1 else 1);
           n = num * s; d = den * s; common = rate_gcd n d;
           n' = (if common \<noteq> 0 then n div common else n);
           d' = (if common \<noteq> 0 then d div common else d)
       in bindE (if vt = JUndefined then Inr None
                 else bindE (canonical_valid_time vt) (\<lambda>i. Inr (Some i))) (\<lambda>vt'.
          Inr \<lparr>numerator = n', denominator = d', source_unit = su', target_unit = tu',
               valid_time = vt'\<rparr>))))"

text \<open>The two loops of \<open>terminatingDecimal\<close> that divide out 2 and 5.  They start from a positive
  \<open>d\<close>, which is what the guard \<open>0 < d\<close> repeats.\<close>

function strip_factor :: "int \<Rightarrow> int \<Rightarrow> nat \<Rightarrow> int \<times> nat" where
  "strip_factor k d c =
     (if 0 < d \<and> 1 < k \<and> d mod k = 0 then strip_factor k (d div k) (Suc c) else (d, c))"
  by auto
termination
  by (relation "measure (\<lambda>(k, d, c). nat d)") (auto simp: div_less_dividend int_div_less_self)

declare strip_factor.simps [simp del]

definition terminating_decimal :: "int \<Rightarrow> int \<Rightarrow> string option res" where
  "terminating_decimal num den =
     (if den \<le> 0 then Inl ''internal denominator must be positive''
      else if num = 0 then Inr (Some ''0'')
      else
       let n = \<bar>num\<bar>; common = rate_gcd n den; n' = n div common; d = den div common;
           (d2, twos) = strip_factor 2 d 0; (d5, fives) = strip_factor 5 d2 0
       in if d5 \<noteq> 1 then Inr None
          else let sc = max twos fives;
                   scaled = n' * 2 ^ (sc - twos) * 5 ^ (sc - fives);
                   digits = pad_start (sc + 1) (show_int scaled);
                   sign = (if num < 0 then ''-'' else [])
               in Inr (Some (if sc = 0 then sign @ digits
                  else let split = length digits - sc
                       in sign @ take split digits @ ''.'' @ drop split digits)))"

definition apply_exact_rate :: "money \<Rightarrow> exact_rate \<Rightarrow> string \<Rightarrow> money res" where
  "apply_exact_rate v r target_basis =
     (if currency v \<noteq> source_unit r then Inl ''rate source unit mismatch''
      else bindE (terminating_decimal (coefficient v * numerator r) (10 ^ scale v * denominator r)) (\<lambda>dec.
        case dec of
          None \<Rightarrow> Inl ''non-terminating conversion requires an explicit quantization policy''
        | Some text \<Rightarrow> money text (target_unit r) target_basis))"

definition rate_to_json :: "exact_rate \<Rightarrow> jsval" where
  "rate_to_json r =
     JObj ([(''numerator'', JStr (show_int (numerator r))), (''denominator'', JStr (show_int (denominator r))),
            (''sourceUnit'', JStr (source_unit r)), (''targetUnit'', JStr (target_unit r))]
           @ (case valid_time r of None \<Rightarrow> [] | Some i \<Rightarrow> [(''validTime'', interval_to_json i)]))"

text \<open>\<open>/^-?(?:0|[1-9]\\d*)$/.test(v)\<close> followed by \<open>BigInt(v)\<close>: \<open>test\<close> coerces its argument to a
  string, so an integral number below \<open>10^21\<close> and a \<open>BigInt\<close> pass as well as a string, and so does
  an array of one such value, whose text is that of its element.\<close>

fun integer_text :: "jsval \<Rightarrow> int option" where
  "integer_text (JStr s) = (if canonical_int_text s then Some (read_int s) else None)"
| "integer_text (JNum r) = (if of_int \<lfloor>r\<rfloor> = r \<and> \<bar>\<lfloor>r\<rfloor>\<bar> < 10 ^ 21 then Some \<lfloor>r\<rfloor> else None)"
| "integer_text (JBigInt i) = Some i"
| "integer_text (JArr [x]) = integer_text x"
| "integer_text _ = None"

fun as_string :: "string \<Rightarrow> jsval \<Rightarrow> string res" where
  "as_string label (JStr s) = Inr s"
| "as_string label _ = Inl (label @ '' must be a non-empty string'')"

definition rate_from_json :: "jsval \<Rightarrow> exact_rate res" where
  "rate_from_json v =
     (case integer_text (field ''numerator'' v) of
        None \<Rightarrow> Inl ''rate numerator must be a canonical integer string''
      | Some n \<Rightarrow> (case integer_text (field ''denominator'' v) of
          None \<Rightarrow> Inl ''rate denominator must be a canonical integer string''
        | Some d \<Rightarrow>
            if d = 0 then Inl ''rate denominator must be non-zero''
            else bindE (as_string ''rate source unit'' (field ''sourceUnit'' v)) (\<lambda>su.
                 bindE (as_string ''rate target unit'' (field ''targetUnit'' v)) (\<lambda>tu.
                   exact_rate n d su tu (field ''validTime'' v)))))"

section \<open>Lowest terms\<close>

definition rate_value :: "exact_rate \<Rightarrow> rat" where
  "rate_value r = of_int (numerator r) / of_int (denominator r)"

definition canonical_rate :: "exact_rate \<Rightarrow> bool" where
  "canonical_rate r =
     (0 < denominator r \<and> coprime (numerator r) (denominator r)
      \<and> trim (source_unit r) = source_unit r \<and> source_unit r \<noteq> []
      \<and> trim (target_unit r) = target_unit r \<and> target_unit r \<noteq> []
      \<and> (\<forall>i. valid_time r = Some i \<longrightarrow> from_ms i < to_ms i \<and> \<bar>from_ms i\<bar> \<le> max_time \<and> \<bar>to_ms i\<bar> \<le> max_time))"

lemma gcd_loop_gcd: "0 \<le> x \<Longrightarrow> 0 \<le> y \<Longrightarrow> gcd_loop x y = gcd x y"
proof (induction x y rule: gcd_loop.induct)
  case (1 x y)
  show ?case
  proof (cases "y = 0")
    case True
    then show ?thesis using "1.prems" by (simp add: gcd_loop.simps [of x 0])
  next
    case False
    then have "gcd_loop y (x mod y) = gcd y (x mod y)" using 1 by simp
    then show ?thesis using False by (simp add: gcd_loop.simps [of x y] gcd_red_int [symmetric] gcd.commute)
  qed
qed

lemma rate_gcd_gcd [simp]: "rate_gcd a b = gcd a b"
  by (simp add: rate_gcd_def gcd_loop_gcd)

lemma interval_to_json_roundtrip:
  assumes "from_ms i < to_ms i" "\<bar>from_ms i\<bar> \<le> max_time" "\<bar>to_ms i\<bar> \<le> max_time"
  shows "canonical_valid_time (interval_to_json i) = Inr i"
  using assms by (simp add: canonical_valid_time_def interval_to_json_def keys_are_def interval_def interval_of_def)

lemma canonical_valid_time_Inr:
  assumes "canonical_valid_time v = Inr i"
  shows "from_ms i < to_ms i" "\<bar>from_ms i\<bar> \<le> max_time" "\<bar>to_ms i\<bar> \<le> max_time"
  using assms
  by (auto simp: canonical_valid_time_def interval_def interval_of_Inr instant_iff
      split: if_splits jsval.splits sum.splits)

lemma interval_to_json_not_undefined [simp]: "interval_to_json i \<noteq> JUndefined"
  by (simp add: interval_to_json_def)

lemma reduce_value:
  fixes num den :: int
  assumes "den \<noteq> 0"
  defines "n \<equiv> num * (if den < 0 then - 1 else 1)" and "d \<equiv> den * (if den < 0 then - 1 else 1)"
  shows "0 < d div gcd n d" "coprime (n div gcd n d) (d div gcd n d)"
    "of_int (n div gcd n d) / of_int (d div gcd n d) = (of_int num / of_int den :: rat)"
proof -
  have d: "0 < d" using assms(1) by (simp add: d_def)
  then have g: "gcd n d \<noteq> 0" "0 < gcd n d" by simp_all
  show "0 < d div gcd n d" using d by (simp add: zdiv_int pos_imp_zdiv_pos_iff zdvd_imp_le)
  show "coprime (n div gcd n d) (d div gcd n d)" using g by (simp add: div_gcd_coprime)
  have "n = n div gcd n d * gcd n d" "d = d div gcd n d * gcd n d" by simp_all
  then have "of_int n / of_int d = (of_int (n div gcd n d * gcd n d) / of_int (d div gcd n d * gcd n d) :: rat)"
    by simp
  also have "\<dots> = of_int (n div gcd n d) * of_int (gcd n d) / (of_int (d div gcd n d) * of_int (gcd n d))"
    by (simp only: of_int_mult)
  also have "\<dots> = of_int (n div gcd n d) / of_int (d div gcd n d)"
    using g by (intro mult_divide_mult_cancel_right) simp
  finally show "of_int (n div gcd n d) / of_int (d div gcd n d) = (of_int num / of_int den :: rat)"
    by (simp add: n_def d_def split: if_splits)
qed

lemma exact_rate_Inr:
  assumes "exact_rate num den su tu vt = Inr r"
  shows "den \<noteq> 0" "canonical_rate r" "rate_value r = of_int num / of_int den"
    "source_unit r = trim su" "target_unit r = trim tu" "valid_time r = None \<longleftrightarrow> vt = JUndefined"
    "valid_time r = Some i \<Longrightarrow> canonical_valid_time vt = Inr i"
proof -
  let ?s = "if den < 0 then - 1 else 1 :: int"
  let ?n = "num * ?s" and ?d = "den * ?s"
  show den: "den \<noteq> 0" using assms by (auto simp: exact_rate_def)
  then have g: "gcd ?n ?d \<noteq> 0" by simp
  from assms den obtain su' tu' vt' where units: "non_empty ''rate source unit'' su = Inr su'"
      "non_empty ''rate target unit'' tu = Inr tu'"
    and vt: "(if vt = JUndefined then Inr None else bindE (canonical_valid_time vt) (\<lambda>i. Inr (Some i))) = Inr vt'"
    and r: "r = \<lparr>numerator = ?n div gcd ?n ?d, denominator = ?d div gcd ?n ?d, source_unit = su',
      target_unit = tu', valid_time = vt'\<rparr>"
    using g by (auto simp: exact_rate_def Let_def split del: if_split)
  note red = reduce_value [OF den, of num]
  show "rate_value r = of_int num / of_int den" using red(3) r by (simp add: rate_value_def)
  show "source_unit r = trim su" "target_unit r = trim tu" using units r by (auto dest: non_empty_Inr)
  show "valid_time r = None \<longleftrightarrow> vt = JUndefined" using vt r by (auto split: if_splits)
  show canon: "valid_time r = Some i \<Longrightarrow> canonical_valid_time vt = Inr i" for i
    using vt r by (auto split: if_splits)
  show "canonical_rate r"
    using red(1,2) units canonical_valid_time_Inr [of vt] canon unfolding canonical_rate_def
    by (auto simp: r dest!: non_empty_Inr)
qed

lemma exact_rate_canonical:
  assumes "canonical_rate r"
  shows "exact_rate (numerator r) (denominator r) (source_unit r) (target_unit r)
           (case valid_time r of None \<Rightarrow> JUndefined | Some i \<Rightarrow> interval_to_json i) = Inr r"
proof -
  have "gcd (numerator r) (denominator r) = 1" "0 < denominator r"
    using assms by (simp_all add: canonical_rate_def coprime_iff_gcd_eq_1)
  then show ?thesis using assms
    by (cases "valid_time r")
      (simp_all add: exact_rate_def non_empty_canonical canonical_rate_def Let_def interval_to_json_roundtrip)
qed

lemma rate_json_roundtrip:
  assumes "canonical_rate r"
  shows "rate_from_json (rate_to_json r) = Inr r"
proof -
  have "denominator r \<noteq> 0" using assms by (simp add: canonical_rate_def)
  then show ?thesis using exact_rate_canonical [OF assms]
    by (cases "valid_time r") (simp_all add: rate_from_json_def rate_to_json_def)
qed

lemma rate_from_json_Inr:
  assumes "rate_from_json v = Inr r"
  shows "canonical_rate r"
  using assms exact_rate_Inr(2) by (auto simp: rate_from_json_def split: option.splits if_splits)

lemma canonical_rate_unique:
  assumes "canonical_rate q" "canonical_rate r" "rate_value q = rate_value r"
  shows "numerator q = numerator r \<and> denominator q = denominator r"
proof -
  have *: "of_int (numerator q) * of_int (denominator r) = (of_int (numerator r) * of_int (denominator q) :: rat)"
    using assms by (simp add: rate_value_def canonical_rate_def frac_eq_eq)
  then have cross: "numerator q * denominator r = numerator r * denominator q"
    by (metis of_int_eq_iff of_int_mult)
  have "denominator q dvd denominator r" "denominator r dvd denominator q"
    using assms(1,2) cross unfolding canonical_rate_def
    by (metis coprime_commute coprime_dvd_mult_right_iff dvd_triv_right)+
  then have "denominator q = denominator r"
    using assms(1,2) by (intro zdvd_antisym_nonneg) (simp_all add: canonical_rate_def)
  then show ?thesis using cross assms(1) by (simp add: canonical_rate_def)
qed

section \<open>Conversion is exact or refused\<close>

lemma strip_factor_result:
  assumes "strip_factor k d c = (d', c')" "0 < d" "1 < k"
  shows "d = d' * k ^ (c' - c) \<and> c \<le> c' \<and> 0 < d' \<and> \<not> k dvd d'"
  using assms
proof (induction k d c rule: strip_factor.induct)
  case (1 k d c)
  show ?case
  proof (cases "d mod k = 0")
    case True
    then have rec: "strip_factor k (d div k) (Suc c) = (d', c')" and pos: "0 < d div k"
      using "1.prems" by (auto simp: strip_factor.simps [of k d c] pos_imp_zdiv_pos_iff zdvd_imp_le)
    have IH: "d div k = d' * k ^ (c' - Suc c)" "Suc c \<le> c'" "0 < d'" "\<not> k dvd d'"
      using "1.IH" [OF _ rec pos] True "1.prems" by auto
    have "d = d div k * k" using True by (simp add: dvd_eq_mod_eq_0)
    also have "\<dots> = d' * k ^ (c' - c)"
      using IH(1,2) by (simp add: mult.assoc power_Suc2 [symmetric] Suc_diff_Suc del: power_Suc)
    finally show ?thesis using IH by simp
  next
    case False
    then show ?thesis using "1.prems" by (auto simp: strip_factor.simps [of k d c])
  qed
qed

lemma coprime_five:
  fixes d :: int
  assumes "\<not> 5 dvd d"
  shows "coprime 5 d"
proof -
  define g where "g = gcd 5 d"
  have "g dvd 5" "g dvd d" "0 < g" by (simp_all add: g_def)
  then have "g \<le> 5" by (simp add: zdvd_imp_le)
  moreover have "\<not> 2 dvd (5 :: int)" "\<not> 3 dvd (5 :: int)" "\<not> 4 dvd (5 :: int)" by simp_all
  then have "g \<noteq> 2" "g \<noteq> 3" "g \<noteq> 4" "g \<noteq> 5" using \<open>g dvd 5\<close> \<open>g dvd d\<close> assms by auto
  ultimately have "g = 1" using \<open>0 < g\<close> by linarith
  then show ?thesis by (simp add: g_def coprime_iff_gcd_eq_1)
qed

lemma coprime_ten_power:
  fixes d :: int
  assumes "\<not> 2 dvd d" "\<not> 5 dvd d"
  shows "coprime d (10 ^ k)"
proof -
  have "coprime (2 * 5) d"
    using assms coprime_five [of d] by (simp only: coprime_mult_left_iff coprime_left_2_iff_odd) simp
  then show ?thesis by (simp add: coprime_commute)
qed

text \<open>Which quotients have a finite decimal expansion: exactly those whose reduced denominator has
  no prime factor other than 2 and 5.\<close>

definition finite_decimal :: "rat \<Rightarrow> bool" where
  "finite_decimal x = (\<exists>k. \<exists>z::int. x * 10 ^ k = of_int z)"

lemma finite_decimal_reduced:
  fixes n d :: int
  assumes "finite_decimal (of_int n / of_int d)" "0 < d" "coprime n d" "d = f * e" "\<not> 2 dvd e" "\<not> 5 dvd e" "0 < e"
  shows "e = 1"
proof -
  from assms(1) obtain k z where "of_int n / of_int d * 10 ^ k = (of_int z :: rat)"
    by (auto simp: finite_decimal_def)
  then have "of_int n * 10 ^ k = (of_int z * of_int d :: rat)" using \<open>0 < d\<close> by (simp add: field_simps)
  then have "n * 10 ^ k = z * d" by (metis of_int_eq_iff of_int_mult of_int_numeral of_int_power)
  then have "d dvd n * 10 ^ k" by simp
  then have "d dvd 10 ^ k" using \<open>coprime n d\<close> by (simp add: coprime_commute coprime_dvd_mult_right_iff)
  then have "e dvd 10 ^ k" using assms(4) by (metis dvd_mult_right mult.commute dvd_trans dvd_triv_right)
  moreover have "coprime e (10 ^ k)" by (rule coprime_ten_power) fact+
  ultimately have "is_unit e" by (metis coprime_common_divisor dvd_refl)
  then show ?thesis using \<open>0 < e\<close> by simp
qed

lemma finite_decimal_uminus: "finite_decimal (- x) \<longleftrightarrow> finite_decimal x"
proof -
  have "finite_decimal (- y)" if "finite_decimal y" for y
  proof -
    from that obtain k z where "y * 10 ^ k = of_int z" by (auto simp: finite_decimal_def)
    then have "- y * 10 ^ k = of_int (- z)" by simp
    then show ?thesis unfolding finite_decimal_def by blast
  qed
  from this [of x] this [of "- x"] show ?thesis by auto
qed

lemma ten_power_split:
  assumes "a \<le> k" "b \<le> k"
  shows "2 ^ a * 5 ^ b * (2 ^ (k - a) * 5 ^ (k - b)) = (10 ^ k :: int)"
proof -
  have "2 ^ a * 2 ^ (k - a) = (2 ^ k :: int)" "5 ^ b * 5 ^ (k - b) = (5 ^ k :: int)"
    using assms by (simp_all flip: power_add)
  then have "2 ^ a * 5 ^ b * (2 ^ (k - a) * 5 ^ (k - b)) = (2 ^ k * 5 ^ k :: int)"
    by (simp add: mult.assoc mult.left_commute)
  then show ?thesis by (simp flip: power_mult_distrib)
qed

lemma pad_start_one: "pad_start (Suc 0) (show_nat n) = show_nat n"
  using padded_parts(6) [of 0 n] by simp

text \<open>The digits that \<open>terminatingDecimal\<close> prints do not end in a zero after the point: it prints at
  the smallest scale the value has.\<close>

lemma scaled_not_ten:
  fixes n :: int
  assumes "coprime n (2 ^ twos * 5 ^ fives)" "0 \<le> n" "0 < max twos fives"
  shows "nat (n * 2 ^ (max twos fives - twos) * 5 ^ (max twos fives - fives)) mod 10 \<noteq> 0"
proof
  let ?s = "n * 2 ^ (max twos fives - twos) * 5 ^ (max twos fives - fives)"
  assume zero: "nat ?s mod 10 = 0"
  have pos: "0 \<le> ?s" using assms(2) by simp
  have "z mod 10 = 0" if "nat z mod 10 = 0" "0 \<le> z" for z :: int
    using that by (metis nat_0_le of_nat_0 of_nat_mod of_nat_numeral)
  from this [OF zero pos] have "?s mod 10 = 0" .
  then have ten: "10 dvd ?s" by (rule mod_0_imp_dvd)
  have "2 dvd ?s" by (rule dvd_trans [OF _ ten]) simp
  moreover have "5 dvd ?s" by (rule dvd_trans [OF _ ten]) simp
  ultimately have d: "2 dvd ?s" "5 dvd ?s" by simp_all
  have c: "coprime n (2 ^ twos)" "coprime n (5 ^ fives)" using assms(1) by simp_all
  show False
  proof (cases "fives \<le> twos")
    case True
    then have "odd n" using c(1) assms(3) by simp
    then show False using d(1) True by (simp add: max_def)
  next
    case False
    have "coprime (5 :: int) 2" by simp
    then have "coprime (5 :: int) (2 ^ (fives - twos))" by simp
    then have "5 dvd n" using d(2) False by (simp add: max_def coprime_dvd_mult_left_iff)
    moreover have "coprime n 5" using c(2) False by simp
    ultimately show False using coprime_common_divisor [of n 5 5] by simp
  qed
qed

lemma terminating_decimal_cases:
  assumes "0 < den"
  shows "\<exists>d. terminating_decimal num den = Inr d \<and>
    (case d of None \<Rightarrow> \<not> finite_decimal (of_int num / of_int den)
     | Some t \<Rightarrow> \<exists>n sc. t = decimal_text (num < 0) n sc \<and> (0 < sc \<longrightarrow> n mod 10 \<noteq> 0)
         \<and> of_int num / of_int den = (if num < 0 then - of_nat n else of_nat n) / (10 :: rat) ^ sc)"
proof (cases "num = 0")
  case True
  have "decimal_text False 0 0 = ''0''" by (simp add: decimal_text_split show_nat.simps)
  then show ?thesis using True assms by (auto simp: terminating_decimal_def intro!: exI [of _ 0])
next
  case False
  define g where "g = gcd num den"
  define n where "n = \<bar>num\<bar> div g"
  define d where "d = den div g"
  obtain d2 twos where s2: "strip_factor 2 d 0 = (d2, twos)" by fastforce
  obtain d5 fives where s5: "strip_factor 5 d2 0 = (d5, fives)" by fastforce
  have g: "0 < g" using assms by (simp add: g_def)
  have red: "0 < d" "coprime n d" "of_int n / of_int d = (of_int \<bar>num\<bar> / of_int den :: rat)"
    using reduce_value [of den "\<bar>num\<bar>"] assms by (simp_all add: n_def d_def g_def)
  have r2: "d = d2 * 2 ^ twos" "0 < d2" "\<not> 2 dvd d2" using strip_factor_result [OF s2 red(1)] by auto
  have r5: "d2 = d5 * 5 ^ fives" "0 < d5" "\<not> 5 dvd d5" using strip_factor_result [OF s5 r2(2)] by auto
  have odd5: "\<not> 2 dvd d5" using r2(3) r5(1) by auto
  have de: "d = (2 ^ twos * 5 ^ fives) * d5" using r2(1) r5(1) by simp
  have n0: "0 \<le> n" using g by (simp add: n_def pos_imp_zdiv_nonneg_iff)
  have fold: "gcd \<bar>num\<bar> den = g" by (simp add: g_def)
  have "0 \<le> n * 2 ^ (max twos fives - twos) * 5 ^ (max twos fives - fives)" using n0 by simp
  then have si: "show_int (n * 2 ^ (max twos fives - twos) * 5 ^ (max twos fives - fives)) =
      show_nat (nat (n * 2 ^ (max twos fives - twos) * 5 ^ (max twos fives - fives)))"
    unfolding show_int_def by (metis not_less)
  have td: "terminating_decimal num den =
      (if d5 \<noteq> 1 then Inr None
       else Inr (Some (decimal_text (num < 0)
         (nat (n * 2 ^ (max twos fives - twos) * 5 ^ (max twos fives - fives))) (max twos fives))))"
    unfolding terminating_decimal_def rate_gcd_gcd fold Let_def n_def [symmetric] d_def [symmetric] s2 s5 prod.case
      decimal_text_split si
    using False assms by (simp add: pad_start_one)
  show ?thesis
  proof (cases "d5 = 1")
    case ne: False
    have "\<not> finite_decimal (of_int \<bar>num\<bar> / of_int den)"
      using finite_decimal_reduced [OF _ red(1,2) de odd5 r5(3,2)] ne unfolding red(3) by blast
    then have "\<not> finite_decimal (of_int num / of_int den)"
      by (cases "num < 0") (simp_all add: finite_decimal_uminus)
    then show ?thesis using td ne by (intro exI [of _ None]) simp
  next
    case True
    define sc where "sc = max twos fives"
    define scaled where "scaled = n * 2 ^ (sc - twos) * 5 ^ (sc - fives)"
    have sc0: "0 \<le> scaled" using n0 by (simp add: scaled_def)
    have minimal: "nat scaled mod 10 \<noteq> 0" if "0 < sc"
      unfolding scaled_def using scaled_not_ten [of n twos fives] red(2) de True that n0
      by (auto simp: sc_def)
    have dp: "d * (2 ^ (sc - twos) * 5 ^ (sc - fives)) = 10 ^ sc"
      using de True ten_power_split [of twos sc fives] by (simp add: sc_def)
    have "of_int n / of_int d = (of_int (n * (2 ^ (sc - twos) * 5 ^ (sc - fives)))
        / of_int (d * (2 ^ (sc - twos) * 5 ^ (sc - fives))) :: rat)"
      unfolding of_int_mult by (rule mult_divide_mult_cancel_right [symmetric]) simp
    also have "\<dots> = of_int scaled / 10 ^ sc" unfolding dp by (simp add: scaled_def mult.assoc)
    finally have val: "of_int \<bar>num\<bar> / of_int den = (of_nat (nat scaled) / 10 ^ sc :: rat)"
      using red(3) sc0 by simp
    have "terminating_decimal num den = Inr (Some (decimal_text (num < 0) (nat scaled) sc))"
      using td True by (simp add: sc_def scaled_def)
    moreover have "of_int num / of_int den = (if num < 0 then - of_nat (nat scaled) else of_nat (nat scaled)) / (10 :: rat) ^ sc"
      using val by (cases "num < 0") simp_all
    ultimately show ?thesis using minimal by (intro exI [of _ "Some _"] conjI) (auto intro!: exI)
  qed
qed

lemma decimal_scale_unique:
  fixes c z :: int
  assumes eq: "c * 10 ^ t = z * 10 ^ s" and "0 < s \<Longrightarrow> c mod 10 \<noteq> 0" "0 < t \<Longrightarrow> z mod 10 \<noteq> 0"
  shows "t = s \<and> c = z"
proof -
  have "\<not> s < t" if "0 < t \<Longrightarrow> z mod 10 \<noteq> 0" "c * 10 ^ t = z * 10 ^ s" for c z :: int and s t
  proof
    assume "s < t"
    then obtain k where k: "t = s + Suc k" using less_imp_Suc_add by fastforce
    have "(c * 10 ^ Suc k) * 10 ^ s = z * 10 ^ s" using that(2) by (simp only: k power_add ac_simps)
    then have "z = c * 10 ^ Suc k" by simp
    then have "z mod 10 = 0" by simp
    then show False using that(1) \<open>s < t\<close> by simp
  qed
  from this [of t z c s] this [of s c z t] assms have "t = s" by (metis linorder_neqE_nat)
  then show ?thesis using eq by simp
qed

text \<open>An amount printed at its smallest scale is accepted by \<open>money\<close> whenever some canonical amount
  has its value.\<close>

lemma smallest_text_accepted:
  assumes m: "canonical_money m"
    and val: "money_value m = (if neg then - of_nat n else of_nat n) / 10 ^ sc"
    and minimal: "0 < sc \<longrightarrow> n mod 10 \<noteq> 0"
  shows "\<exists>c. money (decimal_text neg n sc) (currency m) (basis_name (basis m)) = Inr c"
proof -
  define z where "z = (if neg then - int n else int n)"
  have eq: "coefficient m * 10 ^ sc = z * 10 ^ scale m"
  proof -
    have "of_int (coefficient m) / 10 ^ scale m = (of_int z / 10 ^ sc :: rat)"
      using val by (simp add: money_value_def z_def)
    then have "of_int (coefficient m * 10 ^ sc) = (of_int (z * 10 ^ scale m) :: rat)" by (simp add: field_simps)
    then show ?thesis by (simp only: of_int_eq_iff)
  qed
  have z10: "z mod 10 \<noteq> 0" if "0 < sc" using minimal that unfolding z_def by (cases neg) presburger+
  have same: "sc = scale m \<and> coefficient m = z"
    using decimal_scale_unique [OF eq _ z10] m by (auto simp: canonical_money_def)
  then have "n = nat \<bar>coefficient m\<bar>" by (simp add: z_def split: if_splits)
  moreover have "assert_currency (currency m) = Inr (currency m)" "assert_scale (int (scale m)) = Inr (scale m)"
    and len: "\<not> max_money_coefficient_digits < max (scale m + 1) (length (show_nat (nat \<bar>coefficient m\<bar>)))"
    using m by (simp_all add: canonical_money_def assert_scale_def coefficient_digits_def not_less
        max_money_scale_def max_money_coefficient_digits_def)
  ultimately show ?thesis
    unfolding money_decimal_text using same normalize_canonical [OF m] by (simp add: z_def)
qed

lemma apply_exact_rate_cases:
  fixes v :: money and r :: exact_rate
  assumes "0 < denominator r"
  defines "x \<equiv> money_value v * rate_value r"
  shows "apply_exact_rate v r b = Inr m \<Longrightarrow> currency v = source_unit r \<and> canonical_money m
      \<and> money_value m = x \<and> currency m = target_unit r \<and> basis_name (basis m) = b"
    "apply_exact_rate v r b = Inl ''non-terminating conversion requires an explicit quantization policy''
      \<longleftrightarrow> currency v = source_unit r \<and> \<not> finite_decimal x"
    "apply_exact_rate v r b = Inl e \<Longrightarrow> currency v = source_unit r \<Longrightarrow> canonical_money m \<Longrightarrow>
      money_value m = x \<Longrightarrow> currency m = target_unit r \<Longrightarrow> basis_name (basis m) = b \<Longrightarrow> False"
proof -
  define num where "num = coefficient v * numerator r"
  define den where "den = 10 ^ scale v * denominator r"
  have den: "0 < den" using assms by (simp add: den_def)
  have x: "x = of_int num / of_int den"
    by (simp add: x_def money_value_def rate_value_def num_def den_def)
  from terminating_decimal_cases [OF den, of num, folded x] obtain d where
    td: "terminating_decimal num den = Inr d" and
    d: "case d of None \<Rightarrow> \<not> finite_decimal x
      | Some t \<Rightarrow> \<exists>n sc. t = decimal_text (num < 0) n sc \<and> (0 < sc \<longrightarrow> n mod 10 \<noteq> 0)
        \<and> x = (if num < 0 then - of_nat n else of_nat n) / 10 ^ sc"
    by blast
  have ap: "apply_exact_rate v r b =
      (if currency v \<noteq> source_unit r then Inl ''rate source unit mismatch''
       else case d of None \<Rightarrow> Inl ''non-terminating conversion requires an explicit quantization policy''
         | Some text \<Rightarrow> money text (target_unit r) b)"
    using td by (simp add: apply_exact_rate_def num_def den_def)
  have fin: "finite_decimal x" and val: "money t (target_unit r) b = Inr m \<Longrightarrow> money_value m = x"
    and no: "money t (target_unit r) b \<noteq> Inl ''non-terminating conversion requires an explicit quantization policy''"
    if t: "d = Some t" for t m
  proof -
    obtain n sc where n: "t = decimal_text (num < 0) n sc" "x = (if num < 0 then - of_nat n else of_nat n) / 10 ^ sc"
      using d t by auto
    have "x * 10 ^ sc = of_int (if num < 0 then - int n else int n)" using n(2) by simp
    then show "finite_decimal x" unfolding finite_decimal_def by blast
    show "money_value m = x" if "money t (target_unit r) b = Inr m"
    proof -
      from that obtain cur b' where "normalize (if num < 0 then - int n else int n) (int sc) cur b' = Inr m"
        unfolding n(1) money_decimal_text by (auto split: if_split_asm)
      from normalize_Inr(4) [OF this] show ?thesis using n(2) by simp
    qed
    show "money t (target_unit r) b \<noteq> Inl ''non-terminating conversion requires an explicit quantization policy''"
      unfolding n(1) money_decimal_text
      by (auto simp: bindE_def assert_currency_def assert_basis_def assert_scale_def normalize_def
          assert_coefficient_size_def split: sum.splits if_splits option.splits prod.splits)
  qed
  show "apply_exact_rate v r b = Inr m \<Longrightarrow> currency v = source_unit r \<and> canonical_money m
      \<and> money_value m = x \<and> currency m = target_unit r \<and> basis_name (basis m) = b"
    unfolding ap using val by (auto split: option.splits if_splits dest: money_Inr)
  show "apply_exact_rate v r b = Inl ''non-terminating conversion requires an explicit quantization policy''
      \<longleftrightarrow> currency v = source_unit r \<and> \<not> finite_decimal x"
    unfolding ap using d fin no by (cases d) auto
  show "apply_exact_rate v r b = Inl e \<Longrightarrow> currency v = source_unit r \<Longrightarrow> canonical_money m \<Longrightarrow>
      money_value m = x \<Longrightarrow> currency m = target_unit r \<Longrightarrow> basis_name (basis m) = b \<Longrightarrow> False" for e m
  proof -
    assume no: "apply_exact_rate v r b = Inl e" "currency v = source_unit r"
      and m: "canonical_money m" "money_value m = x" "currency m = target_unit r" "basis_name (basis m) = b"
    have "x * 10 ^ scale m = of_int (coefficient m)" unfolding m(2) [symmetric] by (simp add: money_value_def)
    then have "finite_decimal x" unfolding finite_decimal_def by blast
    then obtain t n sc where t: "d = Some t" "t = decimal_text (num < 0) n sc" "0 < sc \<longrightarrow> n mod 10 \<noteq> 0"
      "x = (if num < 0 then - of_nat n else of_nat n) / 10 ^ sc" using d by (cases d) auto
    have acc: "\<exists>c. money t (target_unit r) b = Inr c"
      unfolding t(2) using smallest_text_accepted [OF m(1) _ t(3)] t(4) m(2-4) by metis
    then show False using no ap t(1) by simp
  qed
qed

section \<open>Historical rates\<close>

record rate_observation =
  obs_id :: string
  obs_rate :: exact_rate
  obs_source :: string
  obs_recorded :: instant_ms
  obs_supersedes :: "string option"

definition rate_keys_with_valid_time :: "string list" where
  "rate_keys_with_valid_time = [''denominator'', ''numerator'', ''sourceUnit'', ''targetUnit'', ''validTime'']"

definition observation_keys :: "string list" where
  "observation_keys = [''id'', ''rate'', ''rateSource'', ''recordedAt'', ''supersedes'']"

text \<open>Arithmetic on anything but a \<open>BigInt\<close> throws a \<open>TypeError\<close> in \<open>exactRate\<close>.\<close>

fun as_bigint :: "jsval \<Rightarrow> int res" where
  "as_bigint (JBigInt i) = Inr i"
| "as_bigint _ = Inl ''Cannot mix BigInt and other types''"

definition canonical_historical_observation :: "jsval \<Rightarrow> rate_observation res" where
  "canonical_historical_observation v =
     (if \<not> is_object v then Inl ''historical rate observation must be an object''
      else if \<not> keys_are observation_keys v
        \<and> \<not> keys_are (filter (\<lambda>k. k \<noteq> ''supersedes'') observation_keys) v
      then Inl ''historical rate observation contains unknown or missing fields''
      else
     bindE (non_empty_val ''historical rate observation id'' (field ''id'' v)) (\<lambda>i.
       let rv = field ''rate'' v in
       if \<not> is_object rv then Inl ''historical rate observation rate must be an exact rational rate''
       else if \<not> keys_are rate_keys_with_valid_time rv
       then Inl ''historical rate observation rate must carry exactly one validity interval''
       else
     bindE (as_bigint (field ''numerator'' rv)) (\<lambda>num.
     bindE (as_bigint (field ''denominator'' rv)) (\<lambda>den.
     bindE (as_string ''rate source unit'' (field ''sourceUnit'' rv)) (\<lambda>su.
     bindE (as_string ''rate target unit'' (field ''targetUnit'' rv)) (\<lambda>tu.
     bindE (exact_rate num den su tu (field ''validTime'' rv)) (\<lambda>r.
       if valid_time r = None then Inl ''historical rate observation requires a validity interval''
       else if numerator r \<le> 0 then Inl ''historical FX rate observation must be positive''
       else
     bindE (non_empty_val ''historical rate observation rateSource'' (field ''rateSource'' v)) (\<lambda>src.
     bindE (instant_val ''historical rate observation recordedAt'' (field ''recordedAt'' v)) (\<lambda>rec.
     bindE (case field ''supersedes'' v of
              JUndefined \<Rightarrow> Inr None | JNull \<Rightarrow> Inr None
            | w \<Rightarrow> bindE (non_empty_val ''historical rate observation supersedes'' w) (\<lambda>s. Inr (Some s)))
       (\<lambda>sup.
       if sup = Some i then Inl ''historical rate observation cannot supersede itself''
       else Inr \<lparr>obs_id = i, obs_rate = r, obs_source = src, obs_recorded = rec,
                 obs_supersedes = sup\<rparr>))))))))))"

definition same_validity :: "time_interval \<Rightarrow> time_interval \<Rightarrow> bool" where
  "same_validity a b = (from_ms a = from_ms b \<and> to_ms a = to_ms b)"

definition index_step :: "(string \<times> rate_observation) list \<Rightarrow> rate_observation
    \<Rightarrow> (string \<times> rate_observation) list res" where
  "index_step by_id ob =
     (if map_of by_id (obs_id ob) \<noteq> None then Inl ''duplicate historical rate observation''
      else Inr (AList.update (obs_id ob) ob by_id))"

definition supersession_step :: "(string \<times> rate_observation) list \<Rightarrow> (string \<times> string) list
    \<Rightarrow> rate_observation \<Rightarrow> (string \<times> string) list res" where
  "supersession_step by_id succ ob =
     (case obs_supersedes ob of None \<Rightarrow> Inr succ
      | Some target \<Rightarrow> (case map_of by_id target of
          None \<Rightarrow> Inl ''historical rate observation supersedes an unknown observation''
        | Some pre \<Rightarrow>
            if source_unit (obs_rate ob) \<noteq> source_unit (obs_rate pre)
              \<or> target_unit (obs_rate ob) \<noteq> target_unit (obs_rate pre)
            then Inl ''historical rate observation supersession changes source/target units''
            else if (case (valid_time (obs_rate ob), valid_time (obs_rate pre)) of
                       (Some a, Some b) \<Rightarrow> \<not> same_validity a b | _ \<Rightarrow> True)
            then Inl ''historical rate observation supersession must retain the predecessor validity interval''
            else if obs_recorded ob \<le> obs_recorded pre
            then Inl ''historical rate observation must be recorded after its superseded observation''
            else if map_of succ (obs_id pre) \<noteq> None
            then Inl ''historical rate observation has multiple superseding observations''
            else Inr (AList.update (obs_id pre) (obs_id ob) succ)))"

definition historical_rate_book :: "(string \<Rightarrow> string \<Rightarrow> int) \<Rightarrow> jsval list \<Rightarrow> rate_observation list res" where
  "historical_rate_book lc vs =
     bindE (mapE canonical_historical_observation vs) (\<lambda>canonical.
     bindE (foldE index_step [] canonical) (\<lambda>by_id.
     bindE (foldE (supersession_step by_id) [] canonical) (\<lambda>_.
       Inr (sort_by (\<lambda>a b. lc (obs_id a) (obs_id b)) canonical))))"

definition rate_value_of :: "exact_rate \<Rightarrow> jsval" where
  "rate_value_of r =
     JObj ([(''numerator'', JBigInt (numerator r)), (''denominator'', JBigInt (denominator r)),
            (''sourceUnit'', JStr (source_unit r)), (''targetUnit'', JStr (target_unit r))]
           @ (case valid_time r of None \<Rightarrow> [] | Some i \<Rightarrow> [(''validTime'', interval_to_json i)]))"

text \<open>The object a canonical observation is, as it is passed back to the constructor.\<close>

definition observation_value :: "rate_observation \<Rightarrow> jsval" where
  "observation_value o' =
     JObj [(''id'', JStr (obs_id o')), (''rate'', rate_value_of (obs_rate o')),
           (''rateSource'', JStr (obs_source o')), (''recordedAt'', JStr (to_iso (obs_recorded o'))),
           (''supersedes'', case obs_supersedes o' of None \<Rightarrow> JNull | Some s \<Rightarrow> JStr s)]"

definition historical_rate_observation_to_json :: "rate_observation \<Rightarrow> jsval res" where
  "historical_rate_observation_to_json v =
     bindE (canonical_historical_observation (observation_value v)) (\<lambda>item.
       if valid_time (obs_rate item) = None then Inl ''historical rate observation requires a validity interval''
       else Inr (JObj [(''id'', JStr (obs_id item)), (''rate'', rate_to_json (obs_rate item)),
           (''rateSource'', JStr (obs_source item)), (''recordedAt'', JStr (to_iso (obs_recorded item))),
           (''supersedes'', case obs_supersedes item of None \<Rightarrow> JNull | Some s \<Rightarrow> JStr s)]))"

definition canonical_historical_rate_json :: "jsval \<Rightarrow> rate_observation res" where
  "canonical_historical_rate_json v =
     (if \<not> is_object v then Inl ''historical rate observation JSON must be an object''
      else if \<not> keys_are observation_keys v
      then Inl ''historical rate observation JSON contains unknown or missing fields''
      else if \<not> is_object (field ''rate'' v) then Inl ''historical rate observation JSON rate must be an object''
      else if \<not> keys_are rate_keys_with_valid_time (field ''rate'' v)
      then Inl ''historical rate observation JSON rate must carry exactly one validity interval''
      else case rate_from_json (field ''rate'' v) of
        Inl e \<Rightarrow> Inl (''historical rate observation JSON rate is invalid: '' @ e)
      | Inr r \<Rightarrow> canonical_historical_observation
          (JObj [(''id'', field ''id'' v), (''rate'', rate_value_of r), (''rateSource'', field ''rateSource'' v),
                 (''recordedAt'', field ''recordedAt'' v), (''supersedes'', field ''supersedes'' v)]))"

definition historical_rate_book_to_json :: "(string \<Rightarrow> string \<Rightarrow> int) \<Rightarrow> rate_observation list \<Rightarrow> jsval res" where
  "historical_rate_book_to_json lc book =
     bindE (historical_rate_book lc (map observation_value book)) (\<lambda>canonical.
     bindE (mapE historical_rate_observation_to_json canonical) (\<lambda>js.
       Inr (JObj [(''observations'', JArr js)])))"

definition historical_rate_book_from_json :: "(string \<Rightarrow> string \<Rightarrow> int) \<Rightarrow> jsval \<Rightarrow> rate_observation list res" where
  "historical_rate_book_from_json lc v =
     (if \<not> is_object v then Inl ''historical rate book JSON must be an object''
      else if \<not> keys_are [''observations''] v then Inl ''historical rate book JSON contains unknown or missing fields''
      else case field ''observations'' v of
        JArr vs \<Rightarrow> bindE (mapE canonical_historical_rate_json vs) (\<lambda>os.
                     historical_rate_book lc (map observation_value os))
      | _ \<Rightarrow> Inl ''historical rate book JSON observations must be an array'')"

definition selection_keys :: "string list" where
  "selection_keys = [''asOf'', ''effectiveAt'', ''sourceUnit'', ''targetUnit'']"

definition rate_visible :: "string \<Rightarrow> string \<Rightarrow> instant_ms \<Rightarrow> instant_ms option \<Rightarrow> rate_observation \<Rightarrow> bool" where
  "rate_visible su tu eff as_of ob =
     (source_unit (obs_rate ob) = su \<and> target_unit (obs_rate ob) = tu
      \<and> (case valid_time (obs_rate ob) of None \<Rightarrow> False | Some i \<Rightarrow> interval_contains i eff)
      \<and> (case as_of of None \<Rightarrow> True | Some t \<Rightarrow> obs_recorded ob \<le> t))"

definition rate_tips :: "rate_observation list \<Rightarrow> rate_observation list" where
  "rate_tips visible =
     filter (\<lambda>ob. \<not> list_ex (\<lambda>c. obs_supersedes c = Some (obs_id ob)
                               \<and> obs_id c \<in> set (map obs_id visible)) visible) visible"

definition select_historical_rate :: "(string \<Rightarrow> string \<Rightarrow> int) \<Rightarrow> rate_observation list \<Rightarrow> jsval
    \<Rightarrow> rate_observation res" where
  "select_historical_rate lc book input =
     (if \<not> is_object input then Inl ''historical rate selection input must be an object''
      else if \<not> keys_are selection_keys input \<and> \<not> keys_are (filter (\<lambda>k. k \<noteq> ''asOf'') selection_keys) input
      then Inl ''historical rate selection input contains unknown or missing fields''
      else
     bindE (non_empty_val ''historical rate selection sourceUnit'' (field ''sourceUnit'' input)) (\<lambda>su.
     bindE (non_empty_val ''historical rate selection targetUnit'' (field ''targetUnit'' input)) (\<lambda>tu.
     bindE (instant_val ''historical rate selection effectiveAt'' (field ''effectiveAt'' input)) (\<lambda>eff.
     bindE (case field ''asOf'' input of JUndefined \<Rightarrow> Inr None
            | w \<Rightarrow> bindE (instant_val ''historical rate selection asOf'' w) (\<lambda>t. Inr (Some t))) (\<lambda>as_of.
     bindE (historical_rate_book lc (map observation_value book)) (\<lambda>canonical.
       let visible = filter (rate_visible su tu eff as_of) canonical in
       if visible = [] then Inl ''no historical FX rate covers the conversion''
       else case rate_tips visible of
         [tip] \<Rightarrow> Inr tip
       | _ \<Rightarrow> Inl ''historical FX rate selection is ambiguous''))))))"

section \<open>Canonical observations and books\<close>

definition canonical_observation :: "rate_observation \<Rightarrow> bool" where
  "canonical_observation ob =
     (trim (obs_id ob) = obs_id ob \<and> obs_id ob \<noteq> [] \<and> canonical_rate (obs_rate ob)
      \<and> valid_time (obs_rate ob) \<noteq> None \<and> 0 < numerator (obs_rate ob)
      \<and> trim (obs_source ob) = obs_source ob \<and> obs_source ob \<noteq> [] \<and> \<bar>obs_recorded ob\<bar> \<le> max_time
      \<and> (\<forall>t. obs_supersedes ob = Some t \<longrightarrow> trim t = t \<and> t \<noteq> [] \<and> t \<noteq> obs_id ob))"

lemma rate_value_of_simps [simp]:
  "is_object (rate_value_of r)" "field ''numerator'' (rate_value_of r) = JBigInt (numerator r)"
  "field ''denominator'' (rate_value_of r) = JBigInt (denominator r)"
  "field ''sourceUnit'' (rate_value_of r) = JStr (source_unit r)"
  "field ''targetUnit'' (rate_value_of r) = JStr (target_unit r)"
  "field ''validTime'' (rate_value_of r) = (case valid_time r of None \<Rightarrow> JUndefined | Some i \<Rightarrow> interval_to_json i)"
  by (simp_all add: rate_value_of_def split: option.split)

lemma rate_value_of_keys:
  "valid_time r \<noteq> None \<Longrightarrow> keys_are rate_keys_with_valid_time (rate_value_of r)"
  by (auto simp: keys_are_def rate_value_of_def rate_keys_with_valid_time_def)

lemma observation_roundtrip:
  assumes "canonical_observation ob"
  shows "canonical_historical_observation (observation_value ob) = Inr ob"
proof -
  have keys: "keys_are observation_keys (observation_value ob)" "is_object (observation_value ob)"
    by (simp_all add: keys_are_def observation_keys_def observation_value_def)
  have fields: "field ''id'' (observation_value ob) = JStr (obs_id ob)"
    "field ''rate'' (observation_value ob) = rate_value_of (obs_rate ob)"
    "field ''rateSource'' (observation_value ob) = JStr (obs_source ob)"
    "field ''recordedAt'' (observation_value ob) = JStr (to_iso (obs_recorded ob))"
    "field ''supersedes'' (observation_value ob) = (case obs_supersedes ob of None \<Rightarrow> JNull | Some s \<Rightarrow> JStr s)"
    by (simp_all add: observation_value_def)
  have c: "canonical_rate (obs_rate ob)" "valid_time (obs_rate ob) \<noteq> None"
    using assms by (simp_all add: canonical_observation_def)
  show ?thesis
    unfolding canonical_historical_observation_def fields Let_def
    using assms keys rate_value_of_keys [OF c(2)] exact_rate_canonical [OF c(1)]
    by (cases "obs_supersedes ob") (auto simp: canonical_observation_def non_empty_canonical)
qed

lemma canonical_historical_observation_Inr:
  assumes "canonical_historical_observation v = Inr ob"
  shows "canonical_observation ob"
proof -
  from assms obtain num den su tu r i src rec sup where
    i: "non_empty_val ''historical rate observation id'' (field ''id'' v) = Inr i"
    and r: "exact_rate num den su tu (field ''validTime'' (field ''rate'' v)) = Inr r"
      "valid_time r \<noteq> None" "0 < numerator r"
    and src: "non_empty_val ''historical rate observation rateSource'' (field ''rateSource'' v) = Inr src"
    and rec: "instant_val ''historical rate observation recordedAt'' (field ''recordedAt'' v) = Inr rec"
    and sup: "(case field ''supersedes'' v of JUndefined \<Rightarrow> Inr None | JNull \<Rightarrow> Inr None
       | w \<Rightarrow> bindE (non_empty_val ''historical rate observation supersedes'' w) (\<lambda>s. Inr (Some s))) = Inr sup"
      "sup \<noteq> Some i"
    and ob: "ob = \<lparr>obs_id = i, obs_rate = r, obs_source = src, obs_recorded = rec, obs_supersedes = sup\<rparr>"
    unfolding canonical_historical_observation_def Let_def
    by (auto split: if_splits)
  have "trim s = s \<and> s \<noteq> []" if "sup = Some s" for s
    using sup(1) that by (auto split: jsval.splits dest: non_empty_Inr)
  moreover have "\<bar>rec\<bar> \<le> max_time"
    using rec by (cases "field ''recordedAt'' v") (auto simp: instant_iff)
  ultimately show ?thesis
    using i r src sup(2) exact_rate_Inr(2) [OF r(1)]
    by (auto simp: canonical_observation_def ob dest!: non_empty_val_Inr)
qed

definition rate_edge_ok :: "rate_observation list \<Rightarrow> rate_observation \<Rightarrow> bool" where
  "rate_edge_ok os ob =
     (\<forall>t. obs_supersedes ob = Some t \<longrightarrow>
        (\<exists>p \<in> set os. obs_id p = t \<and> source_unit (obs_rate p) = source_unit (obs_rate ob)
           \<and> target_unit (obs_rate p) = target_unit (obs_rate ob) \<and> valid_time (obs_rate p) \<noteq> None
           \<and> valid_time (obs_rate p) = valid_time (obs_rate ob) \<and> obs_recorded p < obs_recorded ob))"

definition rate_targets :: "rate_observation list \<Rightarrow> string list" where
  "rate_targets os = concat (map (\<lambda>ob. case obs_supersedes ob of None \<Rightarrow> [] | Some t \<Rightarrow> [t]) os)"

definition canonical_book :: "rate_observation list \<Rightarrow> bool" where
  "canonical_book os =
     ((\<forall>ob \<in> set os. canonical_observation ob \<and> rate_edge_ok os ob)
      \<and> distinct (map obs_id os) \<and> distinct (rate_targets os))"

lemma rate_targets_mset: "mset os = mset os' \<Longrightarrow> mset (rate_targets os) = mset (rate_targets os')"
  by (simp add: rate_targets_def mset_concat) (metis mset_map sum_mset_sum_list)

lemma canonical_book_mset:
  assumes "mset os = mset os'"
  shows "canonical_book os \<longleftrightarrow> canonical_book os'"
proof -
  have "set os = set os'" using assms by (metis set_mset_mset)
  moreover have "distinct (map obs_id os) \<longleftrightarrow> distinct (map obs_id os')"
    using assms by (metis mset_map mset_eq_imp_distinct_iff)
  moreover have "distinct (rate_targets os) \<longleftrightarrow> distinct (rate_targets os')"
    using rate_targets_mset [OF assms] by (rule mset_eq_imp_distinct_iff)
  ultimately show ?thesis by (simp add: canonical_book_def rate_edge_ok_def)
qed

lemma index_fold:
  "foldE index_step by_id os = Inr x \<longleftrightarrow>
     distinct (map obs_id os) \<and> fst ` set by_id \<inter> obs_id ` set os = {} \<and> x = by_id @ map (\<lambda>ob. (obs_id ob, ob)) os"
proof (induction os arbitrary: by_id)
  case Nil
  then show ?case by auto
next
  case (Cons ob os)
  show ?case
  proof (cases "obs_id ob \<in> fst ` set by_id")
    case True
    then show ?thesis by (simp add: index_step_def map_of_eq_None_set)
  next
    case False
    then have "index_step by_id ob = Inr (by_id @ [(obs_id ob, ob)])"
      by (simp add: index_step_def map_of_eq_None_set update_new)
    with False show ?thesis by (auto simp: Cons.IH)
  qed
qed

lemma map_of_index:
  "distinct (map obs_id os) \<Longrightarrow>
   map_of (map (\<lambda>ob. (obs_id ob, ob)) os) t = Some p \<longleftrightarrow> p \<in> set os \<and> obs_id p = t"
  by (subst map_of_eq_Some_iff) (auto simp: comp_def)

lemma same_validity_eq: "same_validity a b \<longleftrightarrow> a = b"
  by (cases a; cases b) (simp add: same_validity_def)

lemma supersession_step_Inr:
  assumes "distinct (map obs_id os)"
  shows "supersession_step (map (\<lambda>ob. (obs_id ob, ob)) os) succ ob = Inr s' \<longleftrightarrow>
    (obs_supersedes ob = None \<and> s' = succ
     \<or> (\<exists>t. obs_supersedes ob = Some t \<and> rate_edge_ok os ob \<and> t \<notin> fst ` set succ
          \<and> s' = AList.update t (obs_id ob) succ))"
proof (cases "obs_supersedes ob")
  case None
  then show ?thesis by (auto simp: supersession_step_def)
next
  case (Some t)
  show ?thesis
  proof (cases "map_of (map (\<lambda>ob. (obs_id ob, ob)) os) t")
    case None
    then have "\<not> rate_edge_ok os ob"
      using Some map_of_index [OF assms, of t] by (auto simp: rate_edge_ok_def)
    then show ?thesis using None Some by (simp add: supersession_step_def)
  next
    case pre: (Some p)
    then have p: "p \<in> set os" "obs_id p = t" using map_of_index [OF assms, of t p] by auto
    then have uniq: "q = p" if "q \<in> set os" "obs_id q = t" for q
      using that assms by (metis distinct_map inj_onD)
    have ok: "rate_edge_ok os ob \<longleftrightarrow> source_unit (obs_rate p) = source_unit (obs_rate ob)
           \<and> target_unit (obs_rate p) = target_unit (obs_rate ob) \<and> valid_time (obs_rate p) \<noteq> None
           \<and> valid_time (obs_rate p) = valid_time (obs_rate ob) \<and> obs_recorded p < obs_recorded ob"
      (is "_ \<longleftrightarrow> ?fits p")
    proof
      assume "rate_edge_ok os ob"
      then obtain q where "q \<in> set os" "obs_id q = t" "?fits q" using Some unfolding rate_edge_ok_def by blast
      then show "?fits p" using uniq by blast
    next
      assume "?fits p"
      then show "rate_edge_ok os ob" using p unfolding rate_edge_ok_def Some option.inject by blast
    qed
    show ?thesis
    proof (cases "rate_edge_ok os ob")
      case True
      then obtain i where "valid_time (obs_rate p) = Some i" "valid_time (obs_rate ob) = Some i"
        using ok by auto
      have units: "source_unit (obs_rate p) = source_unit (obs_rate ob)"
        "target_unit (obs_rate p) = target_unit (obs_rate ob)" "\<not> obs_recorded ob \<le> obs_recorded p"
        using True ok by simp_all
      have "supersession_step (map (\<lambda>ob. (obs_id ob, ob)) os) succ ob =
          (if t \<in> fst ` set succ then Inl ''historical rate observation has multiple superseding observations''
           else Inr (AList.update t (obs_id ob) succ))"
        unfolding supersession_step_def Some option.case pre
        using \<open>valid_time (obs_rate p) = Some i\<close> \<open>valid_time (obs_rate ob) = Some i\<close> units p(2)
        by (simp add: same_validity_eq map_of_eq_None_set)
      then show ?thesis using True Some by auto
    next
      case False
      moreover have "rate_edge_ok os ob" if step: "supersession_step (map (\<lambda>ob. (obs_id ob, ob)) os) succ ob = Inr s'"
      proof -
        have "source_unit (obs_rate ob) = source_unit (obs_rate p)" "target_unit (obs_rate ob) = target_unit (obs_rate p)"
          "\<not> obs_recorded ob \<le> obs_recorded p"
          and v: "\<not> (case (valid_time (obs_rate ob), valid_time (obs_rate p)) of
                       (Some a, Some b) \<Rightarrow> \<not> same_validity a b | _ \<Rightarrow> True)"
          using step Some pre by (simp_all add: supersession_step_def split: if_split_asm)
        moreover have "valid_time (obs_rate p) \<noteq> None" "valid_time (obs_rate p) = valid_time (obs_rate ob)"
          using v by (auto simp: same_validity_eq split: option.splits)
        ultimately show ?thesis using ok by simp
      qed
      ultimately show ?thesis using Some by auto
    qed
  qed
qed

lemma dom_update: "fst ` set (AList.update k v al) = insert k (fst ` set al)"
  by (simp add: dom_update)

lemma supersession_fold:
  assumes "distinct (map obs_id os)"
  shows "(\<exists>s'. foldE (supersession_step (map (\<lambda>ob. (obs_id ob, ob)) os)) succ xs = Inr s') \<longleftrightarrow>
    (\<forall>ob \<in> set xs. rate_edge_ok os ob) \<and> distinct (rate_targets xs)
      \<and> fst ` set succ \<inter> set (rate_targets xs) = {}"
proof (induction xs arbitrary: succ)
  case Nil
  then show ?case by (simp add: rate_targets_def)
next
  case (Cons ob xs)
  have "(\<exists>s'. foldE (supersession_step (map (\<lambda>ob. (obs_id ob, ob)) os)) succ (ob # xs) = Inr s') \<longleftrightarrow>
    (\<exists>s1. supersession_step (map (\<lambda>ob. (obs_id ob, ob)) os) succ ob = Inr s1 \<and>
      (\<exists>s'. foldE (supersession_step (map (\<lambda>ob. (obs_id ob, ob)) os)) s1 xs = Inr s'))"
    by (auto simp: bindE_Inr_iff)
  also have "\<dots> \<longleftrightarrow> (\<forall>ob' \<in> set (ob # xs). rate_edge_ok os ob') \<and> distinct (rate_targets (ob # xs))
      \<and> fst ` set succ \<inter> set (rate_targets (ob # xs)) = {}"
  proof (cases "obs_supersedes ob")
    case None
    then have "rate_edge_ok os ob" by (simp add: rate_edge_ok_def)
    then show ?thesis using None Cons.IH
      by (simp add: supersession_step_Inr [OF assms] rate_targets_def)
  next
    case (Some t)
    then have tg: "rate_targets (ob # xs) = t # rate_targets xs" by (simp add: rate_targets_def)
    show ?thesis
      unfolding supersession_step_Inr [OF assms] tg Cons.IH using Some
      by (auto simp: dom_update)
  qed
  finally show ?case .
qed

lemma historical_rate_book_Inr:
  "historical_rate_book lc vs = Inr book \<longleftrightarrow>
     (\<exists>os. mapE canonical_historical_observation vs = Inr os \<and> canonical_book os
         \<and> book = sort_by (\<lambda>a b. lc (obs_id a) (obs_id b)) os)"
proof -
  have "(\<exists>b. foldE index_step [] os = Inr b \<and> (\<exists>s. foldE (supersession_step b) [] os = Inr s)) \<longleftrightarrow>
      canonical_book os" if "mapE canonical_historical_observation vs = Inr os" for os
  proof -
    have "\<forall>ob \<in> set os. canonical_observation ob"
      using mapE_set [OF that] canonical_historical_observation_Inr by blast
    then show ?thesis
      using supersession_fold [of os "[]" os] by (auto simp: index_fold canonical_book_def)
  qed
  then show ?thesis unfolding historical_rate_book_def bindE_Inr_iff by blast
qed

lemma mapE_observation_value:
  assumes "\<forall>ob \<in> set os. canonical_observation ob"
  shows "mapE canonical_historical_observation (map observation_value os) = Inr os"
proof -
  have "mapE (\<lambda>ob. canonical_historical_observation (observation_value ob)) os = Inr (map (\<lambda>ob. ob) os)"
    using assms by (intro mapE_all_Inr) (simp add: observation_roundtrip)
  then show ?thesis by (simp add: mapE_map)
qed

lemma historical_rate_book_canonical:
  assumes "canonical_book os"
  shows "historical_rate_book lc (map observation_value os) = Inr (sort_by (\<lambda>a b. lc (obs_id a) (obs_id b)) os)"
  using assms mapE_observation_value [of os] by (auto simp: historical_rate_book_Inr canonical_book_def)

section \<open>The selected rate is the one tip\<close>

text \<open>In a finite set ordered by edges that strictly increase a rank, there is a single element
  without successor exactly when one element is reached from all.\<close>

lemma climbs_to_tip:
  assumes "finite V" and R: "\<And>a b. (a, b) \<in> R \<Longrightarrow> b \<in> V \<and> (rank a :: int) < rank b" and "a \<in> V"
  shows "\<exists>t \<in> V. (a, t) \<in> R\<^sup>* \<and> (\<forall>b. (t, b) \<notin> R)"
  using \<open>a \<in> V\<close>
proof (induction "card {b \<in> V. rank a < rank b}" arbitrary: a rule: less_induct)
  case less
  show ?case
  proof (cases "\<exists>b. (a, b) \<in> R")
    case True
    then obtain b where b: "(a, b) \<in> R" by blast
    then have bV: "b \<in> V" and lt: "rank a < rank b" using R by blast+
    have "{c \<in> V. rank b < rank c} \<subset> {c \<in> V. rank a < rank c}" using bV lt by auto
    then have "card {c \<in> V. rank b < rank c} < card {c \<in> V. rank a < rank c}"
      using \<open>finite V\<close> by (simp add: psubset_card_mono)
    from less.hyps [OF this bV] show ?thesis using b by (meson converse_rtrancl_into_rtrancl)
  next
    case False
    then show ?thesis using less.prems by blast
  qed
qed

lemma unique_tip:
  assumes "finite V" and R: "\<And>a b. (a, b) \<in> R \<Longrightarrow> b \<in> V \<and> (rank a :: int) < rank b"
  shows "{t \<in> V. \<forall>b. (t, b) \<notin> R} = {t} \<longleftrightarrow> t \<in> V \<and> (\<forall>a \<in> V. (a, t) \<in> R\<^sup>*)"
proof
  assume tips: "{t \<in> V. \<forall>b. (t, b) \<notin> R} = {t}"
  then have "t \<in> V" by blast
  moreover have "(a, t) \<in> R\<^sup>*" if "a \<in> V" for a
  proof -
    have "\<exists>t' \<in> V. (a, t') \<in> R\<^sup>* \<and> (\<forall>b. (t', b) \<notin> R)"
      by (rule climbs_to_tip [where rank = rank]) (use assms that in auto)
    then obtain t' where "t' \<in> V" "(a, t') \<in> R\<^sup>*" "\<forall>b. (t', b) \<notin> R" by blast
    then have "t' \<in> {t \<in> V. \<forall>b. (t, b) \<notin> R}" by simp
    then show ?thesis using \<open>(a, t') \<in> R\<^sup>*\<close> by (simp add: tips)
  qed
  ultimately show "t \<in> V \<and> (\<forall>a \<in> V. (a, t) \<in> R\<^sup>*)" by blast
next
  assume t: "t \<in> V \<and> (\<forall>a \<in> V. (a, t) \<in> R\<^sup>*)"
  have mono: "rank a \<le> rank b" if "(a, b) \<in> R\<^sup>*" for a b
    using that by (induction) (use R in fastforce)+
  have "(t, b) \<notin> R" for b
    using R [of t b] mono [of b t] t by fastforce
  moreover have "a = t" if "a \<in> V" "\<forall>b. (a, b) \<notin> R" for a
    using that t by (meson converse_rtranclE)
  ultimately show "{t \<in> V. \<forall>b. (t, b) \<notin> R} = {t}" using t by blast
qed

definition superseded_by :: "rate_observation list \<Rightarrow> (rate_observation \<times> rate_observation) set" where
  "superseded_by os = {(a, b). a \<in> set os \<and> b \<in> set os \<and> obs_supersedes b = Some (obs_id a)}"

lemma superseded_by_later:
  assumes "canonical_book os" "(a, b) \<in> superseded_by os"
  shows "obs_recorded a < obs_recorded b"
proof -
  from assms obtain p where "p \<in> set os" "obs_id p = obs_id a" "obs_recorded p < obs_recorded b"
    by (auto simp: canonical_book_def superseded_by_def rate_edge_ok_def)
  moreover have "p = a"
    using calculation assms by (auto simp: canonical_book_def superseded_by_def dest: inj_onD simp: distinct_map)
  ultimately show ?thesis by simp
qed

lemma superseded_by_mset: "set os = set os' \<Longrightarrow> superseded_by os = superseded_by os'"
  by (simp add: superseded_by_def)

lemma set_rate_tips: "set (rate_tips vs) = {t \<in> set vs. \<forall>b. (t, b) \<notin> superseded_by vs}"
  by (auto simp: rate_tips_def superseded_by_def list_ex_iff)

lemma distinct_singleton: "distinct xs \<Longrightarrow> xs = [x] \<longleftrightarrow> set xs = {x}"
proof
  assume "distinct xs" "set xs = {x}"
  then have "length xs = 1" by (metis card.empty card_insert_disjoint distinct_card equals0D finite.emptyI One_nat_def)
  then show "xs = [x]" using \<open>set xs = {x}\<close> by (cases xs) auto
qed simp

lemma visible_unique_tip:
  assumes "canonical_book os" and vs: "vs = filter P (sort_by cmp os)"
  shows "rate_tips vs = [t] \<longleftrightarrow> t \<in> set vs \<and> (\<forall>a \<in> set vs. (a, t) \<in> (superseded_by vs)\<^sup>*)"
proof -
  have "distinct os" using assms(1) by (auto simp: canonical_book_def distinct_map)
  then have "distinct (rate_tips vs)" by (simp add: vs rate_tips_def)
  then have "rate_tips vs = [t] \<longleftrightarrow> {t \<in> set vs. \<forall>b. (t, b) \<notin> superseded_by vs} = {t}"
    using set_rate_tips by (simp add: distinct_singleton)
  also have "\<dots> \<longleftrightarrow> t \<in> set vs \<and> (\<forall>a \<in> set vs. (a, t) \<in> (superseded_by vs)\<^sup>*)"
  proof (rule unique_tip [where rank = obs_recorded])
    show "b \<in> set vs \<and> obs_recorded a < obs_recorded b" if "(a, b) \<in> superseded_by vs" for a b
      using that superseded_by_later [OF assms(1), of a b] by (auto simp: superseded_by_def vs)
  qed simp
  finally show ?thesis .
qed

definition selection_value :: "string \<Rightarrow> string \<Rightarrow> instant_ms \<Rightarrow> instant_ms option \<Rightarrow> jsval" where
  "selection_value su tu eff as_of =
     JObj ((case as_of of None \<Rightarrow> [] | Some t \<Rightarrow> [(''asOf'', JStr (to_iso t))])
       @ [(''effectiveAt'', JStr (to_iso eff)), (''sourceUnit'', JStr su), (''targetUnit'', JStr tu)])"

lemma select_canonical:
  assumes "canonical_book os" "trim su = su" "su \<noteq> []" "trim tu = tu" "tu \<noteq> []" "\<bar>eff\<bar> \<le> max_time"
    and "\<And>t. as_of = Some t \<Longrightarrow> \<bar>t\<bar> \<le> max_time"
  shows "select_historical_rate lc os (selection_value su tu eff as_of) =
    (let visible = filter (rate_visible su tu eff as_of) (sort_by (\<lambda>a b. lc (obs_id a) (obs_id b)) os) in
     if visible = [] then Inl ''no historical FX rate covers the conversion''
     else case rate_tips visible of [tip] \<Rightarrow> Inr tip | _ \<Rightarrow> Inl ''historical FX rate selection is ambiguous'')"
proof -
  have keys: "is_object (selection_value su tu eff as_of)"
    "(\<not> keys_are selection_keys (selection_value su tu eff as_of)
      \<and> \<not> keys_are (filter (\<lambda>k. k \<noteq> ''asOf'') selection_keys) (selection_value su tu eff as_of)) = False"
    by (cases as_of; simp add: selection_value_def keys_are_def selection_keys_def)+
  have fields: "field ''sourceUnit'' (selection_value su tu eff as_of) = JStr su"
    "field ''targetUnit'' (selection_value su tu eff as_of) = JStr tu"
    "field ''effectiveAt'' (selection_value su tu eff as_of) = JStr (to_iso eff)"
    "field ''asOf'' (selection_value su tu eff as_of) = (case as_of of None \<Rightarrow> JUndefined | Some t \<Rightarrow> JStr (to_iso t))"
    by (cases as_of; simp add: selection_value_def)+
  show ?thesis
    unfolding select_historical_rate_def fields historical_rate_book_canonical [OF assms(1)]
    using assms keys by (cases as_of) (auto simp: non_empty_canonical Let_def)
qed

lemma book_json:
  assumes "canonical_book os"
  shows "\<exists>j. historical_rate_book_to_json lc os = Inr j
     \<and> historical_rate_book_from_json lc j
         = historical_rate_book lc (map observation_value (sort_by (\<lambda>a b. lc (obs_id a) (obs_id b)) os))"
proof -
  let ?s = "sort_by (\<lambda>a b. lc (obs_id a) (obs_id b)) os"
  let ?j = "\<lambda>ob. JObj [(''id'', JStr (obs_id ob)), (''rate'', rate_to_json (obs_rate ob)),
           (''rateSource'', JStr (obs_source ob)), (''recordedAt'', JStr (to_iso (obs_recorded ob))),
           (''supersedes'', case obs_supersedes ob of None \<Rightarrow> JNull | Some s \<Rightarrow> JStr s)]"
  have c: "canonical_observation ob" if "ob \<in> set ?s" for ob
    using that assms by (simp add: canonical_book_def)
  have to: "historical_rate_observation_to_json ob = Inr (?j ob)" if "ob \<in> set ?s" for ob
    using c [OF that] by (simp add: historical_rate_observation_to_json_def observation_roundtrip)
      (simp add: canonical_observation_def)
  have "canonical_historical_rate_json (?j ob) = Inr ob" if "ob \<in> set ?s" for ob
  proof -
    have r: "canonical_rate (obs_rate ob)" "valid_time (obs_rate ob) \<noteq> None"
      using c [OF that] by (simp_all add: canonical_observation_def)
    have k: "keys_are rate_keys_with_valid_time (rate_to_json (obs_rate ob))"
      using r(2) by (auto simp: keys_are_def rate_to_json_def rate_keys_with_valid_time_def)
    have "keys_are observation_keys (?j ob)" "is_object (rate_to_json (obs_rate ob))"
      by (simp_all add: keys_are_def observation_keys_def rate_to_json_def)
    then show ?thesis
      using observation_roundtrip [OF c [OF that]] k rate_json_roundtrip [OF r(1)]
      by (simp add: canonical_historical_rate_json_def observation_value_def)
  qed
  then have "mapE (\<lambda>ob. canonical_historical_rate_json (?j ob)) ?s = Inr (map (\<lambda>ob. ob) ?s)"
    by (rule mapE_all_Inr)
  then have parsed: "mapE canonical_historical_rate_json (map ?j ?s) = Inr ?s" by (simp add: mapE_map)
  have "mapE historical_rate_observation_to_json ?s = Inr (map ?j ?s)" using to by (rule mapE_all_Inr)
  then have "historical_rate_book_to_json lc os = Inr (JObj [(''observations'', JArr (map ?j ?s))])"
    by (simp add: historical_rate_book_to_json_def historical_rate_book_canonical [OF assms])
  moreover have "historical_rate_book_from_json lc (JObj [(''observations'', JArr (map ?j ?s))])
      = historical_rate_book lc (map observation_value ?s)"
    using parsed by (simp add: historical_rate_book_from_json_def keys_are_def)
  ultimately show ?thesis by blast
qed

text \<open>The collation tells two different texts of a list apart.\<close>

definition separates :: "(string \<Rightarrow> string \<Rightarrow> int) \<Rightarrow> string list \<Rightarrow> bool" where
  "separates lc xs = list_all (\<lambda>a. list_all (\<lambda>b. lc a b = 0 \<longrightarrow> a = b) xs) xs"

lemma book_sort_unique:
  assumes "canonical_book os" "mset os = mset os'" "comparator lc" "separates lc (map obs_id os)"
  shows "sort_by (\<lambda>a b. lc (obs_id a) (obs_id b)) os = sort_by (\<lambda>a b. lc (obs_id a) (obs_id b)) os'"
proof (rule comparator.sort_by_unique)
  show "comparator (\<lambda>a b. lc (obs_id a) (obs_id b))" by (rule comparator_key) (rule assms(3))
  show "a = b" if "a \<in> set os" "b \<in> set os" "lc (obs_id a) (obs_id b) = 0" for a b
    using that assms(1,4) by (auto simp: canonical_book_def distinct_map inj_on_def separates_def list_all_iff)
qed (rule assms(2))

section \<open>Properties\<close>

text \<open>A constructed rate is in lowest terms with a positive denominator and denotes the quotient
  it was given; two constructed rates have the same numerator and denominator exactly when the
  quotients they were given are equal.\<close>

theorem exact_rate_lowest_terms:
  assumes p: "exact_rate n1 d1 su tu JUndefined = Inr p" and q: "exact_rate n2 d2 su' tu' JUndefined = Inr q"
  shows "0 < denominator p \<and> coprime (numerator p) (denominator p)
    \<and> rate_value p = of_int n1 / of_int d1
    \<and> (numerator p = numerator q \<and> denominator p = denominator q \<longleftrightarrow> n1 * d2 = n2 * d1)"
proof -
  note P = exact_rate_Inr(1-3) [OF p] and Q = exact_rate_Inr(1-3) [OF q]
  have "numerator p = numerator q \<and> denominator p = denominator q \<longleftrightarrow> rate_value p = rate_value q"
    using canonical_rate_unique [OF P(2) Q(2)] by (auto simp: rate_value_def)
  also have "\<dots> \<longleftrightarrow> of_int n1 * of_int d2 = (of_int n2 * of_int d1 :: rat)"
    using P Q by (simp add: frac_eq_eq)
  also have "\<dots> \<longleftrightarrow> n1 * d2 = n2 * d1" by (metis of_int_eq_iff of_int_mult)
  finally show ?thesis using P by (simp add: canonical_rate_def)
qed

lemma sample_rate: "exact_rate 6 (-8) ''USD'' ''EUR'' JUndefined
    = Inr \<lparr>numerator = -3, denominator = 4, source_unit = ''USD'', target_unit = ''EUR'', valid_time = None\<rparr>"
proof -
  have "gcd 6 8 = (2 :: int)" by code_simp
  then show ?thesis by (simp add: exact_rate_def non_empty_def trim_def js_space_def Let_def)
qed

theorem exact_rate_lowest_terms_witness:
  "\<exists>p. exact_rate 6 (-8) ''USD'' ''EUR'' JUndefined = Inr p \<and> coprime (numerator p) (denominator p)
     \<and> rate_value p = - 3 / 4"
  using exact_rate_lowest_terms [OF sample_rate sample_rate] sample_rate by auto

text \<open>C4: Converting money at a rate is exact or refused: an amount that \<open>applyExactRate\<close> returns is
  canonical, carries the target unit and basis and equals value times rate exactly.  It refuses
  precisely when the amount is not in the rate's source unit or no canonical amount of the target
  unit and basis has that value (the product needs more than 1000 decimals or 16384 digits or never
  ends, or the target unit or basis is not one of money's); the refusal that asks for a quantization
  policy is given exactly when the product has no finite decimal expansion.\<close>

theorem apply_exact_rate_exact:
  assumes "0 < denominator r"
  shows "case apply_exact_rate v r b of
      Inr m \<Rightarrow> currency v = source_unit r \<and> canonical_money m \<and> money_value m = money_value v * rate_value r
        \<and> currency m = target_unit r \<and> basis_name (basis m) = b
    | Inl e \<Rightarrow> (currency v \<noteq> source_unit r
          \<or> \<not> (\<exists>m. canonical_money m \<and> money_value m = money_value v * rate_value r
                \<and> currency m = target_unit r \<and> basis_name (basis m) = b))
        \<and> (e = ''non-terminating conversion requires an explicit quantization policy''
            \<longleftrightarrow> currency v = source_unit r \<and> \<not> finite_decimal (money_value v * rate_value r))"
proof (cases "apply_exact_rate v r b")
  case (Inl e)
  then show ?thesis
    using apply_exact_rate_cases(2) [OF assms, of v b] apply_exact_rate_cases(3) [OF assms Inl] by auto
next
  case (Inr m)
  then show ?thesis using apply_exact_rate_cases(1) [OF assms Inr] by simp
qed

theorem apply_exact_rate_exact_witness:
  "(\<exists>m. apply_exact_rate (dollars 1 0) \<lparr>numerator = 1, denominator = 4, source_unit = ''USD'',
        target_unit = ''EUR'', valid_time = None\<rparr> ''billed'' = Inr m \<and> money_value m = 1 / 4)
   \<and> (\<exists>e. apply_exact_rate (dollars 1 0) \<lparr>numerator = 1, denominator = 3, source_unit = ''USD'',
        target_unit = ''EUR'', valid_time = None\<rparr> ''billed'' = Inl e) \<and> \<not> finite_decimal (1 / 3)"
proof -
  let ?r = "\<lambda>d. \<lparr>numerator = 1, denominator = d, source_unit = ''USD'', target_unit = ''EUR'', valid_time = None\<rparr>"
  let ?quarter = "\<lparr>coefficient = 25, scale = 2, currency = ''EUR'', basis = BBilled\<rparr>"
  have "canonical_money ?quarter" "money_value ?quarter = money_value (dollars 1 0) * rate_value (?r 4)"
    "currency ?quarter = target_unit (?r 4)" "basis_name (basis ?quarter) = ''billed''"
    by (simp_all add: canonical_money_def coefficient_digits_def show_nat.simps max_money_scale_def
        max_money_coefficient_digits_def assert_currency_def money_value_def dollars_def rate_value_def)
  then have ex: "\<exists>m. canonical_money m \<and> money_value m = money_value (dollars 1 0) * rate_value (?r 4)
      \<and> currency m = target_unit (?r 4) \<and> basis_name (basis m) = ''billed''" by blast
  have yes: "\<exists>m. apply_exact_rate (dollars 1 0) (?r 4) ''billed'' = Inr m \<and> money_value m = 1 / 4"
  proof (cases "apply_exact_rate (dollars 1 0) (?r 4) ''billed''")
    case (Inl e)
    then show ?thesis using ex apply_exact_rate_exact [of "?r 4" "dollars 1 0" "''billed''"] by (simp add: dollars_def)
  next
    case (Inr m)
    then show ?thesis using apply_exact_rate_exact [of "?r 4" "dollars 1 0" "''billed''"]
      by (simp add: dollars_def money_value_def rate_value_def)
  qed
  have "terminating_decimal 1 3 = Inr None" by code_simp
  then have "apply_exact_rate (dollars 1 0) (?r 3) ''billed''
      = Inl ''non-terminating conversion requires an explicit quantization policy''"
    by (simp add: apply_exact_rate_def dollars_def)
  then show ?thesis using yes apply_exact_rate_exact [of "?r 3" "dollars 1 0" "''billed''"]
    by (auto simp: dollars_def money_value_def rate_value_def)
qed

text \<open>C5: Historical selection on a canonical book.  Among the observations of the requested units whose
  validity covers the effective time and that were recorded by the boundary, the selector returns
  exactly the one every visible observation is, transitively through visible supersession edges,
  superseded by; with nothing visible it reports that no rate covers the conversion, and when no
  visible observation supersedes all others it reports the ambiguity.\<close>

theorem select_historical_rate_spec:
  assumes book: "canonical_book os"
    and query: "trim su = su" "su \<noteq> []" "trim tu = tu" "tu \<noteq> []" "\<bar>eff\<bar> \<le> max_time"
      "\<And>t. as_of = Some t \<Longrightarrow> \<bar>t\<bar> \<le> max_time"
    and visible: "vs = filter (rate_visible su tu eff as_of) os"
    and selected: "selected = select_historical_rate lc os (selection_value su tu eff as_of)"
  shows "(selected = Inr t \<longleftrightarrow> t \<in> set vs \<and> (\<forall>a \<in> set vs. (a, t) \<in> (superseded_by vs)\<^sup>*))
    \<and> (selected = Inl ''no historical FX rate covers the conversion'' \<longleftrightarrow> vs = [])
    \<and> (selected = Inl ''historical FX rate selection is ambiguous'' \<longleftrightarrow>
         vs \<noteq> [] \<and> \<not> (\<exists>t \<in> set vs. \<forall>a \<in> set vs. (a, t) \<in> (superseded_by vs)\<^sup>*))"
proof -
  define sorted where "sorted = filter (rate_visible su tu eff as_of) (sort_by (\<lambda>a b. lc (obs_id a) (obs_id b)) os)"
  have same: "set sorted = set vs" by (simp add: sorted_def visible)
  note tip = visible_unique_tip [OF book sorted_def]
  note sel = select_canonical [OF book query, of as_of lc, folded sorted_def, unfolded Let_def, simplified]
  have empty: "sorted = [] \<longleftrightarrow> vs = []" using same by (metis set_empty)
  have tips: "rate_tips sorted = [t] \<longleftrightarrow> t \<in> set vs \<and> (\<forall>a \<in> set vs. (a, t) \<in> (superseded_by vs)\<^sup>*)" for t
    using tip [of t] same superseded_by_mset [OF same] by simp
  have "selected = (if vs = [] then Inl ''no historical FX rate covers the conversion''
     else case rate_tips sorted of [tip] \<Rightarrow> Inr tip | _ \<Rightarrow> Inl ''historical FX rate selection is ambiguous'')"
    using sel empty by (simp add: selected)
  moreover have "vs = [] \<Longrightarrow> rate_tips sorted \<noteq> [t]" for t using tips by auto
  moreover have "(\<exists>t. rate_tips sorted = [t]) \<longleftrightarrow> (\<exists>t \<in> set vs. \<forall>a \<in> set vs. (a, t) \<in> (superseded_by vs)\<^sup>*)"
    using tips by auto
  ultimately show ?thesis unfolding tips [symmetric] by (auto split: list.split)
qed

definition sample_observation :: "string \<Rightarrow> int \<Rightarrow> instant_ms \<Rightarrow> string option \<Rightarrow> rate_observation" where
  "sample_observation i num rec prev =
     \<lparr>obs_id = i, obs_rate = \<lparr>numerator = num, denominator = 1, source_unit = ''USD'', target_unit = ''EUR'',
        valid_time = Some \<lparr>from_ms = 0, to_ms = 1000\<rparr>\<rparr>, obs_source = ''desk'', obs_recorded = rec,
      obs_supersedes = prev\<rparr>"

definition sample_book :: "rate_observation list" where
  "sample_book = [sample_observation ''a'' 2 10 None, sample_observation ''b'' 3 20 (Some ''a'')]"

lemma canonical_sample_book: "canonical_book sample_book"
  by (simp add: sample_book_def sample_observation_def canonical_book_def canonical_observation_def
      canonical_rate_def rate_edge_ok_def rate_targets_def max_time_def trim_def js_space_def)

theorem select_historical_rate_spec_witness:
  "select_historical_rate code_unit_cmp sample_book (selection_value ''USD'' ''EUR'' 500 (Some 15))
     = Inr (sample_observation ''a'' 2 10 None)"
proof -
  let ?a = "sample_observation ''a'' 2 10 None"
  have vis: "[?a] = filter (rate_visible ''USD'' ''EUR'' 500 (Some 15)) sample_book"
    by (simp add: sample_book_def sample_observation_def rate_visible_def interval_contains_def)
  show ?thesis
    using select_historical_rate_spec [OF canonical_sample_book _ _ _ _ _ _ vis refl, of code_unit_cmp]
    by (auto simp: trim_def js_space_def max_time_def)
qed

text \<open>C6: A historical book survives its JSON form: a canonical book in any order builds a book of the
  same observations, and reading back what is written yields that book.  Where the collation tells the
  ids of the observations apart, the book and its JSON form are independent of the order the observations
  arrive in; \<open>localeCompare\<close> does not promise that of all strings.\<close>

theorem historical_book_roundtrip:
  assumes "canonical_book os" "mset os = mset os'" "comparator lc"
  shows "\<exists>book book' j j'. historical_rate_book lc (map observation_value os) = Inr book
    \<and> historical_rate_book_to_json lc os = Inr j \<and> historical_rate_book_from_json lc j = Inr book \<and> mset book = mset os
    \<and> historical_rate_book lc (map observation_value os') = Inr book' \<and> historical_rate_book_to_json lc os' = Inr j'
    \<and> mset book' = mset os \<and> (separates lc (map obs_id os) \<longrightarrow> book' = book \<and> j' = j)"
proof -
  let ?s = "sort_by (\<lambda>a b. lc (obs_id a) (obs_id b))"
  have cmp: "comparator (\<lambda>a b. lc (obs_id a) (obs_id b))" by (rule comparator_key) (rule assms(3))
  have ok': "canonical_book os'" using assms(1,2) canonical_book_mset by blast
  have oks: "canonical_book (?s os)" using canonical_book_mset [of "?s os" os] assms(1) by simp
  have idem: "?s (?s os) = ?s os" by (rule sort_by_sorted) (rule comparator.sorted_sort_by [OF cmp])
  obtain j where j: "historical_rate_book_to_json lc os = Inr j"
    "historical_rate_book_from_json lc j = historical_rate_book lc (map observation_value (?s os))"
    using book_json [OF assms(1)] by blast
  obtain j' where j': "historical_rate_book_to_json lc os' = Inr j'" using book_json [OF ok'] by blast
  have "j' = j" if "?s os = ?s os'"
    using that j(1) j' historical_rate_book_canonical [OF ok'] historical_rate_book_canonical [OF assms(1)]
    by (simp add: historical_rate_book_to_json_def)
  moreover have "separates lc (map obs_id os) \<Longrightarrow> ?s os = ?s os'" by (rule book_sort_unique [OF assms])
  ultimately show ?thesis
    using j j' historical_rate_book_canonical [OF ok'] historical_rate_book_canonical [OF assms(1)]
      historical_rate_book_canonical [OF oks] idem assms(2)
    by (intro exI [of _ "?s os"] exI [of _ "?s os'"] exI [of _ j] exI [of _ j']) auto
qed

theorem historical_book_roundtrip_witness:
  "\<exists>book j. historical_rate_book code_unit_cmp (map observation_value (rev sample_book)) = Inr book
     \<and> historical_rate_book code_unit_cmp (map observation_value sample_book) = Inr book
     \<and> historical_rate_book_to_json code_unit_cmp sample_book = Inr j
     \<and> historical_rate_book_from_json code_unit_cmp j = Inr book \<and> mset book = mset sample_book"
proof -
  have "comparator code_unit_cmp" by unfold_locales
  moreover have "separates code_unit_cmp (map obs_id sample_book)"
    by (simp add: separates_def sample_book_def sample_observation_def code_unit_cmp_def)
  ultimately show ?thesis
    using historical_book_roundtrip [OF canonical_sample_book, of "rev sample_book" code_unit_cmp] by auto
qed

end
