(* ===== verification/LedgerState.thy ===== *)
theory LedgerState
  imports Events Rate
begin

text \<open>
  The stored state of the economic ledger and the walks over it (\<open>src/src/economics/ledger.ts\<close>).

  The ledger is two SQLite tables and a third for rates: the events, each row the authenticated bytes
  of one canonical event, and the normalized source links.  A row is modelled by the event its bytes
  decode to; that the bytes of a row carry their own SHA-256 digest and are refused otherwise is the
  part of \<open>storedRecord\<close> that is not modelled.  Every \<open>SELECT\<close> of the source is a list function here
  with the same filter and the same order: \<open>recorded_at\<close> and \<open>occurred_at\<close> are text columns, so they
  are compared as ISO-8601 text (\<open>sql_le\<close>).
\<close>

section \<open>State\<close>

record ledger =
  led_events :: "economic_event list"
  led_links :: "(string \<times> string) list"
  led_rates :: "rate_observation list"

definition event_ids :: "ledger \<Rightarrow> string list" where
  "event_ids L = map ev_id (led_events L)"

definition stored :: "ledger \<Rightarrow> string \<Rightarrow> economic_event option" where
  "stored L i = List.find (\<lambda>e. ev_id e = i) (led_events L)"

definition sql_le :: "instant_ms \<Rightarrow> instant_ms \<Rightarrow> bool" where
  "sql_le a b = (to_iso a \<le> to_iso b)"

definition iso_cmp :: "instant_ms \<Rightarrow> instant_ms \<Rightarrow> int" where
  "iso_cmp a b = code_unit_cmp (to_iso a) (to_iso b)"

text \<open>\<open>ORDER BY recorded_at ASC, event_id ASC\<close> and \<open>ORDER BY occurred_at ASC, event_id ASC\<close>.\<close>

definition by_recorded :: "economic_event \<Rightarrow> economic_event \<Rightarrow> int" where
  "by_recorded a b = or_cmp (iso_cmp (ev_recorded a) (ev_recorded b)) (code_unit_cmp (ev_id a) (ev_id b))"

definition by_occurred :: "economic_event \<Rightarrow> economic_event \<Rightarrow> int" where
  "by_occurred a b = or_cmp (iso_cmp (ev_occurred a) (ev_occurred b)) (code_unit_cmp (ev_id a) (ev_id b))"

text \<open>\<open>readStored\<close>: the event of an id, refused when its normalized links diverge from it.\<close>

definition links_of :: "ledger \<Rightarrow> string \<Rightarrow> string list" where
  "links_of L i = sort (map snd (filter (\<lambda>l. fst l = i) (led_links L)))"

definition read_stored :: "ledger \<Rightarrow> string \<Rightarrow> economic_event option res" where
  "read_stored L i =
     (case stored L i of None \<Rightarrow> Inr None
      | Some e \<Rightarrow> if links_of L i \<noteq> sort (ev_sources e)
          then Inl ''stored economic event source links diverge from its canonical record''
          else Inr (Some e))"

text \<open>The events that name \<open>target\<close> as a source: the join of links and events, ordered by id.\<close>

definition linking :: "ledger \<Rightarrow> string \<Rightarrow> string list" where
  "linking L target = sort (map fst (filter (\<lambda>l. snd l = target \<and> stored L (fst l) \<noteq> None) (led_links L)))"

definition kind_is :: "ledger \<Rightarrow> event_kind \<Rightarrow> string \<Rightarrow> bool" where
  "kind_is L k i = (case stored L i of None \<Rightarrow> False | Some e \<Rightarrow> ev_kind e = k)"

definition has_close_invalidation :: "ledger \<Rightarrow> string \<Rightarrow> bool" where
  "has_close_invalidation L i = list_ex (kind_is L CloseInvalidated) (linking L i)"

definition raw_events_in_occurrence_range :: "ledger \<Rightarrow> int \<Rightarrow> int \<Rightarrow> economic_event list" where
  "raw_events_in_occurrence_range L s e =
     sort_by by_occurred (filter (\<lambda>v. sql_le s (ev_occurred v) \<and> \<not> sql_le e (ev_occurred v)) (led_events L))"

section \<open>Balances\<close>

record balance_group =
  grp_role :: event_role
  grp_amount :: money
  grp_ids :: "string list"

text \<open>The \<open>Map\<close> of groups is keyed by currency, basis and role; adding to a group may throw.\<close>

type_synonym balance_groups = "((string \<times> economic_basis \<times> event_role) \<times> balance_group) list"

definition add_to_group :: "balance_groups \<Rightarrow> economic_event \<Rightarrow> balance_groups res" where
  "add_to_group gs e =
     (case ev_amount e of None \<Rightarrow> Inr gs
      | Some m \<Rightarrow>
          let role = role_of_kind (ev_kind e); key = (currency m, basis m, role)
          in case map_of gs key of
            None \<Rightarrow> Inr (AList.update key \<lparr>grp_role = role, grp_amount = m, grp_ids = [ev_id e]\<rparr> gs)
          | Some g \<Rightarrow> bindE (add_money (grp_amount g) m) (\<lambda>total.
              Inr (AList.update key (g\<lparr>grp_amount := total, grp_ids := grp_ids g @ [ev_id e]\<rparr>) gs)))"

definition group_balances :: "economic_event list \<Rightarrow> balance_groups res" where
  "group_balances es = foldE add_to_group [] es"

definition balance_order :: "(string \<Rightarrow> string \<Rightarrow> int) \<Rightarrow> close_balance \<Rightarrow> close_balance \<Rightarrow> int" where
  "balance_order lc a b =
     or_cmp (lc (currency (bal_amount a)) (currency (bal_amount b)))
       (or_cmp (lc (basis_name (basis (bal_amount a))) (basis_name (basis (bal_amount b))))
          (lc (bal_role a) (bal_role b)))"

definition close_balances :: "(string \<Rightarrow> string \<Rightarrow> int) \<Rightarrow> economic_event list \<Rightarrow> close_balance list res" where
  "close_balances lc es =
     bindE (group_balances es) (\<lambda>gs.
       Inr (sort_by (balance_order lc)
              (map (\<lambda>kg. \<lparr>bal_role = role_name (grp_role (snd kg)), bal_amount = grp_amount (snd kg),
                         bal_events = sort (grp_ids (snd kg))\<rparr>) gs)))"

section \<open>Walks\<close>

lemma stored_Some: "stored L i = Some e \<Longrightarrow> e \<in> set (led_events L) \<and> ev_id e = i"
  by (auto simp: stored_def find_Some_iff)

lemma stored_in_ids: "stored L i = Some e \<Longrightarrow> i \<in> set (event_ids L)"
  by (drule stored_Some) (auto simp: event_ids_def)

lemma read_stored_Some: "read_stored L i = Inr (Some e) \<Longrightarrow> stored L i = Some e"
  by (auto simp: read_stored_def split: option.splits if_splits)

lemma read_stored_in_ids: "read_stored L i = Inr (Some e) \<Longrightarrow> i \<in> set (event_ids L) \<and> ev_id e = i"
  by (drule read_stored_Some) (auto dest: stored_Some simp: stored_in_ids)

text \<open>A walk that never revisits an id ends: the ids of the ledger not yet seen run out.\<close>

definition unseen :: "ledger \<Rightarrow> string \<Rightarrow> string list \<Rightarrow> nat" where
  "unseen L i seen = card (insert i (set (event_ids L)) - set seen)"

lemma unseen_step:
  "i \<notin> set seen \<Longrightarrow> j \<in> set (event_ids L) \<Longrightarrow> unseen L j (i # seen) < unseen L i seen"
  unfolding unseen_def by (rule psubset_card_mono) auto

lemma unseen_next: "j \<in> set (event_ids L) \<Longrightarrow> j \<notin> set seen \<Longrightarrow> i \<in> set seen \<Longrightarrow> unseen L j (j # seen) < unseen L i seen"
  unfolding unseen_def by (rule psubset_card_mono) auto

text \<open>\<open>translationRoot\<close>: the non-translation event a translation ultimately restates.\<close>

function translation_root_from :: "ledger \<Rightarrow> string list \<Rightarrow> string \<Rightarrow> string res" where
  "translation_root_from L seen current =
     (if current \<in> set seen then Inr current
      else bindE (read_stored L current) (\<lambda>found.
        case found of None \<Rightarrow> Inr current
        | Some e \<Rightarrow>
            if ev_kind e \<noteq> FxTranslated then Inr current
            else case ev_sources e of [] \<Rightarrow> Inr current
              | next # _ \<Rightarrow> translation_root_from L (current # seen) next))"
  by pat_completeness auto
termination
proof (relation "measure (\<lambda>(L, seen, current). card (set (event_ids L) - set seen))")
  fix L seen current found e "next" rest
  assume "current \<notin> set seen" "read_stored L current = Inr found" "found = Some e"
  then have "current \<in> set (event_ids L)" using read_stored_in_ids by blast
  then have "card (set (event_ids L) - set (current # seen)) < card (set (event_ids L) - set seen)"
    using \<open>current \<notin> set seen\<close> by (intro psubset_card_mono) auto
  then show "((L, current # seen, next), L, seen, current)
      \<in> measure (\<lambda>(L, seen, current). card (set (event_ids L) - set seen))" by simp
qed simp

declare translation_root_from.simps [simp del]

definition translation_root :: "ledger \<Rightarrow> string \<Rightarrow> string res" where
  "translation_root L i = translation_root_from L [] i"

text \<open>\<open>correctedChargeAmount\<close>: the charge plus every price correction along its chain.\<close>

function corrections_from :: "ledger \<Rightarrow> string list \<Rightarrow> string \<Rightarrow> money \<Rightarrow> string list \<Rightarrow> (money \<times> string list) res" where
  "corrections_from L seen current amount ids =
     (case filter (kind_is L PriceCorrected) (linking L current) of
        [] \<Rightarrow> Inr (amount, ids)
      | [nxt] \<Rightarrow>
          if nxt \<in> set seen then Inl ''economic event price correction cycle detected''
          else bindE (read_stored L nxt) (\<lambda>found.
            case found of None \<Rightarrow> Inr (amount, ids)
            | Some c \<Rightarrow> (case ev_amount c of None \<Rightarrow> Inr (amount, ids)
                | Some d \<Rightarrow> bindE (add_money amount d) (\<lambda>total.
                    corrections_from L (nxt # seen) nxt total (ids @ [nxt]))))
      | _ \<Rightarrow> Inl ''economic event has more than one direct price correction'')"
  by pat_completeness auto
termination
proof (relation "measure (\<lambda>(L, seen, current, amount, ids). card (set (event_ids L) - set seen))")
  fix L seen current amount ids nxt found c d total
  assume "nxt \<notin> set seen" "read_stored L nxt = Inr found" "found = Some c"
  then have "nxt \<in> set (event_ids L)" using read_stored_in_ids by blast
  then have "card (set (event_ids L) - set (nxt # seen)) < card (set (event_ids L) - set seen)"
    using \<open>nxt \<notin> set seen\<close> by (intro psubset_card_mono) auto
  then show "((L, nxt # seen, nxt, total, ids @ [nxt]), L, seen, current, amount, ids)
      \<in> measure (\<lambda>(L, seen, current, amount, ids). card (set (event_ids L) - set seen))" by simp
qed simp

declare corrections_from.simps [simp del]

definition corrected_charge_amount :: "ledger \<Rightarrow> economic_event \<Rightarrow> (money \<times> string list) res" where
  "corrected_charge_amount L charge =
     (case ev_amount charge of None \<Rightarrow> Inl ''economic event has no monetary amount to correct''
      | Some m \<Rightarrow> corrections_from L [ev_id charge] (ev_id charge) m [])"

text \<open>\<open>recordedNegativeAdjustments\<close>: what is already credited against a charge.\<close>

definition adjustment_target :: "economic_event \<Rightarrow> string option" where
  "adjustment_target e =
     (case ev_reversal e of Some r \<Rightarrow> Some r
      | None \<Rightarrow> (case ev_sources e of [s] \<Rightarrow> Some s | _ \<Rightarrow> None))"

definition credits_against :: "string \<Rightarrow> economic_event \<Rightarrow> bool" where
  "credits_against target e =
     (role_of_kind (ev_kind e) = RAdjustment
      \<and> (case ev_amount e of None \<Rightarrow> False | Some m \<Rightarrow> coefficient m < 0)
      \<and> adjustment_target e = Some target)"

definition add_credit :: "ledger \<Rightarrow> string \<Rightarrow> money \<times> string list \<Rightarrow> string \<Rightarrow> (money \<times> string list) res" where
  "add_credit L target acc i =
     bindE (read_stored L i) (\<lambda>found.
       case found of None \<Rightarrow> Inr acc
       | Some e \<Rightarrow> (case ev_amount e of None \<Rightarrow> Inr acc
           | Some m \<Rightarrow> if \<not> credits_against target e then Inr acc
               else bindE (negate_money m) (\<lambda>n. bindE (add_money (fst acc) n) (\<lambda>t.
                      Inr (t, snd acc @ [ev_id e])))))"

definition recorded_negative_adjustments :: "ledger \<Rightarrow> economic_event \<Rightarrow> string \<Rightarrow> (money \<times> string list) res" where
  "recorded_negative_adjustments L target exclude =
     (case ev_amount target of None \<Rightarrow> Inl ''economic event has no monetary amount to adjust''
      | Some m \<Rightarrow> bindE (money ''0'' (currency m) (basis_name (basis m))) (\<lambda>zero.
          foldE (add_credit L (ev_id target)) (zero, [])
            (filter (\<lambda>i. i \<noteq> exclude) (linking L (ev_id target)))))"

end
