(* ===== verification/LedgerChecks.thy ===== *)
theory LedgerChecks
  imports LedgerState
begin

text \<open>
  The per-event checks of \<open>validateReferenceClosure\<close> and \<open>validateCloseEvent\<close>
  (\<open>src/src/economics/ledger.ts\<close>), one definition per block of the source, in its order.  \<open>srcs\<close> is
  the \<open>Map\<close> of the already validated sources, in the order of \<open>sourceEventIds\<close>.
\<close>

type_synonym source_map = "(string \<times> economic_event) list"

definition is_adjustment :: "economic_event \<Rightarrow> bool" where
  "is_adjustment e = (role_of_kind (ev_kind e) = RAdjustment \<and> ev_amount e \<noteq> None)"

definition same_unit :: "money \<Rightarrow> money \<Rightarrow> bool" where
  "same_unit a b = (currency a = currency b \<and> basis a = basis b)"

section \<open>Adjustments\<close>

definition check_adjustment_sources :: "economic_event \<Rightarrow> source_map \<Rightarrow> unit res" where
  "check_adjustment_sources e srcs =
     (case ev_amount e of None \<Rightarrow> Inr ()
      | Some m \<Rightarrow>
          if role_of_kind (ev_kind e) \<noteq> RAdjustment then Inr ()
          else if ev_sources e = [] then Inl ''economic event adjusts a charge and must name it''
          else
            let charges = filter (\<lambda>s. role_of_kind (ev_kind s) = RCharge) (map snd srcs)
            in if length charges \<noteq> length (ev_sources e)
               then Inl ''economic event adjustment sources must all be charge events''
               else foldE (\<lambda>_ s. case ev_amount s of
                        None \<Rightarrow> Inl ''economic event adjustment source has no monetary amount''
                      | Some sm \<Rightarrow> if \<not> same_unit sm m
                          then Inl ''economic event adjustment must use the currency and basis of every referenced charge''
                          else Inr ()) () charges)"

definition check_adjustment_bound :: "ledger \<Rightarrow> economic_event \<Rightarrow> source_map \<Rightarrow> unit res" where
  "check_adjustment_bound L e srcs =
     (case ev_amount e of None \<Rightarrow> Inr ()
      | Some m \<Rightarrow>
          if role_of_kind (ev_kind e) \<noteq> RAdjustment \<or> 0 \<le> coefficient m then Inr ()
          else if ev_reversal e = None \<and> length (ev_sources e) \<noteq> 1
          then Inl ''economic event negative adjustments with multiple charge sources require an explicit reversalOf target''
          else
            (case (case ev_reversal e of Some r \<Rightarrow> Some r
                   | None \<Rightarrow> (case ev_sources e of [] \<Rightarrow> None | s # _ \<Rightarrow> Some s)) of
               None \<Rightarrow> Inr ()
             | Some target_id \<Rightarrow> (case map_of srcs target_id of None \<Rightarrow> Inr ()
                 | Some target \<Rightarrow>
                     if role_of_kind (ev_kind target) \<noteq> RCharge \<or> ev_amount target = None then Inr ()
                     else
                       bindE (recorded_negative_adjustments L target (ev_id e)) (\<lambda>prior.
                       bindE (negate_money m) (\<lambda>n.
                       bindE (add_money n (fst prior)) (\<lambda>adjusted.
                       bindE (corrected_charge_amount L target) (\<lambda>corrected.
                       bindE (compare_money adjusted (fst corrected)) (\<lambda>c.
                         if c > 0 then Inl ''economic event adjustments exceed the charge'' else Inr ()))))))))"

section \<open>Reversals\<close>

definition add_reversal :: "ledger \<Rightarrow> string \<Rightarrow> money \<Rightarrow> string \<Rightarrow> money res" where
  "add_reversal L target reversed i =
     bindE (read_stored L i) (\<lambda>found.
       case found of None \<Rightarrow> Inr reversed
       | Some e \<Rightarrow> (case ev_amount e of None \<Rightarrow> Inr reversed
           | Some m \<Rightarrow> if ev_reversal e \<noteq> Some target then Inr reversed
               else bindE (negate_money m) (add_money reversed)))"

definition check_allocation_reversal ::
    "ledger \<Rightarrow> economic_event \<Rightarrow> economic_event \<Rightarrow> money \<Rightarrow> money \<Rightarrow> unit res" where
  "check_allocation_reversal L e target m tm =
     (if ev_kind target \<noteq> CostAllocated then Inl ''economic event allocation reversal must target cost_allocated''
      else if ev_subject target \<noteq> ev_subject e then Inl ''economic event allocation reversal subject must match its source''
      else if coefficient tm < 0 then Inl ''economic event cannot reverse a negative allocation''
      else if coefficient m > 0 then Inl ''economic event allocation reversal must be non-positive''
      else
        bindE (negate_money m) (\<lambda>n.
        bindE (compare_money n tm) (\<lambda>c.
          if c > 0 then Inl ''economic event allocation reversal exceeds its source amount''
          else
        bindE (foldE (add_reversal L (ev_id target)) n
                 (filter (\<lambda>i. i \<noteq> ev_id e) (linking L (ev_id target)))) (\<lambda>reversed.
        bindE (compare_money reversed tm) (\<lambda>c'.
          if c' > 0 then Inl ''economic event allocation reversals exceed the allocation'' else Inr ())))))"

definition check_reversal :: "ledger \<Rightarrow> economic_event \<Rightarrow> source_map \<Rightarrow> unit res" where
  "check_reversal L e srcs =
     (case ev_reversal e of None \<Rightarrow> Inr ()
      | Some r \<Rightarrow> (case map_of srcs r of
          None \<Rightarrow> Inl ''economic event reversalOf must appear in sourceEventIds''
        | Some target \<Rightarrow> (case (ev_amount target, ev_amount e) of
            (Some tm, Some m) \<Rightarrow>
              if \<not> same_unit tm m then Inl ''economic event reversal must use the source currency and basis''
              else if ev_kind target = CostAllocated \<and> ev_kind e \<noteq> AllocationReversed
              then Inl ''economic event reverses an allocation and must be recorded as allocation_reversed''
              else if ev_kind e = AllocationReversed then check_allocation_reversal L e target m tm
              else Inr ()
          | _ \<Rightarrow> Inl ''economic event reversal requires monetary source and amount'')))"

section \<open>Price corrections\<close>

text \<open>The typed metadata of a correction: exactly \<open>correction\<close>, \<open>previousAmount\<close>, \<open>nextAmount\<close>.\<close>

definition correction_metadata :: "string \<Rightarrow> jsval \<Rightarrow> (money \<times> money) res" where
  "correction_metadata label v =
     (if \<not> is_object v then Inl (label @ '' metadata is missing typed amounts'')
      else if \<not> keys_are [''correction'', ''nextAmount'', ''previousAmount''] v
      then Inl (label @ '' metadata has unknown or missing fields'')
      else if field ''correction'' v \<noteq> JStr ''reprice'' then Inl (label @ '' metadata correction must be reprice'')
      else bindE (money_from_json (field ''previousAmount'' v)) (\<lambda>p.
           bindE (money_from_json (field ''nextAmount'' v)) (\<lambda>n. Inr (p, n))))"

definition predecessor_amount :: "economic_event \<Rightarrow> money \<Rightarrow> money res" where
  "predecessor_amount source sm =
     (if ev_kind source = ChargeEstimated \<and> basis sm \<noteq> BList \<and> basis sm \<noteq> BEstimated
      then Inl ''economic event price correction must target a local charge_estimated event''
      else if ev_kind source = PriceCorrected then
        bindE (correction_metadata ''economic event price correction predecessor'' (ev_metadata source)) (\<lambda>pn.
          if coefficient (snd pn) < 0 \<or> \<not> same_unit (fst pn) sm \<or> \<not> same_unit (snd pn) sm
          then Inl ''economic event price correction predecessor metadata does not reproduce its delta''
          else bindE (subtract_money (snd pn) (fst pn)) (\<lambda>d. bindE (compare_money d sm) (\<lambda>c.
            if c \<noteq> 0 then Inl ''economic event price correction predecessor metadata does not reproduce its delta''
            else Inr (snd pn))))
      else Inr sm)"

text \<open>The walk back from the corrected event to the charge at the root of its chain.\<close>

function correction_root :: "ledger \<Rightarrow> string list \<Rightarrow> economic_event \<Rightarrow> economic_event res" where
  "correction_root L chain cur =
     (if ev_kind cur \<noteq> PriceCorrected then Inr cur
      else if ev_id cur \<in> set chain then Inl ''economic event price correction cycle detected''
      else case ev_sources cur of [] \<Rightarrow> Inl ''economic event price correction chain does not reach its charge''
        | p # _ \<Rightarrow> bindE (read_stored L p) (\<lambda>found.
            case found of None \<Rightarrow> Inl ''economic event price correction chain does not reach its charge''
            | Some e \<Rightarrow> correction_root L (ev_id cur # chain) e))"
  by pat_completeness auto
termination
proof (relation "measure (\<lambda>(L, chain, cur). unseen L (ev_id cur) chain)")
  fix L chain and cur :: economic_event and p rest found e
  assume "ev_id cur \<notin> set chain" "read_stored L p = Inr found" "found = Some e"
  then have "ev_id e \<in> set (event_ids L)" using read_stored_in_ids by blast
  then show "((L, ev_id cur # chain, e), L, chain, cur) \<in> measure (\<lambda>(L, chain, cur). unseen L (ev_id cur) chain)"
    using \<open>ev_id cur \<notin> set chain\<close> by (simp add: unseen_step)
qed simp

declare correction_root.simps [simp del]

definition check_correction_bound :: "ledger \<Rightarrow> economic_event \<Rightarrow> economic_event \<Rightarrow> money \<Rightarrow> unit res" where
  "check_correction_bound L e source m =
     bindE (correction_root L [ev_id e] source) (\<lambda>root.
     bindE (corrected_charge_amount L root) (\<lambda>kept.
     bindE (if ev_id e \<in> set (snd kept) then Inr (fst kept) else add_money (fst kept) m) (\<lambda>terminal.
     bindE (recorded_negative_adjustments L root (ev_id e)) (\<lambda>credited.
     bindE (compare_money (fst credited) terminal) (\<lambda>c.
       if c > 0 then Inl ''economic event corrects the charge below what is already adjusted against it''
       else Inr ())))))"

text \<open>The typed amounts of a correction of a predecessor that stands at \<open>pre\<close>, and its delta \<open>m\<close>.\<close>

definition check_reprice :: "ledger \<Rightarrow> economic_event \<Rightarrow> economic_event \<Rightarrow> money \<Rightarrow> money \<Rightarrow> unit res" where
  "check_reprice L e source pre m =
     (if coefficient pre < 0 then Inl ''economic event price correction predecessor amount must be non-negative''
      else if \<not> same_unit m pre then Inl ''economic event price correction must use the predecessor currency and basis''
      else
        bindE (correction_metadata ''economic event price correction'' (ev_metadata e)) (\<lambda>pn.
        bindE (compare_money (fst pn) pre) (\<lambda>c.
          if c \<noteq> 0 then Inl ''economic event price correction previousAmount must equal its predecessor next amount''
          else if \<not> same_unit (snd pn) pre
          then Inl ''economic event price correction nextAmount must use the predecessor currency and basis''
          else if coefficient (snd pn) < 0 then Inl ''economic event price correction nextAmount must be non-negative''
          else
        bindE (subtract_money (snd pn) (fst pn)) (\<lambda>d.
        bindE (compare_money d m) (\<lambda>c'.
          if c' \<noteq> 0 then Inl ''economic event price correction amount must equal nextAmount minus previousAmount''
          else if list_ex (\<lambda>i. i \<noteq> ev_id e \<and> kind_is L PriceCorrected i) (linking L (ev_id source))
          then Inl ''economic event price correction source already has a correction''
          else check_correction_bound L e source m)))))"

definition check_price_correction :: "ledger \<Rightarrow> economic_event \<Rightarrow> source_map \<Rightarrow> unit res" where
  "check_price_correction L e srcs =
     (if ev_kind e \<noteq> PriceCorrected then Inr ()
      else if ev_reversal e \<noteq> None then Inl ''economic event price correction must not use reversalOf''
      else case ev_sources e of
        [source_id] \<Rightarrow> (case map_of srcs source_id of
          None \<Rightarrow> Inl ''economic event price correction source is missing''
        | Some source \<Rightarrow>
            if role_of_kind (ev_kind source) \<noteq> RCharge \<and> role_of_kind (ev_kind source) \<noteq> RPrice
            then Inl ''economic event price correction source must be a charge or prior correction''
            else if ev_kind source \<noteq> ChargeEstimated \<and> ev_kind source \<noteq> PriceCorrected
            then Inl ''economic event price correction must target a local charge_estimated or prior price_corrected event''
            else (case ev_amount source of
              None \<Rightarrow> Inl ''economic event price correction predecessor must have a monetary amount''
            | Some sm \<Rightarrow>
                bindE (predecessor_amount source sm) (\<lambda>pre.
                if ev_subject source \<noteq> ev_subject e then Inl ''economic event price correction subject must match its source''
                else if ev_occurred e \<noteq> ev_occurred source
                then Inl ''economic event price correction occurredAt must match its source occurrence''
                else (case ev_amount e of
                  None \<Rightarrow> Inl ''economic event price correction requires a monetary delta''
                | Some m \<Rightarrow> check_reprice L e source pre m))))
      | _ \<Rightarrow> Inl ''economic event price correction requires exactly one source event'')"

section \<open>FX translations\<close>

definition translation_keys :: "string list" where
  "translation_keys = [''convention'', ''effectiveAt'', ''rate'', ''rateSource'', ''rounding'', ''sourceAmount'']"

definition rate_record_ok :: "jsval \<Rightarrow> bool" where
  "rate_record_ok v =
     keys_are ([''denominator'', ''numerator'', ''sourceUnit'', ''targetUnit'']
       @ (if has_own ''validTime'' v then [''validTime''] else [])) v"

text \<open>The historical lineage a translation carries, and the recomputation of its amount from it.\<close>

definition check_translation_metadata :: "economic_event \<Rightarrow> money \<Rightarrow> money \<Rightarrow> unit res" where
  "check_translation_metadata e sm m =
     (let v = ev_metadata e in
      if \<not> is_object v then Inl ''economic event FX translation metadata is missing historical lineage''
      else if \<not> keys_are translation_keys v
      then Inl ''economic event FX translation metadata must contain exactly sourceAmount, rate, rateSource, effectiveAt, convention, and rounding''
      else
        bindE (money_from_json (field ''sourceAmount'' v)) (\<lambda>claimed.
        bindE (compare_money claimed sm) (\<lambda>c.
          if c \<noteq> 0 then Inl ''economic event FX translation sourceAmount must equal its source amount''
          else if \<not> is_object (field ''rate'' v) then Inl ''economic event FX translation rate is missing''
          else if \<not> rate_record_ok (field ''rate'' v)
          then Inl ''economic event FX translation rate contains unknown or missing fields''
          else
        bindE (rate_from_json (field ''rate'' v)) (\<lambda>r.
          if numerator r \<le> 0 \<or> denominator r \<le> 0 then Inl ''economic event FX translation rate must be positive''
          else if source_unit r \<noteq> currency sm \<or> target_unit r \<noteq> currency m
          then Inl ''economic event FX translation rate currency identity does not match source and target''
          else if target_unit r = source_unit r then Inl ''economic event FX translation must change currency''
          else if blank_val (field ''rateSource'' v) then Inl ''economic event FX translation rateSource must be non-empty''
          else
        bindE (instant_val ''economic event FX translation effectiveAt'' (field ''effectiveAt'' v)) (\<lambda>eff.
          if (case valid_time r of None \<Rightarrow> False | Some i \<Rightarrow> \<not> interval_contains i eff)
          then Inl ''economic event FX translation effectiveAt must fall within the rate validTime interval''
          else if field ''convention'' v \<noteq> JStr ''source-to-target''
          then Inl ''economic event FX translation convention must be source-to-target''
          else if field ''rounding'' v \<noteq> JStr ''none'' then Inl ''economic event FX translation rounding must be none''
          else if eff > ev_occurred e then Inl ''economic event FX translation effectiveAt cannot be after occurrence''
          else
        bindE (apply_exact_rate sm r (basis_name (basis sm))) (\<lambda>expected.
        bindE (compare_money expected m) (\<lambda>c'.
          if c' \<noteq> 0 then Inl ''economic event FX translation amount does not match its historical rate''
          else Inr ())))))))"

definition check_no_other_translation :: "ledger \<Rightarrow> economic_event \<Rightarrow> string \<Rightarrow> money \<Rightarrow> unit res" where
  "check_no_other_translation L e base m =
     foldE (\<lambda>_ i. bindE (read_stored L i) (\<lambda>found.
       case found of None \<Rightarrow> Inr ()
       | Some p \<Rightarrow> (case ev_amount p of None \<Rightarrow> Inr ()
           | Some pm \<Rightarrow> if currency pm \<noteq> currency m then Inr ()
               else bindE (translation_root L (ev_id p)) (\<lambda>r.
                 if r \<noteq> base then Inr ()
                 else Inl ''economic event FX translation source is already translated into this currency''))))
       () (filter (\<lambda>i. i \<noteq> ev_id e) (sort (map ev_id (filter (\<lambda>x. ev_kind x = FxTranslated) (led_events L)))))"

definition check_fx_translation :: "ledger \<Rightarrow> economic_event \<Rightarrow> source_map \<Rightarrow> unit res" where
  "check_fx_translation L e srcs =
     (if ev_kind e \<noteq> FxTranslated then Inr ()
      else if ev_reversal e \<noteq> None then Inl ''economic event FX translation must not use reversalOf''
      else case ev_sources e of
        [source_id] \<Rightarrow> (case map_of srcs source_id of
          None \<Rightarrow> Inl ''economic event FX translation must target a monetary source''
        | Some source \<Rightarrow> (case ev_amount source of
            None \<Rightarrow> Inl ''economic event FX translation must target a monetary source''
          | Some sm \<Rightarrow>
              if role_of_kind (ev_kind source) \<noteq> RCharge \<and> role_of_kind (ev_kind source) \<noteq> RTranslation
              then Inl ''economic event FX translation source must be a charge or prior FX translation''
              else if ev_subject source \<noteq> ev_subject e then Inl ''economic event FX translation subject must match its source''
              else if ev_occurred e \<noteq> ev_occurred source
              then Inl ''economic event FX translation occurrence must match its source''
              else (case ev_amount e of
                None \<Rightarrow> Inl ''economic event FX translation requires a monetary amount''
              | Some m \<Rightarrow>
                  if currency m = currency sm \<or> basis m \<noteq> basis sm
                  then Inl ''economic event FX translation must change currency while preserving basis''
                  else bindE (check_translation_metadata e sm m) (\<lambda>_.
                       bindE (translation_root L (ev_id source)) (\<lambda>root.
                         check_no_other_translation L e root m)))))
      | _ \<Rightarrow> Inl ''economic event FX translation requires exactly one source event'')"

section \<open>Close control events\<close>

definition is_close_kind :: "event_kind \<Rightarrow> bool" where
  "is_close_kind k = (k = CloseFinalized \<or> k = CloseReopened \<or> k = CloseInvalidated)"

definition close_binding_matches ::
    "(string \<Rightarrow> string \<Rightarrow> int) \<Rightarrow> (jsval \<Rightarrow> string) \<Rightarrow> ledger \<Rightarrow> economic_event \<Rightarrow> finalization_metadata \<Rightarrow> bool res" where
  "close_binding_matches lc sha L e fm =
     (let evs = filter (\<lambda>v. ev_recorded v \<le> ev_recorded e)
                  (raw_events_in_occurrence_range L (fin_start fm) (fin_end fm));
          ids = sort (map ev_id evs)
      in if sort (ev_sources e) \<noteq> ids then Inr False
         else if fin_count fm \<noteq> int (length ids) then Inr False
         else bindE (close_balances lc evs) (\<lambda>bs.
           Inr (fin_digest fm = close_projection_digest lc sha (fin_start fm) (fin_end fm) ids bs)))"

definition check_close_placement :: "economic_event \<Rightarrow> int \<Rightarrow> int \<Rightarrow> unit res" where
  "check_close_placement e s t =
     (if ev_subject e \<noteq> period_subject s t then Inl ''economic close event subject does not match its period''
      else if ev_occurred e \<noteq> t then Inl ''economic close event occurrence must equal the exclusive period end''
      else if ev_recorded e < t then Inl ''economic close event recordedAt cannot precede its period end''
      else Inr ())"

definition check_finalization ::
    "(string \<Rightarrow> string \<Rightarrow> int) \<Rightarrow> (jsval \<Rightarrow> string) \<Rightarrow> ledger \<Rightarrow> economic_event \<Rightarrow> source_map \<Rightarrow> unit res" where
  "check_finalization lc sha L e srcs =
     bindE (close_finalization_metadata (ev_metadata e)) (\<lambda>fm.
     bindE (check_close_placement e (fin_start fm) (fin_end fm)) (\<lambda>_.
       if sort (ev_sources e) \<noteq> ev_sources e then Inl ''economic close finalization sourceEventIds must be sorted''
       else bindE (close_binding_matches lc sha L e fm) (\<lambda>matches.
         if has_close_invalidation L (ev_id e)
         then (if matches then Inl ''economic close invalidation targets a verifiable close'' else Inr ())
         else if \<not> matches then Inl ''economic close finalization must bind every in-period event exactly once''
         else if list_ex (\<lambda>s. is_close_kind (ev_kind s)) (map snd srcs)
         then Inl ''economic close finalization cannot include another close control event''
         else Inr ())))"

definition check_control :: "control_metadata \<Rightarrow> economic_event \<Rightarrow> source_map \<Rightarrow> unit res" where
  "check_control cm e srcs =
     bindE (check_close_placement e (ctl_start cm) (ctl_end cm)) (\<lambda>_.
       if ev_sources e \<noteq> [ctl_close_id cm] then Inl ''economic close control must reference exactly its finalized close event''
       else case map_of srcs (ctl_close_id cm) of
         None \<Rightarrow> Inl ''economic close control must reference a close_finalized event''
       | Some source \<Rightarrow>
           if ev_kind source \<noteq> CloseFinalized then Inl ''economic close control must reference a close_finalized event''
           else bindE (close_finalization_metadata (ev_metadata source)) (\<lambda>sm.
             if fin_start sm \<noteq> ctl_start cm \<or> fin_end sm \<noteq> ctl_end cm
             then Inl ''economic close control period does not match its finalized close'' else Inr ()))"

definition validate_close_event ::
    "(string \<Rightarrow> string \<Rightarrow> int) \<Rightarrow> (jsval \<Rightarrow> string) \<Rightarrow> ledger \<Rightarrow> economic_event \<Rightarrow> source_map \<Rightarrow> unit res" where
  "validate_close_event lc sha L e srcs =
     (if ev_kind e = CloseFinalized then check_finalization lc sha L e srcs
      else if ev_kind e = CloseReopened
      then bindE (close_reopen_metadata (ev_metadata e)) (\<lambda>cm. check_control cm e srcs)
      else if ev_kind e = CloseInvalidated
      then bindE (close_invalidation_metadata (ev_metadata e)) (\<lambda>cm. check_control cm e srcs)
      else Inr ())"

section \<open>All blocks in order\<close>

definition check_event ::
    "(string \<Rightarrow> string \<Rightarrow> int) \<Rightarrow> (jsval \<Rightarrow> string) \<Rightarrow> ledger \<Rightarrow> economic_event \<Rightarrow> source_map \<Rightarrow> unit res" where
  "check_event lc sha L e srcs =
     bindE (check_adjustment_sources e srcs) (\<lambda>_.
     bindE (check_adjustment_bound L e srcs) (\<lambda>_.
     bindE (check_reversal L e srcs) (\<lambda>_.
     bindE (check_price_correction L e srcs) (\<lambda>_.
     bindE (check_fx_translation L e srcs) (\<lambda>_.
       validate_close_event lc sha L e srcs)))))"

end
