(* ===== verification/EconLedger.thy ===== *)
theory EconLedger
  imports LedgerChecks
begin

text \<open>
  The operations of \<open>EconomicLedger\<close> (\<open>src/src/economics/ledger.ts\<close>): validated reads, appends,
  period closing, reopening and recovery, the projection and the effective charges.  An operation
  that throws rolls its transaction back, so it returns \<open>Inl\<close> and no new ledger.
\<close>

section \<open>Validated reads\<close>

function closure ::
    "(string \<Rightarrow> string \<Rightarrow> int) \<Rightarrow> (jsval \<Rightarrow> string) \<Rightarrow> ledger \<Rightarrow> string list \<Rightarrow> string list \<Rightarrow> economic_event
      \<Rightarrow> string list res" where
  "closure lc sha L visiting validated e =
     (if ev_id e \<in> set validated then Inr validated
      else if ev_id e \<in> set visiting then Inl ''economic event reference cycle detected''
      else if (case ev_reversal e of None \<Rightarrow> False | Some r \<Rightarrow> r \<notin> set (ev_sources e))
      then Inl ''economic event reversalOf must appear in sourceEventIds''
      else
        bindE (foldE (\<lambda>acc sid.
            if sid = ev_id e then Inl ''economic event cannot reference itself''
            else bindE (read_stored L sid) (\<lambda>found.
              case found of None \<Rightarrow> Inl ''unknown source economic event''
              | Some s \<Rightarrow>
                  if ev_recorded e < ev_recorded s then Inl ''economic event recordedAt cannot precede source''
                  else bindE (closure lc sha L (ev_id e # visiting) (snd acc) s) (\<lambda>val.
                    Inr (fst acc @ [(sid, s)], val))))
          ([], validated) (ev_sources e)) (\<lambda>gathered.
        bindE (check_event lc sha L e (fst gathered)) (\<lambda>_. Inr (ev_id e # snd gathered))))"
  by pat_completeness auto
termination
proof (relation "measure (\<lambda>(lc, sha, L, visiting, validated, e). unseen L (ev_id e) visiting)")
  fix lc sha L visiting validated and e :: economic_event and acc sid found s
  assume "ev_id e \<notin> set visiting" "read_stored L sid = Inr found" "found = Some s"
  then have "ev_id s \<in> set (event_ids L)" using read_stored_in_ids by blast
  then show "((lc, sha, L, ev_id e # visiting, snd acc, s), lc, sha, L, visiting, validated, e)
      \<in> measure (\<lambda>(lc, sha, L, visiting, validated, e). unseen L (ev_id e) visiting)"
    using \<open>ev_id e \<notin> set visiting\<close> by (simp add: unseen_step)
qed simp

declare closure.simps [simp del]

definition read ::
    "(string \<Rightarrow> string \<Rightarrow> int) \<Rightarrow> (jsval \<Rightarrow> string) \<Rightarrow> ledger \<Rightarrow> string \<Rightarrow> economic_event option res" where
  "read lc sha L i =
     (if trim i = [] then Inl ''economic event id is required''
      else bindE (read_stored L i) (\<lambda>found.
        case found of None \<Rightarrow> Inr None
        | Some e \<Rightarrow> bindE (closure lc sha L [] [] e) (\<lambda>_. Inr (Some e))))"

definition validate_all ::
    "(string \<Rightarrow> string \<Rightarrow> int) \<Rightarrow> (jsval \<Rightarrow> string) \<Rightarrow> ledger \<Rightarrow> economic_event list \<Rightarrow> economic_event list res" where
  "validate_all lc sha L es = bindE (foldE (closure lc sha L []) [] es) (\<lambda>_. Inr es)"

definition events_as_of ::
    "(string \<Rightarrow> string \<Rightarrow> int) \<Rightarrow> (jsval \<Rightarrow> string) \<Rightarrow> ledger \<Rightarrow> instant_ms option \<Rightarrow> economic_event list res" where
  "events_as_of lc sha L as_of =
     validate_all lc sha L
       (sort_by by_recorded
          (filter (\<lambda>e. case as_of of None \<Rightarrow> True | Some t \<Rightarrow> sql_le (ev_recorded e) t) (led_events L)))"

definition events_in_occurrence_range ::
    "(string \<Rightarrow> string \<Rightarrow> int) \<Rightarrow> (jsval \<Rightarrow> string) \<Rightarrow> ledger \<Rightarrow> int \<Rightarrow> int \<Rightarrow> economic_event list res" where
  "events_in_occurrence_range lc sha L s e =
     (if s \<ge> e then Inl ''economic occurrence range must contain ordered finite timestamps''
      else if \<bar>s\<bar> > max_time \<or> \<bar>e\<bar> > max_time then Inl ''economic occurrence range is outside the supported date range''
      else validate_all lc sha L (raw_events_in_occurrence_range L s e))"

definition close_control_events ::
    "(string \<Rightarrow> string \<Rightarrow> int) \<Rightarrow> (jsval \<Rightarrow> string) \<Rightarrow> ledger \<Rightarrow> economic_event list res" where
  "close_control_events lc sha L =
     validate_all lc sha L
       (sort_by by_recorded
          (filter (\<lambda>e. ev_kind e = CloseFinalized \<or> ev_kind e = CloseReopened) (led_events L)))"

section \<open>The close state of a period\<close>

datatype close_status = POpen | PFinalized | PReopened | PConflicted

record close_state =
  cs_status :: close_status
  cs_active :: "string option"
  cs_latest_final :: "string option"
  cs_latest_reopen :: "string option"
  cs_metadata :: "finalization_metadata option"

definition open_state :: close_state where
  "open_state = \<lparr>cs_status = POpen, cs_active = None, cs_latest_final = None, cs_latest_reopen = None,
                 cs_metadata = None\<rparr>"

definition close_step :: "int \<Rightarrow> int \<Rightarrow> close_state \<Rightarrow> economic_event \<Rightarrow> close_state res" where
  "close_step s t st e =
     (if ev_kind e = CloseFinalized then
        bindE (close_finalization_metadata (ev_metadata e)) (\<lambda>fm.
          if fin_start fm \<noteq> s \<or> fin_end fm \<noteq> t then Inr st
          else
            let st' = st\<lparr>cs_latest_final := Some (ev_id e), cs_metadata := Some fm\<rparr>
            in if cs_status st = PFinalized then Inr (st'\<lparr>cs_status := PConflicted\<rparr>)
               else if cs_status st \<noteq> PConflicted
               then Inr (st'\<lparr>cs_status := PFinalized, cs_active := Some (ev_id e)\<rparr>)
               else Inr st')
      else if ev_kind e = CloseReopened then
        bindE (close_reopen_metadata (ev_metadata e)) (\<lambda>cm.
          if ctl_start cm \<noteq> s \<or> ctl_end cm \<noteq> t then Inr st
          else
            let st' = st\<lparr>cs_latest_reopen := Some (ev_id e)\<rparr>
            in if cs_status st \<noteq> PFinalized \<or> cs_active st \<noteq> Some (ctl_close_id cm)
               then Inr (st'\<lparr>cs_status := PConflicted\<rparr>)
               else Inr (st'\<lparr>cs_status := PReopened, cs_active := None\<rparr>))
      else if ev_kind e = CloseInvalidated then
        bindE (close_invalidation_metadata (ev_metadata e)) (\<lambda>cm.
          if ctl_start cm \<noteq> s \<or> ctl_end cm \<noteq> t then Inr st
          else if cs_latest_final st \<noteq> Some (ctl_close_id cm) then Inr (st\<lparr>cs_status := PConflicted\<rparr>)
          else Inr (st\<lparr>cs_status := PReopened, cs_active := None\<rparr>))
      else Inr st)"

definition period_close_status ::
    "(string \<Rightarrow> string \<Rightarrow> int) \<Rightarrow> (jsval \<Rightarrow> string) \<Rightarrow> ledger \<Rightarrow> int \<Rightarrow> int \<Rightarrow> instant_ms option \<Rightarrow> close_state res" where
  "period_close_status lc sha L s t as_of =
     bindE (events_as_of lc sha L as_of) (\<lambda>es. foldE (close_step s t) open_state es)"

section \<open>Appending\<close>

datatype append_result = Inserted | Duplicate

definition insert_event :: "ledger \<Rightarrow> economic_event \<Rightarrow> ledger" where
  "insert_event L e =
     L\<lparr>led_events := led_events L @ [e], led_links := led_links L @ map (\<lambda>s. (ev_id e, s)) (ev_sources e)\<rparr>"

definition append_canonical ::
    "(string \<Rightarrow> string \<Rightarrow> int) \<Rightarrow> (jsval \<Rightarrow> string) \<Rightarrow> ledger \<Rightarrow> economic_event \<Rightarrow> (append_result \<times> ledger) res" where
  "append_canonical lc sha L e =
     (case stored L (ev_id e) of
        Some replay \<Rightarrow>
          bindE (closure lc sha L [] [] replay) (\<lambda>_.
            if economic_event_to_json lc replay \<noteq> economic_event_to_json lc e
            then Inl ''different economic event already exists'' else Inr (Duplicate, L))
      | None \<Rightarrow>
          bindE (foldE (\<lambda>_ sid. bindE (read lc sha L sid) (\<lambda>found.
                   if found = None then Inl ''unknown source economic event'' else Inr ())) () (ev_sources e)) (\<lambda>_.
          bindE (closure lc sha L [] [] e) (\<lambda>_. Inr (Inserted, insert_event L e))))"

text \<open>The two \<open>Map\<close>s of \<open>assertPeriodOpenForEvent\<close>: periods with a recorded close or reopening, and
  the latest \<open>recordedAt\<close> among the closes of each.\<close>

record period_index =
  pix_periods :: "(string \<times> (int \<times> int)) list"
  pix_closed :: "(string \<times> instant_ms) list"

definition index_control :: "period_index \<Rightarrow> economic_event \<Rightarrow> period_index res" where
  "index_control ix c =
     (if ev_kind c = CloseFinalized then
        bindE (close_finalization_metadata (ev_metadata c)) (\<lambda>fm.
          let subj = period_subject (fin_start fm) (fin_end fm);
              ix' = ix\<lparr>pix_periods := AList.update subj (fin_start fm, fin_end fm) (pix_periods ix)\<rparr>
          in Inr (if (case map_of (pix_closed ix) subj of None \<Rightarrow> True | Some p \<Rightarrow> ev_recorded c > p)
                  then ix'\<lparr>pix_closed := AList.update subj (ev_recorded c) (pix_closed ix)\<rparr> else ix'))
      else if ev_kind c = CloseReopened then
        bindE (close_reopen_metadata (ev_metadata c)) (\<lambda>cm.
          Inr (ix\<lparr>pix_periods := AList.update (period_subject (ctl_start cm) (ctl_end cm))
                                   (ctl_start cm, ctl_end cm) (pix_periods ix)\<rparr>))
      else Inr ix)"

definition check_period_open ::
    "(string \<Rightarrow> string \<Rightarrow> int) \<Rightarrow> (jsval \<Rightarrow> string) \<Rightarrow> ledger \<Rightarrow> economic_event \<Rightarrow> instant_ms list
      \<Rightarrow> (string \<times> instant_ms) list \<Rightarrow> string \<times> (int \<times> int) \<Rightarrow> unit res" where
  "check_period_open lc sha L e instants floors period =
     (let (subj, s, t) = period; in_period = list_ex (\<lambda>x. s \<le> x \<and> x < t) instants
      in bindE (period_close_status lc sha L s t None) (\<lambda>st.
           if cs_status st = PFinalized \<or> cs_status st = PConflicted
           then (if in_period then Inl ''economic period is finalized; reopen it before recording an in-period event''
                 else Inr ())
           else case map_of floors subj of None \<Rightarrow> Inr ()
             | Some mark \<Rightarrow> if in_period \<and> ev_recorded e \<le> mark
                 then Inl ''economic period was closed through a later instant; the event would falsify a recorded close''
                 else Inr ()))"

definition assert_period_open_for_event ::
    "(string \<Rightarrow> string \<Rightarrow> int) \<Rightarrow> (jsval \<Rightarrow> string) \<Rightarrow> ledger \<Rightarrow> economic_event \<Rightarrow> unit res" where
  "assert_period_open_for_event lc sha L e =
     (if is_close_kind (ev_kind e) then Inr ()
      else
        bindE (mapE (read lc sha L) (ev_sources e)) (\<lambda>found.
          let instants = ev_occurred e # map ev_occurred (concat (map (\<lambda>x. case x of None \<Rightarrow> [] | Some s \<Rightarrow> [s]) found))
          in bindE (close_control_events lc sha L) (\<lambda>controls.
             bindE (foldE index_control \<lparr>pix_periods = [], pix_closed = []\<rparr> controls) (\<lambda>ix.
               foldE (\<lambda>_ p. check_period_open lc sha L e instants (pix_closed ix) p) () (pix_periods ix)))))"

definition append_event ::
    "(string \<Rightarrow> string \<Rightarrow> int) \<Rightarrow> (jsval \<Rightarrow> string) \<Rightarrow> ledger \<Rightarrow> jsval \<Rightarrow> (append_result \<times> ledger) res" where
  "append_event lc sha L v =
     bindE (economic_event lc v) (\<lambda>e.
       if ev_kind e = CloseInvalidated then Inl ''close_invalidated may only be issued by recoverBrickedPeriod''
       else if stored L (ev_id e) \<noteq> None then append_canonical lc sha L e
       else bindE (assert_period_open_for_event lc sha L e) (\<lambda>_. append_canonical lc sha L e))"

section \<open>Closing, reopening and recovering a period\<close>

definition count_of :: "ledger \<Rightarrow> event_kind \<Rightarrow> string \<Rightarrow> nat" where
  "count_of L k subj = length (filter (\<lambda>e. ev_kind e = k \<and> ev_subject e = subj) (led_events L))"

definition boundary_or_now :: "instant_ms \<Rightarrow> jsval \<Rightarrow> instant_ms res" where
  "boundary_or_now now v = (if v = JUndefined \<or> v = JNull then instant (to_iso now) else instant_val ''economic projection asOf'' v)"

definition control_event_value ::
    "string \<Rightarrow> event_kind \<Rightarrow> economic_period \<Rightarrow> instant_ms \<Rightarrow> string list \<Rightarrow> (string \<times> jsval) list \<Rightarrow> jsval" where
  "control_event_value i k p recorded sources extra =
     JObj [(''id'', JStr i), (''kind'', JStr (kind_name k)), (''subject'', JStr (period_subject_of p)),
           (''occurredAt'', JStr (to_iso (end_ms p))), (''recordedAt'', JStr (to_iso recorded)),
           (''amount'', JNull), (''sourceEventIds'', JArr (map JStr sources)), (''reversalOf'', JNull),
           (''metadata'', JObj ([(''closeSchemaVersion'', JNum 1), (''periodStartMs'', JNum (of_int (start_ms p))),
              (''periodEndMs'', JNum (of_int (end_ms p)))] @ extra)),
           (''schemaVersion'', JNum 1)]"

record finalization_result =
  fr_event :: string
  fr_recorded :: instant_ms
  fr_digest :: string
  fr_balances :: "close_balance list"
  fr_sources :: "string list"

definition finalize_period ::
    "(string \<Rightarrow> string \<Rightarrow> int) \<Rightarrow> (jsval \<Rightarrow> string) \<Rightarrow> instant_ms \<Rightarrow> ledger \<Rightarrow> jsval \<Rightarrow> jsval \<Rightarrow> jsval \<Rightarrow> string option
      \<Rightarrow> (finalization_result \<times> ledger) res" where
  "finalize_period lc sha now L start_v end_v recorded_v given_id =
     bindE (canonical_period start_v end_v) (\<lambda>p.
     bindE (boundary_or_now now recorded_v) (\<lambda>recorded.
       if recorded < end_ms p then Inl ''economic period finalization recordedAt cannot precede the period end''
       else
     bindE (period_close_status lc sha L (start_ms p) (end_ms p) None) (\<lambda>st.
       if cs_status st = PFinalized then Inl ''economic period is already finalized; reopen it before finalizing again''
       else if cs_status st = PConflicted then Inl ''economic period close state is conflicted; refuse finalization''
       else
     bindE (events_in_occurrence_range lc sha L (start_ms p) (end_ms p)) (\<lambda>all_events.
       let es = filter (\<lambda>e. ev_recorded e \<le> recorded) all_events; ids = sort (map ev_id es)
       in
     bindE (close_balances lc es) (\<lambda>bs.
       let digest = close_projection_digest lc sha (start_ms p) (end_ms p) ids bs;
           i = (case given_id of Some i \<Rightarrow> i
                | None \<Rightarrow> ''economic:close:'' @ show_int (start_ms p) @ '':'' @ show_int (end_ms p) @ '':''
                    @ show_nat (count_of L CloseFinalized (period_subject_of p) + 1))
       in
     bindE (economic_event lc (control_event_value i CloseFinalized p recorded ids
              [(''projectionDigest'', JStr digest), (''eventCount'', JNum (of_nat (length ids)))])) (\<lambda>close.
     bindE (append_canonical lc sha L close) (\<lambda>(_, L').
       Inr (\<lparr>fr_event = ev_id close, fr_recorded = recorded, fr_digest = digest, fr_balances = bs,
             fr_sources = ids\<rparr>, L'))))))))"

definition reopen_period ::
    "(string \<Rightarrow> string \<Rightarrow> int) \<Rightarrow> (jsval \<Rightarrow> string) \<Rightarrow> instant_ms \<Rightarrow> ledger \<Rightarrow> jsval \<Rightarrow> jsval \<Rightarrow> jsval \<Rightarrow> jsval \<Rightarrow> string option
      \<Rightarrow> (string \<times> ledger) res" where
  "reopen_period lc sha now L start_v end_v recorded_v reason_v given_id =
     bindE (canonical_period start_v end_v) (\<lambda>p.
     bindE (boundary_or_now now recorded_v) (\<lambda>recorded.
       if recorded < end_ms p then Inl ''economic period reopen recordedAt cannot precede the period end''
       else if blank_val reason_v then Inl ''economic period reopen reason must be non-empty''
       else
     bindE (period_close_status lc sha L (start_ms p) (end_ms p) None) (\<lambda>st.
       if cs_status st \<noteq> PFinalized \<or> cs_active st = None
       then Inl ''economic period is not actively finalized; nothing to reopen''
       else
         let active = the (cs_active st);
             i = (case given_id of Some i \<Rightarrow> i
                | None \<Rightarrow> ''economic:reopen:'' @ show_int (start_ms p) @ '':'' @ show_int (end_ms p) @ '':''
                    @ show_nat (count_of L CloseReopened (period_subject_of p) + 1))
         in bindE (economic_event lc (control_event_value i CloseReopened p recorded [active]
              [(''closeEventId'', JStr active), (''reason'', JStr (trim (text_of reason_v)))])) (\<lambda>reopened.
            bindE (append_canonical lc sha L reopened) (\<lambda>(_, L'). Inr (ev_id reopened, L'))))))"

text \<open>The close a recovery targets: bound to its period, recorded no later, and no longer verifiable.\<close>

definition recovery_target ::
    "(string \<Rightarrow> string \<Rightarrow> int) \<Rightarrow> (jsval \<Rightarrow> string) \<Rightarrow> ledger \<Rightarrow> economic_period \<Rightarrow> instant_ms \<Rightarrow> string
      \<Rightarrow> (economic_event \<times> finalization_metadata) res" where
  "recovery_target lc sha L p recorded close_id =
     bindE (read_stored L close_id) (\<lambda>found.
       case found of None \<Rightarrow> Inl ''economic period recovery close does not exist''
       | Some close \<Rightarrow>
           if ev_kind close \<noteq> CloseFinalized then Inl ''economic period recovery target must be a close_finalized event''
           else bindE (close_finalization_metadata (ev_metadata close)) (\<lambda>fm.
             if fin_start fm \<noteq> start_ms p \<or> fin_end fm \<noteq> end_ms p
             then Inl ''economic period recovery period does not match its finalized close''
             else if recorded < ev_recorded close
             then Inl ''economic period recovery recordedAt cannot precede its finalized close''
             else Inr (close, fm)))"

text \<open>A close already invalidated: the recorded invalidation must be of this close and period.\<close>

definition confirm_invalidation ::
    "(string \<Rightarrow> string \<Rightarrow> int) \<Rightarrow> (jsval \<Rightarrow> string) \<Rightarrow> ledger \<Rightarrow> economic_period \<Rightarrow> string \<Rightarrow> economic_event
      \<Rightarrow> (string \<times> ledger) res" where
  "confirm_invalidation lc sha L p close_id existing =
     bindE (close_invalidation_metadata (ev_metadata existing)) (\<lambda>cm.
       if ctl_close_id cm \<noteq> close_id \<or> ctl_start cm \<noteq> start_ms p \<or> ctl_end cm \<noteq> end_ms p
       then Inl ''economic period recovery found a mismatched close invalidation''
       else bindE (events_as_of lc sha L None) (\<lambda>_. Inr (ev_id existing, L)))"

definition store_invalidation ::
    "(string \<Rightarrow> string \<Rightarrow> int) \<Rightarrow> ledger \<Rightarrow> economic_event \<Rightarrow> string \<Rightarrow> ledger res" where
  "store_invalidation lc L item close_id =
     (case stored L (ev_id item) of
        Some replay \<Rightarrow>
          if economic_event_to_json lc replay \<noteq> economic_event_to_json lc item
          then Inl ''different economic event already exists'' else Inr L
      | None \<Rightarrow> Inr (L\<lparr>led_events := led_events L @ [item],
                      led_links := led_links L @ [(ev_id item, close_id)]\<rparr>))"

text \<open>The comparison of \<open>recoverBrickedPeriod\<close>: unlike \<open>closeBindingMatches\<close> it computes the balances and the
  digest first, so it throws where they cannot be computed whatever the ids are.\<close>

definition recovery_binding_matches ::
    "(string \<Rightarrow> string \<Rightarrow> int) \<Rightarrow> (jsval \<Rightarrow> string) \<Rightarrow> ledger \<Rightarrow> economic_event \<Rightarrow> finalization_metadata \<Rightarrow> bool res" where
  "recovery_binding_matches lc sha L e fm =
     (let evs = filter (\<lambda>v. ev_recorded v \<le> ev_recorded e)
                  (raw_events_in_occurrence_range L (fin_start fm) (fin_end fm));
          ids = sort (map ev_id evs)
      in bindE (close_balances lc evs) (\<lambda>bs.
           let expected = close_projection_digest lc sha (fin_start fm) (fin_end fm) ids bs
           in Inr (sort (ev_sources e) = ids \<and> fin_count fm = int (length ids) \<and> fin_digest fm = expected)))"

definition invalidate_close ::
    "(string \<Rightarrow> string \<Rightarrow> int) \<Rightarrow> (jsval \<Rightarrow> string) \<Rightarrow> ledger \<Rightarrow> economic_period \<Rightarrow> instant_ms \<Rightarrow> string
      \<Rightarrow> string \<Rightarrow> string \<Rightarrow> economic_event \<times> finalization_metadata \<Rightarrow> (string \<times> ledger) res" where
  "invalidate_close lc sha L p recorded close_id reason i target =
     bindE (recovery_binding_matches lc sha L (fst target) (snd target)) (\<lambda>matches.
       if matches then Inl ''economic period recovery target close is not bricked''
       else
     bindE (economic_event lc (control_event_value i CloseInvalidated p recorded [close_id]
              [(''closeEventId'', JStr close_id), (''reason'', JStr reason)])) (\<lambda>inv.
     bindE (store_invalidation lc L inv close_id) (\<lambda>L'.
     bindE (events_as_of lc sha L' None) (\<lambda>_. Inr (ev_id inv, L')))))"

definition recover_bricked_period ::
    "(string \<Rightarrow> string \<Rightarrow> int) \<Rightarrow> (jsval \<Rightarrow> string) \<Rightarrow> ledger \<Rightarrow> jsval \<Rightarrow> jsval \<Rightarrow> string \<Rightarrow> jsval \<Rightarrow> jsval \<Rightarrow> string option
      \<Rightarrow> (string \<times> ledger) res" where
  "recover_bricked_period lc sha L start_v end_v close_id recorded_v reason_v given_id =
     bindE (canonical_period start_v end_v) (\<lambda>p.
     bindE (instant_val ''economic projection asOf'' recorded_v) (\<lambda>recorded.
       if recorded < end_ms p then Inl ''economic period recovery recordedAt cannot precede the period end''
       else if trim close_id = [] then Inl ''economic period recovery closeEventId must be non-empty''
       else if blank_val reason_v then Inl ''economic period recovery reason must be non-empty''
       else if (case given_id of None \<Rightarrow> False | Some i \<Rightarrow> trim i = []) then Inl ''economic period recovery id must be non-empty''
       else
     bindE (recovery_target lc sha L p recorded close_id) (\<lambda>target.
       case sort_by by_recorded (filter (\<lambda>e. ev_kind e = CloseInvalidated \<and> ev_id e \<in> set (linking L close_id)) (led_events L)) of
         existing # _ \<Rightarrow> confirm_invalidation lc sha L p close_id existing
       | [] \<Rightarrow> invalidate_close lc sha L p recorded close_id (trim (text_of reason_v))
                 (case given_id of Some i \<Rightarrow> i | None \<Rightarrow> ''economic:close-invalidation:'' @ close_id) target)))"

section \<open>Historical rates, projection and effective charges\<close>

definition read_historical_rate_rows :: "ledger \<Rightarrow> instant_ms option \<Rightarrow> rate_observation list" where
  "read_historical_rate_rows L as_of =
     sort_by (\<lambda>a b. or_cmp (iso_cmp (obs_recorded a) (obs_recorded b)) (code_unit_cmp (obs_id a) (obs_id b)))
       (filter (\<lambda>ob. case as_of of None \<Rightarrow> True | Some t \<Rightarrow> sql_le (obs_recorded ob) t) (led_rates L))"

definition ledger_rate_book ::
    "(string \<Rightarrow> string \<Rightarrow> int) \<Rightarrow> ledger \<Rightarrow> instant_ms option \<Rightarrow> rate_observation list res" where
  "ledger_rate_book lc L as_of = historical_rate_book lc (map observation_value (read_historical_rate_rows L as_of))"

definition append_historical_rate_observation ::
    "(string \<Rightarrow> string \<Rightarrow> int) \<Rightarrow> ledger \<Rightarrow> jsval \<Rightarrow> (append_result \<times> ledger) res" where
  "append_historical_rate_observation lc L v =
     bindE (canonical_historical_observation v) (\<lambda>candidate.
       case List.find (\<lambda>ob. obs_id ob = obs_id candidate) (led_rates L) of
         Some persisted \<Rightarrow>
           bindE (ledger_rate_book lc L None) (\<lambda>_.
             if historical_rate_observation_to_json persisted = historical_rate_observation_to_json candidate
             then Inr (Duplicate, L) else Inl ''different historical rate observation already exists'')
       | None \<Rightarrow>
           bindE (historical_rate_book lc (map observation_value (read_historical_rate_rows L None @ [candidate]))) (\<lambda>_.
             Inr (Inserted, L\<lparr>led_rates := led_rates L @ [candidate]\<rparr>)))"

text \<open>\<open>project\<close> keeps the ids of a balance in recording order, where \<open>closeBalances\<close> sorts them.\<close>

definition project ::
    "(string \<Rightarrow> string \<Rightarrow> int) \<Rightarrow> (jsval \<Rightarrow> string) \<Rightarrow> ledger \<Rightarrow> instant_ms option
      \<Rightarrow> (string list \<times> close_balance list) res" where
  "project lc sha L as_of =
     bindE (events_as_of lc sha L as_of) (\<lambda>es.
     bindE (group_balances es) (\<lambda>gs.
       Inr (map ev_id es,
            sort_by (balance_order lc)
              (map (\<lambda>kg. \<lparr>bal_role = role_name (grp_role (snd kg)), bal_amount = grp_amount (snd kg),
                         bal_events = grp_ids (snd kg)\<rparr>) gs))))"

record effective_charge =
  eff_source :: string
  eff_source_amount :: money
  eff_amount :: money
  eff_events :: "string list"
  eff_bases :: "string list"

text \<open>The walk along \<open>correctionBySource\<close> from a charge; a revisited id is a cycle.\<close>

function correction_chain :: "(string \<times> economic_event) list \<Rightarrow> string list \<Rightarrow> string \<Rightarrow> economic_event list res" where
  "correction_chain by_source visited pre =
     (if pre \<in> set visited then
        (if map_of by_source pre \<noteq> None then Inl ''economic price correction chain cycles'' else Inr [])
      else case map_of by_source pre of None \<Rightarrow> Inr []
        | Some c \<Rightarrow> bindE (correction_chain by_source (pre # visited) (ev_id c)) (\<lambda>cs. Inr (c # cs)))"
  by pat_completeness auto
termination
proof (relation "measure (\<lambda>(by_source, visited, pre). card (fst ` set by_source - set visited))")
  fix by_source :: "(string \<times> economic_event) list" and visited pre c
  assume "pre \<notin> set visited" "map_of by_source pre = Some c"
  moreover from this have "pre \<in> fst ` set by_source" by (force dest: map_of_SomeD)
  ultimately have "card (fst ` set by_source - set (pre # visited)) < card (fst ` set by_source - set visited)"
    by (intro psubset_card_mono) auto
  then show "((by_source, pre # visited, ev_id c), by_source, visited, pre)
      \<in> measure (\<lambda>(by_source, visited, pre). card (fst ` set by_source - set visited))" by simp
qed simp

declare correction_chain.simps [simp del]

definition index_corrections ::
    "(string \<Rightarrow> string \<Rightarrow> int) \<Rightarrow> (jsval \<Rightarrow> string) \<Rightarrow> ledger \<Rightarrow> instant_ms option \<Rightarrow> (string \<times> economic_event) list res" where
  "index_corrections lc sha L as_of =
     foldE (\<lambda>m row. bindE (read lc sha L (ev_id row)) (\<lambda>found.
         case found of None \<Rightarrow> Inr m
         | Some c \<Rightarrow> (case ev_sources c of [] \<Rightarrow> Inr m | s # _ \<Rightarrow> Inr (AList.update s c m))))
       [] (sort_by by_recorded (filter (\<lambda>e. ev_kind e = PriceCorrected
             \<and> (case as_of of None \<Rightarrow> True | Some t \<Rightarrow> sql_le (ev_recorded e) t)) (led_events L)))"

definition effective_source ::
    "(string \<Rightarrow> string \<Rightarrow> int) \<Rightarrow> (jsval \<Rightarrow> string) \<Rightarrow> ledger \<Rightarrow> instant_ms option \<Rightarrow> string \<Rightarrow> economic_event option res" where
  "effective_source lc sha L as_of i =
     bindE (read lc sha L i) (\<lambda>found.
       case found of None \<Rightarrow> Inr None
       | Some e \<Rightarrow>
           if (case as_of of None \<Rightarrow> False | Some t \<Rightarrow> ev_recorded e > t) then Inr None
           else if role_of_kind (ev_kind e) = RCharge \<and> ev_amount e \<noteq> None then Inr (Some e)
           else Inr None)"

definition effective_charge_of :: "economic_event \<Rightarrow> money \<Rightarrow> economic_event list \<Rightarrow> effective_charge res" where
  "effective_charge_of source m chain =
     bindE (foldE (\<lambda>total c. case ev_amount c of
              None \<Rightarrow> Inl ''economic price correction has no amount''
            | Some d \<Rightarrow> add_money total d) m chain) (\<lambda>total.
     bindE (money (format_money_amount total) (currency total) ''effective'') (\<lambda>eff.
       Inr \<lparr>eff_source = ev_id source, eff_source_amount = m, eff_amount = eff,
            eff_events = ev_id source # map ev_id chain,
            eff_bases = sort (to_set (map (\<lambda>x. basis_name (basis x))
              (m # concat (map (\<lambda>c. case ev_amount c of None \<Rightarrow> [] | Some d \<Rightarrow> [d]) chain))))\<rparr>))"

definition effective_charge_for ::
    "(string \<Rightarrow> string \<Rightarrow> int) \<Rightarrow> (jsval \<Rightarrow> string) \<Rightarrow> ledger \<Rightarrow> string \<Rightarrow> instant_ms option \<Rightarrow> effective_charge option res" where
  "effective_charge_for lc sha L i as_of =
     (if trim i = [] then Inl ''economic source event id is required''
      else bindE (effective_source lc sha L as_of i) (\<lambda>found.
        case found of None \<Rightarrow> Inr None
        | Some e \<Rightarrow> (case ev_amount e of None \<Rightarrow> Inr None
            | Some m \<Rightarrow>
                bindE (index_corrections lc sha L as_of) (\<lambda>by_source.
                bindE (correction_chain by_source [] (ev_id e)) (\<lambda>chain.
                bindE (effective_charge_of e m chain) (\<lambda>c. Inr (Some c)))))))"

end
