(* ===== verification/LedgerFacts.thy ===== *)
theory LedgerFacts
  imports EconLedger
begin

text \<open>
  What the reads of the ledger guarantee.  \<open>ledger_ok\<close> is the representation invariant of the two
  tables (unique ids, links that mirror the events); \<open>event_ok\<close> is what \<open>validateReferenceClosure\<close>
  has established for an event once it returned; \<open>readable\<close> says that \<open>events()\<close> returns.
\<close>

section \<open>The representation invariant\<close>

definition ledger_ok :: "ledger \<Rightarrow> bool" where
  "ledger_ok L =
     (distinct (event_ids L) \<and> led_links L = concat (map (\<lambda>e. map (\<lambda>s. (ev_id e, s)) (ev_sources e)) (led_events L))
      \<and> (\<forall>e \<in> set (led_events L). distinct (ev_sources e) \<and> set (ev_sources e) \<subseteq> set (event_ids L)))"

lemma stored_iff:
  "distinct (event_ids L) \<Longrightarrow> stored L i = Some e \<longleftrightarrow> e \<in> set (led_events L) \<and> ev_id e = i"
proof
  assume d: "distinct (event_ids L)" and e: "e \<in> set (led_events L) \<and> ev_id e = i"
  then obtain x where x: "stored L i = Some x" by (cases "stored L i") (auto simp: stored_def find_None_iff)
  then have "x \<in> set (led_events L)" "ev_id x = i" using stored_Some by auto
  then have "x = e" using d e by (auto simp: event_ids_def distinct_map inj_on_def)
  then show "stored L i = Some e" using x by simp
qed (auto dest: stored_Some)

lemma stored_None_iff: "stored L i = None \<longleftrightarrow> i \<notin> set (event_ids L)"
  by (auto simp: stored_def find_None_iff event_ids_def)

lemma link_iff:
  "ledger_ok L \<Longrightarrow> (i, s) \<in> set (led_links L) \<longleftrightarrow> (\<exists>e \<in> set (led_events L). ev_id e = i \<and> s \<in> set (ev_sources e))"
  by (auto simp: ledger_ok_def)

lemma concat_links_filter:
  assumes "distinct (map ev_id es)" "e \<in> set es"
  shows "filter (\<lambda>l. fst l = ev_id e) (concat (map (\<lambda>x. map (\<lambda>s. (ev_id x, s)) (ev_sources x)) es))
     = map (\<lambda>s. (ev_id e, s)) (ev_sources e)"
  using assms
proof (induction es)
  case Nil
  then show ?case by simp
next
  case (Cons x xs)
  have keep: "filter (\<lambda>l. fst l = ev_id e) (map (\<lambda>s. (ev_id y, s)) (ev_sources y))
      = (if ev_id y = ev_id e then map (\<lambda>s. (ev_id y, s)) (ev_sources y) else [])" for y
    by (induction "ev_sources y") (auto simp: filter_map comp_def)
  show ?case
  proof (cases "x = e")
    case True
    then have "ev_id e \<notin> ev_id ` set xs" using Cons.prems(1) by simp
    then have "\<forall>y \<in> set xs. ev_id y \<noteq> ev_id e" by (metis imageI)
    then have "filter (\<lambda>l. fst l = ev_id e) (concat (map (\<lambda>x. map (\<lambda>s. (ev_id x, s)) (ev_sources x)) xs)) = []"
      by (auto simp: filter_empty_conv)
    then show ?thesis using True keep [of e] by simp
  next
    case False
    then have "e \<in> set xs" using Cons.prems(2) by simp
    then have "ev_id x \<noteq> ev_id e" using Cons.prems(1) by (metis distinct.simps(2) imageI list.set_map list.simps(9))
    then show ?thesis using Cons \<open>e \<in> set xs\<close> keep [of x] by simp
  qed
qed

lemma links_of_stored:
  assumes "ledger_ok L" "stored L i = Some e"
  shows "links_of L i = sort (ev_sources e)"
proof -
  have "e \<in> set (led_events L)" "ev_id e = i" using stored_Some [OF assms(2)] by auto
  then show ?thesis
    using assms(1) concat_links_filter [of "led_events L" e]
    by (auto simp: links_of_def ledger_ok_def event_ids_def comp_def)
qed

lemma read_stored_ok: "ledger_ok L \<Longrightarrow> read_stored L i = Inr (stored L i)"
  by (auto simp: read_stored_def links_of_stored split: option.split)

lemma distinct_links: "ledger_ok L \<Longrightarrow> distinct (led_links L)"
proof -
  assume ok: "ledger_ok L"
  have "distinct (concat (map (\<lambda>e. map (\<lambda>s. (ev_id e, s)) (ev_sources e)) es))"
    if "distinct (map ev_id es)" "\<forall>e \<in> set es. distinct (ev_sources e)" for es :: "economic_event list"
    using that by (induction es) (auto simp: distinct_map inj_on_def)
  then show "distinct (led_links L)" using ok by (simp add: ledger_ok_def event_ids_def)
qed

lemma distinct_linking: "ledger_ok L \<Longrightarrow> distinct (linking L t)"
proof -
  assume "ledger_ok L"
  then have "distinct (filter (\<lambda>l. snd l = t \<and> stored L (fst l) \<noteq> None) (led_links L))"
    by (simp add: distinct_links)
  then show ?thesis by (auto simp: linking_def distinct_map inj_on_def)
qed

lemma set_linking:
  "ledger_ok L \<Longrightarrow> i \<in> set (linking L t) \<longleftrightarrow> (\<exists>e. stored L i = Some e \<and> t \<in> set (ev_sources e))"
proof -
  assume ok: "ledger_ok L"
  then have d: "distinct (event_ids L)" by (simp add: ledger_ok_def)
  have "i \<in> set (linking L t) \<longleftrightarrow> (i, t) \<in> set (led_links L) \<and> stored L i \<noteq> None"
    unfolding linking_def by force
  also have "\<dots> \<longleftrightarrow> (\<exists>e. stored L i = Some e \<and> t \<in> set (ev_sources e))"
    using link_iff [OF ok, of i t] stored_iff [OF d] by auto
  finally show ?thesis .
qed

text \<open>A sum over the events that link to a target is a sum over the events themselves.\<close>

lemma sum_linking:
  fixes f :: "economic_event \<Rightarrow> rat"
  assumes ok: "ledger_ok L"
  shows "sum_list (map (\<lambda>i. case stored L i of None \<Rightarrow> 0 | Some e \<Rightarrow> f e) (filter (\<lambda>i. i \<noteq> x) (linking L t)))
     = sum f {e \<in> set (led_events L). t \<in> set (ev_sources e) \<and> ev_id e \<noteq> x}"
proof -
  let ?S = "{e \<in> set (led_events L). t \<in> set (ev_sources e) \<and> ev_id e \<noteq> x}"
  have d: "distinct (event_ids L)" using ok by (simp add: ledger_ok_def)
  have "set (filter (\<lambda>i. i \<noteq> x) (linking L t)) = ev_id ` ?S"
    using set_linking [OF ok] stored_iff [OF d] by fastforce
  moreover have "inj_on ev_id ?S" using d by (auto simp: event_ids_def distinct_map inj_on_def)
  ultimately have "sum (\<lambda>i. case stored L i of None \<Rightarrow> 0 | Some e \<Rightarrow> f e) (set (filter (\<lambda>i. i \<noteq> x) (linking L t)))
      = sum (\<lambda>e. case stored L (ev_id e) of None \<Rightarrow> 0 | Some e \<Rightarrow> f e) ?S"
    by (simp add: sum.reindex)
  also have "\<dots> = sum f ?S"
  proof (rule sum.cong)
    fix e assume "e \<in> ?S"
    then have "stored L (ev_id e) = Some e" using stored_iff [OF d] by simp
    then show "(case stored L (ev_id e) of None \<Rightarrow> 0 | Some e \<Rightarrow> f e) = f e" by simp
  qed simp
  finally show ?thesis using distinct_linking [OF ok] by (simp add: sum_list_distinct_conv_sum_set)
qed

lemma insert_event_ok:
  assumes "ledger_ok L" "stored L (ev_id e) = None" "distinct (ev_sources e)"
    "\<forall>s \<in> set (ev_sources e). stored L s \<noteq> None"
  shows "ledger_ok (insert_event L e)"
  using assms unfolding ledger_ok_def stored_None_iff
  by (auto simp: insert_event_def event_ids_def)

section \<open>What a validated event satisfies\<close>

definition source_events :: "ledger \<Rightarrow> economic_event \<Rightarrow> source_map" where
  "source_events L e = map (\<lambda>s. (s, the (stored L s))) (ev_sources e)"

definition event_ok ::
    "(string \<Rightarrow> string \<Rightarrow> int) \<Rightarrow> (jsval \<Rightarrow> string) \<Rightarrow> ledger \<Rightarrow> economic_event \<Rightarrow> bool" where
  "event_ok lc sha L e =
     ((\<forall>r. ev_reversal e = Some r \<longrightarrow> r \<in> set (ev_sources e))
      \<and> (\<forall>s \<in> set (ev_sources e). s \<noteq> ev_id e \<and> (\<exists>x. stored L s = Some x \<and> ev_recorded x \<le> ev_recorded e))
      \<and> check_event lc sha L e (source_events L e) = Inr ())"

text \<open>The list of validated ids is a topological order: the sources of each id come after it.\<close>

primrec source_ordered ::
    "(string \<Rightarrow> economic_event option) \<Rightarrow> (economic_event \<Rightarrow> bool) \<Rightarrow> string list \<Rightarrow> bool" where
  "source_ordered ev P [] = True"
| "source_ordered ev P (i # is) =
     (i \<notin> set is \<and> (case ev i of None \<Rightarrow> False | Some e \<Rightarrow> P e \<and> set (ev_sources e) \<subseteq> set is)
      \<and> source_ordered ev P is)"

definition gather_step ::
    "ledger \<Rightarrow> (string list \<Rightarrow> economic_event \<Rightarrow> string list res) \<Rightarrow> economic_event
      \<Rightarrow> source_map \<times> string list \<Rightarrow> string \<Rightarrow> (source_map \<times> string list) res" where
  "gather_step L rec e acc sid =
     (if sid = ev_id e then Inl ''economic event cannot reference itself''
      else bindE (read_stored L sid) (\<lambda>found.
        case found of None \<Rightarrow> Inl ''unknown source economic event''
        | Some s \<Rightarrow>
            if ev_recorded e < ev_recorded s then Inl ''economic event recordedAt cannot precede source''
            else bindE (rec (snd acc) s) (\<lambda>val. Inr (fst acc @ [(sid, s)], val))))"

lemma closure_unfold:
  "closure lc sha L visiting validated e =
     (if ev_id e \<in> set validated then Inr validated
      else if ev_id e \<in> set visiting then Inl ''economic event reference cycle detected''
      else if (case ev_reversal e of None \<Rightarrow> False | Some r \<Rightarrow> r \<notin> set (ev_sources e))
      then Inl ''economic event reversalOf must appear in sourceEventIds''
      else
        bindE (foldE (gather_step L (closure lc sha L (ev_id e # visiting)) e) ([], validated) (ev_sources e)) (\<lambda>gathered.
        bindE (check_event lc sha L e (fst gathered)) (\<lambda>_. Inr (ev_id e # snd gathered))))"
  unfolding gather_step_def [abs_def] by (rule closure.simps)

lemma gather_fold:
  assumes "foldE (gather_step L rec e) (srcs0, val0) sids = Inr (srcs, val)"
    and rec: "\<And>sid s v v'. sid \<in> set sids \<Longrightarrow> sid \<noteq> ev_id e \<Longrightarrow> read_stored L sid = Inr (Some s)
      \<Longrightarrow> ev_recorded s \<le> ev_recorded e \<Longrightarrow> rec v s = Inr v' \<Longrightarrow> Q v \<Longrightarrow> Q v' \<and> set v \<subseteq> set v' \<and> sid \<in> set v'"
    and "Q val0"
  shows "Q val \<and> set val0 \<subseteq> set val \<and> set sids \<subseteq> set val \<and> srcs = srcs0 @ map (\<lambda>s. (s, the (stored L s))) sids
    \<and> (\<forall>s \<in> set sids. s \<noteq> ev_id e \<and> (\<exists>x. stored L s = Some x \<and> ev_recorded x \<le> ev_recorded e))"
  using assms
proof (induction sids arbitrary: srcs0 val0)
  case Nil
  then show ?case by simp
next
  case (Cons sid sids)
  obtain acc where step: "gather_step L rec e (srcs0, val0) sid = Inr acc"
    and rest: "foldE (gather_step L rec e) acc sids = Inr (srcs, val)"
    using Cons.prems(1) by auto
  obtain s v where s: "sid \<noteq> ev_id e" "read_stored L sid = Inr (Some s)" "ev_recorded s \<le> ev_recorded e"
    "rec val0 s = Inr v" "acc = (srcs0 @ [(sid, s)], v)"
    using step by (auto simp: gather_step_def split: if_splits option.splits)
  have v: "Q v" "set val0 \<subseteq> set v" "sid \<in> set v"
    using Cons.prems(2) [OF _ s(1-4) Cons.prems(3)] by auto
  have "Q val \<and> set v \<subseteq> set val \<and> set sids \<subseteq> set val \<and> srcs = (srcs0 @ [(sid, s)]) @ map (\<lambda>s. (s, the (stored L s))) sids
    \<and> (\<forall>s \<in> set sids. s \<noteq> ev_id e \<and> (\<exists>x. stored L s = Some x \<and> ev_recorded x \<le> ev_recorded e))"
  proof (rule Cons.IH)
    show "foldE (gather_step L rec e) (srcs0 @ [(sid, s)], v) sids = Inr (srcs, val)" using rest s(5) by simp
    show "Q y' \<and> set y \<subseteq> set y' \<and> t \<in> set y'"
      if "t \<in> set sids" "t \<noteq> ev_id e" "read_stored L t = Inr (Some z)" "ev_recorded z \<le> ev_recorded e"
        "rec y z = Inr y'" "Q y" for t z y y'
      by (rule Cons.prems(2) [OF _ that(2-6)]) (simp add: that(1))
  qed (rule v(1))
  then show ?case using v s read_stored_Some [OF s(2)] by auto
qed

lemma closure_sound:
  assumes "closure lc sha L vis val e = Inr val'"
    and "source_ordered ev (event_ok lc sha L) val" "ev (ev_id e) = Some e"
    and "\<And>i s. read_stored L i = Inr (Some s) \<Longrightarrow> ev i = Some s"
  shows "source_ordered ev (event_ok lc sha L) val' \<and> (\<exists>new. val' = new @ val \<and> set new \<inter> set vis = {})
    \<and> ev_id e \<in> set val'"
  using assms
proof (induction lc sha L vis val e arbitrary: val' rule: closure.induct)
  case (1 lc sha L vis val e)
  show ?case
  proof (cases "ev_id e \<in> set val")
    case True
    then show ?thesis using "1.prems" by (simp add: closure_unfold)
  next
    case False
    then have vis: "ev_id e \<notin> set vis"
      and rev: "\<not> (case ev_reversal e of None \<Rightarrow> False | Some r \<Rightarrow> r \<notin> set (ev_sources e))"
      and "bindE (foldE (gather_step L (closure lc sha L (ev_id e # vis)) e) ([], val) (ev_sources e)) (\<lambda>gathered.
        bindE (check_event lc sha L e (fst gathered)) (\<lambda>_. Inr (ev_id e # snd gathered))) = Inr val'"
      using "1.prems"(1) unfolding closure_unfold [of lc sha L vis val e] by (auto split: if_split_asm)
    then obtain srcs w where fold: "foldE (gather_step L (closure lc sha L (ev_id e # vis)) e) ([], val) (ev_sources e) = Inr (srcs, w)"
      and check: "check_event lc sha L e srcs = Inr ()" and val': "val' = ev_id e # w"
      by auto
    let ?Q = "\<lambda>v. source_ordered ev (event_ok lc sha L) v \<and> (\<exists>new. v = new @ val \<and> set new \<inter> set (ev_id e # vis) = {})"
    have "?Q w \<and> set val \<subseteq> set w \<and> set (ev_sources e) \<subseteq> set w
        \<and> srcs = [] @ map (\<lambda>s. (s, the (stored L s))) (ev_sources e)
        \<and> (\<forall>s \<in> set (ev_sources e). s \<noteq> ev_id e \<and> (\<exists>x. stored L s = Some x \<and> ev_recorded x \<le> ev_recorded e))"
    proof (rule gather_fold [OF fold])
      fix sid s v v'
      assume sid: "sid \<in> set (ev_sources e)" "sid \<noteq> ev_id e" "read_stored L sid = Inr (Some s)"
          "ev_recorded s \<le> ev_recorded e"
        and rec: "closure lc sha L (ev_id e # vis) v s = Inr v'" and Q: "?Q v"
      have id: "ev_id s = sid" using read_stored_in_ids [OF sid(3)] by simp
      have "ev (ev_id s) = Some s" using "1.prems"(4) sid(3) id by simp
      then have "source_ordered ev (event_ok lc sha L) v' \<and> (\<exists>new. v' = new @ v \<and> set new \<inter> set (ev_id e # vis) = {})
          \<and> ev_id s \<in> set v'"
        using "1.IH" [OF False vis rev sid(1,2,3) refl, of "([], v)" v'] sid(4) rec Q "1.prems"(4) by simp
      then show "?Q v' \<and> set v \<subseteq> set v' \<and> sid \<in> set v'" using Q id by auto
    qed (use "1.prems"(2) in auto)
    then have w: "source_ordered ev (event_ok lc sha L) w" "\<exists>new. w = new @ val \<and> set new \<inter> set (ev_id e # vis) = {}"
      "set (ev_sources e) \<subseteq> set w" and srcs: "srcs = source_events L e"
      and src: "\<forall>s \<in> set (ev_sources e). s \<noteq> ev_id e \<and> (\<exists>x. stored L s = Some x \<and> ev_recorded x \<le> ev_recorded e)"
      by (auto simp: source_events_def)
    have "event_ok lc sha L e" using rev src check srcs by (auto simp: event_ok_def split: option.splits)
    moreover have "ev_id e \<notin> set w" using w(2) False by auto
    ultimately show ?thesis using w vis "1.prems"(3) unfolding val' by (auto intro: exI [of _ "ev_id e # _"])
  qed
qed

lemma source_ordered_elem:
  "source_ordered ev P val \<Longrightarrow> i \<in> set val \<Longrightarrow> \<exists>e. ev i = Some e \<and> P e \<and> set (ev_sources e) \<subseteq> set val"
  by (induction val) (auto split: option.splits)

definition order_rank :: "string list \<Rightarrow> string \<Rightarrow> nat" where
  "order_rank val i = length (dropWhile (\<lambda>x. x \<noteq> i) val)"

lemma order_rank_source:
  "source_ordered ev P val \<Longrightarrow> i \<in> set val \<Longrightarrow> ev i = Some e \<Longrightarrow> s \<in> set (ev_sources e) \<Longrightarrow>
   order_rank val s < order_rank val i"
proof (induction val)
  case Nil
  then show ?case by simp
next
  case (Cons j js)
  have js: "j \<notin> set js" "source_ordered ev P js" using Cons.prems(1) by auto
  show ?case
  proof (cases "i = j")
    case True
    then have "s \<in> set js" using Cons.prems by auto
    then have "s \<noteq> j" using js by auto
    then show ?thesis using True by (simp add: order_rank_def length_dropWhile_le less_Suc_eq_le)
  next
    case False
    then have i: "i \<in> set js" using Cons.prems by simp
    then have "s \<in> set js" using source_ordered_elem [OF js(2) i] Cons.prems(3,4) by auto
    then have "s \<noteq> j" using js by auto
    then show ?thesis using Cons.IH [OF js(2) i Cons.prems(3,4)] False by (simp add: order_rank_def)
  qed
qed

definition readable :: "(string \<Rightarrow> string \<Rightarrow> int) \<Rightarrow> (jsval \<Rightarrow> string) \<Rightarrow> ledger \<Rightarrow> bool" where
  "readable lc sha L = (case events_as_of lc sha L None of Inl _ \<Rightarrow> False | Inr _ \<Rightarrow> True)"

lemma validate_all_ordered:
  assumes "validate_all lc sha L es = Inr es'" "\<And>e. e \<in> set es \<Longrightarrow> stored L (ev_id e) = Some e"
  shows "es' = es \<and> (\<exists>val. source_ordered (stored L) (event_ok lc sha L) val \<and> ev_id ` set es \<subseteq> set val)"
proof -
  obtain val where val: "foldE (closure lc sha L []) [] es = Inr val" and es': "es' = es"
    using assms(1) by (auto simp: validate_all_def)
  have "source_ordered (stored L) (event_ok lc sha L) val \<and> set v \<subseteq> set val \<and> ev_id ` set es \<subseteq> set val"
    if "foldE (closure lc sha L []) v es = Inr val" "source_ordered (stored L) (event_ok lc sha L) v"
      "\<And>e. e \<in> set es \<Longrightarrow> stored L (ev_id e) = Some e" for v es
    using that
  proof (induction es arbitrary: v)
    case Nil
    then show ?case by simp
  next
    case (Cons e es)
    obtain v' where v': "closure lc sha L [] v e = Inr v'" and rest: "foldE (closure lc sha L []) v' es = Inr val"
      using Cons.prems(1) by auto
    have "source_ordered (stored L) (event_ok lc sha L) v' \<and> (\<exists>new. v' = new @ v \<and> set new \<inter> set [] = {})
        \<and> ev_id e \<in> set v'"
      by (rule closure_sound [OF v' Cons.prems(2)]) (use Cons.prems(3) in \<open>auto dest: read_stored_Some\<close>)
    then show ?case using Cons.IH [OF rest] Cons.prems(3) by auto
  qed
  from this [OF val] assms(2) es' show ?thesis by auto
qed

lemma readable_ordered:
  assumes "ledger_ok L" "readable lc sha L"
  shows "\<exists>val. source_ordered (stored L) (event_ok lc sha L) val \<and> set (event_ids L) \<subseteq> set val"
proof -
  have d: "distinct (event_ids L)" using assms(1) by (simp add: ledger_ok_def)
  obtain es where "validate_all lc sha L (sort_by by_recorded (led_events L)) = Inr es"
    using assms(2) by (auto simp: readable_def events_as_of_def split: sum.splits)
  from validate_all_ordered [OF this] show ?thesis
    using stored_iff [OF d] by (auto simp: event_ids_def)
qed

lemma readable_event_ok:
  assumes "ledger_ok L" "readable lc sha L" "e \<in> set (led_events L)"
  shows "event_ok lc sha L e"
proof -
  obtain val where val: "source_ordered (stored L) (event_ok lc sha L) val" "set (event_ids L) \<subseteq> set val"
    using readable_ordered [OF assms(1,2)] by blast
  have "ev_id e \<in> set val" using val(2) assms(3) by (auto simp: event_ids_def)
  from source_ordered_elem [OF val(1) this] show ?thesis
    using stored_iff [of L "ev_id e" e] assms(1,3) by (auto simp: ledger_ok_def)
qed

definition source_graph :: "ledger \<Rightarrow> (string \<times> string) set" where
  "source_graph L = {(s, i). \<exists>e \<in> set (led_events L). ev_id e = i \<and> s \<in> set (ev_sources e)}"

lemma readable_rank:
  assumes "ledger_ok L" "readable lc sha L"
  obtains rank :: "string \<Rightarrow> nat" where "\<And>s i. (s, i) \<in> source_graph L \<Longrightarrow> rank s < rank i"
proof -
  obtain val where val: "source_ordered (stored L) (event_ok lc sha L) val" "set (event_ids L) \<subseteq> set val"
    using readable_ordered [OF assms] by blast
  have d: "distinct (event_ids L)" using assms(1) by (simp add: ledger_ok_def)
  show ?thesis
  proof (rule that [of "order_rank val"])
    fix s i assume "(s, i) \<in> source_graph L"
    then obtain e where e: "e \<in> set (led_events L)" "ev_id e = i" "s \<in> set (ev_sources e)"
      by (auto simp: source_graph_def)
    then show "order_rank val s < order_rank val i"
      using order_rank_source [OF val(1), of i e s] val(2) stored_iff [OF d, of i e] by (auto simp: event_ids_def)
  qed
qed

lemma readable_acyclic:
  assumes "ledger_ok L" "readable lc sha L"
  shows "acyclic (source_graph L)"
proof -
  obtain rank :: "string \<Rightarrow> nat" where "\<And>s i. (s, i) \<in> source_graph L \<Longrightarrow> rank s < rank i"
    using readable_rank [OF assms] by blast
  then have "source_graph L \<subseteq> measure rank" by auto
  then show ?thesis by (rule wf_acyclic [OF wf_subset [OF wf_measure]])
qed

lemma event_ok_checks:
  assumes "event_ok lc sha L e"
  shows "check_adjustment_sources e (source_events L e) = Inr ()"
    "check_adjustment_bound L e (source_events L e) = Inr ()" "check_reversal L e (source_events L e) = Inr ()"
    "check_price_correction L e (source_events L e) = Inr ()" "check_fx_translation L e (source_events L e) = Inr ()"
    "validate_close_event lc sha L e (source_events L e) = Inr ()"
  using assms by (auto simp: event_ok_def check_event_def)

lemma map_of_source_events:
  "map_of (source_events L e) s = (if s \<in> set (ev_sources e) then Some (the (stored L s)) else None)"
  by (auto simp: source_events_def map_of_map_restrict restrict_map_def)

end
