(* ===== verification/LedgerLaws.thy ===== *)
theory LedgerLaws
  imports LedgerFacts
begin

text \<open>
  The accounting laws a readable ledger satisfies (\<open>src/src/economics/ledger.ts\<close>): reversals never
  exceed the allocation, credits never exceed the corrected charge, corrections telescope, a charge
  has one translation per currency, balances partition the amounts, and a recorded close binds its
  period.  Each law is about the whole ledger, while the code checks one event at a time.
\<close>

definition amt :: "economic_event \<Rightarrow> rat" where
  "amt e = (case ev_amount e of None \<Rightarrow> 0 | Some m \<Rightarrow> money_value m)"

lemma amt_Some [simp]: "ev_amount e = Some m \<Longrightarrow> amt e = money_value m"
  by (simp add: amt_def)

section \<open>Reversals\<close>

definition reversals_of :: "ledger \<Rightarrow> string \<Rightarrow> economic_event set" where
  "reversals_of L t = {e \<in> set (led_events L). ev_reversal e = Some t}"

lemma add_reversal_fold:
  assumes "ledger_ok L"
  shows "foldE (add_reversal L t) a ids = Inr c \<Longrightarrow>
    money_value c = money_value a + sum_list (map (\<lambda>i. case stored L i of None \<Rightarrow> 0
      | Some e \<Rightarrow> if ev_reversal e = Some t then - amt e else 0) ids)"
proof (induction ids arbitrary: a)
  case Nil
  then show ?case by simp
next
  case (Cons i ids)
  then obtain b where b: "add_reversal L t a i = Inr b" "foldE (add_reversal L t) b ids = Inr c" by auto
  have "money_value b = money_value a + (case stored L i of None \<Rightarrow> 0
      | Some e \<Rightarrow> if ev_reversal e = Some t then - amt e else 0)"
    using b(1) unfolding add_reversal_def read_stored_ok [OF assms]
    by (auto simp: amt_def add_money_Inr(1) negate_money_Inr(1) split: option.splits if_splits)
  then show ?case using Cons.IH [OF b(2)] by simp
qed

lemma reversal_in_sources: "event_ok lc sha L e \<Longrightarrow> ev_reversal e = Some t \<Longrightarrow> t \<in> set (ev_sources e)"
  by (simp add: event_ok_def)

lemma reversal_checked:
  assumes ok: "ledger_ok L" and e: "event_ok lc sha L e" "ev_reversal e = Some (ev_id target)"
    and target: "target \<in> set (led_events L)" "ev_kind target = CostAllocated"
  shows "\<exists>m tm. ev_amount e = Some m \<and> ev_amount target = Some tm \<and> ev_kind e = AllocationReversed
      \<and> check_allocation_reversal L e target m tm = Inr ()"
proof -
  have "stored L (ev_id target) = Some target"
    using ok target(1) by (auto simp: ledger_ok_def stored_iff)
  then have "map_of (source_events L e) (ev_id target) = Some target"
    using reversal_in_sources [OF e] by (simp add: map_of_source_events)
  then show ?thesis
    using event_ok_checks(3) [OF e(1)] e(2) target(2)
    by (auto simp: check_reversal_def split: option.splits if_splits)
qed

lemma reversal_total:
  assumes ok: "ledger_ok L" "readable lc sha L" and target: "target \<in> set (led_events L)" "ev_kind target = CostAllocated"
    and r: "r \<in> reversals_of L (ev_id target)"
  shows "(\<Sum>e \<in> reversals_of L (ev_id target). - amt e) \<le> amt target" "0 \<le> - amt r" "ev_kind r = AllocationReversed"
proof -
  let ?t = "ev_id target"
  have rL: "r \<in> set (led_events L)" "ev_reversal r = Some ?t" using r by (simp_all add: reversals_of_def)
  have okr: "event_ok lc sha L r" by (rule readable_event_ok [OF ok rL(1)])
  obtain m tm where m: "ev_amount r = Some m" "ev_amount target = Some tm" "ev_kind r = AllocationReversed"
    and check: "check_allocation_reversal L r target m tm = Inr ()"
    using reversal_checked [OF ok(1) okr rL(2) target] by blast
  obtain n total c where n: "negate_money m = Inr n"
    and total: "foldE (add_reversal L ?t) n (filter (\<lambda>i. i \<noteq> ev_id r) (linking L ?t)) = Inr total"
    and c: "compare_money total tm = Inr c" "\<not> c > 0" and sign: "\<not> coefficient m > 0"
    using check by (auto simp: check_allocation_reversal_def split: if_splits)
  let ?f = "\<lambda>e. if ev_reversal e = Some ?t then - amt e else 0"
  let ?others = "{e \<in> set (led_events L). ?t \<in> set (ev_sources e) \<and> ev_id e \<noteq> ev_id r}"
  have "money_value total = money_value n + sum ?f ?others"
    using add_reversal_fold [OF ok(1) total] sum_linking [OF ok(1), of ?f "ev_id r" ?t] by simp
  also have "sum ?f ?others = sum (\<lambda>e. - amt e) (reversals_of L ?t - {r})"
  proof -
    have ids: "ev_id e = ev_id r \<Longrightarrow> e = r" if "e \<in> set (led_events L)" for e
      using that rL(1) ok(1) by (auto simp: ledger_ok_def event_ids_def distinct_map inj_on_def)
    have "reversals_of L ?t - {r} = {e \<in> ?others. ev_reversal e = Some ?t}"
      using reversal_in_sources [OF readable_event_ok [OF ok]] ids by (auto simp: reversals_of_def)
    moreover have "sum (\<lambda>e. - amt e) {e \<in> ?others. ev_reversal e = Some ?t} = sum ?f ?others"
      by (rule sum.inter_filter) simp
    ultimately show ?thesis by simp
  qed
  also have "money_value n + \<dots> = (\<Sum>e \<in> reversals_of L ?t. - amt e)"
    using r n m(1) by (simp add: reversals_of_def sum.remove [of _ r] negate_money_Inr(1))
  finally have "money_value total = (\<Sum>e \<in> reversals_of L ?t. - amt e)" .
  moreover have "money_value total \<le> money_value tm"
    using compare_money_pos [OF c(1)] c(2) by simp
  ultimately show "(\<Sum>e \<in> reversals_of L (ev_id target). - amt e) \<le> amt target" using m(2) by simp
  show "0 \<le> - amt r" using sign m(1) money_value_nonneg [of m]
    by (simp add: money_value_def divide_le_0_iff)
  show "ev_kind r = AllocationReversed" by (rule m(3))
qed

section \<open>Corrections telescope\<close>

text \<open>What a charge or a correction asserts the charge to be from now on.\<close>

definition asserted_amount :: "economic_event \<Rightarrow> rat" where
  "asserted_amount e =
     (if ev_kind e = PriceCorrected
      then (case correction_metadata ''economic event price correction'' (ev_metadata e) of
              Inl _ \<Rightarrow> 0 | Inr (p, n) \<Rightarrow> money_value n)
      else amt e)"

lemma correction_metadata_label: "correction_metadata l v = Inr x \<Longrightarrow> correction_metadata l' v = Inr x"
  by (auto simp: correction_metadata_def split: if_splits)

lemma stored_linking:
  assumes "ledger_ok L" "filter (kind_is L k) (linking L t) = [i]"
  shows "\<exists>e. stored L i = Some e \<and> ev_kind e = k \<and> t \<in> set (ev_sources e) \<and> e \<in> set (led_events L) \<and> ev_id e = i"
proof -
  have "i \<in> set (filter (kind_is L k) (linking L t))" using assms(2) by simp
  then obtain e where "stored L i = Some e" "t \<in> set (ev_sources e)" "ev_kind e = k"
    using set_linking [OF assms(1)] by (auto simp: kind_is_def split: option.splits)
  then show ?thesis using stored_Some [of L i e] by auto
qed

text \<open>A correction of \<open>source\<close> restates it by exactly its delta, to a non-negative amount.\<close>

lemma correction_step:
  assumes ok: "ledger_ok L" and e: "event_ok lc sha L e" "ev_kind e = PriceCorrected"
    and s: "stored L s = Some source" "s \<in> set (ev_sources e)"
  shows "\<exists>m. ev_amount e = Some m \<and> asserted_amount e = asserted_amount source + money_value m"
    "0 \<le> asserted_amount e"
proof -
  obtain sid where sid: "ev_sources e = [sid]" "map_of (source_events L e) sid \<noteq> None"
    using event_ok_checks(4) [OF e(1)] e(2)
    by (auto simp: check_price_correction_def split: if_splits list.splits option.splits)
  then have src: "map_of (source_events L e) sid = Some source" "sid = s"
    using s by (auto simp: map_of_source_events)
  obtain sm pre m where sm: "ev_amount source = Some sm" and pre: "predecessor_amount source sm = Inr pre"
    and m: "ev_amount e = Some m" and chk: "check_reprice L e source pre m = Inr ()"
    using event_ok_checks(4) [OF e(1)] e(2) sid(1) src(1)
    by (auto simp: check_price_correction_def split: if_split_asm option.split_asm)
  obtain p n c d c' where meta: "correction_metadata ''economic event price correction'' (ev_metadata e) = Inr (p, n)"
    and c: "compare_money p pre = Inr c" "c = 0" and n: "\<not> coefficient n < 0"
    and d: "subtract_money n p = Inr d" "compare_money d m = Inr c'" "c' = 0"
    using chk by (auto simp: check_reprice_def split: if_split_asm)
  have "money_value pre = asserted_amount source"
  proof (cases "ev_kind source = PriceCorrected")
    case True
    then obtain p' where "correction_metadata ''economic event price correction predecessor'' (ev_metadata source) = Inr (p', pre)"
      using pre by (auto simp: predecessor_amount_def split: if_splits)
    from correction_metadata_label [OF this, of "''economic event price correction''"] show ?thesis
      using True by (simp add: asserted_amount_def)
  next
    case False
    then show ?thesis using pre sm by (auto simp: predecessor_amount_def asserted_amount_def split: if_splits)
  qed
  moreover have "money_value p = money_value pre" "money_value d = money_value m"
    using compare_money_zero c d by auto
  moreover have "money_value d = money_value n - money_value p" using subtract_money_Inr(1) [OF d(1)] .
  moreover have "asserted_amount e = money_value n" using e(2) meta by (simp add: asserted_amount_def)
  ultimately show "\<exists>m. ev_amount e = Some m \<and> asserted_amount e = asserted_amount source + money_value m"
    "0 \<le> asserted_amount e"
    using m n money_value_nonneg [of n] by auto
qed

text \<open>The successor of a link of the chain, when it has one, is a checked correction of it.\<close>

lemma correction_successor:
  assumes ok: "ledger_ok L" "readable lc sha L" and cur: "stored L current = Some e"
    and nxt: "filter (kind_is L PriceCorrected) (linking L current) = [nxt]"
  shows "\<exists>c m. stored L nxt = Some c \<and> ev_kind c = PriceCorrected \<and> ev_amount c = Some m
    \<and> asserted_amount c = asserted_amount e + money_value m \<and> 0 \<le> asserted_amount c"
proof -
  obtain c where c: "stored L nxt = Some c" "ev_kind c = PriceCorrected" "current \<in> set (ev_sources c)"
      "c \<in> set (led_events L)"
    using stored_linking [OF ok(1) nxt] by blast
  have "event_ok lc sha L c" by (rule readable_event_ok [OF ok c(4)])
  from correction_step [OF ok(1) this c(2) cur c(3)] c show ?thesis by auto
qed

text \<open>The whole correction chain of an event, told from the recorded events alone: the ids of the price
  corrections that name an event as their source, and the list that follows them until there is none.\<close>

definition corrector_ids :: "ledger \<Rightarrow> string \<Rightarrow> string set" where
  "corrector_ids L i = ev_id ` {c \<in> set (led_events L). ev_kind c = PriceCorrected \<and> i \<in> set (ev_sources c)}"

fun correction_chain :: "ledger \<Rightarrow> string \<Rightarrow> string list \<Rightarrow> bool" where
  "correction_chain L i [] = (corrector_ids L i = {})"
| "correction_chain L i (j # js) = (corrector_ids L i = {j} \<and> correction_chain L j js)"

lemma corrector_ids_filter:
  assumes "ledger_ok L"
  shows "corrector_ids L i = set (filter (kind_is L PriceCorrected) (linking L i))"
proof -
  have st: "stored L j = Some c \<longleftrightarrow> c \<in> set (led_events L) \<and> ev_id c = j" for j c
    using assms by (simp add: ledger_ok_def stored_iff)
  have "j \<in> corrector_ids L i \<longleftrightarrow> (\<exists>c. stored L j = Some c \<and> ev_kind c = PriceCorrected \<and> i \<in> set (ev_sources c))" for j
    unfolding corrector_ids_def st by auto
  then have "j \<in> corrector_ids L i \<longleftrightarrow> j \<in> set (filter (kind_is L PriceCorrected) (linking L i))" for j
    using set_linking [OF assms, of j i] by (auto simp: kind_is_def)
  then show ?thesis by blast
qed

lemma corrections_from_value:
  "corrections_from L seen current amount ids = Inr (tot, ids') \<Longrightarrow> ledger_ok L \<Longrightarrow> readable lc sha L \<Longrightarrow>
    stored L current = Some e \<Longrightarrow> money_value amount = asserted_amount e \<Longrightarrow> 0 \<le> asserted_amount e \<Longrightarrow>
    \<exists>more l. ids' = ids @ more
      \<and> money_value tot = money_value amount + sum_list (map (\<lambda>i. case stored L i of None \<Rightarrow> 0 | Some x \<Rightarrow> amt x) more)
      \<and> (\<forall>i \<in> set more. kind_is L PriceCorrected i)
      \<and> stored L (last (current # more)) = Some l \<and> money_value tot = asserted_amount l
      \<and> filter (kind_is L PriceCorrected) (linking L (last (current # more))) = []
      \<and> 0 \<le> money_value tot
      \<and> correction_chain L current more \<and> distinct more \<and> set more \<inter> set seen = {}"
proof (induction L seen current amount ids arbitrary: e rule: corrections_from.induct)
  case (1 L seen current amount ids)
  consider (none) "filter (kind_is L PriceCorrected) (linking L current) = []"
    | (one) nxt where "filter (kind_is L PriceCorrected) (linking L current) = [nxt]"
    using "1.prems"(1) by (auto simp: corrections_from.simps [of L seen current amount ids] split: list.splits)
  then show ?case
  proof cases
    case none
    then have "tot = amount" "ids' = ids"
      using "1.prems"(1) by (simp_all add: corrections_from.simps [of L seen current amount ids])
    moreover have "correction_chain L current []" using none corrector_ids_filter [OF "1.prems"(2), of current] by simp
    ultimately show ?thesis using none "1.prems"(4-6) by (intro exI [of _ "[]"] exI [of _ e]) simp
  next
    case (one nxt)
    obtain c m where c: "stored L nxt = Some c" "ev_kind c = PriceCorrected" "ev_amount c = Some m"
      "asserted_amount c = asserted_amount e + money_value m" "0 \<le> asserted_amount c"
      using correction_successor [OF "1.prems"(2,3,4) one] by blast
    have fresh: "nxt \<notin> set seen"
      using "1.prems"(1) one by (auto simp: corrections_from.simps [of L seen current amount ids] split: if_splits)
    have read: "read_stored L nxt = Inr (Some c)" using read_stored_ok [OF "1.prems"(2)] c(1) by simp
    then obtain sum where sum: "add_money amount m = Inr sum"
      and rec: "corrections_from L (nxt # seen) nxt sum (ids @ [nxt]) = Inr (tot, ids')"
      using "1.prems"(1) one fresh c(3) by (auto simp: corrections_from.simps [of L seen current amount ids])
    have "money_value sum = asserted_amount c"
      using add_money_Inr(1) [OF sum] "1.prems"(5) c(4) by simp
    from "1.IH" [OF one refl fresh read refl c(3) sum rec "1.prems"(2,3) c(1) this c(5)] obtain more l where
      more: "ids' = (ids @ [nxt]) @ more"
      "money_value tot = money_value sum + sum_list (map (\<lambda>i. case stored L i of None \<Rightarrow> 0 | Some x \<Rightarrow> amt x) more)"
      "\<forall>i \<in> set more. kind_is L PriceCorrected i" "stored L (last (nxt # more)) = Some l"
      "money_value tot = asserted_amount l"
      "filter (kind_is L PriceCorrected) (linking L (last (nxt # more))) = []" "0 \<le> money_value tot"
      "correction_chain L nxt more" "distinct more" "set more \<inter> set (nxt # seen) = {}" by blast
    have "kind_is L PriceCorrected nxt" using c by (simp add: kind_is_def)
    moreover have "correction_chain L current (nxt # more)"
      using more(8) one corrector_ids_filter [OF "1.prems"(2), of current] by simp
    moreover have "distinct (nxt # more)" "set (nxt # more) \<inter> set seen = {}" using more(9,10) fresh by auto
    ultimately show ?thesis using more(1-7) c add_money_Inr(1) [OF sum]
      by (intro exI [of _ "nxt # more"] exI [of _ l]) simp
  qed
qed

lemma corrected_charge_value:
  assumes ok: "ledger_ok L" "readable lc sha L" and e: "e \<in> set (led_events L)" "ev_amount e = Some m"
    and k: "ev_kind e \<noteq> PriceCorrected" "0 \<le> money_value m"
    and c: "corrected_charge_amount L e = Inr (tot, ids)"
  shows "money_value tot = money_value m + sum_list (map (\<lambda>i. case stored L i of None \<Rightarrow> 0 | Some x \<Rightarrow> amt x) ids)"
    "\<forall>i \<in> set ids. kind_is L PriceCorrected i" "0 \<le> money_value tot"
    "\<exists>l. stored L (last (ev_id e # ids)) = Some l \<and> money_value tot = asserted_amount l"
    "correction_chain L (ev_id e) ids" "distinct (ev_id e # ids)"
proof -
  have st: "stored L (ev_id e) = Some e" using ok(1) e(1) by (auto simp: ledger_ok_def stored_iff)
  have a: "money_value m = asserted_amount e" using e(2) k(1) by (simp add: asserted_amount_def)
  from corrections_from_value [OF _ ok st a, of "[ev_id e]" "[]" tot ids] c e(2) a k(2)
  obtain more l where "ids = more"
      "money_value tot = money_value m + sum_list (map (\<lambda>i. case stored L i of None \<Rightarrow> 0 | Some x \<Rightarrow> amt x) more)"
      "\<forall>i \<in> set more. kind_is L PriceCorrected i" "stored L (last (ev_id e # more)) = Some l"
      "money_value tot = asserted_amount l" "0 \<le> money_value tot"
      "correction_chain L (ev_id e) more" "distinct more" "set more \<inter> set [ev_id e] = {}"
    by (auto simp: corrected_charge_amount_def)
  then show "money_value tot = money_value m + sum_list (map (\<lambda>i. case stored L i of None \<Rightarrow> 0 | Some x \<Rightarrow> amt x) ids)"
    "\<forall>i \<in> set ids. kind_is L PriceCorrected i" "0 \<le> money_value tot"
    "\<exists>l. stored L (last (ev_id e # ids)) = Some l \<and> money_value tot = asserted_amount l"
    "correction_chain L (ev_id e) ids" "distinct (ev_id e # ids)" by auto
qed

section \<open>Credits stay within the corrected charge\<close>

definition credits_of :: "ledger \<Rightarrow> string \<Rightarrow> economic_event set" where
  "credits_of L t = {e \<in> set (led_events L). credits_against t e}"

lemma add_credit_fold:
  assumes "ledger_ok L"
  shows "foldE (add_credit L t) acc ids = Inr res \<Longrightarrow>
    money_value (fst res) = money_value (fst acc) + sum_list (map (\<lambda>i. case stored L i of None \<Rightarrow> 0
      | Some e \<Rightarrow> if credits_against t e then - amt e else 0) ids)"
proof (induction ids arbitrary: acc)
  case Nil
  then show ?case by simp
next
  case (Cons i ids)
  then obtain b where b: "add_credit L t acc i = Inr b" "foldE (add_credit L t) b ids = Inr res" by auto
  have "money_value (fst b) = money_value (fst acc) + (case stored L i of None \<Rightarrow> 0
      | Some e \<Rightarrow> if credits_against t e then - amt e else 0)"
    using b(1) unfolding add_credit_def read_stored_ok [OF assms]
    by (auto simp: amt_def credits_against_def add_money_Inr(1) negate_money_Inr(1) split: option.splits if_splits)
  then show ?case using Cons.IH [OF b(2)] by simp
qed

lemma zero_money_value: "money ''0'' c (basis_name b) = Inr z \<Longrightarrow> money_value z = 0"
proof -
  assume z: "money ''0'' c (basis_name b) = Inr z"
  then have "assert_currency c = Inr c"
    using assert_currency_Inr unfolding money_def Let_def by (auto split: if_split_asm)
  then show ?thesis using z money_zero [of c b] by (auto simp: money_value_def)
qed

text \<open>The total the code computes is the sum over the credits other than the excluded event.\<close>

lemma recorded_negative_adjustments_value:
  assumes ok: "ledger_ok L" "readable lc sha L"
    and r: "recorded_negative_adjustments L target x = Inr res"
  shows "money_value (fst res) = (\<Sum>e \<in> {e \<in> credits_of L (ev_id target). ev_id e \<noteq> x}. - amt e)"
proof -
  let ?t = "ev_id target"
  let ?f = "\<lambda>e. if credits_against ?t e then - amt e else 0"
  let ?others = "{e \<in> set (led_events L). ?t \<in> set (ev_sources e) \<and> ev_id e \<noteq> x}"
  obtain m :: money and z where z: "money ''0'' (currency m) (basis_name (basis m)) = Inr z"
    and fold: "foldE (add_credit L ?t) (z, []) (filter (\<lambda>i. i \<noteq> x) (linking L ?t)) = Inr res"
    using r by (auto simp: recorded_negative_adjustments_def split: option.splits)
  have "money_value (fst res) = sum ?f ?others"
    using add_credit_fold [OF ok(1) fold] zero_money_value [OF z] sum_linking [OF ok(1), of ?f x ?t] by simp
  also have "sum ?f ?others = sum (\<lambda>e. - amt e) {e \<in> ?others. credits_against ?t e}"
    by (rule sum.inter_filter [symmetric]) simp
  also have "{e \<in> ?others. credits_against ?t e} = {e \<in> credits_of L ?t. ev_id e \<noteq> x}"
  proof -
    have "?t \<in> set (ev_sources e)" if "e \<in> set (led_events L)" "credits_against ?t e" for e
      using that readable_event_ok [OF ok that(1)] reversal_in_sources
      by (auto simp: credits_against_def adjustment_target_def split: option.splits list.splits)
    then show ?thesis by (auto simp: credits_of_def)
  qed
  finally show ?thesis .
qed

lemma credit_total:
  assumes ok: "ledger_ok L" "readable lc sha L"
    and target: "target \<in> set (led_events L)" "role_of_kind (ev_kind target) = RCharge" "ev_amount target = Some tm"
    and r: "r \<in> credits_of L (ev_id target)"
  shows "\<exists>tot ids. corrected_charge_amount L target = Inr (tot, ids)
    \<and> (\<Sum>e \<in> credits_of L (ev_id target). - amt e) \<le> money_value tot"
proof -
  let ?t = "ev_id target"
  have rL: "r \<in> set (led_events L)" "credits_against ?t r" using r by (simp_all add: credits_of_def)
  have okr: "event_ok lc sha L r" by (rule readable_event_ok [OF ok rL(1)])
  obtain m where m: "ev_amount r = Some m" "coefficient m < 0" "role_of_kind (ev_kind r) = RAdjustment"
      "adjustment_target r = Some ?t"
    using rL(2) by (auto simp: credits_against_def split: option.splits)
  have tgt: "(case ev_reversal r of Some x \<Rightarrow> Some x
      | None \<Rightarrow> (case ev_sources r of [] \<Rightarrow> None | s # _ \<Rightarrow> Some s)) = Some ?t"
    and many: "\<not> (ev_reversal r = None \<and> length (ev_sources r) \<noteq> 1)" and mem: "?t \<in> set (ev_sources r)"
    using m(4) reversal_in_sources [OF okr]
    by (auto simp: adjustment_target_def split: option.splits list.splits)
  have "stored L ?t = Some target" using ok(1) target(1) by (auto simp: ledger_ok_def stored_iff)
  then have "map_of (source_events L r) ?t = Some target" using mem by (simp add: map_of_source_events)
  then obtain prior n adjusted corrected c where
    prior: "recorded_negative_adjustments L target (ev_id r) = Inr prior" and n: "negate_money m = Inr n"
    and adjusted: "add_money n (fst prior) = Inr adjusted" and corrected: "corrected_charge_amount L target = Inr corrected"
    and c: "compare_money adjusted (fst corrected) = Inr c" "\<not> c > 0"
    using event_ok_checks(2) [OF okr] m(1-3) target(2,3) many
    unfolding check_adjustment_bound_def m(1) option.case tgt by (auto split: if_split_asm)
  have ids: "ev_id e = ev_id r \<Longrightarrow> e = r" if "e \<in> set (led_events L)" for e
    using that rL(1) ok(1) by (auto simp: ledger_ok_def event_ids_def distinct_map inj_on_def)
  then have "{e \<in> credits_of L ?t. ev_id e \<noteq> ev_id r} = credits_of L ?t - {r}" by (auto simp: credits_of_def)
  then have "money_value adjusted = - amt r + (\<Sum>e \<in> credits_of L ?t - {r}. - amt e)"
    using add_money_Inr(1) [OF adjusted] negate_money_Inr(1) [OF n] m(1)
      recorded_negative_adjustments_value [OF ok prior] by simp
  also have "\<dots> = (\<Sum>e \<in> credits_of L ?t. - amt e)"
    using r by (simp add: credits_of_def sum.remove [of _ r])
  finally have "(\<Sum>e \<in> credits_of L ?t. - amt e) \<le> money_value (fst corrected)"
    using compare_money_pos [OF c(1)] c(2) by simp
  then show ?thesis using corrected by (cases corrected) auto
qed

section \<open>Translations\<close>

text \<open>The root walk does not depend on the ids already seen when these are above the start in the
  reference graph.\<close>

lemma translation_root_seen:
  assumes ok: "ledger_ok L" and rank: "\<And>s i. (s, i) \<in> source_graph L \<Longrightarrow> rank s < (rank i :: nat)"
  shows "(\<And>x. x \<in> set seen \<Longrightarrow> rank i < rank x) \<Longrightarrow>
    translation_root_from L seen i = translation_root_from L [] i"
proof (induction "rank i" arbitrary: i seen rule: less_induct)
  case less
  have i: "i \<notin> set seen" using less.prems by blast
  show ?case
  proof (cases "\<exists>e s ss. stored L i = Some e \<and> ev_kind e = FxTranslated \<and> ev_sources e = s # ss")
    case True
    then obtain e s ss where e: "stored L i = Some e" "ev_kind e = FxTranslated" "ev_sources e = s # ss" by blast
    then have "(s, i) \<in> source_graph L" using stored_Some [OF e(1)] by (auto simp: source_graph_def)
    then have lt: "rank s < rank i" by (rule rank)
    have seen: "rank s < rank x" if "x \<in> set (i # seen)" for x using that lt less.prems by force
    have "translation_root_from L seen i = translation_root_from L (i # seen) s"
      "translation_root_from L [] i = translation_root_from L [i] s"
      using e i by (simp_all add: translation_root_from.simps [of L _ i] read_stored_ok [OF ok])
    then show ?thesis using less.hyps [OF lt, of "i # seen"] less.hyps [OF lt, of "[i]"] seen lt by simp
  next
    case False
    then show ?thesis using i
      by (auto simp: translation_root_from.simps [of L _ i] read_stored_ok [OF ok] split: option.split list.split)
  qed
qed

lemma translation_root_source:
  assumes ok: "ledger_ok L" "readable lc sha L"
    and e: "stored L i = Some e" "ev_kind e = FxTranslated" "ev_sources e = s # ss"
  shows "translation_root L i = translation_root L s"
proof -
  obtain rank :: "string \<Rightarrow> nat" where rank: "\<And>s i. (s, i) \<in> source_graph L \<Longrightarrow> rank s < rank i"
    using readable_rank [OF ok] by blast
  have "(s, i) \<in> source_graph L" using e stored_Some [OF e(1)] by (auto simp: source_graph_def)
  then have "rank s < rank i" by (rule rank)
  then have "translation_root_from L [i] s = translation_root_from L [] s"
    by (intro translation_root_seen [OF ok(1) rank]) simp_all
  then show ?thesis using e
    by (simp add: translation_root_def translation_root_from.simps [of L "[]" i] read_stored_ok [OF ok(1)])
qed

lemma foldE_unit_all: "foldE (\<lambda>_ x. f x) () xs = Inr () \<Longrightarrow> x \<in> set xs \<Longrightarrow> f x = Inr ()"
  by (induction xs) (auto simp: bindE_Inr_iff)

lemma translation_unique:
  assumes ok: "ledger_ok L" "readable lc sha L"
    and d: "d \<in> set (led_events L)" "ev_kind d = FxTranslated" "ev_amount d = Some dm"
    and e: "e \<in> set (led_events L)" "ev_kind e = FxTranslated" "ev_amount e = Some em"
    and cur: "currency dm = currency em" and root: "translation_root L (ev_id d) = translation_root L (ev_id e)"
  shows "d = e"
proof (rule ccontr)
  assume "d \<noteq> e"
  then have ids: "ev_id d \<noteq> ev_id e"
    using d(1) e(1) ok(1) by (auto simp: ledger_ok_def event_ids_def distinct_map inj_on_def)
  have st: "stored L (ev_id x) = Some x" if "x \<in> set (led_events L)" for x
    using ok(1) that by (auto simp: ledger_ok_def stored_iff)
  have oke: "event_ok lc sha L e" by (rule readable_event_ok [OF ok e(1)])
  obtain sid source where sid: "ev_sources e = [sid]" "map_of (source_events L e) sid = Some source"
    using event_ok_checks(5) [OF oke] e(2)
    by (auto simp: check_fx_translation_def split: if_split_asm list.splits option.splits)
  obtain r where r: "translation_root L (ev_id source) = Inr r" "check_no_other_translation L e r em = Inr ()"
    using event_ok_checks(5) [OF oke] e(2,3) sid
    by (auto simp: check_fx_translation_def split: if_split_asm option.splits)
  have "stored L sid = Some source"
    using sid oke by (auto simp: map_of_source_events event_ok_def)
  then have "ev_id source = sid" using stored_Some by blast
  then have "translation_root L (ev_id e) = Inr r"
    using translation_root_source [OF ok st [OF e(1)] e(2)] sid(1) r(1) by simp
  then have rd: "translation_root L (ev_id d) = Inr r" using root by simp
  have "ev_id d \<in> set (filter (\<lambda>i. i \<noteq> ev_id e) (sort (map ev_id (filter (\<lambda>x. ev_kind x = FxTranslated) (led_events L)))))"
    using d ids by auto
  from foldE_unit_all [OF r(2) [unfolded check_no_other_translation_def] this] show False
    using st [OF d(1)] d(3) cur rd by (simp add: read_stored_ok [OF ok(1)])
qed

section \<open>Balances partition the amounts\<close>

definition event_key :: "economic_event \<Rightarrow> (string \<times> economic_basis \<times> event_role) option" where
  "event_key e = map_option (\<lambda>m. (currency m, basis m, role_of_kind (ev_kind e))) (ev_amount e)"

definition in_group :: "string \<times> economic_basis \<times> event_role \<Rightarrow> economic_event list \<Rightarrow> economic_event list" where
  "in_group k es = filter (\<lambda>e. event_key e = Some k) es"

definition event_amounts :: "economic_event list \<Rightarrow> money list" where
  "event_amounts es = map (\<lambda>e. the (ev_amount e)) es"

text \<open>The group of a key has folded exactly the amounts of its events, in order.\<close>

definition group_holds :: "string \<times> economic_basis \<times> event_role \<Rightarrow> economic_event list \<Rightarrow> balance_group \<Rightarrow> bool" where
  "group_holds k es g =
     (in_group k es \<noteq> [] \<and> grp_role g = snd (snd k) \<and> grp_ids g = map ev_id (in_group k es)
      \<and> foldE add_money (hd (event_amounts (in_group k es))) (tl (event_amounts (in_group k es))) = Inr (grp_amount g))"

lemma in_group_snoc: "in_group k (es @ [e]) = in_group k es @ (if event_key e = Some k then [e] else [])"
  by (simp add: in_group_def)

lemma group_balances_groups:
  "group_balances es = Inr gs \<Longrightarrow>
     distinct (map fst gs) \<and> (\<forall>k g. map_of gs k = Some g \<longrightarrow> group_holds k es g)
     \<and> (\<forall>k. map_of gs k = None \<longrightarrow> in_group k es = [])"
proof (induction es arbitrary: gs rule: rev_induct)
  case Nil
  then show ?case by (simp add: group_balances_def in_group_def)
next
  case (snoc e es)
  obtain gs0 where gs0: "group_balances es = Inr gs0" and step: "add_to_group gs0 e = Inr gs"
    using snoc.prems by (auto simp: group_balances_def foldE_append)
  note IH = snoc.IH [OF gs0]
  show ?case
  proof (cases "ev_amount e")
    case None
    then have "gs = gs0" "event_key e = None" using step by (auto simp: add_to_group_def event_key_def)
    then show ?thesis using IH by (auto simp: group_holds_def in_group_snoc)
  next
    case (Some m)
    define key where "key = (currency m, basis m, role_of_kind (ev_kind e))"
    have ke: "event_key e = Some key" using Some by (simp add: event_key_def key_def)
    have other: "in_group k (es @ [e]) = in_group k es" if "k \<noteq> key" for k
      using that ke by (simp add: in_group_snoc)
    show ?thesis
    proof (cases "map_of gs0 key")
      case None
      then have gs: "gs = AList.update key \<lparr>grp_role = role_of_kind (ev_kind e), grp_amount = m, grp_ids = [ev_id e]\<rparr> gs0"
        using step Some by (simp add: add_to_group_def key_def Let_def)
      have "in_group key es = []" using IH None by blast
      then have "group_holds key (es @ [e]) \<lparr>grp_role = role_of_kind (ev_kind e), grp_amount = m, grp_ids = [ev_id e]\<rparr>"
        using Some ke by (simp add: group_holds_def in_group_snoc event_amounts_def key_def)
      then show ?thesis using IH other by (auto simp: gs update_conv' distinct_update group_holds_def)
    next
      case g: (Some g)
      then obtain tot where tot: "add_money (grp_amount g) m = Inr tot"
        and gs: "gs = AList.update key (g\<lparr>grp_amount := tot, grp_ids := grp_ids g @ [ev_id e]\<rparr>) gs0"
        using step Some by (auto simp: add_to_group_def key_def Let_def)
      have old: "group_holds key es g" using IH g by blast
      then have ne: "event_amounts (in_group key es) \<noteq> []" by (simp add: group_holds_def event_amounts_def)
      have "group_holds key (es @ [e]) (g\<lparr>grp_amount := tot, grp_ids := grp_ids g @ [ev_id e]\<rparr>)"
        using old ke Some tot ne
        by (auto simp: group_holds_def in_group_snoc event_amounts_def foldE_append)
      then show ?thesis using IH other by (auto simp: gs update_conv' distinct_update group_holds_def)
    qed
  qed
qed

lemma group_holds_value:
  assumes "group_holds k es g"
  shows "money_value (grp_amount g) = sum_list (map amt (in_group k es))"
    "money_ident (grp_amount g) = (fst k, fst (snd k))"
proof -
  let ?ms = "event_amounts (in_group k es)"
  have fold: "foldE add_money (hd ?ms) (tl ?ms) = Inr (grp_amount g)" and ne: "in_group k es \<noteq> []"
    using assms by (auto simp: group_holds_def)
  then have ms: "?ms = hd ?ms # tl ?ms" by (simp add: event_amounts_def)
  have "money_value (grp_amount g) = sum_list (map money_value ?ms)"
    using exact_money.fold_add_val [OF fold] by (subst ms) simp
  also have "\<dots> = sum_list (map amt (in_group k es))"
    by (rule arg_cong [of _ _ sum_list]) (auto simp: event_amounts_def in_group_def event_key_def)
  finally show "money_value (grp_amount g) = sum_list (map amt (in_group k es))" .
  have "hd ?ms \<in> set ?ms" using ms by (metis list.set_intros(1))
  then have "money_ident (hd ?ms) = (fst k, fst (snd k))"
    by (auto simp: event_amounts_def in_group_def event_key_def money_ident_def)
  then show "money_ident (grp_amount g) = (fst k, fst (snd k))"
    using exact_money.fold_add_ident [OF fold] by simp
qed

lemma role_name_inj: "role_name a = role_name b \<Longrightarrow> a = b"
  by (cases a; cases b) simp_all

lemma close_balances_groups:
  assumes "close_balances lc es = Inr bs"
  shows "b \<in> set bs \<Longrightarrow> \<exists>k. in_group k es \<noteq> [] \<and> bal_role b = role_name (snd (snd k))
      \<and> money_ident (bal_amount b) = (fst k, fst (snd k)) \<and> bal_events b = sort (map ev_id (in_group k es))
      \<and> money_value (bal_amount b) = sum_list (map amt (in_group k es))"
    "in_group k es \<noteq> [] \<Longrightarrow> \<exists>b \<in> set bs. bal_role b = role_name (snd (snd k))
      \<and> money_ident (bal_amount b) = (fst k, fst (snd k))"
    "distinct (map (\<lambda>b. (money_ident (bal_amount b), bal_role b)) bs)"
proof -
  let ?row = "\<lambda>kg. \<lparr>bal_role = role_name (grp_role (snd kg)), bal_amount = grp_amount (snd kg),
      bal_events = sort (grp_ids (snd kg))\<rparr>"
  obtain gs where gs: "group_balances es = Inr gs"
    and bs: "bs = sort_by (balance_order lc) (map ?row gs)"
    using assms by (auto simp: close_balances_def)
  note G = group_balances_groups [OF gs]
  have holds: "group_holds k es g" if "(k, g) \<in> set gs" for k g
  proof -
    have "map_of gs k = Some g" using G that by (blast intro: map_of_is_SomeI)
    then show ?thesis using G by blast
  qed
  show "\<exists>k. in_group k es \<noteq> [] \<and> bal_role b = role_name (snd (snd k))
      \<and> money_ident (bal_amount b) = (fst k, fst (snd k)) \<and> bal_events b = sort (map ev_id (in_group k es))
      \<and> money_value (bal_amount b) = sum_list (map amt (in_group k es))" if "b \<in> set bs"
  proof -
    obtain k g where kg: "(k, g) \<in> set gs" "b = ?row (k, g)" using \<open>b \<in> set bs\<close> bs by auto
    then show ?thesis using group_holds_value [OF holds [OF kg(1)]] holds [OF kg(1)]
      by (intro exI [of _ k]) (simp add: group_holds_def)
  qed
  show "\<exists>b \<in> set bs. bal_role b = role_name (snd (snd k)) \<and> money_ident (bal_amount b) = (fst k, fst (snd k))"
    if ne: "in_group k es \<noteq> []" for k
  proof -
    obtain g where g: "map_of gs k = Some g" using ne G by (meson not_None_eq)
    then have "(k, g) \<in> set gs" "group_holds k es g" using holds map_of_SomeD [OF g] by blast+
    moreover from this(1) have "?row (k, g) \<in> set bs"
      unfolding bs set_sort_by set_map by (rule imageI)
    ultimately show ?thesis using group_holds_value(2) [of k es g]
      by (intro bexI [of _ "?row (k, g)"]) (simp_all add: group_holds_def)
  qed
  let ?f = "\<lambda>b. (money_ident (bal_amount b), bal_role b)"
  let ?k = "\<lambda>k. ((fst k, fst (snd k)), role_name (snd (snd k)))"
  have "?f (?row kg) = ?k (fst kg)" if "kg \<in> set gs" for kg
    using holds [of "fst kg" "snd kg"] group_holds_value(2) [of "fst kg" es "snd kg"] that
    by (simp add: group_holds_def)
  then have keys: "map ?f (map ?row gs) = map ?k (map fst gs)" by simp
  have "distinct (map fst gs)" using G by blast
  moreover have "inj_on ?k (set (map fst gs))"
    by (rule inj_onI) (simp add: prod_eq_iff role_name_inj)
  ultimately have d: "distinct (map ?k (map fst gs))" unfolding distinct_map by (rule conjI)
  have "mset (map ?f bs) = mset (map ?f (map ?row gs))"
    unfolding bs by (simp only: mset_map mset_sort_by)
  then have "distinct (map ?f bs) = distinct (map ?f (map ?row gs))"
    by (rule mset_eq_imp_distinct_iff)
  then show "distinct (map ?f bs)" using d by (simp only: keys)
qed

end
