(* ===== verification/IsoOrder.thy ===== *)
theory IsoOrder
  imports EpiTime
begin

text \<open>
  The order of canonical timestamps as text.  The ledger's SQL compares \<open>recorded_at\<close> and
  \<open>occurred_at\<close> as text; for the four-digit years of \<open>toISOString\<close> that order is the order in time
  (\<open>to_iso_less_iff\<close>), since every field is a fixed-width decimal.
\<close>

section \<open>Fixed-width decimals\<close>

lemma append_less_prefix:
  fixes u v :: string
  shows "length u = length v \<Longrightarrow> u < v \<Longrightarrow> u @ s < v @ t"
  by (induction u v rule: list_induct2) auto

lemma append_less_same: "(u @ s < u @ t) = (s < (t :: string))"
  by (induction u) auto

lemma digit_char_less: "a < b \<Longrightarrow> b < 10 \<Longrightarrow> digit_char a < digit_char b"
  by (simp add: digit_char_def less_char_def)

lemma pad_snoc:
  assumes "0 < k" "n < 10 ^ Suc k"
  shows "pad (Suc k) n = pad k (n div 10) @ [digit_char (n mod 10)]"
proof (cases "n < 10")
  case True
  then have "show_nat n = [digit_char n]" "show_nat 0 = [CHR ''0'']" by (simp_all add: show_nat.simps)
  then show ?thesis using True assms(1)
    by (simp add: pad_def flip: replicate_Suc) (metis Suc_pred replicate_append_same replicate_Suc)
next
  case False
  then have "show_nat n = show_nat (n div 10) @ [digit_char (n mod 10)]" by (simp add: show_nat.simps)
  then show ?thesis by (simp add: pad_def)
qed

lemma pad_less: "m < n \<Longrightarrow> n < 10 ^ Suc k \<Longrightarrow> pad (Suc k) m < pad (Suc k) n"
proof (induction k arbitrary: m n)
  case 0
  then have "pad (Suc 0) m = [digit_char m]" "pad (Suc 0) n = [digit_char n]"
    by (simp_all add: pad_def show_nat.simps)
  then show ?case using digit_char_less [of m n] 0 by simp
next
  case (Suc k)
  have bounds: "m div 10 < 10 ^ Suc k" "n div 10 < 10 ^ Suc k" using Suc.prems by simp_all
  note split = pad_snoc [of "Suc k" m] pad_snoc [of "Suc k" n]
  show ?case
  proof (cases "m div 10 = n div 10")
    case True
    then have "m mod 10 < n mod 10" using Suc.prems(1) by (metis div_mult_mod_eq nat_add_left_cancel_less)
    then show ?thesis using split True Suc.prems digit_char_less [of "m mod 10" "n mod 10"]
      by (simp add: append_less_same)
  next
    case False
    then have "m div 10 < n div 10" using Suc.prems(1) by (simp add: div_le_mono le_neq_implies_less)
    then have "pad (Suc k) (m div 10) < pad (Suc k) (n div 10)" using Suc.IH bounds by blast
    then show ?thesis using split Suc.prems bounds by (simp add: append_less_prefix length_pad)
  qed
qed

lemma pad_field_less:
  "0 < k \<Longrightarrow> m < n \<Longrightarrow> n < 10 ^ k \<Longrightarrow> pad k m @ s < pad k n @ t"
  using pad_less [of m n "k - 1"] by (intro append_less_prefix) (simp_all add: length_pad)

section \<open>The calendar is monotone\<close>

lemma day_from_year_mono: "y \<le> z \<Longrightarrow> day_from_year y \<le> day_from_year z"
proof (induction z rule: int_ge_induct)
  case (step z)
  then show ?case using year_day_length [of z] by (simp split: if_splits)
qed simp

lemma year_from_day_mono: "c \<le> d \<Longrightarrow> year_from_day c \<le> year_from_day d"
proof (rule ccontr)
  assume "c \<le> d" "\<not> year_from_day c \<le> year_from_day d"
  then have "day_from_year (year_from_day d + 1) \<le> day_from_year (year_from_day c)"
    by (intro day_from_year_mono) simp
  then show False using year_from_day_bounds(1) [of c] year_from_day_bounds(2) [of d] \<open>c \<le> d\<close> by simp
qed

lemma month_start_mono: "i \<le> j \<Longrightarrow> j < 12 \<Longrightarrow> month_start l i \<le> month_start l j"
proof -
  have "month_start l m \<le> month_start l (Suc m)" if "m < 11" for m
  proof -
    have "m = 0 \<or> m = 1 \<or> m = 2 \<or> m = 3 \<or> m = 4 \<or> m = 5 \<or> m = 6 \<or> m = 7 \<or> m = 8 \<or> m = 9 \<or> m = 10"
      using that by presburger
    then show ?thesis by (elim disjE) (simp_all add: month_start_def eval_nat_numeral)
  qed
  note step = this
  show "i \<le> j \<Longrightarrow> j < 12 \<Longrightarrow> month_start l i \<le> month_start l j"
  proof (induction rule: dec_induct)
    case (step n)
    then show ?case using \<open>\<And>m. m < 11 \<Longrightarrow> _\<close> [of n] by simp
  qed simp
qed

lemma month_from_next: "month_from l n < 11 \<Longrightarrow> n < month_start l (Suc (month_from l n))"
  by (auto simp: month_from_def eval_nat_numeral split: if_splits)

lemma month_from_mono:
  assumes "a \<le> b" "b < (if l then 366 else 365)"
  shows "month_from l a \<le> month_from l b"
proof (rule ccontr)
  assume "\<not> month_from l a \<le> month_from l b"
  then have less: "month_from l b < month_from l a" by simp
  have a: "month_from l a < 12" "month_start l (month_from l a) \<le> a"
    using month_from_bounds [of a l] assms by auto
  have "b < month_start l (Suc (month_from l b))" using month_from_next less a(1) by simp
  also have "\<dots> \<le> month_start l (month_from l a)" using less a(1) by (intro month_start_mono) simp_all
  finally show False using a(2) assms(1) by simp
qed

section \<open>Text order is time order\<close>

text \<open>The instants whose year is written with four digits.\<close>

definition four_digit_year :: "instant_ms \<Rightarrow> bool" where
  "four_digit_year ms = (- 62167219200000 \<le> ms \<and> ms < 253402300800000)"

lemma four_digit_year_range:
  assumes "four_digit_year ms"
  shows "0 \<le> year_from_day (ms div 86400000)" "year_from_day (ms div 86400000) \<le> 9999"
proof -
  let ?d = "ms div 86400000"
  have d: "- 719528 \<le> ?d" "?d < 2932897"
    using assms div_bounds [of 86400000 ms] unfolding four_digit_year_def by linarith+
  have ends: "day_from_year 0 = - 719528" "day_from_year 10000 = 2932897" by (simp_all add: day_from_year_def)
  show "0 \<le> year_from_day ?d"
  proof (rule ccontr)
    assume "\<not> 0 \<le> year_from_day ?d"
    then have "day_from_year (year_from_day ?d + 1) \<le> day_from_year 0" by (intro day_from_year_mono) simp
    then show False using year_from_day_bounds(2) [of ?d] d ends by simp
  qed
  show "year_from_day ?d \<le> 9999"
  proof (rule ccontr)
    assume "\<not> year_from_day ?d \<le> 9999"
    then have "day_from_year 10000 \<le> day_from_year (year_from_day ?d)" by (intro day_from_year_mono) simp
    then show False using year_from_day_bounds(1) [of ?d] d ends by simp
  qed
qed

text \<open>The tail of a timestamp after the date: four fields, compared in turn.\<close>

definition clock_text :: "nat \<Rightarrow> string" where
  "clock_text t = pad 2 (t div 3600000) @ '':'' @ pad 2 (t div 60000 mod 60) @ '':'' @ pad 2 (t div 1000 mod 60)
     @ ''.'' @ pad 3 (t mod 1000) @ ''Z''"

lemma clock_fields_less:
  fixes h i j k :: nat
  assumes "t = h * 3600000 + i * 60000 + j * 1000 + k" "u = h' * 3600000 + i' * 60000 + j' * 1000 + k'" "t < u"
    "i < 60" "j < 60" "k < 1000" "i' < 60" "j' < 60" "k' < 1000"
  shows "h < h' \<or> h = h' \<and> (i < i' \<or> i = i' \<and> (j < j' \<or> j = j' \<and> k < k'))"
proof -
  have "h \<le> h'" using assms by linarith
  moreover have "i \<le> i'" if "h = h'" using assms that by linarith
  moreover have "j \<le> j'" if "h = h'" "i = i'" using assms that by linarith
  moreover have "k < k'" if "h = h'" "i = i'" "j = j'" using assms that by linarith
  ultimately show ?thesis by (metis le_neq_implies_less)
qed

lemma clock_text_less:
  assumes "t < u" "u < 86400000"
  shows "clock_text t < clock_text u"
proof -
  have fields: "u div 3600000 < 100" "u div 60000 mod 60 < 100" "u div 1000 mod 60 < 100" "u mod 1000 < 1000"
    using assms(2) by (simp_all add: less_mult_imp_div_less order_less_trans [OF mod_less_divisor])
  have caps: "t div 60000 mod 60 < 60" "t div 1000 mod 60 < 60" "t mod 1000 < 1000"
    "u div 60000 mod 60 < 60" "u div 1000 mod 60 < 60" "u mod 1000 < 1000" by simp_all
  from clock_fields_less [OF split_time split_time assms(1) caps]
  consider "t div 3600000 < u div 3600000"
    | "t div 3600000 = u div 3600000" "t div 60000 mod 60 < u div 60000 mod 60"
    | "t div 3600000 = u div 3600000" "t div 60000 mod 60 = u div 60000 mod 60" "t div 1000 mod 60 < u div 1000 mod 60"
    | "t div 3600000 = u div 3600000" "t div 60000 mod 60 = u div 60000 mod 60" "t div 1000 mod 60 = u div 1000 mod 60"
      "t mod 1000 < u mod 1000"
    by blast
  then show ?thesis
    by cases (simp_all add: clock_text_def append_less_same pad_field_less fields)
qed

definition date_text :: "int \<Rightarrow> nat \<Rightarrow> string" where
  "date_text y n = (let m = month_from (leap y) n; dt = n - month_start (leap y) m + 1
     in ''-'' @ pad 2 (m + 1) @ ''-'' @ pad 2 dt @ ''T'')"

lemma to_iso_split:
  "to_iso ms = year_text (year_from_day (ms div 86400000))
     @ date_text (year_from_day (ms div 86400000)) (nat (ms div 86400000 - day_from_year (year_from_day (ms div 86400000))))
     @ clock_text (nat (ms mod 86400000))"
  by (simp add: to_iso_def date_text_def clock_text_def Let_def)

lemma date_text_less:
  assumes "a < b" "b < (if leap y then 366 else 365)"
  shows "date_text y a @ s < date_text y b @ t"
proof -
  let ?m = "month_from (leap y)" and ?s = "month_start (leap y)"
  have b: "?m a < 12" "?m b < 12" "?s (?m a) \<le> a" "?s (?m b) \<le> b" "b < ?s (?m b) + 31"
    using month_from_bounds [of a "leap y"] month_from_bounds [of b "leap y"] assms by auto
  have "?m a \<le> ?m b" by (rule month_from_mono) (use assms in auto)
  then consider "?m a < ?m b" | "?m a = ?m b" by linarith
  then show ?thesis
  proof cases
    case 1
    then show ?thesis using b by (simp add: date_text_def Let_def append_less_same pad_field_less)
  next
    case 2
    then have "a - ?s (?m b) < b - ?s (?m b)" using b assms(1) by (simp add: diff_less_mono)
    then show ?thesis using b 2 by (simp add: date_text_def Let_def append_less_same pad_field_less)
  qed
qed

lemma year_text_less:
  assumes "0 \<le> y" "y < z" "z \<le> 9999"
  shows "year_text y @ s < year_text z @ t"
  using assms by (simp add: year_text_def) (intro pad_field_less; simp add: nat_less_iff)

lemma to_iso_less:
  assumes ab: "a < b" and fd: "four_digit_year a" "four_digit_year b"
  shows "to_iso a < to_iso b"
proof -
  let ?d = "\<lambda>ms. ms div 86400000" and ?y = "\<lambda>ms. year_from_day (ms div 86400000)"
  let ?n = "\<lambda>ms. nat (?d ms - day_from_year (?y ms))"
  have days: "?d a \<le> ?d b" using ab by (simp add: zdiv_mono1)
  have years: "?y a \<le> ?y b" by (rule year_from_day_mono [OF days])
  consider "?y a < ?y b" | "?y a = ?y b" "?d a < ?d b" | "?d a = ?d b" using years days by linarith
  then show ?thesis
  proof cases
    case 1
    then show ?thesis using four_digit_year_range [OF fd(1)] four_digit_year_range [OF fd(2)]
      unfolding to_iso_split by (intro year_text_less)
  next
    case 2
    then have "?n a < ?n b" using year_from_day_bounds(1) [of "?d a"] by (simp add: nat_less_eq_zless)
    moreover have "?n b < (if leap (?y b) then 366 else 365)"
      using year_from_day_bounds [of "?d b"] year_day_length [of "?y b"] by (auto split: if_splits)
    ultimately show ?thesis using 2(1) date_text_less [of "?n a" "?n b" "?y b"]
      unfolding to_iso_split by (simp add: append_less_same)
  next
    case 3
    then have "a mod 86400000 < b mod 86400000" using ab by (simp add: minus_mult_div_eq_mod [symmetric])
    then have "clock_text (nat (a mod 86400000)) < clock_text (nat (b mod 86400000))"
      by (intro clock_text_less) (simp_all add: nat_less_iff)
    then show ?thesis using 3 unfolding to_iso_split by (simp add: append_less_same)
  qed
qed

lemma to_iso_le_iff:
  "four_digit_year a \<Longrightarrow> four_digit_year b \<Longrightarrow> to_iso a \<le> to_iso b \<longleftrightarrow> a \<le> b"
  using to_iso_less [of a b] to_iso_less [of b a] by (cases a b rule: linorder_cases) auto

end
