(* ===== verification/Evaluation.thy ===== *)
theory Evaluation
  imports LedgerLaws IsoOrder
begin

text \<open>
  Code equations that let \<open>code_simp\<close> run the ledger on small inputs (the timestamps are compared as
  numbers where their text has four-digit years, the limits of an amount as integers), and the sample
  ledgers the witnesses of \<open>LedgerProps\<close> run on.
\<close>

section \<open>Text order of the SQL columns\<close>

lemma sql_le_time:
  "four_digit_year a \<Longrightarrow> four_digit_year b \<Longrightarrow> sql_le a b \<longleftrightarrow> a \<le> b"
  by (simp add: sql_le_def to_iso_le_iff)

lemma sql_le_code [code]:
  "sql_le a b = (if four_digit_year a \<and> four_digit_year b then a \<le> b else to_iso a \<le> to_iso b)"
  by (simp add: sql_le_def to_iso_le_iff)

lemma iso_cmp_code [code]:
  "iso_cmp a b =
     (if four_digit_year a \<and> four_digit_year b then (if a < b then -1 else if a = b then 0 else 1)
      else code_unit_cmp (to_iso a) (to_iso b))"
proof (cases "four_digit_year a \<and> four_digit_year b")
  case True
  then show ?thesis using to_iso_less [of a b] to_iso_less [of b a]
    by (cases a b rule: linorder_cases) (simp_all add: iso_cmp_def code_unit_cmp_def less_not_sym)
next
  case False
  then have "iso_cmp a b = (if False then (if a < b then -1 else if a = b then 0 else 1)
      else code_unit_cmp (to_iso a) (to_iso b))"
    by (simp add: iso_cmp_def)
  then show ?thesis using False by (simp only: if_False)
qed

text \<open>The epoch and the second after it, read without computing their calendar fields.\<close>

lemma to_iso_first_second:
  assumes "0 \<le> t" "t < 60000"
  shows "to_iso t = ''1970-01-01T00:00:'' @ pad 2 (nat t div 1000) @ ''.'' @ pad 3 (nat t mod 1000) @ ''Z''"
proof -
  have d: "t div 86400000 = 0" "t mod 86400000 = t" "nat t div 3600000 = 0" "nat t div 60000 = 0"
    "nat t div 1000 mod 60 = nat t div 1000" using assms by simp_all
  have y: "year_from_day 0 = 1970" by (simp add: year_from_day_def day_from_year_def)
  have m: "month_from (leap 1970) 0 = 0" "day_from_year 1970 = 0"
    by (simp_all add: month_from_def day_from_year_def month_start_def)
  have digits: "show_nat 0 = ''0''" "show_nat 1 = ''1''" "show_nat 1970 = ''1970''"
    by code_simp+
  have pads: "pad 2 0 = ''00''" "pad 2 1 = ''01''" "pad 4 1970 = ''1970''"
    by (simp_all add: pad_def digits digits(2) [unfolded One_nat_def] numeral_2_eq_2 numeral_3_eq_3)
  show ?thesis
    unfolding to_iso_def d y Let_def by (simp add: d m pads pads(2) [unfolded One_nat_def] year_text_def)
qed

lemma to_iso_epoch: "to_iso 0 = ''1970-01-01T00:00:00.000Z''" and to_iso_second: "to_iso 1000 = ''1970-01-01T00:00:01.000Z''"
proof -
  have digits: "show_nat 0 = ''0''" "show_nat 1 = ''1''" by code_simp+
  have "pad 2 0 = ''00''" "pad 2 1 = ''01''" "pad 3 0 = ''000''"
    by (simp_all add: pad_def digits digits(2) [unfolded One_nat_def] numeral_2_eq_2 numeral_3_eq_3)
  then show "to_iso 0 = ''1970-01-01T00:00:00.000Z''" "to_iso 1000 = ''1970-01-01T00:00:01.000Z''"
    by (simp_all add: to_iso_first_second)
qed

lemma to_iso_code [code]:
  "to_iso ms =
     (if ms = 0 then ''1970-01-01T00:00:00.000Z''
      else if ms = 1000 then ''1970-01-01T00:00:01.000Z''
      else let day = ms div 86400000; t = nat (ms mod 86400000);
          y = year_from_day day; n = nat (day - day_from_year y);
          m = month_from (leap y) n; dt = n - month_start (leap y) m + 1
      in year_text y @ ''-'' @ pad 2 (m + 1) @ ''-'' @ pad 2 dt @ ''T'' @ pad 2 (t div 3600000)
         @ '':'' @ pad 2 (t div 60000 mod 60) @ '':'' @ pad 2 (t div 1000 mod 60)
         @ ''.'' @ pad 3 (t mod 1000) @ ''Z'')"
proof -
  consider "ms = 0" | "ms = 1000" | "ms \<noteq> 0" "ms \<noteq> 1000" by blast
  then show ?thesis
    by cases (simp add: to_iso_epoch, simp add: to_iso_second, simp only: to_iso_def if_False)
qed

lemma instant_code [code]:
  "instant v =
     (if v = ''1970-01-01T00:00:00.000Z'' then Inr 0
      else if v = ''1970-01-01T00:00:01.000Z'' then Inr 1000
      else let ms = parse_iso v
        in if \<bar>ms\<bar> \<le> max_time \<and> to_iso ms = v then Inr ms
           else Inl ''timestamp must be canonical UTC ISO-8601'')"
  using instant_to_iso [of 0] instant_to_iso [of 1000]
  by (simp add: to_iso_epoch to_iso_second instant_def max_time_def)

lemma digit_limit_code [code_unfold]: "max_money_coefficient_digits < n \<longleftrightarrow> 16384 < int n"
  by (simp add: max_money_coefficient_digits_def)

lemma scale_limit_code [code_unfold]: "max_money_scale < n \<longleftrightarrow> 1000 < int n"
  by (simp add: max_money_scale_def)

declare sort_key_by_quicksort_code [code del]
declare sort_key_def [code]

section \<open>Sample ledgers\<close>

definition usd :: "int \<Rightarrow> economic_basis \<Rightarrow> money" where
  "usd c b = \<lparr>coefficient = c, scale = 0, currency = ''USD'', basis = b\<rparr>"

definition eur :: "int \<Rightarrow> economic_basis \<Rightarrow> money" where
  "eur c b = \<lparr>coefficient = c, scale = 0, currency = ''EUR'', basis = b\<rparr>"

definition sample_event ::
    "string \<Rightarrow> event_kind \<Rightarrow> instant_ms \<Rightarrow> money option \<Rightarrow> string list \<Rightarrow> string option \<Rightarrow> jsval \<Rightarrow> economic_event" where
  "sample_event i k t m srcs rv meta =
     \<lparr>ev_id = i, ev_kind = k, ev_subject = ''s'', ev_occurred = 0, ev_recorded = t, ev_amount = m,
      ev_sources = srcs, ev_reversal = rv, ev_metadata = meta, ev_schema = 1\<rparr>"

definition empty_ledger :: ledger where
  "empty_ledger = \<lparr>led_events = [], led_links = [], led_rates = []\<rparr>"

definition ledger_of :: "economic_event list \<Rightarrow> ledger" where
  "ledger_of es = foldl insert_event empty_ledger es"

definition constant_digest :: "jsval \<Rightarrow> string" where
  "constant_digest v = replicate 64 (CHR ''a'')"

text \<open>An allocation of 10 with two reversals of it; a charge of 10 corrected to 8, with two credits.\<close>

definition allocation_ledger :: ledger where
  "allocation_ledger = ledger_of
     [sample_event ''a'' CostAllocated 0 (Some (usd 10 BAllocated)) [] None JNull,
      sample_event ''r'' AllocationReversed 1 (Some (usd (-4) BAllocated)) [''a''] (Some ''a'') JNull,
      sample_event ''s'' AllocationReversed 2 (Some (usd (-6) BAllocated)) [''a''] (Some ''a'') JNull]"

definition charge_ledger :: ledger where
  "charge_ledger = ledger_of
     [sample_event ''c'' ChargeEstimated 0 (Some (usd 10 BList)) [] None JNull,
      sample_event ''p'' PriceCorrected 1 (Some (usd (-2) BList)) [''c''] None
        (JObj [(''correction'', JStr ''reprice''), (''previousAmount'', money_to_json (usd 10 BList)),
               (''nextAmount'', money_to_json (usd 8 BList))]),
      sample_event ''w'' CreditApplied 2 (Some (usd (-3) BList)) [''c''] None JNull,
      sample_event ''x'' CreditApplied 3 (Some (usd (-5) BList)) [''c''] None JNull]"

text \<open>A charge of 10 USD translated to 20 EUR.\<close>

definition translated_ledger :: ledger where
  "translated_ledger = ledger_of
     [sample_event ''c'' ChargeEstimated 0 (Some (usd 10 BList)) [] None JNull,
      sample_event ''t'' FxTranslated 1 (Some (eur 20 BList)) [''c''] None
        (JObj [(''convention'', JStr ''source-to-target''), (''effectiveAt'', JStr ''1970-01-01T00:00:00.000Z''),
               (''rate'', JObj [(''denominator'', JStr ''1''), (''numerator'', JStr ''2''),
                  (''sourceUnit'', JStr ''USD''), (''targetUnit'', JStr ''EUR'')]),
               (''rateSource'', JStr ''b''), (''rounding'', JStr ''none''),
               (''sourceAmount'', money_to_json (usd 10 BList))])]"

text \<open>A charge in the period from 0 to 10 and the close of that period, recorded at its end.\<close>

definition period_close :: economic_event where
  "period_close =
     \<lparr>ev_id = ''k'', ev_kind = CloseFinalized, ev_subject = ''economic-period:0:10'', ev_occurred = 10,
      ev_recorded = 10, ev_amount = None, ev_sources = [''c''], ev_reversal = None,
      ev_metadata = JObj [(''closeSchemaVersion'', JNum 1), (''eventCount'', JNum 1), (''periodEndMs'', JNum 10),
        (''periodStartMs'', JNum 0), (''projectionDigest'', JStr (replicate 64 (CHR ''a'')))],
      ev_schema = 1\<rparr>"

definition closed_ledger :: ledger where
  "closed_ledger = ledger_of
     [sample_event ''c'' ChargeEstimated 0 (Some (usd 10 BList)) [] None JNull, period_close]"

lemma samples_ok: "ledger_ok allocation_ledger" "ledger_ok charge_ledger" "ledger_ok translated_ledger" "ledger_ok closed_ledger"
  by code_simp+

lemma allocation_readable: "readable code_unit_cmp constant_digest allocation_ledger"
  by code_simp

lemma charge_readable: "readable code_unit_cmp constant_digest charge_ledger"
  by code_simp

lemma closed_readable: "readable code_unit_cmp constant_digest closed_ledger"
  by code_simp

lemma translated_readable: "readable code_unit_cmp constant_digest translated_ledger"
  by code_simp

end
