(* ===== verification/LedgerProps.thy ===== *)
theory LedgerProps
  imports Evaluation
begin

text \<open>
  The properties of the event ledger that rest on its validated reads: the reference graph, the
  conservation bounds of reversals, credits and corrections, the uniqueness of translations, and the
  partition of amounts into balances.
\<close>

text \<open>C8: whenever \<open>events()\<close> returns, the reference graph is acyclic, every event names only stored
  events, and none was recorded before an event it names.\<close>

theorem reference_graph_sound:
  assumes "ledger_ok L" "readable lc sha L"
  shows "acyclic (source_graph L)
    \<and> (\<forall>(s, i) \<in> source_graph L. \<exists>x e. stored L s = Some x \<and> stored L i = Some e \<and> ev_recorded x \<le> ev_recorded e)"
proof -
  have "\<exists>x e. stored L s = Some x \<and> stored L i = Some e \<and> ev_recorded x \<le> ev_recorded e"
    if si: "(s, i) \<in> source_graph L" for s i
  proof -
    obtain e where e: "e \<in> set (led_events L)" "ev_id e = i" "s \<in> set (ev_sources e)"
      using si by (auto simp: source_graph_def)
    moreover have "stored L i = Some e" using assms(1) e by (simp add: ledger_ok_def stored_iff)
    ultimately show ?thesis using readable_event_ok [OF assms e(1)] by (auto simp: event_ok_def)
  qed
  then show ?thesis using readable_acyclic [OF assms] by auto
qed

theorem reference_graph_sound_witness:
  "(''c'', ''p'') \<in> source_graph charge_ledger \<and> acyclic (source_graph charge_ledger)"
proof -
  have "(''c'', ''p'') \<in> source_graph charge_ledger"
    by (auto simp: source_graph_def charge_ledger_def ledger_of_def empty_ledger_def insert_event_def sample_event_def)
  then show ?thesis using reference_graph_sound [OF samples_ok(2) charge_readable] by simp
qed

text \<open>C12: the reversals of an allocation are \<open>allocation_reversed\<close> events of non-positive amounts, and
  together they never take back more than was allocated.\<close>

theorem reversals_conserve_allocation:
  assumes "ledger_ok L" "readable lc sha L" "target \<in> set (led_events L)" "ev_kind target = CostAllocated"
    and "reversals_of L (ev_id target) \<noteq> {}"
  shows "(\<Sum>e \<in> reversals_of L (ev_id target). - amt e) \<le> amt target
    \<and> (\<forall>e \<in> reversals_of L (ev_id target). ev_kind e = AllocationReversed \<and> amt e \<le> 0)"
  using reversal_total [OF assms(1-4)] assms(5) by auto

theorem reversals_conserve_allocation_witness:
  "\<exists>target. ev_id target = ''a'' \<and> target \<in> set (led_events allocation_ledger)
    \<and> (\<Sum>e \<in> reversals_of allocation_ledger ''a''. - amt e) \<le> amt target"
proof -
  let ?t = "sample_event ''a'' CostAllocated 0 (Some (usd 10 BAllocated)) [] None JNull"
  have t: "?t \<in> set (led_events allocation_ledger)" "ev_kind ?t = CostAllocated" "ev_id ?t = ''a''"
    by (simp_all add: allocation_ledger_def ledger_of_def empty_ledger_def insert_event_def sample_event_def)
  have "sample_event ''r'' AllocationReversed 1 (Some (usd (-4) BAllocated)) [''a''] (Some ''a'') JNull
      \<in> reversals_of allocation_ledger (ev_id ?t)"
    by (simp add: reversals_of_def allocation_ledger_def ledger_of_def empty_ledger_def insert_event_def sample_event_def)
  then have "reversals_of allocation_ledger (ev_id ?t) \<noteq> {}" by blast
  from reversals_conserve_allocation [OF samples_ok(1) allocation_readable t(1,2) this] show ?thesis
    using t by auto
qed

text \<open>C13: the negative adjustments recorded against a charge never exceed the charge as its price
  corrections leave it.\<close>

theorem credits_within_corrected_charge:
  assumes "ledger_ok L" "readable lc sha L"
    and "target \<in> set (led_events L)" "role_of_kind (ev_kind target) = RCharge" "ev_amount target = Some m"
    and "credits_of L (ev_id target) \<noteq> {}"
  shows "\<exists>corrected ids. corrected_charge_amount L target = Inr (corrected, ids)
    \<and> (\<Sum>e \<in> credits_of L (ev_id target). - amt e) \<le> money_value corrected"
  using credit_total [OF assms(1-5)] assms(6) by blast

theorem credits_within_corrected_charge_witness:
  "\<exists>target corrected ids. ev_id target = ''c'' \<and> corrected_charge_amount charge_ledger target = Inr (corrected, ids)
    \<and> (\<Sum>e \<in> credits_of charge_ledger ''c''. - amt e) \<le> money_value corrected"
proof -
  let ?t = "sample_event ''c'' ChargeEstimated 0 (Some (usd 10 BList)) [] None JNull"
  have t: "?t \<in> set (led_events charge_ledger)" "role_of_kind (ev_kind ?t) = RCharge"
    "ev_amount ?t = Some (usd 10 BList)" "ev_id ?t = ''c''"
    by (simp_all add: charge_ledger_def ledger_of_def empty_ledger_def insert_event_def sample_event_def)
  have "sample_event ''w'' CreditApplied 2 (Some (usd (-3) BList)) [''c''] None JNull \<in> credits_of charge_ledger (ev_id ?t)"
    by (simp add: credits_of_def credits_against_def adjustment_target_def usd_def charge_ledger_def ledger_of_def
        empty_ledger_def insert_event_def sample_event_def)
  then have "credits_of charge_ledger (ev_id ?t) \<noteq> {}" by blast
  from credits_within_corrected_charge [OF samples_ok(2) charge_readable t(1-3) this] show ?thesis
    using t(4) by metis
qed



text \<open>C15: of one root charge there is at most one translation into a currency, however many hops the
  translation chains have.\<close>

theorem translation_once_per_currency:
  assumes "ledger_ok L" "readable lc sha L"
    and "d \<in> set (led_events L)" "ev_kind d = FxTranslated" "ev_amount d = Some dm"
    and "e \<in> set (led_events L)" "ev_kind e = FxTranslated" "ev_amount e = Some em"
    and "currency dm = currency em" "translation_root L (ev_id d) = translation_root L (ev_id e)"
  shows "d = e"
  by (rule translation_unique [OF assms])

theorem translation_once_per_currency_witness:
  "\<exists>d. d \<in> set (led_events translated_ledger) \<and> ev_kind d = FxTranslated
    \<and> (\<forall>e \<in> set (led_events translated_ledger). ev_kind e = FxTranslated \<and> ev_amount e = ev_amount d
          \<and> translation_root translated_ledger (ev_id d) = translation_root translated_ledger (ev_id e) \<longrightarrow> d = e)"
proof -
  have "list_ex (\<lambda>d. ev_kind d = FxTranslated \<and> ev_amount d = Some (eur 20 BList)) (led_events translated_ledger)"
    by code_simp
  then obtain d where d: "d \<in> set (led_events translated_ledger)" "ev_kind d = FxTranslated" "ev_amount d = Some (eur 20 BList)"
    unfolding list_ex_iff by blast
  have "d = e" if "e \<in> set (led_events translated_ledger)" "ev_kind e = FxTranslated" "ev_amount e = ev_amount d"
    "translation_root translated_ledger (ev_id d) = translation_root translated_ledger (ev_id e)" for e
    using translation_once_per_currency [OF samples_ok(3) translated_readable d that(1,2) _ refl that(4)] that(3) d(3)
    by simp
  then show ?thesis using d by blast
qed

text \<open>C16: the balances of a close partition the amounts: one balance per currency, basis and role,
  which is the exact sum of the amounts of exactly the events of that group.\<close>

theorem balances_partition_amounts:
  assumes "close_balances lc es = Inr bs"
  shows "distinct (map (\<lambda>b. (money_ident (bal_amount b), bal_role b)) bs)
    \<and> (\<forall>b \<in> set bs. \<exists>k. in_group k es \<noteq> [] \<and> bal_role b = role_name (snd (snd k))
         \<and> money_ident (bal_amount b) = (fst k, fst (snd k)) \<and> bal_events b = sort (map ev_id (in_group k es))
         \<and> money_value (bal_amount b) = sum_list (map amt (in_group k es)))
    \<and> (\<forall>k. in_group k es \<noteq> [] \<longrightarrow> (\<exists>b \<in> set bs. bal_role b = role_name (snd (snd k))
         \<and> money_ident (bal_amount b) = (fst k, fst (snd k))))"
  using close_balances_groups [OF assms] by blast

theorem balances_partition_amounts_witness:
  "\<exists>bs. close_balances code_unit_cmp (led_events charge_ledger) = Inr bs \<and> length bs = 3
    \<and> distinct (map (\<lambda>b. (money_ident (bal_amount b), bal_role b)) bs)"
proof -
  have "case close_balances code_unit_cmp (led_events charge_ledger) of Inl _ \<Rightarrow> False | Inr bs \<Rightarrow> length bs = 3"
    by code_simp
  then obtain bs where "close_balances code_unit_cmp (led_events charge_ledger) = Inr bs" "length bs = 3"
    by (auto split: sum.splits)
  with balances_partition_amounts [OF this(1)] show ?thesis by blast
qed

text \<open>C18: the ledger's SQL compares timestamps as text; for instants whose year has four digits that is
  their order in time, and past the year 9999 it is not: an event of the year 10000 sorts before 1970.\<close>

theorem sql_order_is_time_order:
  "(four_digit_year a \<longrightarrow> four_digit_year b \<longrightarrow> (sql_le a b \<longleftrightarrow> a \<le> b))
    \<and> sql_le 253402300800000 0 \<and> \<bar>253402300800000\<bar> \<le> max_time"
proof -
  have y: "year_from_day 2932897 = 10000" by (simp add: year_from_day_def day_from_year_def)
  have "to_iso 253402300800000 = CHR ''+'' # pad 6 10000 @ date_text 10000 (nat (2932897 - day_from_year 10000)) @ clock_text 0"
    by (simp add: to_iso_split [of 253402300800000] y year_text_def)
  then have "to_iso 253402300800000 \<le> to_iso 0" unfolding to_iso_epoch by simp
  then have "sql_le 253402300800000 0" by (simp add: sql_le_def)
  then show ?thesis by (simp add: sql_le_time max_time_def)
qed

theorem sql_order_is_time_order_witness:
  "sql_le 5 7 \<and> \<not> sql_le 7 5"
  using sql_order_is_time_order [of 5 7] sql_order_is_time_order [of 7 5] by (simp add: four_digit_year_def)

end
