(* ===== verification/LedgerClose.thy ===== *)
theory LedgerClose
  imports Evaluation
begin

text \<open>
  Period closing: what a recorded close binds, what an accepted append may not falsify, and why a
  period whose predecessor is closed cannot be closed.
\<close>

section \<open>A fresh event that passes validation\<close>

lemma closure_fresh:
  assumes "closure lc sha L [] [] e = Inr val" "stored L (ev_id e) = None"
  shows "event_ok lc sha L e"
proof -
  let ?ev = "(stored L)(ev_id e \<mapsto> e)"
  have "source_ordered ?ev (event_ok lc sha L) val \<and> (\<exists>new. val = new @ [] \<and> set new \<inter> set [] = {}) \<and> ev_id e \<in> set val"
  proof (rule closure_sound [OF assms(1)])
    fix i s assume "read_stored L i = Inr (Some s)"
    then have "stored L i = Some s" by (rule read_stored_Some)
    then show "?ev i = Some s" using assms(2) by auto
  qed simp_all
  then show ?thesis using source_ordered_elem [of ?ev "event_ok lc sha L" val "ev_id e"] by auto
qed

lemma append_canonical_cases:
  assumes "append_canonical lc sha L e = Inr (r, L')"
  shows "(r = Duplicate \<and> L' = L \<and> stored L (ev_id e) \<noteq> None) \<or>
    (r = Inserted \<and> L' = insert_event L e \<and> stored L (ev_id e) = None \<and> event_ok lc sha L e)"
proof (cases "stored L (ev_id e)")
  case None
  then obtain val where "closure lc sha L [] [] e = Inr val" "r = Inserted" "L' = insert_event L e"
    using assms by (auto simp: append_canonical_def)
  then show ?thesis using closure_fresh None by blast
next
  case (Some x)
  then show ?thesis using assms by (auto simp: append_canonical_def split: if_split_asm)
qed

lemma linking_fresh: "ledger_ok L \<Longrightarrow> stored L i = None \<Longrightarrow> linking L i = []"
proof -
  assume ok: "ledger_ok L" and new: "stored L i = None"
  have "set (linking L i) = {}"
  proof (rule equals0I)
    fix j assume "j \<in> set (linking L i)"
    then obtain e where "stored L j = Some e" "i \<in> set (ev_sources e)" using set_linking [OF ok] by blast
    then have "i \<in> set (event_ids L)" using ok stored_Some [of L j e] by (auto simp: ledger_ok_def)
    then show False using new by (simp add: stored_None_iff)
  qed
  then show ?thesis by simp
qed

section \<open>What a close binds\<close>

definition bound_events :: "ledger \<Rightarrow> int \<Rightarrow> int \<Rightarrow> instant_ms \<Rightarrow> economic_event list" where
  "bound_events L s t r = filter (\<lambda>v. ev_recorded v \<le> r) (raw_events_in_occurrence_range L s t)"

lemma set_bound_events:
  "set (bound_events L s t r)
     = {v \<in> set (led_events L). sql_le s (ev_occurred v) \<and> \<not> sql_le t (ev_occurred v) \<and> ev_recorded v \<le> r}"
  by (auto simp: bound_events_def raw_events_in_occurrence_range_def)

lemma close_checked:
  assumes e: "event_ok lc sha L e" "ev_kind e = CloseFinalized" "\<not> has_close_invalidation L (ev_id e)"
  obtains fm bs where "close_finalization_metadata (ev_metadata e) = Inr fm"
    "check_close_placement e (fin_start fm) (fin_end fm) = Inr ()"
    "set (ev_sources e) = ev_id ` set (bound_events L (fin_start fm) (fin_end fm) (ev_recorded e))"
    "close_balances lc (bound_events L (fin_start fm) (fin_end fm) (ev_recorded e)) = Inr bs"
    "fin_digest fm = close_projection_digest lc sha (fin_start fm) (fin_end fm)
       (sort (map ev_id (bound_events L (fin_start fm) (fin_end fm) (ev_recorded e)))) bs"
    "\<forall>s \<in> set (ev_sources e). \<not> is_close_kind (ev_kind (the (stored L s)))"
proof -
  let ?b = "\<lambda>fm. bound_events L (fin_start fm) (fin_end fm) (ev_recorded e)"
  have "check_finalization lc sha L e (source_events L e) = Inr ()"
    using event_ok_checks(6) [OF e(1)] e(2) by (simp add: validate_close_event_def)
  then obtain fm where fm: "close_finalization_metadata (ev_metadata e) = Inr fm"
      "check_close_placement e (fin_start fm) (fin_end fm) = Inr ()"
    and m: "close_binding_matches lc sha L e fm = Inr True"
    and src: "\<not> list_ex (\<lambda>s. is_close_kind (ev_kind s)) (map snd (source_events L e))"
    using e(3) unfolding check_finalization_def by (auto simp: bindE_Inr_iff split: if_split_asm)
  have ids: "sort (ev_sources e) = sort (map ev_id (?b fm))"
    and "bindE (close_balances lc (?b fm)) (\<lambda>bs.
           Inr (fin_digest fm = close_projection_digest lc sha (fin_start fm) (fin_end fm) (sort (map ev_id (?b fm))) bs)) = Inr True"
    using m unfolding close_binding_matches_def bound_events_def [symmetric] Let_def by (auto split: if_split_asm)
  then obtain bs where bs: "close_balances lc (?b fm) = Inr bs"
    "fin_digest fm = close_projection_digest lc sha (fin_start fm) (fin_end fm) (sort (map ev_id (?b fm))) bs"
    by (auto simp: bindE_Inr_iff)
  have "set (ev_sources e) = ev_id ` set (?b fm)" using ids by (metis set_sort set_map)
  moreover have "\<forall>s \<in> set (ev_sources e). \<not> is_close_kind (ev_kind (the (stored L s)))"
    using src by (auto simp: source_events_def list_ex_iff)
  ultimately show ?thesis using that fm bs by blast
qed

section \<open>Period subjects\<close>

lemma digit_not_space: "is_digit c \<Longrightarrow> \<not> js_space c"
  by (auto simp: is_digit_def js_space_def)

lemma trim_fixed: "\<not> js_space (hd s) \<Longrightarrow> \<not> js_space (last s) \<Longrightarrow> trim s = s"
proof -
  assume h: "\<not> js_space (hd s)" and l: "\<not> js_space (last s)"
  have "dropWhile js_space s = s" using h by (cases s) auto
  moreover have "dropWhile js_space (rev s) = rev s" using l by (cases s rule: rev_cases) auto
  ultimately show ?thesis by (simp add: trim_def)
qed

lemma digit_last: "is_digit (last (show_nat n))"
  using show_nat_digits [of n] show_nat_not_Nil [of n] by (auto simp: list_all_iff simp del: show_nat_digits)

lemma show_int_last: "is_digit (last (show_int i))"
  using digit_last by (simp add: show_int_def)

lemma show_int_no_colon: "CHR '':'' \<notin> set (show_int i)"
  using show_nat_digits [of "nat i"] show_nat_digits [of "nat (- i)"]
  by (auto simp: show_int_def list_all_iff is_digit_def simp del: show_nat_digits)

lemma show_int_inj: "show_int i = show_int j \<Longrightarrow> i = j"
proof -
  have digit: "is_digit (hd (show_nat n))" for n
    using show_nat_digits [of n] show_nat_not_Nil [of n] by (cases "show_nat n") (auto simp del: show_nat_digits)
  have "CHR ''-'' # show_nat m \<noteq> show_nat n" for m n
    using digit [of n] by (cases "show_nat n") (auto simp: is_digit_def)
  then show "show_int i = show_int j \<Longrightarrow> i = j"
    by (auto simp: show_int_def show_nat_inj split: if_splits) (metis | simp)+
qed

lemma period_subject_inj: "period_subject s t = period_subject s' t' \<Longrightarrow> s = s' \<and> t = t'"
proof -
  assume eq: "period_subject s t = period_subject s' t'"
  then have e: "show_int s @ '':'' @ show_int t = show_int s' @ '':'' @ show_int t'"
    by (simp add: period_subject_def)
  have split: "takeWhile (\<lambda>c. c \<noteq> CHR '':'') (show_int i @ '':'' @ r) = show_int i" for i r
    using show_int_no_colon [of i] by (subst takeWhile_append2) auto
  have "show_int s = show_int s'" using arg_cong [OF e, of "takeWhile (\<lambda>c. c \<noteq> CHR '':'')"] unfolding split .
  moreover from this e have "show_int t = show_int t'" by simp
  ultimately show ?thesis using show_int_inj by blast
qed

lemma trim_period_subject [simp]: "trim (period_subject s t) = period_subject s t"
proof (rule trim_fixed)
  have "show_int t \<noteq> []" by (simp add: show_int_def)
  then show "\<not> js_space (last (period_subject s t))"
    using digit_not_space [OF show_int_last [of t]] by (simp add: period_subject_def)
  show "\<not> js_space (hd (period_subject s t))" by (simp add: period_subject_def js_space_def)
qed

section \<open>Control events\<close>

lemma economic_event_fields:
  assumes "economic_event lc v = Inr e"
  shows "non_empty_val ''economic event id'' (field ''id'' v) = Inr (ev_id e)"
    "event_kind_val (field ''kind'' v) = Inr (ev_kind e)"
    "non_empty_val ''economic event subject'' (field ''subject'' v) = Inr (ev_subject e)"
    "instant_val ''economic event occurredAt'' (field ''occurredAt'' v) = Inr (ev_occurred e)"
    "instant_val ''economic event recordedAt'' (field ''recordedAt'' v) = Inr (ev_recorded e)"
    "event_ids_val (field ''sourceEventIds'' v) = Inr (ev_sources e)"
  using assms unfolding economic_event_def bindE_Inr_iff if_Inl_Inr_iff sum.inject
  by (elim exE conjE; (hypsubst; simp)+)+

lemma control_event_fields:
  assumes "economic_event lc (control_event_value i k p rc srcs extra) = Inr e" "\<bar>rc\<bar> \<le> max_time"
  shows "ev_kind e = k" "ev_subject e = trim (period_subject_of p)" "ev_recorded e = rc" "ev_id e = trim i"
    "event_ids_val (JArr (map JStr srcs)) = Inr (ev_sources e)"
  using economic_event_fields [OF assms(1)] assms(2)
  by (auto simp: control_event_value_def dest!: non_empty_Inr)

lemma boundary_or_now_bound: "boundary_or_now now v = Inr t \<Longrightarrow> \<bar>t\<bar> \<le> max_time"
  by (auto simp: boundary_or_now_def instant_iff dest: instant_val_bound split: if_splits)

lemma canonical_period_subject: "canonical_period a b = Inr p \<Longrightarrow> period_subject_of p = period_subject (start_ms p) (end_ms p)"
  by (auto simp: canonical_period_def bindE_Inr_iff split: if_splits)

lemma finalize_period_close:
  assumes "finalize_period lc sha now L start_v end_v recorded_v gid = Inr (r, L')"
    and "canonical_period start_v end_v = Inr p"
  obtains close x where "append_canonical lc sha L close = Inr (x, L')" "ev_kind close = CloseFinalized"
    "ev_subject close = period_subject (start_ms p) (end_ms p)" "ev_recorded close = fr_recorded r"
    "ev_id close = fr_event r" "fr_sources r = sort (map ev_id (bound_events L (start_ms p) (end_ms p) (fr_recorded r)))"
    "close_balances lc (bound_events L (start_ms p) (end_ms p) (fr_recorded r)) = Inr (fr_balances r)"
    "event_ids_val (JArr (map JStr (fr_sources r))) = Inr (ev_sources close)"
    "boundary_or_now now recorded_v = Inr (fr_recorded r)" "\<And>g. gid = Some g \<Longrightarrow> ev_id close = trim g"
proof -
  let ?i = "case gid of Some i \<Rightarrow> i
    | None \<Rightarrow> ''economic:close:'' @ show_int (start_ms p) @ '':'' @ show_int (end_ms p) @ '':''
        @ show_nat (count_of L CloseFinalized (period_subject_of p) + 1)"
  from assms obtain rc st all bs digest close x where
    rc: "boundary_or_now now recorded_v = Inr rc"
    and all: "events_in_occurrence_range lc sha L (start_ms p) (end_ms p) = Inr all"
    and bs: "close_balances lc (filter (\<lambda>e. ev_recorded e \<le> rc) all) = Inr bs"
    and close: "economic_event lc (control_event_value ?i CloseFinalized p rc
          (sort (map ev_id (filter (\<lambda>e. ev_recorded e \<le> rc) all)))
          [(''projectionDigest'', JStr digest), (''eventCount'', JNum (of_nat (length (sort (map ev_id (filter (\<lambda>e. ev_recorded e \<le> rc) all))))))]) = Inr close"
    and app: "append_canonical lc sha L close = Inr (x, L')"
    and r: "r = \<lparr>fr_event = ev_id close, fr_recorded = rc, fr_digest = digest, fr_balances = bs,
             fr_sources = sort (map ev_id (filter (\<lambda>e. ev_recorded e \<le> rc) all))\<rparr>"
    unfolding finalize_period_def Let_def by (auto simp: bindE_Inr_iff split: if_split_asm)
  have raw: "filter (\<lambda>e. ev_recorded e \<le> rc) all = bound_events L (start_ms p) (end_ms p) rc"
    using all by (auto simp: events_in_occurrence_range_def validate_all_def bound_events_def split: if_split_asm)
  note f = control_event_fields [OF close boundary_or_now_bound [OF rc]]
  show ?thesis
    by (rule that [of close x]) (use app f r rc bs canonical_period_subject [OF assms(2)] raw in auto)
qed

section \<open>Accepted appends\<close>

definition index_covers :: "period_index \<Rightarrow> economic_event \<Rightarrow> bool" where
  "index_covers ix c =
     (\<forall>fm. close_finalization_metadata (ev_metadata c) = Inr fm \<longrightarrow>
        map_of (pix_periods ix) (period_subject (fin_start fm) (fin_end fm)) = Some (fin_start fm, fin_end fm)
        \<and> (\<exists>f. map_of (pix_closed ix) (period_subject (fin_start fm) (fin_end fm)) = Some f \<and> ev_recorded c \<le> f))"

lemma index_control_keeps:
  assumes "index_control ix d = Inr ix'" "index_covers ix c"
  shows "index_covers ix' c"
  using assms unfolding index_control_def index_covers_def Let_def
  by (auto simp: bindE_Inr_iff update_conv split: if_split_asm option.split_asm dest!: period_subject_inj)

lemma index_control_adds:
  "index_control ix c = Inr ix' \<Longrightarrow> ev_kind c = CloseFinalized \<Longrightarrow> index_covers ix' c"
proof -
  assume step: "index_control ix c = Inr ix'" and k: "ev_kind c = CloseFinalized"
  then obtain fm where fm: "close_finalization_metadata (ev_metadata c) = Inr fm"
    by (auto simp: index_control_def bindE_Inr_iff)
  show "index_covers ix' c"
    using step k fm unfolding index_control_def index_covers_def Let_def
    by (cases "map_of (pix_closed ix) (period_subject (fin_start fm) (fin_end fm))") (auto simp: update_conv)
qed

lemma index_control_fold:
  "foldE index_control ix cs = Inr ix' \<Longrightarrow> (index_covers ix c \<or> c \<in> set cs \<and> ev_kind c = CloseFinalized) \<Longrightarrow> index_covers ix' c"
proof (induction cs arbitrary: ix)
  case (Cons d cs)
  obtain ix1 where "index_control ix d = Inr ix1" "foldE index_control ix1 cs = Inr ix'" using Cons.prems(1) by auto
  then show ?case using Cons.IH [of ix1] Cons.prems(2) index_control_keeps index_control_adds by auto
qed simp

lemma validate_all_Inr: "validate_all lc sha L es = Inr es' \<Longrightarrow> es' = es"
  by (auto simp: validate_all_def)

lemma close_control_events_set:
  "close_control_events lc sha L = Inr cs \<Longrightarrow>
     set cs = {e \<in> set (led_events L). ev_kind e = CloseFinalized \<or> ev_kind e = CloseReopened}"
  by (auto simp: close_control_events_def dest!: validate_all_Inr)

lemma foldE_unit_elem: "foldE (\<lambda>_ x. f x) () xs = Inr () \<Longrightarrow> x \<in> set xs \<Longrightarrow> f x = Inr ()"
  by (induction xs) (auto simp: bindE_Inr_iff)

lemma period_open_checked:
  assumes ok: "assert_period_open_for_event lc sha L e = Inr ()" and k: "\<not> is_close_kind (ev_kind e)"
    and c: "c \<in> set (led_events L)" "ev_kind c = CloseFinalized" "close_finalization_metadata (ev_metadata c) = Inr fm"
    and t: "fin_start fm \<le> ev_occurred e" "ev_occurred e < fin_end fm"
  shows "ev_recorded c < ev_recorded e"
    "\<exists>st. period_close_status lc sha L (fin_start fm) (fin_end fm) None = Inr st \<and> cs_status st \<in> {POpen, PReopened}"
proof -
  let ?subj = "period_subject (fin_start fm) (fin_end fm)"
  from ok k obtain instants controls ix where cs: "close_control_events lc sha L = Inr controls"
    and ix: "foldE index_control \<lparr>pix_periods = [], pix_closed = []\<rparr> controls = Inr ix"
    and all: "foldE (\<lambda>_ p. check_period_open lc sha L e (ev_occurred e # instants) (pix_closed ix) p) () (pix_periods ix) = Inr ()"
    by (auto simp: assert_period_open_for_event_def Let_def bindE_Inr_iff)
  have "index_covers ix c" by (rule index_control_fold [OF ix]) (use close_control_events_set [OF cs] c in simp)
  then obtain f where f: "map_of (pix_periods ix) ?subj = Some (fin_start fm, fin_end fm)"
    "map_of (pix_closed ix) ?subj = Some f" "ev_recorded c \<le> f"
    using c(3) by (auto simp: index_covers_def)
  have chk: "check_period_open lc sha L e (ev_occurred e # instants) (pix_closed ix) (?subj, fin_start fm, fin_end fm) = Inr ()"
    by (rule foldE_unit_elem [OF all map_of_SomeD [OF f(1)]])
  then obtain st where st: "period_close_status lc sha L (fin_start fm) (fin_end fm) None = Inr st"
    "cs_status st \<noteq> PFinalized" "cs_status st \<noteq> PConflicted" "f < ev_recorded e"
    using t f(2) by (auto simp: check_period_open_def bindE_Inr_iff split: if_split_asm)
  show "ev_recorded c < ev_recorded e" using st(4) f(3) by simp
  show "\<exists>st. period_close_status lc sha L (fin_start fm) (fin_end fm) None = Inr st \<and> cs_status st \<in> {POpen, PReopened}"
    using st by (cases "cs_status st") auto
qed

lemma append_event_cases:
  assumes "append_event lc sha L v = Inr (r, L')"
  obtains e where "economic_event lc v = Inr e" "append_canonical lc sha L e = Inr (r, L')"
    "stored L (ev_id e) \<noteq> None \<or> assert_period_open_for_event lc sha L e = Inr ()" "ev_kind e \<noteq> CloseInvalidated"
  using assms by (auto simp: append_event_def bindE_Inr_iff split: if_split_asm)

section \<open>The properties\<close>

text \<open>C11: a recorded close binds its period: the sources of a \<open>close_finalized\<close> event that no recovery
  invalidated are exactly the events that occurred in the period and were recorded no later than the
  close, none of them a close control event, and its digest is the digest of their balances.\<close>

theorem close_binds_period:
  assumes "ledger_ok L" "readable lc sha L" "e \<in> set (led_events L)" "ev_kind e = CloseFinalized"
    and "\<not> has_close_invalidation L (ev_id e)"
  shows "\<exists>fm bs. close_finalization_metadata (ev_metadata e) = Inr fm \<and> ev_occurred e = fin_end fm \<and> fin_end fm \<le> ev_recorded e
    \<and> set (ev_sources e) = ev_id ` {v \<in> set (led_events L). sql_le (fin_start fm) (ev_occurred v)
         \<and> \<not> sql_le (fin_end fm) (ev_occurred v) \<and> ev_recorded v \<le> ev_recorded e}
    \<and> (\<forall>v \<in> set (led_events L). ev_id v \<in> set (ev_sources e) \<longrightarrow> \<not> is_close_kind (ev_kind v))
    \<and> close_balances lc (bound_events L (fin_start fm) (fin_end fm) (ev_recorded e)) = Inr bs
    \<and> fin_digest fm = close_projection_digest lc sha (fin_start fm) (fin_end fm)
         (sort (map ev_id (bound_events L (fin_start fm) (fin_end fm) (ev_recorded e)))) bs"
proof -
  obtain fm bs where c: "close_finalization_metadata (ev_metadata e) = Inr fm"
    "check_close_placement e (fin_start fm) (fin_end fm) = Inr ()"
    "set (ev_sources e) = ev_id ` set (bound_events L (fin_start fm) (fin_end fm) (ev_recorded e))"
    "close_balances lc (bound_events L (fin_start fm) (fin_end fm) (ev_recorded e)) = Inr bs"
    "fin_digest fm = close_projection_digest lc sha (fin_start fm) (fin_end fm)
       (sort (map ev_id (bound_events L (fin_start fm) (fin_end fm) (ev_recorded e)))) bs"
    "\<forall>s \<in> set (ev_sources e). \<not> is_close_kind (ev_kind (the (stored L s)))"
    by (rule close_checked [OF readable_event_ok [OF assms(1-3)] assms(4,5)])
  have "\<not> is_close_kind (ev_kind v)" if "v \<in> set (led_events L)" "ev_id v \<in> set (ev_sources e)" for v
    using c(6) that assms(1) stored_iff [of L "ev_id v" v] by (auto simp: ledger_ok_def)
  moreover have "ev_occurred e = fin_end fm" "fin_end fm \<le> ev_recorded e"
    using c(2) by (auto simp: check_close_placement_def split: if_splits)
  ultimately show ?thesis using c unfolding set_bound_events by blast
qed

theorem close_binds_period_witness:
  "\<exists>fm. close_finalization_metadata (ev_metadata period_close) = Inr fm \<and> fin_end fm = 10
    \<and> {''c''} = ev_id ` {v \<in> set (led_events closed_ledger). sql_le (fin_start fm) (ev_occurred v)
         \<and> \<not> sql_le (fin_end fm) (ev_occurred v) \<and> ev_recorded v \<le> 10}"
proof -
  have e: "period_close \<in> set (led_events closed_ledger)"
    by (simp add: closed_ledger_def ledger_of_def empty_ledger_def insert_event_def)
  have f: "ev_kind period_close = CloseFinalized" "ev_recorded period_close = 10" "ev_occurred period_close = 10"
    "set (ev_sources period_close) = {''c''}"
    by (simp_all add: period_close_def)
  have "\<not> has_close_invalidation closed_ledger (ev_id period_close)" by code_simp
  from close_binds_period [OF samples_ok(4) closed_readable e f(1) this] f show ?thesis by auto
qed

text \<open>C9: once a close control event occurs at the start of a period, finalizing that period under a
  fresh id throws for every recording boundary at or after the time the event was recorded: the half-open
  window of the period then contains the event, and a close may not bind one.  The close of the preceding
  adjacent period occurs exactly there.  With an earlier boundary the event is not yet visible and is left
  out.\<close>

theorem adjacent_period_never_closed:
  assumes "ledger_ok L" "canonical_period start_v end_v = Inr p" "boundary_or_now now recorded_v = Inr rc"
    and "c \<in> set (led_events L)" "is_close_kind (ev_kind c)" "ev_occurred c = start_ms p" "ev_recorded c \<le> rc"
    and "\<not> sql_le (end_ms p) (start_ms p)" "stored L (trim i) = None"
  shows "\<exists>msg. finalize_period lc sha now L start_v end_v recorded_v (Some i) = Inl msg"
proof (cases "finalize_period lc sha now L start_v end_v recorded_v (Some i)")
  case (Inr rl)
  obtain r L' where rl: "rl = (r, L')" by fastforce
  obtain close x where cl: "append_canonical lc sha L close = Inr (x, L')" "ev_kind close = CloseFinalized"
    "ev_subject close = period_subject (start_ms p) (end_ms p)" "ev_recorded close = rc" "ev_id close = trim i"
    by (rule finalize_period_close [OF Inr [unfolded rl] assms(2)]) (use assms(3) in auto)
  have new: "stored L (ev_id close) = None" using cl(5) assms(9) by simp
  then have ok: "event_ok lc sha L close" using append_canonical_cases [OF cl(1)] by auto
  have open_id: "\<not> has_close_invalidation L (ev_id close)"
    by (simp add: has_close_invalidation_def linking_fresh [OF assms(1) new])
  obtain fm bs where "close_finalization_metadata (ev_metadata close) = Inr fm"
    and fm: "check_close_placement close (fin_start fm) (fin_end fm) = Inr ()"
    "set (ev_sources close) = ev_id ` set (bound_events L (fin_start fm) (fin_end fm) (ev_recorded close))"
    and "close_balances lc (bound_events L (fin_start fm) (fin_end fm) (ev_recorded close)) = Inr bs"
    "fin_digest fm = close_projection_digest lc sha (fin_start fm) (fin_end fm)
       (sort (map ev_id (bound_events L (fin_start fm) (fin_end fm) (ev_recorded close)))) bs"
    and plain: "\<forall>s \<in> set (ev_sources close). \<not> is_close_kind (ev_kind (the (stored L s)))"
    by (rule close_checked [OF ok cl(2) open_id])
  have "fin_start fm = start_ms p" "fin_end fm = end_ms p"
    using fm(1) cl(3) by (auto simp: check_close_placement_def dest!: period_subject_inj split: if_splits)
  then have "c \<in> set (bound_events L (fin_start fm) (fin_end fm) (ev_recorded close))"
    using assms(4,6,7,8) cl(4) by (simp add: set_bound_events sql_le_def)
  then have "ev_id c \<in> set (ev_sources close)" using fm(2) by blast
  then have "\<not> is_close_kind (ev_kind (the (stored L (ev_id c))))" using plain by blast
  moreover have "stored L (ev_id c) = Some c" using assms(1,4) by (simp add: ledger_ok_def stored_iff)
  ultimately have False using assms(5) by simp
  then show ?thesis ..
qed simp

theorem adjacent_period_never_closed_witness:
  "\<exists>msg. finalize_period code_unit_cmp constant_digest 30 closed_ledger (JNum 10) (JNum 20) JUndefined (Some ''n'') = Inl msg"
proof -
  let ?p = "\<lparr>start_ms = 10, end_ms = 20, period_subject_of = period_subject 10 20\<rparr>"
  have p: "canonical_period (JNum 10) (JNum 20) = Inr ?p" by code_simp
  have r: "boundary_or_now 30 JUndefined = Inr 30"
    by (simp add: boundary_or_now_def max_time_def)
  have c: "period_close \<in> set (led_events closed_ledger)" "is_close_kind (ev_kind period_close)"
    "ev_occurred period_close = start_ms ?p" "ev_recorded period_close \<le> 30"
    by (simp_all add: closed_ledger_def ledger_of_def empty_ledger_def insert_event_def period_close_def is_close_kind_def)
  have "\<not> sql_le (end_ms ?p) (start_ms ?p)" by (simp add: sql_le_time four_digit_year_def)
  moreover have "stored closed_ledger (trim ''n'') = None" by code_simp
  ultimately show ?thesis by (rule adjacent_period_never_closed [OF samples_ok(4) p r c])
qed

text \<open>C10: an accepted append of an event that is not a close control event never falsifies a recorded
  close: such a new event that occurs inside a period that was ever closed is recorded strictly after every close of that
  period, and the period is not finalized or conflicted at that moment.\<close>

theorem append_respects_closes:
  assumes "append_event lc sha L v = Inr (Inserted, L')" "economic_event lc v = Inr e" "\<not> is_close_kind (ev_kind e)"
    and "c \<in> set (led_events L)" "ev_kind c = CloseFinalized" "close_finalization_metadata (ev_metadata c) = Inr fm"
    and "fin_start fm \<le> ev_occurred e" "ev_occurred e < fin_end fm"
  shows "ev_recorded c < ev_recorded e \<and>
    (\<exists>st. period_close_status lc sha L (fin_start fm) (fin_end fm) None = Inr st \<and> cs_status st \<in> {POpen, PReopened})"
proof -
  obtain e' where "economic_event lc v = Inr e'" "append_canonical lc sha L e' = Inr (Inserted, L')"
    "stored L (ev_id e') \<noteq> None \<or> assert_period_open_for_event lc sha L e' = Inr ()"
    by (rule append_event_cases [OF assms(1)])
  then have "assert_period_open_for_event lc sha L e = Inr ()"
    using assms(2) append_canonical_cases [of lc sha L e'] by auto
  from period_open_checked [OF this assms(3-8)] show ?thesis by blast
qed

text \<open>The closed sample ledger reopened at 11, and a charge inside the period recorded at 12.\<close>

definition reopened_ledger :: ledger where
  "reopened_ledger = insert_event closed_ledger
     \<lparr>ev_id = ''o'', ev_kind = CloseReopened, ev_subject = ''economic-period:0:10'', ev_occurred = 10,
      ev_recorded = 11, ev_amount = None, ev_sources = [''k''], ev_reversal = None,
      ev_metadata = JObj [(''closeEventId'', JStr ''k''), (''closeSchemaVersion'', JNum 1), (''periodEndMs'', JNum 10),
        (''periodStartMs'', JNum 0), (''reason'', JStr ''x'')],
      ev_schema = 1\<rparr>"

definition late_charge :: economic_event where
  "late_charge = sample_event ''n'' ChargeEstimated 12 (Some (usd 10 BList)) [] None JNull"

lemma canonical_usd: "canonical_money (usd 10 b)"
  by (simp add: usd_def canonical_money_def coefficient_digits_def show_nat.simps max_money_scale_def
      max_money_coefficient_digits_def assert_currency_def)

lemma late_charge_fields: "ev_id late_charge = ''n''" "ev_kind late_charge = ChargeEstimated" "ev_occurred late_charge = 0"
  by (simp_all add: late_charge_def sample_event_def)

lemma basis_usd: "basis (usd c b) = b"
  by (simp add: usd_def)

lemma late_charge_canonical: "canonical_event code_unit_cmp late_charge"
  by (auto simp: canonical_event_def event_shape_def event_rules_def late_charge_def sample_event_def canonical_usd
      canonical_ids_def max_time_def max_safe_def validate_control_def basis_allowed_def basis_usd trim_def js_space_def)

lemma late_charge_accepted:
  "append_event code_unit_cmp constant_digest reopened_ledger (event_value late_charge)
     = Inr (Inserted, insert_event reopened_ledger late_charge)"
proof -
  have "stored reopened_ledger (ev_id late_charge) = None"
    "assert_period_open_for_event code_unit_cmp constant_digest reopened_ledger late_charge = Inr ()"
    "case append_canonical code_unit_cmp constant_digest reopened_ledger late_charge of Inr (Inserted, L) \<Rightarrow> True | _ \<Rightarrow> False"
    by code_simp+
  then show ?thesis
    using append_canonical_cases [of code_unit_cmp constant_digest reopened_ledger late_charge]
    by (auto simp: append_event_def economic_event_canonical [OF late_charge_canonical] late_charge_fields
        split: sum.splits append_result.splits)
qed

theorem append_respects_closes_witness:
  "ev_recorded period_close < ev_recorded late_charge \<and>
    (\<exists>st. period_close_status code_unit_cmp constant_digest reopened_ledger 0 10 None = Inr st
       \<and> cs_status st \<in> {POpen, PReopened})"
proof -
  let ?fm = "\<lparr>fin_start = 0, fin_end = 10, fin_digest = replicate 64 (CHR ''a''), fin_count = 1\<rparr>"
  have fm: "close_finalization_metadata (ev_metadata period_close) = Inr ?fm" by code_simp
  have c: "period_close \<in> set (led_events reopened_ledger)" "ev_kind period_close = CloseFinalized"
    by (simp_all add: reopened_ledger_def closed_ledger_def ledger_of_def empty_ledger_def insert_event_def period_close_def)
  have e: "\<not> is_close_kind (ev_kind late_charge)" "0 \<le> ev_occurred late_charge" "ev_occurred late_charge < 10"
    by (simp_all add: late_charge_fields is_close_kind_def)
  show ?thesis
    using append_respects_closes [OF late_charge_accepted economic_event_canonical [OF late_charge_canonical] e(1) c fm] e
    by simp
qed

end
