(* ===== verification/LedgerSteps.thy ===== *)
theory LedgerSteps
  imports LedgerClose
begin

text \<open>
  The ledger as a state machine: every public write of \<open>EconomicLedger\<close> is a step, and the reachable
  ledgers satisfy the representation invariant with canonical events only.  The round trip of a single
  event and the order independence of the close digest are stated here too.
\<close>

inductive ledger_step :: "(string \<Rightarrow> string \<Rightarrow> int) \<Rightarrow> (jsval \<Rightarrow> string) \<Rightarrow> ledger \<Rightarrow> ledger \<Rightarrow> bool"
  for lc sha where
  step_append: "append_event lc sha L v = Inr (r, L') \<Longrightarrow> ledger_step lc sha L L'"
| step_finalize: "finalize_period lc sha now L s e rc i = Inr (res, L') \<Longrightarrow> ledger_step lc sha L L'"
| step_reopen: "reopen_period lc sha now L s e rc reason i = Inr (k, L') \<Longrightarrow> ledger_step lc sha L L'"
| step_recover: "recover_bricked_period lc sha L s e k rc reason i = Inr (k', L') \<Longrightarrow> ledger_step lc sha L L'"
| step_rate: "append_historical_rate_observation lc L v = Inr (r, L') \<Longrightarrow> ledger_step lc sha L L'"

definition ledger_inv :: "(string \<Rightarrow> string \<Rightarrow> int) \<Rightarrow> ledger \<Rightarrow> bool" where
  "ledger_inv lc L = (ledger_ok L \<and> (\<forall>e \<in> set (led_events L). canonical_event lc e))"

definition extends :: "ledger \<Rightarrow> ledger \<Rightarrow> bool" where
  "extends L L' = ((\<exists>es. led_events L' = led_events L @ es) \<and> (\<exists>os. led_rates L' = led_rates L @ os))"

lemma extends_refl: "extends L L"
  by (simp add: extends_def)

lemma extends_trans: "extends L M \<Longrightarrow> extends M N \<Longrightarrow> extends L N"
  by (auto simp: extends_def)

lemma canonical_event_sources: "canonical_event lc e \<Longrightarrow> distinct (ev_sources e)"
  by (auto simp: canonical_event_def event_shape_def canonical_ids_def)

lemma insert_event_inv:
  assumes "ledger_inv lc L" "canonical_event lc e" "stored L (ev_id e) = None"
    "\<forall>s \<in> set (ev_sources e). stored L s \<noteq> None"
  shows "ledger_inv lc (insert_event L e) \<and> extends L (insert_event L e)"
  using assms insert_event_ok [of L e] canonical_event_sources [of lc e]
  by (auto simp: ledger_inv_def extends_def insert_event_def)

lemma append_canonical_inv:
  assumes "ledger_inv lc L" "canonical_event lc e" "append_canonical lc sha L e = Inr (r, L')"
  shows "ledger_inv lc L' \<and> extends L L'"
proof -
  have "stored L s \<noteq> None" if "event_ok lc sha L e" "s \<in> set (ev_sources e)" for s
    using that by (auto simp: event_ok_def)
  then show ?thesis
    using append_canonical_cases [OF assms(3)] assms(1) extends_refl insert_event_inv [OF assms(1,2)] by auto
qed

lemma append_event_inv:
  assumes lc: "comparator lc" and "ledger_inv lc L" "append_event lc sha L v = Inr (r, L')"
  shows "ledger_inv lc L' \<and> extends L L'"
  using assms(3) by (rule append_event_cases) (metis economic_event_Inr [OF lc] append_canonical_inv [OF assms(2)])

lemma finalize_period_inv:
  assumes lc: "comparator lc" and inv: "ledger_inv lc L" and "finalize_period lc sha now L s e rc i = Inr (res, L')"
  shows "ledger_inv lc L' \<and> extends L L'"
proof -
  obtain w close x where "economic_event lc w = Inr close" "append_canonical lc sha L close = Inr (x, L')"
    using assms(3) unfolding finalize_period_def Let_def by (auto simp: bindE_Inr_iff split: if_split_asm)
  then show ?thesis using economic_event_Inr [OF lc] append_canonical_inv [OF inv] by blast
qed

lemma reopen_period_inv:
  assumes lc: "comparator lc" and inv: "ledger_inv lc L" and "reopen_period lc sha now L s e rc reason i = Inr (k, L')"
  shows "ledger_inv lc L' \<and> extends L L'"
proof -
  obtain w close x where "economic_event lc w = Inr close" "append_canonical lc sha L close = Inr (x, L')"
    using assms(3) unfolding reopen_period_def Let_def
    by (auto simp: bindE_Inr_iff split: if_split_asm)
  then show ?thesis using economic_event_Inr [OF lc] append_canonical_inv [OF inv] by blast
qed

lemma recovery_target_stored:
  "recovery_target lc sha L p rc k = Inr (close, fm) \<Longrightarrow> stored L k = Some close"
  by (auto simp: recovery_target_def bindE_Inr_iff split: if_split_asm option.split_asm dest: read_stored_Some)

lemma recover_bricked_period_inv:
  assumes lc: "comparator lc" and inv: "ledger_inv lc L" and "recover_bricked_period lc sha L s e k rc reason i = Inr (k', L')"
  shows "ledger_inv lc L' \<and> extends L L'"
proof -
  obtain p r target where t: "recovery_target lc sha L p r k = Inr target"
    and c: "(case sort_by by_recorded (filter (\<lambda>e. ev_kind e = CloseInvalidated \<and> ev_id e \<in> set (linking L k)) (led_events L)) of
         existing # _ \<Rightarrow> confirm_invalidation lc sha L p k existing
       | [] \<Rightarrow> invalidate_close lc sha L p r k (trim (text_of reason))
                 (case i of Some i \<Rightarrow> i | None \<Rightarrow> ''economic:close-invalidation:'' @ k) target) = Inr (k', L')"
    using assms(3) unfolding recover_bricked_period_def by (auto simp only: bindE_Inr_iff if_Inl_Inr_iff)
  have "L' = L \<or> (\<exists>reason j. invalidate_close lc sha L p r k reason j target = Inr (k', L'))"
  proof (cases "sort_by by_recorded (filter (\<lambda>e. ev_kind e = CloseInvalidated \<and> ev_id e \<in> set (linking L k)) (led_events L))")
    case Nil
    then show ?thesis using c by auto
  next
    case (Cons x xs)
    then show ?thesis using c by (auto simp: confirm_invalidation_def bindE_Inr_iff split: if_split_asm)
  qed
  then consider "L' = L" | reason j where "invalidate_close lc sha L p r k reason j target = Inr (k', L')" by blast
  then show ?thesis
  proof cases
    case 1
    then show ?thesis using inv extends_refl by simp
  next
    case 2
    then obtain event where i: "economic_event lc (control_event_value j CloseInvalidated p r [k]
          [(''closeEventId'', JStr k), (''reason'', JStr reason)]) = Inr event"
      and s: "store_invalidation lc L event k = Inr L'"
      by (auto simp: invalidate_close_def bindE_Inr_iff split: if_split_asm)
    have st: "stored L k = Some (fst target)" using recovery_target_stored [of lc sha L p r k] t by (cases target) auto
    then have "trim k = k" "k \<noteq> []" using stored_Some [OF st] inv
      by (auto simp: ledger_inv_def canonical_event_def event_shape_def)
    then have "event_ids_val (JArr (map JStr [k])) = Inr [k]"
      by (simp add: event_ids_val_def unique_id_vals_canonical canonical_ids_def del: list.map)
    then have src: "ev_sources event = [k]"
      using economic_event_fields(6) [OF i] by (simp add: control_event_value_def)
    have "L' = L \<or> (stored L (ev_id event) = None \<and> L' = insert_event L event)"
      using s src by (auto simp: store_invalidation_def insert_event_def split: option.split_asm if_split_asm)
    then show ?thesis
      using insert_event_inv [OF inv economic_event_Inr [OF lc i]] src st inv extends_refl by auto
  qed
qed

lemma append_rate_inv:
  assumes "ledger_inv lc L" "append_historical_rate_observation lc L v = Inr (r, L')"
  shows "ledger_inv lc L' \<and> extends L L'"
proof -
  obtain x where "canonical_historical_observation v = Inr x"
    using assms(2) by (auto simp: append_historical_rate_observation_def bindE_Inr_iff)
  then have "L' = L \<or> L' = L\<lparr>led_rates := led_rates L @ [x]\<rparr>"
    using assms(2) by (cases "List.find (\<lambda>ob. obs_id ob = obs_id x) (led_rates L)")
      (auto simp: append_historical_rate_observation_def bindE_Inr_iff split: if_split_asm)
  moreover have "ledger_inv lc (L\<lparr>led_rates := os\<rparr>)" for os
    using assms(1) unfolding ledger_inv_def ledger_ok_def event_ids_def by simp
  ultimately show ?thesis using assms(1) by (auto simp: extends_def)
qed

lemma ledger_step_inv:
  "ledger_step lc sha L L' \<Longrightarrow> comparator lc \<Longrightarrow> ledger_inv lc L \<Longrightarrow> ledger_inv lc L' \<and> extends L L'"
  by (cases rule: ledger_step.cases)
    (auto dest: append_event_inv finalize_period_inv reopen_period_inv recover_bricked_period_inv append_rate_inv)

text \<open>C7: every ledger reachable from the empty one by appends, closes, reopenings, recoveries and rate
  observations has unique event ids, links that mirror the events, stored sources and canonical events
  only; and writing is append-only: no step removes or changes a stored event or rate.\<close>

theorem reachable_ledger_ok:
  assumes "comparator lc" "(ledger_step lc sha)\<^sup>*\<^sup>* M L" "ledger_inv lc M"
  shows "ledger_inv lc L \<and> extends M L"
  using assms(2)
proof (induction rule: rtranclp_induct)
  case base
  then show ?case using assms(3) extends_refl by simp
next
  case (step K L)
  then show ?case using ledger_step_inv [OF step(2) assms(1)] extends_trans by blast
qed

theorem reachable_ledger_ok_witness:
  "ledger_inv code_unit_cmp (insert_event empty_ledger late_charge)
    \<and> extends empty_ledger (insert_event empty_ledger late_charge)"
proof -
  have inv: "ledger_inv code_unit_cmp empty_ledger"
    by (simp add: ledger_inv_def ledger_ok_def empty_ledger_def event_ids_def)
  have "case append_canonical code_unit_cmp constant_digest empty_ledger late_charge of Inr (Inserted, L) \<Rightarrow> True | _ \<Rightarrow> False"
    "assert_period_open_for_event code_unit_cmp constant_digest empty_ledger late_charge = Inr ()"
    "stored empty_ledger (ev_id late_charge) = None"
    by code_simp+
  then have "append_event code_unit_cmp constant_digest empty_ledger (event_value late_charge)
      = Inr (Inserted, insert_event empty_ledger late_charge)"
    using append_canonical_cases [of code_unit_cmp constant_digest empty_ledger late_charge]
    by (auto simp: append_event_def economic_event_canonical [OF late_charge_canonical] late_charge_fields
        split: sum.splits append_result.splits)
  then have "ledger_step code_unit_cmp constant_digest empty_ledger (insert_event empty_ledger late_charge)"
    by (rule step_append)
  then show ?thesis
    using reachable_ledger_ok [OF code_units.comparator_axioms r_into_rtranclp inv] by blast
qed

text \<open>C17: the constructor accepts only events of the invariant (shape and the rules of each kind), and a
  canonical event survives both the rebuild from its own fields and the JSON round trip unchanged.\<close>

theorem economic_event_canonical_roundtrip:
  assumes "comparator lc" "economic_event lc v = Inr e"
  shows "canonical_event lc e \<and> economic_event lc (event_value e) = Inr e
    \<and> (\<exists>j. economic_event_to_json lc e = Inr j \<and> economic_event_from_json lc j = Inr e)"
  using economic_event_Inr [OF assms] economic_event_canonical economic_event_json by blast

theorem economic_event_canonical_roundtrip_witness:
  "\<exists>j. economic_event_to_json code_unit_cmp late_charge = Inr j \<and> economic_event_from_json code_unit_cmp j = Inr late_charge"
  using economic_event_canonical_roundtrip
    [OF code_units.comparator_axioms economic_event_canonical [OF late_charge_canonical]] by blast

text \<open>The close digest does not depend on the order in which ids or balances are handed over, when
  no two balances share role, currency and basis and the collation tells these keys apart.\<close>

theorem close_digest_order_independent:
  assumes "comparator lc" "separates lc (map balance_key bs)"
    and "mset ids = mset ids'" "mset bs = mset bs'" "distinct (map balance_key bs)"
  shows "close_projection_digest lc sha s t ids bs = close_projection_digest lc sha s t ids' bs'"
proof -
  have "sort ids = sort ids'" using assms(3) by (metis mset_sort properties_for_sort sorted_sort)
  moreover have "sort_by (\<lambda>a b. lc (balance_key a) (balance_key b)) bs
      = sort_by (\<lambda>a b. lc (balance_key a) (balance_key b)) bs'"
  proof (rule comparator.sort_by_unique)
    show "comparator (\<lambda>a b. lc (balance_key a) (balance_key b))" by (rule comparator_key [OF assms(1)])
    fix a b assume "a \<in> set bs" "b \<in> set bs" "lc (balance_key a) (balance_key b) = 0"
    then show "a = b" using assms(2,5) by (auto simp: distinct_map inj_on_def separates_def list_all_iff)
  qed (rule assms(4))
  ultimately show ?thesis by (simp add: close_projection_digest_def close_digest_body_def)
qed

theorem close_digest_order_independent_witness:
  "close_projection_digest code_unit_cmp constant_digest 0 10 [''a'', ''b'']
     [\<lparr>bal_role = ''charge'', bal_amount = usd 1 BList, bal_events = [''a'']\<rparr>,
      \<lparr>bal_role = ''price'', bal_amount = usd 2 BList, bal_events = [''b'']\<rparr>]
   = close_projection_digest code_unit_cmp constant_digest 0 10 [''b'', ''a'']
     [\<lparr>bal_role = ''price'', bal_amount = usd 2 BList, bal_events = [''b'']\<rparr>,
      \<lparr>bal_role = ''charge'', bal_amount = usd 1 BList, bal_events = [''a'']\<rparr>]"
  by (rule close_digest_order_independent [OF code_units.comparator_axioms])
    (auto simp: separates_def code_unit_cmp_def balance_key_def split: if_splits)

end
