(* ===== verification/Corrections.thy ===== *)
theory Corrections
  imports LedgerLaws
begin

text \<open>
  The constructors of price corrections and request charges (\<open>src/src/economics/corrections.ts\<close>,
  \<open>src/src/economics/request.ts\<close>).  Both build an event and leave the checks that need the store to
  the ledger; \<open>FxProps\<close> states that a constructed correction passes the ledger's own checks of
  its shape.
\<close>

section \<open>Price corrections\<close>

definition correction_input_keys :: "string list" where
  "correction_input_keys = [''id'', ''source'', ''previousAmount'', ''nextAmount'', ''recordedAt'', ''occurredAt'']"

definition canonical_money_val :: "string \<Rightarrow> jsval \<Rightarrow> money res" where
  "canonical_money_val label v =
     bindE (canonical_amount v) (\<lambda>a. case a of None \<Rightarrow> Inl (label @ '' must be an exact Money value'') | Some m \<Rightarrow> Inr m)"

definition predecessor_next_amount :: "economic_event \<Rightarrow> money res" where
  "predecessor_next_amount source =
     bindE (correction_metadata ''price correction predecessor'' (ev_metadata source)) (\<lambda>pn.
       case ev_amount source of None \<Rightarrow> Inl ''price correction predecessor must have a monetary delta''
       | Some m \<Rightarrow>
           if \<not> same_unit (fst pn) m \<or> \<not> same_unit (snd pn) m
           then Inl ''price correction predecessor metadata must use its delta currency and basis''
           else if coefficient (snd pn) < 0
           then Inl ''price correction predecessor metadata does not reproduce its delta''
           else bindE (subtract_money (snd pn) (fst pn)) (\<lambda>d. bindE (compare_money d m) (\<lambda>c.
             if c \<noteq> 0 then Inl ''price correction predecessor metadata does not reproduce its delta''
             else Inr (snd pn))))"

definition correction_predecessor :: "economic_event \<Rightarrow> money res" where
  "correction_predecessor source =
     (if ev_kind source = ChargeEstimated then
        (case ev_amount source of None \<Rightarrow> Inl ''price correction source must have a monetary amount''
         | Some m \<Rightarrow> if basis m \<noteq> BList \<and> basis m \<noteq> BEstimated
             then Inl ''price correction source must be a local charge_estimated event'' else Inr m)
      else if ev_kind source = PriceCorrected then predecessor_next_amount source
      else Inl ''price correction source must be a local charge_estimated or prior price_corrected event'')"

definition correction_value :: "jsval \<Rightarrow> economic_event \<Rightarrow> money \<Rightarrow> money \<Rightarrow> money \<Rightarrow> jsval" where
  "correction_value v source p n delta =
     JObj [(''id'', field ''id'' v), (''kind'', JStr ''price_corrected''), (''subject'', JStr (ev_subject source)),
           (''occurredAt'', if field ''occurredAt'' v = JUndefined \<or> field ''occurredAt'' v = JNull
              then JStr (to_iso (ev_occurred source)) else field ''occurredAt'' v),
           (''recordedAt'', field ''recordedAt'' v), (''amount'', money_object delta),
           (''sourceEventIds'', JArr [JStr (ev_id source)]), (''reversalOf'', JNull),
           (''metadata'', JObj [(''correction'', JStr ''reprice''), (''previousAmount'', money_to_json p),
              (''nextAmount'', money_to_json n)]),
           (''schemaVersion'', JNum 1)]"

definition price_correction_event :: "(string \<Rightarrow> string \<Rightarrow> int) \<Rightarrow> jsval \<Rightarrow> economic_event res" where
  "price_correction_event lc v =
     bindE (assert_known_keys correction_input_keys ''price correction input'' v) (\<lambda>_.
     bindE (economic_event lc (field ''source'' v)) (\<lambda>source.
     bindE (canonical_money_val ''price correction previousAmount'' (field ''previousAmount'' v)) (\<lambda>p.
     bindE (canonical_money_val ''price correction nextAmount'' (field ''nextAmount'' v)) (\<lambda>n.
     bindE (correction_predecessor source) (\<lambda>pre.
       if coefficient pre < 0 then Inl ''price correction predecessor amount must be non-negative''
       else
     bindE (compare_money p pre) (\<lambda>c.
       if c \<noteq> 0 then Inl ''price correction previousAmount must equal the predecessor next amount''
       else if \<not> same_unit p n
       then Inl ''price correction previousAmount and nextAmount must use the same currency and basis''
       else if coefficient n < 0 then Inl ''price correction nextAmount must be non-negative''
       else
     bindE (subtract_money n p) (\<lambda>delta.
     bindE (economic_event lc (correction_value v source p n delta)) (\<lambda>correction.
       if ev_occurred correction \<noteq> ev_occurred source
       then Inl ''price correction occurredAt must match its source occurrence''
       else if ev_recorded correction < ev_recorded source
       then Inl ''price correction recordedAt cannot precede its source recordedAt''
       else Inr correction))))))))"

section \<open>Request charges\<close>

definition request_keys :: "string list" where
  "request_keys = [''requestId'', ''sessionId'', ''tsEpochMs'', ''provider'', ''model'', ''project'', ''amount'',
                   ''via'', ''recordedAt'']"

definition request_object :: "string \<Rightarrow> jsval \<Rightarrow> unit res" where
  "request_object label v =
     (if \<not> is_object v then Inl (label @ '' must be an object'')
      else if list_ex (\<lambda>k. k \<in> set forbidden_keys) (keys_of v) then Inl (label @ '' contains unsafe field'')
      else assert_known_keys request_keys label v)"

definition request_time :: "jsval \<Rightarrow> instant_ms res" where
  "request_time v =
     (case safe_integer v of None \<Rightarrow> Inl ''request economic tsEpochMs must be a safe integer''
      | Some ms \<Rightarrow> if \<bar>ms\<bar> > max_time then Inl ''request economic tsEpochMs is outside the supported date range''
          else instant (to_iso ms))"

fun request_kind :: "economic_basis \<Rightarrow> event_kind res" where
  "request_kind BList = Inr ChargeEstimated"
| "request_kind BEstimated = Inr ChargeEstimated"
| "request_kind BProviderObserved = Inr ProviderChargeObserved"
| "request_kind BBilled = Inr BillObserved"
| "request_kind _ = Inl ''unsupported request economic basis''"

definition request_event_id :: "jsval \<Rightarrow> string res" where
  "request_event_id v = bindE (non_empty_val ''requestId'' v) (\<lambda>i. Inr (''economic:request:'' @ i @ '':charge''))"

text \<open>\<open>moneyFromJson(moneyToJson(amount))\<close>: the amount is rebuilt from its four fields.  \<open>moneyToJson\<close> writes
  \<open>coefficient.toString()\<close>, so a string, an integral number below \<open>10^21\<close> and an array of one such value pass
  as well as a \<open>BigInt\<close>; every other text is no canonical integer and is refused.\<close>

fun coefficient_text :: "jsval \<Rightarrow> string option" where
  "coefficient_text (JBigInt c) = Some (show_int c)"
| "coefficient_text (JStr s) = Some s"
| "coefficient_text (JNum r) = (if of_int \<lfloor>r\<rfloor> = r \<and> \<bar>\<lfloor>r\<rfloor>\<bar> < 10 ^ 21 then Some (show_int \<lfloor>r\<rfloor>) else None)"
| "coefficient_text (JArr [x]) = coefficient_text x"
| "coefficient_text _ = None"

definition request_amount :: "jsval \<Rightarrow> money res" where
  "request_amount v =
     (if \<not> is_object v then Inl ''request economic amount must be exact Money''
      else case coefficient_text (field ''coefficient'' v) of
        Some text \<Rightarrow> money_from_json (JObj [(''coefficient'', JStr text), (''scale'', field ''scale'' v),
            (''currency'', field ''currency'' v), (''basis'', field ''basis'' v)])
      | None \<Rightarrow> Inl ''money coefficient must be a canonical integer string'')"

definition via_ok :: "jsval \<Rightarrow> bool" where
  "via_ok v = (v = JUndefined \<or> v = JStr ''proxy'' \<or> v = JStr ''import'')"

definition request_metadata :: "string \<Rightarrow> string \<Rightarrow> string \<Rightarrow> string \<Rightarrow> string option \<Rightarrow> jsval \<Rightarrow> jsval" where
  "request_metadata i provider model proj session via =
     JObj ([(''requestId'', JStr i), (''provider'', JStr provider), (''model'', JStr model), (''project'', JStr proj)]
       @ (case session of None \<Rightarrow> [] | Some s \<Rightarrow> [(''sessionId'', JStr s)])
       @ (if via = JUndefined then [] else [(''via'', via)]))"

definition request_economic_event :: "(string \<Rightarrow> string \<Rightarrow> int) \<Rightarrow> instant_ms \<Rightarrow> jsval \<Rightarrow> economic_event res" where
  "request_economic_event lc now v =
     bindE (request_object ''request economic event input'' v) (\<lambda>_.
     bindE (non_empty_val ''requestId'' (field ''requestId'' v)) (\<lambda>i.
     bindE (optional_text ''sessionId'' (field ''sessionId'' v)) (\<lambda>session.
     bindE (non_empty_val ''provider'' (field ''provider'' v)) (\<lambda>provider.
     bindE (non_empty_val ''model'' (field ''model'' v)) (\<lambda>model.
     bindE (non_empty_val ''project'' (field ''project'' v)) (\<lambda>proj.
       if \<not> via_ok (field ''via'' v) then Inl ''request economic via must be proxy or import''
       else
     bindE (request_amount (field ''amount'' v)) (\<lambda>amount.
       if currency amount \<noteq> ''USD'' then Inl ''request economic amount currency must be USD''
       else
     bindE (request_kind (basis amount)) (\<lambda>kind.
     bindE (request_time (field ''tsEpochMs'' v)) (\<lambda>occurred.
     bindE (if field ''recordedAt'' v = JUndefined then instant (to_iso now)
            else instant_val ''recordedAt'' (field ''recordedAt'' v)) (\<lambda>recorded.
     bindE (request_event_id (JStr i)) (\<lambda>eid.
       economic_event lc (JObj [(''id'', JStr eid), (''kind'', JStr (kind_name kind)),
         (''subject'', JStr (''request:'' @ i)), (''occurredAt'', JStr (to_iso occurred)),
         (''recordedAt'', JStr (to_iso recorded)), (''amount'', money_object amount), (''sourceEventIds'', JArr []),
         (''reversalOf'', JNull),
         (''metadata'', request_metadata i provider model proj session (field ''via'' v)),
         (''schemaVersion'', JNum 1)]))))))))))))"

end
