(* ===== verification/Fx.thy ===== *)
theory Fx
  imports Corrections
begin

text \<open>
  Historical foreign-exchange translations (\<open>src/src/economics/fx.ts\<close>): the translation event, the
  selection of its rate from a book, and the read model of a corrected charge in another currency.
\<close>

section \<open>Translation events\<close>

definition fx_input_keys :: "string list" where
  "fx_input_keys = [''id'', ''source'', ''rate'', ''rateSource'', ''effectiveAt'', ''rounding'', ''occurredAt'', ''recordedAt'']"

definition fx_rate_keys :: "string list" where
  "fx_rate_keys = [''denominator'', ''numerator'', ''sourceUnit'', ''targetUnit'']"

definition fx_canonical_rate :: "jsval \<Rightarrow> exact_rate res" where
  "fx_canonical_rate v =
     (if \<not> is_object v then Inl ''FX translation rate must be an exact rational rate''
      else if \<not> keys_are (if field ''validTime'' v = JUndefined then fx_rate_keys else fx_rate_keys @ [''validTime'']) v
      then Inl ''FX translation rate contains unknown or missing fields''
      else case (field ''numerator'' v, field ''denominator'' v) of
        (JBigInt num, JBigInt den) \<Rightarrow>
          bindE (non_empty_val ''FX translation rate sourceUnit'' (field ''sourceUnit'' v)) (\<lambda>su.
          bindE (non_empty_val ''FX translation rate targetUnit'' (field ''targetUnit'' v)) (\<lambda>tu.
          bindE (exact_rate num den su tu (field ''validTime'' v)) (\<lambda>r.
            if numerator r \<le> 0 \<or> denominator r \<le> 0 then Inl ''FX translation rate must be positive'' else Inr r)))
      | _ \<Rightarrow> Inl ''FX translation rate numerator and denominator must be bigint values'')"

definition fx_value :: "jsval \<Rightarrow> economic_event \<Rightarrow> money \<Rightarrow> exact_rate \<Rightarrow> string \<Rightarrow> instant_ms \<Rightarrow> money \<Rightarrow> jsval" where
  "fx_value v source sm r rate_source eff amount =
     JObj [(''id'', field ''id'' v), (''kind'', JStr ''fx_translated''), (''subject'', JStr (ev_subject source)),
           (''occurredAt'', if field ''occurredAt'' v = JUndefined \<or> field ''occurredAt'' v = JNull
              then JStr (to_iso (ev_occurred source)) else field ''occurredAt'' v),
           (''recordedAt'', field ''recordedAt'' v), (''amount'', money_object amount),
           (''sourceEventIds'', JArr [JStr (ev_id source)]), (''reversalOf'', JNull),
           (''metadata'', JObj [(''sourceAmount'', money_to_json sm), (''rate'', rate_to_json r),
              (''rateSource'', JStr rate_source), (''effectiveAt'', JStr (to_iso eff)),
              (''convention'', JStr ''source-to-target''), (''rounding'', JStr ''none'')]),
           (''schemaVersion'', JNum 1)]"

text \<open>The part of \<open>fxTranslationEvent\<close> after the monetary source is known.\<close>

definition translate_source :: "(string \<Rightarrow> string \<Rightarrow> int) \<Rightarrow> jsval \<Rightarrow> economic_event \<Rightarrow> money \<Rightarrow> economic_event res" where
  "translate_source lc v source sm =
     bindE (fx_canonical_rate (field ''rate'' v)) (\<lambda>r.
       if source_unit r \<noteq> currency sm then Inl ''FX translation rate source unit does not match''
       else if target_unit r = currency sm
       then Inl ''FX translation target currency must differ from the source currency''
       else
     bindE (non_empty_val ''FX translation rateSource'' (field ''rateSource'' v)) (\<lambda>rate_source.
     bindE (instant_val ''effectiveAt'' (field ''effectiveAt'' v)) (\<lambda>eff.
       if (case valid_time r of None \<Rightarrow> False | Some i \<Rightarrow> \<not> interval_contains i eff)
       then Inl ''FX translation effectiveAt must fall within the rate validTime interval''
       else if field ''rounding'' v \<noteq> JUndefined \<and> field ''rounding'' v \<noteq> JStr ''none''
       then Inl ''FX translation rounding must be none until an explicit quantization policy exists''
       else if eff > ev_occurred source then Inl ''FX translation effectiveAt cannot be after the source occurrence''
       else
     bindE (apply_exact_rate sm r (basis_name (basis sm))) (\<lambda>amount.
     bindE (economic_event lc (fx_value v source sm r rate_source eff amount)) (\<lambda>translated.
       if ev_occurred translated \<noteq> ev_occurred source
       then Inl ''FX translation occurredAt must match its source occurrence''
       else if ev_recorded translated < ev_recorded source
       then Inl ''FX translation recordedAt cannot precede its source recordedAt''
       else Inr translated)))))"

definition fx_translation_event :: "(string \<Rightarrow> string \<Rightarrow> int) \<Rightarrow> jsval \<Rightarrow> economic_event res" where
  "fx_translation_event lc v =
     bindE (assert_known_keys fx_input_keys ''FX translation input'' v) (\<lambda>_.
     bindE (economic_event lc (field ''source'' v)) (\<lambda>source.
       case ev_amount source of None \<Rightarrow> Inl ''FX translation source must have a monetary amount''
       | Some sm \<Rightarrow> translate_source lc v source sm))"

section \<open>Translation from a rate book\<close>

definition fx_book_input_keys :: "string list" where
  "fx_book_input_keys = [''id'', ''source'', ''targetUnit'', ''rateBook'', ''effectiveAt'', ''rateAsOf'', ''rounding'',
                         ''occurredAt'', ''recordedAt'']"

definition optional_field :: "string \<Rightarrow> jsval \<Rightarrow> (string \<times> jsval) list" where
  "optional_field k v = (if field k v = JUndefined then [] else [(k, field k v)])"

text \<open>The rate book of the input is the canonical book \<open>book\<close>; the other fields are those of \<open>v\<close>.\<close>

definition fx_translation_event_from_book ::
    "(string \<Rightarrow> string \<Rightarrow> int) \<Rightarrow> rate_observation list \<Rightarrow> jsval \<Rightarrow> economic_event res" where
  "fx_translation_event_from_book lc book v =
     bindE (assert_known_keys fx_book_input_keys ''FX rate-book translation input'' v) (\<lambda>_.
     bindE (economic_event lc (field ''source'' v)) (\<lambda>source.
       case ev_amount source of None \<Rightarrow> Inl ''FX rate-book translation source must have a monetary amount''
       | Some sm \<Rightarrow>
     bindE (non_empty_val ''FX rate-book translation targetUnit'' (field ''targetUnit'' v)) (\<lambda>tu.
     bindE (instant_val ''FX rate-book translation recordedAt'' (field ''recordedAt'' v)) (\<lambda>recorded.
     bindE (if field ''rateAsOf'' v = JUndefined then Inr recorded
            else instant_val ''FX rate-book translation rateAsOf'' (field ''rateAsOf'' v)) (\<lambda>as_of.
       if as_of > recorded then Inl ''FX rate-book translation rateAsOf cannot be after recordedAt''
       else
     bindE (select_historical_rate lc book (JObj [(''sourceUnit'', JStr (currency sm)), (''targetUnit'', JStr tu),
              (''effectiveAt'', field ''effectiveAt'' v), (''asOf'', JStr (to_iso as_of))])) (\<lambda>selected.
       fx_translation_event lc (JObj ([(''id'', field ''id'' v), (''source'', event_value source),
          (''rate'', rate_value_of (obs_rate selected)), (''rateSource'', JStr (obs_source selected)),
          (''effectiveAt'', field ''effectiveAt'' v)]
          @ optional_field ''rounding'' v @ optional_field ''occurredAt'' v
          @ [(''recordedAt'', JStr (to_iso recorded))]))))))))"

section \<open>The effective charge in another currency\<close>

definition effective_fx_keys :: "string list" where
  "effective_fx_keys = [''source'', ''effectiveAmount'', ''eventIds'', ''sourceBases'', ''targetUnit'', ''rateBook'',
                        ''effectiveAt'', ''rateAsOf'']"

definition fx_canonical_ids :: "string \<Rightarrow> jsval \<Rightarrow> string list res" where
  "fx_canonical_ids label v =
     (case v of JArr (x # xs) \<Rightarrow> unique_id_vals label [] (x # xs) | _ \<Rightarrow> Inl (label @ '' must be a non-empty array''))"

definition fx_canonical_bases :: "jsval \<Rightarrow> string list res" where
  "fx_canonical_bases v =
     bindE (fx_canonical_ids ''effective FX projection sourceBases'' v) (\<lambda>bs.
       if list_all (\<lambda>b. b \<in> set (map basis_name economic_bases)) bs then Inr bs
       else Inl ''effective FX projection sourceBases contains unsupported basis'')"

record effective_fx_charge =
  fxc_source :: string
  fxc_source_amount :: money
  fxc_effective :: money
  fxc_translated :: money
  fxc_events :: "string list"
  fxc_bases :: "string list"
  fxc_rate :: exact_rate
  fxc_rate_source :: string
  fxc_effective_at :: instant_ms
  fxc_rate_as_of :: "instant_ms option"

definition effective_fx_projection ::
    "(string \<Rightarrow> string \<Rightarrow> int) \<Rightarrow> rate_observation list \<Rightarrow> jsval \<Rightarrow> economic_event \<Rightarrow> money \<Rightarrow> money
      \<Rightarrow> string list \<Rightarrow> string list \<Rightarrow> effective_fx_charge res" where
  "effective_fx_projection lc book v source sm effective ids bases =
     bindE (non_empty_val ''effective FX projection targetUnit'' (field ''targetUnit'' v)) (\<lambda>tu.
       if tu = currency sm then Inl ''effective FX projection target currency must differ from the source currency''
       else
     bindE (instant_val ''effectiveAt'' (field ''effectiveAt'' v)) (\<lambda>eff.
       if eff > ev_occurred source
       then Inl ''effective FX projection effectiveAt cannot be after the source occurrence''
       else
     bindE (if field ''rateAsOf'' v = JUndefined then Inr None
            else bindE (instant_val ''rateAsOf'' (field ''rateAsOf'' v)) (\<lambda>t. Inr (Some t))) (\<lambda>as_of.
       if (case as_of of None \<Rightarrow> False | Some t \<Rightarrow> t < ev_recorded source)
       then Inl ''effective FX projection rateAsOf cannot precede the source recording''
       else
     bindE (select_historical_rate lc book (JObj ([(''sourceUnit'', JStr (currency sm)), (''targetUnit'', JStr tu),
              (''effectiveAt'', JStr (to_iso eff))]
              @ (case as_of of None \<Rightarrow> [] | Some t \<Rightarrow> [(''asOf'', JStr (to_iso t))])))) (\<lambda>selected.
     bindE (apply_exact_rate effective (obs_rate selected) ''effective'') (\<lambda>translated.
       Inr \<lparr>fxc_source = ev_id source, fxc_source_amount = sm, fxc_effective = effective,
            fxc_translated = translated, fxc_events = ids, fxc_bases = bases, fxc_rate = obs_rate selected,
            fxc_rate_source = obs_source selected, fxc_effective_at = eff, fxc_rate_as_of = as_of\<rparr>)))))"

definition translate_effective_charge ::
    "(string \<Rightarrow> string \<Rightarrow> int) \<Rightarrow> rate_observation list \<Rightarrow> jsval \<Rightarrow> effective_fx_charge res" where
  "translate_effective_charge lc book v =
     bindE (assert_known_keys effective_fx_keys ''effective FX projection input'' v) (\<lambda>_.
     bindE (economic_event lc (field ''source'' v)) (\<lambda>source.
       case ev_amount source of None \<Rightarrow> Inl ''effective FX projection source must be a monetary charge''
       | Some sm \<Rightarrow>
         if role_of_kind (ev_kind source) \<noteq> RCharge then Inl ''effective FX projection source must be a monetary charge''
         else
     bindE (canonical_money_val ''effective FX projection amount'' (field ''effectiveAmount'' v)) (\<lambda>effective.
       if currency effective \<noteq> currency sm
       then Inl ''effective FX projection must preserve the source currency before translation''
       else if basis effective \<noteq> BEffective then Inl ''effective FX projection amount must use the effective basis''
       else if coefficient effective < 0 then Inl ''effective FX projection amount must be non-negative''
       else
     bindE (fx_canonical_ids ''effective FX projection eventIds'' (field ''eventIds'' v)) (\<lambda>ids.
       if hd ids \<noteq> ev_id source then Inl ''effective FX projection eventIds must begin with the source event''
       else
     bindE (fx_canonical_bases (field ''sourceBases'' v)) (\<lambda>bases.
       if basis_name (basis sm) \<notin> set bases
       then Inl ''effective FX projection sourceBases must include the raw source basis''
       else effective_fx_projection lc book v source sm effective ids bases)))))"

end
