(* ===== verification/FxProps.thy ===== *)
theory FxProps
  imports Fx LedgerClose
begin

text \<open>
  What the constructors of corrections and translations guarantee: a constructed correction passes the
  ledger's own checks of its shape, a translation carries the exact product of its source and a rate in
  force, and a rate taken from a book was known when the translation was recorded.
\<close>

section \<open>Reading stored metadata back\<close>

lemma mapE_keys:
  assumes "mapE f xs = Inr ys" "\<And>x y. f x = Inr y \<Longrightarrow> fst y = fst x"
  shows "map fst ys = map fst xs"
  using assms by (induction xs arbitrary: ys) auto

lemma mapE_member:
  "mapE f xs = Inr ys \<Longrightarrow> x \<in> set xs \<Longrightarrow> \<exists>y \<in> set ys. f x = Inr y"
  by (induction xs arbitrary: ys) auto

lemma clone_object:
  assumes "clone_json lc (JObj fs) = Inr w" "distinct (map fst fs)"
  shows "\<exists>gs. w = JObj gs \<and> mset (map fst gs) = mset (map fst fs)
    \<and> (\<forall>k v. map_of fs k = Some v \<longrightarrow> (\<exists>v'. clone_json lc v = Inr v' \<and> map_of gs k = Some v'))"
proof -
  let ?f = "\<lambda>kv. if fst kv \<in> set forbidden_keys then Inl ''is not an allowed JSON field''
                       else bindE (clone_json lc (snd kv)) (\<lambda>w. Inr (fst kv, w))"
  let ?s = "sort_by (\<lambda>a b. lc (fst a) (fst b)) fs"
  obtain gs where gs: "mapE ?f ?s = Inr gs" and w: "w = JObj gs" using assms(1) by auto
  have keys: "map fst gs = map fst ?s" by (rule mapE_keys [OF gs]) (auto split: if_splits)
  then have m: "mset (map fst gs) = mset (map fst fs)" by (metis mset_map mset_sort_by)
  then have d: "distinct (map fst gs)" using assms(2) by (metis mset_eq_imp_distinct_iff)
  have "\<exists>v'. clone_json lc v = Inr v' \<and> map_of gs k = Some v'" if "map_of fs k = Some v" for k v
  proof -
    have "(k, v) \<in> set ?s" using map_of_SomeD [OF that] by simp
    from mapE_member [OF gs this] obtain y where "y \<in> set gs" "?f (k, v) = Inr y" by blast
    then obtain v' where "clone_json lc v = Inr v'" "(k, v') \<in> set gs" by (auto split: if_splits)
    then show ?thesis using d by (blast intro: map_of_is_SomeI)
  qed
  then show ?thesis using w m by blast
qed

lemma cloned_object:
  assumes "clone_json lc (JObj fs) = Inr w" "distinct (map fst fs)"
  shows "is_object w" "mset (keys_of w) = mset (map fst fs)"
    "\<And>k v. map_of fs k = Some v \<Longrightarrow> clone_json lc v = Inr (field k w)"
    "\<And>k. map_of fs k = None \<Longrightarrow> field k w = JUndefined"
proof -
  obtain gs where gs: "w = JObj gs" "mset (map fst gs) = mset (map fst fs)"
    "\<And>k v. map_of fs k = Some v \<Longrightarrow> \<exists>v'. clone_json lc v = Inr v' \<and> map_of gs k = Some v'"
    using clone_object [OF assms] by blast
  show "is_object w" "mset (keys_of w) = mset (map fst fs)" using gs by simp_all
  show "clone_json lc v = Inr (field k w)" if "map_of fs k = Some v" for k v
    using gs(3) [OF that] by (auto simp: gs(1))
  have "set (map fst gs) = set (map fst fs)" using gs(2) by (metis mset_eq_setD)
  then show "field k w = JUndefined" if "map_of fs k = None" for k
    using that by (simp add: gs(1) map_of_eq_None_iff [THEN iffD2] map_of_eq_None_iff split: option.splits)
qed

lemma money_from_json_cong:
  assumes "is_object a = is_object b" "set (keys_of a) = set (keys_of b)" "\<And>k. k \<in> set money_keys \<Longrightarrow> field k a = field k b"
  shows "money_from_json a = money_from_json b"
proof -
  have fs: "field ''coefficient'' a = field ''coefficient'' b" "field ''scale'' a = field ''scale'' b"
    "field ''currency'' a = field ''currency'' b" "field ''basis'' a = field ''basis'' b"
    by (simp_all only: assms(3) money_keys_def list.set insert_iff simp_thms)
  show ?thesis by (simp only: money_from_json_def has_own_def list_all_iff assms(1,2) fs)
qed

lemma clone_money:
  assumes "clone_json lc (money_to_json m) = Inr w" "canonical_money m"
  shows "money_from_json w = Inr m"
proof -
  let ?fs = "[(''coefficient'', JStr (show_int (coefficient m))), (''scale'', JNum (of_nat (scale m))),
    (''currency'', JStr (currency m)), (''basis'', JStr (basis_name (basis m)))]"
  have j: "money_to_json m = JObj ?fs" by (simp add: money_to_json_def)
  have "distinct (map fst ?fs)" by simp
  from clone_object [OF assms(1) [unfolded j] this]
  obtain gs where gs: "w = JObj gs" "mset (map fst gs) = mset (map fst ?fs)"
    "\<And>k v. map_of ?fs k = Some v \<Longrightarrow> \<exists>v'. clone_json lc v = Inr v' \<and> map_of gs k = Some v'"
    by blast
  have scalar_members: "map_of ?fs ''coefficient'' = Some (JStr (show_int (coefficient m)))"
    "map_of ?fs ''scale'' = Some (JNum (of_nat (scale m)))" "map_of ?fs ''currency'' = Some (JStr (currency m))"
    "map_of ?fs ''basis'' = Some (JStr (basis_name (basis m)))" by simp_all
  have scalars: "clone_json lc (JStr x) = Inr (JStr x)" "clone_json lc (JNum q) = Inr (JNum q)" for x q by simp_all
  have keys: "set (map fst gs) = set (map fst ?fs)" using gs(2) by (metis mset_eq_setD)
  have "money_from_json w = money_from_json (money_to_json m)"
  proof (rule money_from_json_cong)
    show "is_object w = is_object (money_to_json m)" by (simp add: gs(1) j)
    show "set (keys_of w) = set (keys_of (money_to_json m))" using keys by (simp add: gs(1) j)
    show "field k w = field k (money_to_json m)" if "k \<in> set money_keys" for k
    proof -
      have "\<exists>v. map_of ?fs k = Some v \<and> clone_json lc v = Inr v"
        using that unfolding money_keys_def list.set insert_iff empty_iff
        by (elim disjE FalseE) (hypsubst, rule exI, rule conjI, rule scalar_members, rule scalars)+
      then obtain v where v: "map_of ?fs k = Some v" "clone_json lc v = Inr v" by blast
      show ?thesis using gs(3) [OF v(1)] v by (simp only: gs(1) j field.simps sum.inject) auto
    qed
  qed
  then show ?thesis using money_json_roundtrip [OF assms(2)] by simp
qed

lemma keys_are_mset: "mset (keys_of v) = mset ks \<Longrightarrow> keys_are ks v"
  by (simp add: keys_are_def) (metis mset_sort properties_for_sort sorted_sort)

section \<open>Corrections\<close>

lemma economic_event_amount_metadata:
  assumes "economic_event lc v = Inr e"
  shows "canonical_amount (field ''amount'' v) = Inr (ev_amount e)"
    "optional_json lc (field ''metadata'' v) = Inr (ev_metadata e)"
    "optional_text ''economic event reversalOf'' (field ''reversalOf'' v) = Inr (ev_reversal e)"
  using assms unfolding economic_event_def bindE_Inr_iff if_Inl_Inr_iff sum.inject
  by (elim exE conjE; (hypsubst; simp)+)+

lemma stored_correction_metadata:
  assumes "clone_json lc (JObj [(''correction'', JStr ''reprice''), (''previousAmount'', money_to_json p),
      (''nextAmount'', money_to_json n)]) = Inr w" "canonical_money p" "canonical_money n"
  shows "correction_metadata l w = Inr (p, n)"
proof -
  let ?fs = "[(''correction'', JStr ''reprice''), (''previousAmount'', money_to_json p), (''nextAmount'', money_to_json n)]"
  have "distinct (map fst ?fs)" by simp
  from clone_object [OF assms(1) this]
  obtain gs where gs: "w = JObj gs" "mset (map fst gs) = mset (map fst ?fs)"
    "\<And>k v. map_of ?fs k = Some v \<Longrightarrow> \<exists>v'. clone_json lc v = Inr v' \<and> map_of gs k = Some v'"
    by blast
  obtain a where a: "clone_json lc (money_to_json p) = Inr a" "map_of gs ''previousAmount'' = Some a"
    using gs(3) [of "''previousAmount''" "money_to_json p"] by auto
  obtain b where b: "clone_json lc (money_to_json n) = Inr b" "map_of gs ''nextAmount'' = Some b"
    using gs(3) [of "''nextAmount''" "money_to_json n"] by auto
  have c: "map_of gs ''correction'' = Some (JStr ''reprice'')"
    using gs(3) [of "''correction''" "JStr ''reprice''"] by auto
  have "keys_are [''correction'', ''nextAmount'', ''previousAmount''] w"
    by (rule keys_are_mset) (use gs(2) in \<open>simp add: gs(1) add_mset_commute\<close>)
  then show ?thesis
    using a b c clone_money [OF a(1) assms(2)] clone_money [OF b(1) assms(3)]
    by (simp add: correction_metadata_def gs(1))
qed


lemma price_correction_parts:
  assumes "price_correction_event lc v = Inr e"
  obtains source p n pre d where "economic_event lc (field ''source'' v) = Inr source"
    "canonical_money p" "canonical_money n" "correction_predecessor source = Inr pre" "0 \<le> coefficient pre"
    "compare_money p pre = Inr 0" "same_unit p n" "0 \<le> coefficient n" "subtract_money n p = Inr d"
    "economic_event lc (correction_value v source p n d) = Inr e"
    "ev_occurred e = ev_occurred source" "ev_recorded source \<le> ev_recorded e"
proof -
  have val: "canonical_money m" if "canonical_money_val l w = Inr m" for l w m
    using that canonical_amount_canonical by (auto simp: canonical_money_val_def split: option.splits)
  from assms obtain source p n pre c d e' where *: "economic_event lc (field ''source'' v) = Inr source"
    "canonical_money_val ''price correction previousAmount'' (field ''previousAmount'' v) = Inr p"
    "canonical_money_val ''price correction nextAmount'' (field ''nextAmount'' v) = Inr n"
    "correction_predecessor source = Inr pre" "\<not> coefficient pre < 0" "compare_money p pre = Inr c" "\<not> c \<noteq> 0"
    "\<not> \<not> same_unit p n" "\<not> coefficient n < 0" "subtract_money n p = Inr d"
    "economic_event lc (correction_value v source p n d) = Inr e'"
    "\<not> ev_occurred e' \<noteq> ev_occurred source" "\<not> ev_recorded e' < ev_recorded source" "e' = e"
    unfolding price_correction_event_def bindE_Inr_iff if_Inl_Inr_iff sum.inject
    by (elim exE conjE) (rule that; assumption)
  show ?thesis using * val by (intro that [of source p n pre d]) auto
qed

lemma correction_predecessor_amount:
  assumes "correction_predecessor source = Inr pre" "\<And>m. ev_amount source = Some m \<Longrightarrow> canonical_money m"
  shows "ev_kind source = ChargeEstimated \<or> ev_kind source = PriceCorrected"
    "\<exists>sm. ev_amount source = Some sm \<and> predecessor_amount source sm = Inr pre \<and> same_unit pre sm"
    "canonical_money pre"
proof -
  have meta: "correction_metadata l w = Inr pn \<Longrightarrow> correction_metadata l' w = Inr pn \<and> canonical_money (snd pn)" for l l' w pn
    by (auto simp: correction_metadata_def bindE_Inr_iff money_from_json_Inr(1) split: if_splits)
  show "ev_kind source = ChargeEstimated \<or> ev_kind source = PriceCorrected"
    using assms(1) by (auto simp: correction_predecessor_def split: if_splits)
  obtain sm where sm: "ev_amount source = Some sm"
    using assms(1) by (cases "ev_amount source") (auto simp: correction_predecessor_def predecessor_next_amount_def bindE_Inr_iff split: if_splits)
  have next_val: "\<exists>pn d. correction_metadata l (ev_metadata source) = Inr pn \<and> same_unit (fst pn) sm \<and> same_unit (snd pn) sm
      \<and> \<not> coefficient (snd pn) < 0 \<and> subtract_money (snd pn) (fst pn) = Inr d \<and> compare_money d sm = Inr 0 \<and> pre = snd pn"
    if pc: "ev_kind source = PriceCorrected" for l
  proof -
    have k: "ev_kind source \<noteq> ChargeEstimated" using pc by simp
    obtain pn d c where "correction_metadata ''price correction predecessor'' (ev_metadata source) = Inr pn"
      "\<not> (\<not> same_unit (fst pn) sm \<or> \<not> same_unit (snd pn) sm)" "\<not> coefficient (snd pn) < 0"
      "subtract_money (snd pn) (fst pn) = Inr d" "compare_money d sm = Inr c" "\<not> c \<noteq> 0" "snd pn = pre"
      using assms(1) unfolding correction_predecessor_def predecessor_next_amount_def sm if_not_P [OF k] if_P [OF pc]
        option.case bindE_Inr_iff if_Inl_Inr_iff sum.inject
      by (elim exE conjE) (rule that; assumption)
    then show ?thesis using meta by blast
  qed
  show "\<exists>sm. ev_amount source = Some sm \<and> predecessor_amount source sm = Inr pre \<and> same_unit pre sm"
  proof (cases "ev_kind source = PriceCorrected")
    case True
    from next_val [OF this, of "''economic event price correction predecessor''"] obtain pn d where
      "correction_metadata ''economic event price correction predecessor'' (ev_metadata source) = Inr pn"
      "same_unit (fst pn) sm" "same_unit (snd pn) sm" "\<not> coefficient (snd pn) < 0"
      "subtract_money (snd pn) (fst pn) = Inr d" "compare_money d sm = Inr 0" "pre = snd pn" by blast
    then show ?thesis using True sm by (simp add: predecessor_amount_def)
  next
    case False
    then show ?thesis using assms(1) sm by (auto simp: correction_predecessor_def predecessor_amount_def same_unit_def split: if_splits)
  qed
  show "canonical_money pre"
  proof (cases "ev_kind source = PriceCorrected")
    case True
    from next_val [OF this] show ?thesis using meta by blast
  next
    case False
    then show ?thesis using assms sm by (auto simp: correction_predecessor_def split: if_splits)
  qed
qed

text \<open>A charge of 10 USD, repriced to 8.\<close>

definition epoch_text :: jsval where
  "epoch_text = JStr ''1970-01-01T00:00:00.000Z''"

definition sample_charge :: jsval where
  "sample_charge =
     JObj [(''id'', JStr ''c''), (''kind'', JStr ''charge_estimated''), (''subject'', JStr ''s''),
           (''occurredAt'', epoch_text), (''recordedAt'', epoch_text), (''amount'', money_object (usd 10 BList)),
           (''sourceEventIds'', JArr []), (''reversalOf'', JNull), (''schemaVersion'', JNum 1)]"

definition sample_correction :: jsval where
  "sample_correction =
     JObj [(''id'', JStr ''p''), (''source'', sample_charge),
           (''previousAmount'', money_object (usd 10 BList)), (''nextAmount'', money_object (usd 8 BList)),
           (''occurredAt'', epoch_text), (''recordedAt'', epoch_text)]"

text \<open>C19: a correction the constructor returns passes every check of its shape that \<open>append\<close> makes,
  against its own source: what is left to the ledger are the two checks that need the store, that the
  source has no other correction and that no credit already exceeds the corrected charge.\<close>

theorem constructed_correction_meets_ledger:
  assumes "comparator lc" "price_correction_event lc v = Inr e"
  shows "\<exists>source m. economic_event lc (field ''source'' v) = Inr source \<and> ev_kind e = PriceCorrected
    \<and> ev_amount e = Some m \<and> ev_sources e = [ev_id source] \<and> ev_recorded source \<le> ev_recorded e
    \<and> (\<forall>L srcs. map_of srcs (ev_id source) = Some source \<longrightarrow> check_price_correction L e srcs =
        (if list_ex (\<lambda>i. i \<noteq> ev_id e \<and> kind_is L PriceCorrected i) (linking L (ev_id source))
         then Inl ''economic event price correction source already has a correction''
         else check_correction_bound L e source m))"
proof -
  obtain source p n pre d where src: "economic_event lc (field ''source'' v) = Inr source"
    and pn: "canonical_money p" "canonical_money n" and pre: "correction_predecessor source = Inr pre" "0 \<le> coefficient pre"
    and c: "compare_money p pre = Inr 0" and u: "same_unit p n" and n0: "0 \<le> coefficient n"
    and d: "subtract_money n p = Inr d" and made: "economic_event lc (correction_value v source p n d) = Inr e"
    and t: "ev_occurred e = ev_occurred source" "ev_recorded source \<le> ev_recorded e"
    using price_correction_parts [OF assms(2)] by blast
  have can: "canonical_event lc source" by (rule economic_event_Inr [OF assms(1) src])
  note cp = correction_predecessor_amount [OF pre(1)]
  have kinds: "ev_kind source = ChargeEstimated \<or> ev_kind source = PriceCorrected"
    and preds: "\<exists>sm. ev_amount source = Some sm \<and> predecessor_amount source sm = Inr pre \<and> same_unit pre sm"
    and "canonical_money pre" using cp can by (auto simp: canonical_event_def event_shape_def)
  obtain sm where sm: "ev_amount source = Some sm" "predecessor_amount source sm = Inr pre" using preds by blast
  have dc: "canonical_money d" "money_ident d = money_ident n"
  proof -
    obtain x where "add_money n x = Inr d" using d by (auto simp: subtract_money_def bindE_Inr_iff)
    moreover have "assert_currency (currency n) = Inr (currency n)" using pn(2) by (simp add: canonical_money_def)
    ultimately show "canonical_money d" by (rule add_money_Inr(4))
    show "money_ident d = money_ident n" by (rule subtract_money_Inr(2) [OF d])
  qed
  note f = economic_event_fields [OF made] economic_event_amount_metadata [OF made]
  have kind: "ev_kind e = PriceCorrected"
    using f(2) event_kind_val_name [of PriceCorrected] by (simp add: correction_value_def)
  have e: "ev_subject e = ev_subject source" "ev_sources e = [ev_id source]"
    using f(3,6) can by (auto simp: correction_value_def event_ids_val_def canonical_event_def event_shape_def non_empty_canonical)
  have m: "ev_amount e = Some d" using f(7) canonical_amount_money [OF dc(1)] by (simp add: correction_value_def)
  have meta: "correction_metadata l (ev_metadata e) = Inr (p, n)" for l
    using f(8) by (intro stored_correction_metadata [OF _ pn]) (simp add: correction_value_def optional_json_def)
  have rev: "ev_reversal e = None" using f(9) by (simp add: correction_value_def optional_text_def)
  have "compare_money d d = Inr 0" using compare_money_total [OF refl dc(1) dc(1)] by simp
  moreover have "same_unit d pre" "same_unit n pre"
    using dc(2) u compare_money_Inr(1) [OF c] by (auto simp: same_unit_def money_ident_iff)
  ultimately have "check_reprice L e source pre d =
        (if list_ex (\<lambda>i. i \<noteq> ev_id e \<and> kind_is L PriceCorrected i) (linking L (ev_id source))
         then Inl ''economic event price correction source already has a correction''
         else check_correction_bound L e source d)" for L
    using pre(2) c n0 d by (simp add: check_reprice_def meta)
  then have "check_price_correction L e srcs =
        (if list_ex (\<lambda>i. i \<noteq> ev_id e \<and> kind_is L PriceCorrected i) (linking L (ev_id source))
         then Inl ''economic event price correction source already has a correction''
         else check_correction_bound L e source d)" if "map_of srcs (ev_id source) = Some source" for L srcs
    using kinds that by (auto simp: check_price_correction_def kind e rev sm t m)
  then show ?thesis using src kind e m t(2) by blast
qed


theorem constructed_correction_meets_ledger_witness:
  "\<exists>e source. price_correction_event code_unit_cmp sample_correction = Inr e
    \<and> economic_event code_unit_cmp (field ''source'' sample_correction) = Inr source \<and> ev_sources e = [ev_id source]"
proof -
  have "case price_correction_event code_unit_cmp sample_correction of Inl _ \<Rightarrow> False | Inr _ \<Rightarrow> True" by code_simp
  then obtain e where e: "price_correction_event code_unit_cmp sample_correction = Inr e" by (auto split: sum.splits)
  from constructed_correction_meets_ledger [OF code_units.comparator_axioms e] e show ?thesis by blast
qed

section \<open>Translations\<close>

lemma clone_interval:
  assumes "clone_json lc (interval_to_json i) = Inr w"
  shows "canonical_valid_time w = canonical_valid_time (interval_to_json i)" "w \<noteq> JUndefined"
proof -
  let ?fs = "[(''from'', JStr (to_iso (from_ms i))), (''to'', JStr (to_iso (to_ms i)))]"
  have "distinct (map fst ?fs)" by simp
  note w = cloned_object [OF assms [unfolded interval_to_json_def] this]
  have "keys_are [''from'', ''to''] w" by (rule keys_are_mset) (use w(2) in simp)
  moreover have "field ''from'' w = JStr (to_iso (from_ms i))" "field ''to'' w = JStr (to_iso (to_ms i))"
    using w(3) [of "''from''"] w(3) [of "''to''"] by simp_all
  ultimately show "canonical_valid_time w = canonical_valid_time (interval_to_json i)"
    using w(1) by (simp add: canonical_valid_time_def interval_to_json_def keys_are_def)
  show "w \<noteq> JUndefined" using w(1) by auto
qed

lemma clone_rate:
  assumes "clone_json lc (rate_to_json r) = Inr w" "canonical_rate r"
  shows "is_object w" "rate_record_ok w" "rate_from_json w = Inr r"
proof -
  let ?fs = "[(''numerator'', JStr (show_int (numerator r))), (''denominator'', JStr (show_int (denominator r))),
            (''sourceUnit'', JStr (source_unit r)), (''targetUnit'', JStr (target_unit r))]
           @ (case valid_time r of None \<Rightarrow> [] | Some i \<Rightarrow> [(''validTime'', interval_to_json i)])"
  have "distinct (map fst ?fs)" by (simp split: option.split)
  note w = cloned_object [OF assms(1) [unfolded rate_to_json_def] this]
  show obj: "is_object w" by (rule w(1))
  have keys: "mset (keys_of w) = mset ([''denominator'', ''numerator'', ''sourceUnit'', ''targetUnit'']
      @ (if valid_time r = None then [] else [''validTime'']))"
    using w(2) by (simp split: option.split)
  have "has_own ''validTime'' w \<longleftrightarrow> valid_time r \<noteq> None"
    using mset_eq_setD [OF keys] by (simp add: has_own_def)
  then show "rate_record_ok w"
    unfolding rate_record_ok_def by (intro keys_are_mset) (use keys in simp)
  have f: "field ''numerator'' w = JStr (show_int (numerator r))" "field ''denominator'' w = JStr (show_int (denominator r))"
    "field ''sourceUnit'' w = JStr (source_unit r)" "field ''targetUnit'' w = JStr (target_unit r)"
    using w(3) [of "''numerator''"] w(3) [of "''denominator''"] w(3) [of "''sourceUnit''"] w(3) [of "''targetUnit''"]
    by simp_all
  have "exact_rate n d su tu (field ''validTime'' w)
      = exact_rate n d su tu (case valid_time r of None \<Rightarrow> JUndefined | Some i \<Rightarrow> interval_to_json i)" for n d su tu
  proof (cases "valid_time r")
    case None
    then have "field ''validTime'' w = JUndefined" by (intro w(4)) simp
    then show ?thesis using None by simp
  next
    case (Some i)
    then have "clone_json lc (interval_to_json i) = Inr (field ''validTime'' w)" by (intro w(3)) simp
    from clone_interval [OF this] show ?thesis by (simp add: exact_rate_def Some)
  qed
  then show "rate_from_json w = Inr r"
    using exact_rate_canonical [OF assms(2)] assms(2) by (simp add: rate_from_json_def f canonical_rate_def)
qed

lemma fx_canonical_rate_Inr:
  "fx_canonical_rate v = Inr r \<Longrightarrow> canonical_rate r \<and> 0 < numerator r \<and> 0 < denominator r"
  unfolding fx_canonical_rate_def
  by (auto simp: bindE_Inr_iff dest: exact_rate_Inr(2) split: if_split_asm jsval.splits)

lemma translate_source_parts:
  assumes "translate_source lc v source sm = Inr e"
  obtains r rs eff m where "fx_canonical_rate (field ''rate'' v) = Inr r" "source_unit r = currency sm"
    "target_unit r \<noteq> currency sm" "rs \<noteq> []" "trim rs = rs"
    "instant_val ''effectiveAt'' (field ''effectiveAt'' v) = Inr eff"
    "\<And>i. valid_time r = Some i \<Longrightarrow> interval_contains i eff" "eff \<le> ev_occurred source"
    "apply_exact_rate sm r (basis_name (basis sm)) = Inr m"
    "economic_event lc (fx_value v source sm r rs eff m) = Inr e"
    "ev_occurred e = ev_occurred source" "ev_recorded source \<le> ev_recorded e"
proof -
  obtain r rs eff m e' where *: "fx_canonical_rate (field ''rate'' v) = Inr r" "\<not> source_unit r \<noteq> currency sm"
    "\<not> target_unit r = currency sm" "non_empty_val ''FX translation rateSource'' (field ''rateSource'' v) = Inr rs"
    "instant_val ''effectiveAt'' (field ''effectiveAt'' v) = Inr eff"
    "\<not> (case valid_time r of None \<Rightarrow> False | Some i \<Rightarrow> \<not> interval_contains i eff)"
    "\<not> (field ''rounding'' v \<noteq> JUndefined \<and> field ''rounding'' v \<noteq> JStr ''none'')" "\<not> eff > ev_occurred source"
    "apply_exact_rate sm r (basis_name (basis sm)) = Inr m"
    "economic_event lc (fx_value v source sm r rs eff m) = Inr e'" "\<not> ev_occurred e' \<noteq> ev_occurred source"
    "\<not> ev_recorded e' < ev_recorded source" "e' = e"
    using assms unfolding translate_source_def bindE_Inr_iff if_Inl_Inr_iff sum.inject
    by (elim exE conjE) (rule that; assumption)
  show ?thesis
    using * non_empty_val_Inr [OF *(4)] by (intro that [of r rs eff m]) auto
qed

lemma fx_translation_parts:
  assumes "fx_translation_event lc v = Inr e"
  obtains source sm r rs eff m where "economic_event lc (field ''source'' v) = Inr source" "ev_amount source = Some sm"
    "fx_canonical_rate (field ''rate'' v) = Inr r" "source_unit r = currency sm"
    "target_unit r \<noteq> currency sm" "rs \<noteq> []" "trim rs = rs"
    "instant_val ''effectiveAt'' (field ''effectiveAt'' v) = Inr eff"
    "\<And>i. valid_time r = Some i \<Longrightarrow> interval_contains i eff" "eff \<le> ev_occurred source"
    "apply_exact_rate sm r (basis_name (basis sm)) = Inr m"
    "economic_event lc (fx_value v source sm r rs eff m) = Inr e"
    "ev_occurred e = ev_occurred source" "ev_recorded source \<le> ev_recorded e"
    "canonical_money m" "money_value m = money_value sm * rate_value r" "currency m = target_unit r" "basis m = basis sm"
proof -
  obtain source sm where src: "economic_event lc (field ''source'' v) = Inr source" "ev_amount source = Some sm"
    and made: "translate_source lc v source sm = Inr e"
    using assms by (auto simp: fx_translation_event_def bindE_Inr_iff split: option.splits)
  show ?thesis
  proof (rule translate_source_parts [OF made])
    fix r rs eff m
    assume *: "fx_canonical_rate (field ''rate'' v) = Inr r" "source_unit r = currency sm"
      "target_unit r \<noteq> currency sm" "rs \<noteq> []" "trim rs = rs"
      "instant_val ''effectiveAt'' (field ''effectiveAt'' v) = Inr eff"
      "\<And>i. valid_time r = Some i \<Longrightarrow> interval_contains i eff" "eff \<le> ev_occurred source"
      "apply_exact_rate sm r (basis_name (basis sm)) = Inr m"
      "economic_event lc (fx_value v source sm r rs eff m) = Inr e"
      "ev_occurred e = ev_occurred source" "ev_recorded source \<le> ev_recorded e"
    have "canonical_money m" "money_value m = money_value sm * rate_value r" "currency m = target_unit r" "basis m = basis sm"
      using apply_exact_rate_cases(1) [OF _ *(9)] fx_canonical_rate_Inr [OF *(1)] by simp_all
    then show ?thesis using src * by (intro that)
  qed
qed

text \<open>The metadata a translation is stored with, read back by the ledger's check.\<close>

lemma translation_metadata_checked:
  assumes "clone_json lc (JObj [(''sourceAmount'', money_to_json sm), (''rate'', rate_to_json r),
              (''rateSource'', JStr rs), (''effectiveAt'', JStr (to_iso eff)),
              (''convention'', JStr ''source-to-target''), (''rounding'', JStr ''none'')]) = Inr (ev_metadata e)"
    and "canonical_money sm" "canonical_rate r" "0 < numerator r" "rs \<noteq> []" "trim rs = rs" "\<bar>eff\<bar> \<le> max_time"
    and "source_unit r = currency sm" "target_unit r \<noteq> currency sm" "target_unit r = currency m" "canonical_money m"
    and "\<And>i. valid_time r = Some i \<Longrightarrow> interval_contains i eff" "eff \<le> ev_occurred e"
    and "apply_exact_rate sm r (basis_name (basis sm)) = Inr m"
  shows "check_translation_metadata e sm m = Inr ()"
proof -
  let ?v = "ev_metadata e"
  let ?fs = "[(''sourceAmount'', money_to_json sm), (''rate'', rate_to_json r),
              (''rateSource'', JStr rs), (''effectiveAt'', JStr (to_iso eff)),
              (''convention'', JStr ''source-to-target''), (''rounding'', JStr ''none'')]"
  have "distinct (map fst ?fs)" by simp
  note w = cloned_object [OF assms(1) this]
  have keys: "keys_are translation_keys ?v"
    by (rule keys_are_mset) (use w(2) in \<open>simp add: translation_keys_def add_mset_commute\<close>)
  have "clone_json lc (money_to_json sm) = Inr (field ''sourceAmount'' ?v)" by (rule w(3)) simp
  then have amount: "money_from_json (field ''sourceAmount'' ?v) = Inr sm" by (rule clone_money [OF _ assms(2)])
  have "clone_json lc (rate_to_json r) = Inr (field ''rate'' ?v)" by (rule w(3)) simp
  note rate = clone_rate [OF this assms(3)]
  have texts: "field ''rateSource'' ?v = JStr rs" "field ''effectiveAt'' ?v = JStr (to_iso eff)"
    "field ''convention'' ?v = JStr ''source-to-target''" "field ''rounding'' ?v = JStr ''none''"
    using w(3) [of "''rateSource''"] w(3) [of "''effectiveAt''"] w(3) [of "''convention''"] w(3) [of "''rounding''"]
    by simp_all
  have same: "compare_money x x = Inr 0" if "canonical_money x" for x
    using compare_money_total [OF refl that that] by simp
  have valid: "\<not> (case valid_time r of None \<Rightarrow> False | Some i \<Rightarrow> \<not> interval_contains i eff)"
    using assms(12) by (simp split: option.split)
  have pos: "0 < denominator r" using assms(3) by (simp add: canonical_rate_def)
  show ?thesis
    using w(1) keys amount rate same [OF assms(2)] same [OF assms(11)] valid pos assms
    by (simp add: check_translation_metadata_def texts)
qed

text \<open>C20: a translation the constructor returns carries the exact product of its source amount and of a
  positive rate between the two currencies, and passes every check that \<open>append\<close> makes of its shape and
  metadata when its source is a charge or a translation: what is left to the ledger is that the charge at
  the root of the chain has no other translation into the currency.  The constructor does not look at the
  role of its source, and a translation it builds from any other event is refused by the ledger.\<close>

theorem constructed_translation_meets_ledger:
  assumes "comparator lc" "fx_translation_event lc v = Inr e"
  shows "\<exists>source sm r m. economic_event lc (field ''source'' v) = Inr source \<and> ev_amount source = Some sm
    \<and> fx_canonical_rate (field ''rate'' v) = Inr r \<and> ev_amount e = Some m \<and> money_value m = money_value sm * rate_value r
    \<and> 0 < rate_value r \<and> source_unit r = currency sm \<and> target_unit r = currency m \<and> currency m \<noteq> currency sm
    \<and> basis m = basis sm \<and> ev_kind e = FxTranslated \<and> ev_sources e = [ev_id source]
    \<and> ev_occurred e = ev_occurred source \<and> ev_recorded source \<le> ev_recorded e
    \<and> (\<forall>L srcs. map_of srcs (ev_id source) = Some source \<longrightarrow> check_fx_translation L e srcs =
          (if role_of_kind (ev_kind source) \<in> {RCharge, RTranslation}
           then bindE (translation_root L (ev_id source)) (\<lambda>root. check_no_other_translation L e root m)
           else Inl ''economic event FX translation source must be a charge or prior FX translation''))"
proof -
  obtain source sm r rs eff m where src: "economic_event lc (field ''source'' v) = Inr source" and sm: "ev_amount source = Some sm"
    and r: "fx_canonical_rate (field ''rate'' v) = Inr r" and su: "source_unit r = currency sm"
    and tu: "target_unit r \<noteq> currency sm" and rs: "rs \<noteq> []" "trim rs = rs"
    and at: "instant_val ''effectiveAt'' (field ''effectiveAt'' v) = Inr eff"
    and valid: "\<And>i. valid_time r = Some i \<Longrightarrow> interval_contains i eff" and le: "eff \<le> ev_occurred source"
    and m: "apply_exact_rate sm r (basis_name (basis sm)) = Inr m"
    and made: "economic_event lc (fx_value v source sm r rs eff m) = Inr e"
    and t: "ev_occurred e = ev_occurred source" "ev_recorded source \<le> ev_recorded e"
    and mv: "canonical_money m" "money_value m = money_value sm * rate_value r" "currency m = target_unit r" "basis m = basis sm"
    using fx_translation_parts [OF assms(2)] by metis
  have can: "canonical_event lc source" by (rule economic_event_Inr [OF assms(1) src])
  then have smc: "canonical_money sm" using sm by (simp add: canonical_event_def event_shape_def)
  note rate = fx_canonical_rate_Inr [OF r]
  note eff = instant_val_bound [OF at]
  note f = economic_event_fields [OF made] economic_event_amount_metadata [OF made]
  have kind: "ev_kind e = FxTranslated" using f(2) event_kind_val_name [of FxTranslated] by (simp add: fx_value_def)
  have e: "ev_subject e = ev_subject source" "ev_sources e = [ev_id source]" "ev_amount e = Some m" "ev_reversal e = None"
    using f(3,6,7,9) can canonical_amount_money [OF mv(1)]
    by (auto simp: fx_value_def event_ids_val_def canonical_event_def event_shape_def non_empty_canonical optional_text_def)
  have "check_translation_metadata e sm m = Inr ()"
    by (rule translation_metadata_checked [where rs = rs and eff = eff and r = r and lc = lc])
      (use f(8) smc rate rs eff su tu mv valid le t m in \<open>auto simp: fx_value_def optional_json_def\<close>)
  then have "check_fx_translation L e srcs =
      (if role_of_kind (ev_kind source) \<in> {RCharge, RTranslation}
       then bindE (translation_root L (ev_id source)) (\<lambda>root. check_no_other_translation L e root m)
       else Inl ''economic event FX translation source must be a charge or prior FX translation'')"
    if "map_of srcs (ev_id source) = Some source" for L srcs
    using that mv tu by (auto simp: check_fx_translation_def kind e sm t)
  moreover have "0 < rate_value r" using rate by (simp add: rate_value_def)
  ultimately show ?thesis using src sm r e mv su tu kind t by auto
qed

text \<open>The sample charge translated at 2 EUR for 1 USD.\<close>

definition sample_translation :: jsval where
  "sample_translation =
     JObj [(''id'', JStr ''t''), (''source'', sample_charge),
           (''rate'', JObj [(''numerator'', JBigInt 2), (''denominator'', JBigInt 1), (''sourceUnit'', JStr ''USD''),
                            (''targetUnit'', JStr ''EUR'')]),
           (''rateSource'', JStr ''b''), (''effectiveAt'', epoch_text), (''occurredAt'', epoch_text), (''recordedAt'', epoch_text)]"

theorem constructed_translation_meets_ledger_witness:
  "\<exists>e m. fx_translation_event code_unit_cmp sample_translation = Inr e \<and> ev_amount e = Some m \<and> currency m = ''EUR''"
proof -
  have "case fx_translation_event code_unit_cmp sample_translation of Inl _ \<Rightarrow> False
      | Inr e \<Rightarrow> (case ev_amount e of None \<Rightarrow> False | Some m \<Rightarrow> currency m = ''EUR'')" by code_simp
  then obtain e m where e: "fx_translation_event code_unit_cmp sample_translation = Inr e" "ev_amount e = Some m" "currency m = ''EUR''"
    by (auto split: sum.splits option.splits)
  from constructed_translation_meets_ledger [OF code_units.comparator_axioms e(1)] e show ?thesis by blast
qed


section \<open>Translation from a rate book\<close>

lemma non_empty_val_trimmed: "non_empty_val l v = Inr s \<Longrightarrow> non_empty_val l' (JStr s) = Inr s"
  by (auto dest!: non_empty_val_Inr simp: non_empty_canonical)

lemma select_historical_rate_Inr:
  assumes "select_historical_rate lc os v = Inr ob" "canonical_book os"
  obtains su tu eff as_of where "non_empty_val ''historical rate selection sourceUnit'' (field ''sourceUnit'' v) = Inr su"
    "non_empty_val ''historical rate selection targetUnit'' (field ''targetUnit'' v) = Inr tu"
    "instant_val ''historical rate selection effectiveAt'' (field ''effectiveAt'' v) = Inr eff"
    "(case field ''asOf'' v of JUndefined \<Rightarrow> Inr None
        | w \<Rightarrow> bindE (instant_val ''historical rate selection asOf'' w) (\<lambda>t. Inr (Some t))) = Inr as_of"
    "ob \<in> set os" "rate_visible su tu eff as_of ob"
    "\<And>c. c \<in> set os \<Longrightarrow> rate_visible su tu eff as_of c \<Longrightarrow> (c, ob) \<in> (superseded_by (filter (rate_visible su tu eff as_of) os))\<^sup>*"
proof -
  define vis where "vis su tu eff as_of = filter (rate_visible su tu eff as_of) (sort_by (\<lambda>a b. lc (obs_id a) (obs_id b)) os)"
    for su tu eff as_of
  obtain su tu eff as_of where *: "non_empty_val ''historical rate selection sourceUnit'' (field ''sourceUnit'' v) = Inr su"
    "non_empty_val ''historical rate selection targetUnit'' (field ''targetUnit'' v) = Inr tu"
    "instant_val ''historical rate selection effectiveAt'' (field ''effectiveAt'' v) = Inr eff"
    "(case field ''asOf'' v of JUndefined \<Rightarrow> Inr None
        | w \<Rightarrow> bindE (instant_val ''historical rate selection asOf'' w) (\<lambda>t. Inr (Some t))) = Inr as_of"
    "(case rate_tips (filter (rate_visible su tu eff as_of) (sort_by (\<lambda>a b. lc (obs_id a) (obs_id b)) os)) of [tip] \<Rightarrow> Inr tip | _ \<Rightarrow> Inl ''historical FX rate selection is ambiguous'') = Inr ob"
    using assms(1) unfolding select_historical_rate_def historical_rate_book_canonical [OF assms(2)] Let_def
      bindE_simps bindE_Inr_iff if_Inl_Inr_iff sum.inject
    by (elim exE conjE) (rule that; assumption)
  have "rate_tips (vis su tu eff as_of) = [ob]" using *(5) by (auto simp: vis_def split: list.splits)
  then have "ob \<in> set (vis su tu eff as_of)" "\<forall>a \<in> set (vis su tu eff as_of). (a, ob) \<in> (superseded_by (vis su tu eff as_of))\<^sup>*"
    using visible_unique_tip [OF assms(2) vis_def] by simp_all
  moreover have "superseded_by (vis su tu eff as_of) = superseded_by (filter (rate_visible su tu eff as_of) os)"
    by (rule superseded_by_mset) (simp add: vis_def)
  ultimately show ?thesis using * by (intro that [of su tu eff as_of]) (auto simp: vis_def)
qed

lemma fx_canonical_observation:
  assumes "canonical_observation ob"
  shows "fx_canonical_rate (rate_value_of (obs_rate ob)) = Inr (obs_rate ob)"
proof -
  let ?r = "obs_rate ob"
  obtain i where i: "valid_time ?r = Some i" using assms by (auto simp: canonical_observation_def)
  have r: "canonical_rate ?r" "0 < numerator ?r" using assms by (simp_all add: canonical_observation_def)
  have "keys_are (fx_rate_keys @ [''validTime'']) (rate_value_of ?r)"
    by (rule keys_are_mset) (simp add: rate_value_of_def fx_rate_keys_def i add_mset_commute)
  then show ?thesis
    using r exact_rate_canonical [OF r(1)]
    by (simp add: fx_canonical_rate_def i non_empty_canonical canonical_rate_def)
qed

text \<open>C21: a translation from a rate book uses no hindsight: its rate is an observation of the book that
  was recorded by the knowledge boundary, it was in force at the effective time, which is not after the
  charge occurred, and every other observation visible then had been superseded by it.  The knowledge
  boundary is the \<open>rateAsOf\<close> of the request, or the time the translation was recorded when the request
  gives none, and is never after that time.  The amount is in the requested unit and the exact product
  with that rate.\<close>

theorem book_translation_without_hindsight:
  assumes "comparator lc" "canonical_book book" "fx_translation_event_from_book lc book v = Inr e"
  shows "\<exists>source sm m ob eff as_of. economic_event lc (field ''source'' v) = Inr source \<and> ev_amount source = Some sm
    \<and> ev_amount e = Some m \<and> money_value m = money_value sm * rate_value (obs_rate ob)
    \<and> instant_val ''effectiveAt'' (field ''effectiveAt'' v) = Inr eff \<and> eff \<le> ev_occurred e
    \<and> (if field ''rateAsOf'' v = JUndefined then as_of = ev_recorded e
        else instant_val ''FX rate-book translation rateAsOf'' (field ''rateAsOf'' v) = Inr as_of) \<and> as_of \<le> ev_recorded e
    \<and> non_empty_val ''FX rate-book translation targetUnit'' (field ''targetUnit'' v) = Inr (currency m)
    \<and> ob \<in> set book \<and> rate_visible (currency sm) (currency m) eff (Some as_of) ob
    \<and> (\<forall>c \<in> set book. rate_visible (currency sm) (currency m) eff (Some as_of) c \<longrightarrow>
          (c, ob) \<in> (superseded_by (filter (rate_visible (currency sm) (currency m) eff (Some as_of)) book))\<^sup>*)"
proof -
  let ?w = "\<lambda>source ob recorded. JObj ([(''id'', field ''id'' v), (''source'', event_value source),
          (''rate'', rate_value_of (obs_rate ob)), (''rateSource'', JStr (obs_source ob)),
          (''effectiveAt'', field ''effectiveAt'' v)]
          @ optional_field ''rounding'' v @ optional_field ''occurredAt'' v
          @ [(''recordedAt'', JStr (to_iso recorded))])"
  obtain source sm where src: "economic_event lc (field ''source'' v) = Inr source" "ev_amount source = Some sm"
    using assms(3) by (auto simp: fx_translation_event_from_book_def bindE_Inr_iff split: option.splits)
  obtain tu recorded as_of ob where
    unit: "non_empty_val ''FX rate-book translation targetUnit'' (field ''targetUnit'' v) = Inr tu" and
    times: "instant_val ''FX rate-book translation recordedAt'' (field ''recordedAt'' v) = Inr recorded"
      "(if field ''rateAsOf'' v = JUndefined then Inr recorded
            else instant_val ''FX rate-book translation rateAsOf'' (field ''rateAsOf'' v)) = Inr as_of" "\<not> as_of > recorded"
    and sel: "select_historical_rate lc book (JObj [(''sourceUnit'', JStr (currency sm)), (''targetUnit'', JStr tu),
              (''effectiveAt'', field ''effectiveAt'' v), (''asOf'', JStr (to_iso as_of))]) = Inr ob"
    and made: "fx_translation_event lc (?w source ob recorded) = Inr e"
    using assms(3) unfolding fx_translation_event_from_book_def src bindE_simps option.case bindE_Inr_iff if_Inl_Inr_iff
    by (elim exE conjE) (rule that; assumption)
  have t: "\<bar>as_of\<bar> \<le> max_time" "\<bar>recorded\<bar> \<le> max_time" "as_of \<le> recorded"
    using times by (auto dest: instant_val_bound split: if_split_asm)
  have can: "canonical_event lc source" by (rule economic_event_Inr [OF assms(1) src(1)])
  let ?w = "?w source ob recorded"
  have fields: "field ''source'' ?w = event_value source" "field ''rate'' ?w = rate_value_of (obs_rate ob)"
    "field ''effectiveAt'' ?w = field ''effectiveAt'' v" "field ''recordedAt'' ?w = JStr (to_iso recorded)"
    by (simp_all add: optional_field_def)
  obtain su tu' eff where at: "instant_val ''historical rate selection effectiveAt'' (field ''effectiveAt'' v) = Inr eff"
    and ob: "ob \<in> set book" "rate_visible su tu' eff (Some as_of) ob"
    and tip: "\<And>c. c \<in> set book \<Longrightarrow> rate_visible su tu' eff (Some as_of) c
        \<Longrightarrow> (c, ob) \<in> (superseded_by (filter (rate_visible su tu' eff (Some as_of)) book))\<^sup>*"
      and tu': "non_empty_val ''historical rate selection targetUnit'' (JStr tu) = Inr tu'"
    by (rule select_historical_rate_Inr [OF sel assms(2)]) (use t(1) in auto)
  have "tu' = tu" using non_empty_val_trimmed [OF unit] tu' by simp
  have "canonical_observation ob" using assms(2) ob(1) by (simp add: canonical_book_def)
  then have rate: "fx_canonical_rate (rate_value_of (obs_rate ob)) = Inr (obs_rate ob)" by (rule fx_canonical_observation)
  obtain sm' m r rs eff' where f: "ev_amount source = Some sm'" "r = obs_rate ob" "source_unit r = currency sm'"
      "instant_val ''effectiveAt'' (field ''effectiveAt'' v) = Inr eff'" "eff' \<le> ev_occurred source"
      "economic_event lc (fx_value ?w source sm' r rs eff' m) = Inr e" "ev_occurred e = ev_occurred source"
      "canonical_money m" "money_value m = money_value sm' * rate_value r" "currency m = target_unit r"
    using fx_translation_parts [OF made] unfolding fields economic_event_canonical [OF can] rate sum.inject by metis
  have units: "su = currency sm" "tu' = currency m" "sm' = sm" using ob(2) f(1,2,3,10) src(2) by (auto simp: rate_visible_def)
  have "eff' = eff" using at f(4) by (cases "field ''effectiveAt'' v") auto
  moreover have "ev_recorded e = recorded"
    using economic_event_fields(5) [OF f(6)] t(2) fields(4) by (simp add: fx_value_def)
  moreover have "ev_amount e = Some m"
    using economic_event_amount_metadata(1) [OF f(6)] canonical_amount_money [OF f(8)] by (simp add: fx_value_def)
  moreover have "if field ''rateAsOf'' v = JUndefined then as_of = recorded
      else instant_val ''FX rate-book translation rateAsOf'' (field ''rateAsOf'' v) = Inr as_of"
    using times(2) by (simp split: if_split_asm)
  ultimately show ?thesis using src f ob tip t(3) units unit \<open>tu' = tu\<close>
    by (intro exI [of _ source] exI [of _ sm] exI [of _ m] exI [of _ ob] exI [of _ eff] exI [of _ as_of]) simp
qed

text \<open>The sample charge translated with a book whose second observation replaces the first a second
  later: the knowledge boundary is before that, the translation is recorded after it.\<close>

definition epoch_book :: "rate_observation list" where
  "epoch_book = [sample_observation ''a'' 2 0 None, sample_observation ''b'' 3 1000 (Some ''a'')]"

definition sample_book_translation :: jsval where
  "sample_book_translation =
     JObj [(''id'', JStr ''t''), (''source'', sample_charge), (''targetUnit'', JStr ''EUR''), (''effectiveAt'', epoch_text),
           (''rateAsOf'', epoch_text), (''recordedAt'', JStr ''1970-01-01T00:00:01.000Z'')]"

theorem book_translation_without_hindsight_witness:
  "\<exists>e m. fx_translation_event_from_book code_unit_cmp epoch_book sample_book_translation = Inr e
    \<and> ev_amount e = Some m \<and> currency m = ''EUR'' \<and> money_value m = 20"
proof -
  have book: "canonical_book epoch_book"
    by (simp add: epoch_book_def sample_observation_def canonical_book_def canonical_observation_def
        canonical_rate_def rate_edge_ok_def rate_targets_def max_time_def trim_def js_space_def)
  have "case fx_translation_event_from_book code_unit_cmp epoch_book sample_book_translation of Inl _ \<Rightarrow> False | Inr _ \<Rightarrow> True"
    by code_simp
  then obtain e where e: "fx_translation_event_from_book code_unit_cmp epoch_book sample_book_translation = Inr e"
    by (auto split: sum.splits)
  have "case economic_event code_unit_cmp sample_charge of Inl _ \<Rightarrow> False | Inr s \<Rightarrow> ev_amount s = Some (usd 10 BList)"
    by code_simp
  then obtain charge where charge: "economic_event code_unit_cmp sample_charge = Inr charge" "ev_amount charge = Some (usd 10 BList)"
    by (auto split: sum.splits)
  have fields: "field ''rateAsOf'' sample_book_translation = epoch_text" "field ''targetUnit'' sample_book_translation = JStr ''EUR''"
    "field ''source'' sample_book_translation = sample_charge"
    by (simp_all add: sample_book_translation_def)
  have at: "instant_val ''FX rate-book translation rateAsOf'' epoch_text = Inr 0" "epoch_text \<noteq> JUndefined"
    "non_empty_val ''FX rate-book translation targetUnit'' (JStr ''EUR'') = Inr ''EUR''" by code_simp+
  from book_translation_without_hindsight [OF code_units.comparator_axioms book e, unfolded fields at if_not_P [OF at(2)]]
  obtain source sm m ob eff as_of where f: "economic_event code_unit_cmp sample_charge = Inr source" "ev_amount source = Some sm"
      "ev_amount e = Some m" "ob \<in> set epoch_book" "money_value m = money_value sm * rate_value (obs_rate ob)"
      "(Inr ''EUR'' :: string res) = Inr (currency m)"
      "rate_visible (currency sm) (currency m) eff (Some as_of) ob" "(Inr 0 :: instant_ms res) = Inr as_of"
    by (elim exE conjE) (rule that; assumption)
  have "sm = usd 10 BList" using f(1,2) charge by simp
  moreover from f(4,7,8) have "rate_value (obs_rate ob) = 2"
    by (auto simp: epoch_book_def sample_observation_def rate_visible_def rate_value_def)
  ultimately show ?thesis using e f(3,5,6) by (simp add: usd_def money_value_def)
qed

end
