(* ===== verification/EpiState.thy ===== *)
theory EpiState
  imports JsValue
begin

text \<open>
  The four-valued epistemic state (\<open>src/src/epistemic/state.ts\<close>) and the multi-axis claim profile
  (\<open>src/src/epistemic/profile.ts\<close>).  The states are an instance of the library's bounded
  semilattices under the information order, so that its lemmas on \<open>sup\<close> apply to \<open>informationJoin\<close>.
\<close>

section \<open>Epistemic states\<close>

datatype epistemic_state = EUnknown | ESupported | ERefuted | EConflicted

record polarity =
  pol_support :: bool
  pol_refute :: bool

definition epistemic_states :: "epistemic_state list" where
  "epistemic_states = [EUnknown, ESupported, ERefuted, EConflicted]"

fun epistemic_name :: "epistemic_state \<Rightarrow> string" where
  "epistemic_name EUnknown = ''unknown''"
| "epistemic_name ESupported = ''supported''"
| "epistemic_name ERefuted = ''refuted''"
| "epistemic_name EConflicted = ''conflicted''"

fun state_polarity :: "epistemic_state \<Rightarrow> polarity" where
  "state_polarity EUnknown = \<lparr>pol_support = False, pol_refute = False\<rparr>"
| "state_polarity ESupported = \<lparr>pol_support = True, pol_refute = False\<rparr>"
| "state_polarity ERefuted = \<lparr>pol_support = False, pol_refute = True\<rparr>"
| "state_polarity EConflicted = \<lparr>pol_support = True, pol_refute = True\<rparr>"

definition state_from_polarity :: "polarity \<Rightarrow> epistemic_state" where
  "state_from_polarity p =
     (if pol_support p then (if pol_refute p then EConflicted else ESupported)
      else if pol_refute p then ERefuted else EUnknown)"

definition information_join :: "epistemic_state \<Rightarrow> epistemic_state \<Rightarrow> epistemic_state" where
  "information_join a b =
     state_from_polarity
       \<lparr>pol_support = pol_support (state_polarity a) \<or> pol_support (state_polarity b),
        pol_refute = pol_refute (state_polarity a) \<or> pol_refute (state_polarity b)\<rparr>"

definition information_leq :: "epistemic_state \<Rightarrow> epistemic_state \<Rightarrow> bool" where
  "information_leq a b =
     ((\<not> pol_support (state_polarity a) \<or> pol_support (state_polarity b))
      \<and> (\<not> pol_refute (state_polarity a) \<or> pol_refute (state_polarity b)))"

definition aggregate_evidence :: "polarity list \<Rightarrow> epistemic_state" where
  "aggregate_evidence ps = foldl (\<lambda>s p. information_join s (state_from_polarity p)) EUnknown ps"

lemma state_polarity_inverse [simp]:
  "state_from_polarity (state_polarity s) = s" "state_polarity (state_from_polarity p) = p"
  by (cases s; simp add: state_from_polarity_def) (simp add: state_from_polarity_def)

lemma state_polarity_inj: "state_polarity a = state_polarity b \<longleftrightarrow> a = b"
  by (metis state_polarity_inverse(1))

lemma join_polarity [simp]:
  "pol_support (state_polarity (information_join a b)) \<longleftrightarrow> pol_support (state_polarity a) \<or> pol_support (state_polarity b)"
  "pol_refute (state_polarity (information_join a b)) \<longleftrightarrow> pol_refute (state_polarity a) \<or> pol_refute (state_polarity b)"
  by (simp_all add: information_join_def)

lemma state_eqI:
  "pol_support (state_polarity a) = pol_support (state_polarity b) \<Longrightarrow>
   pol_refute (state_polarity a) = pol_refute (state_polarity b) \<Longrightarrow> a = b"
  by (cases a; cases b) simp_all

instantiation epistemic_state :: bounded_semilattice_sup_bot
begin

definition bot_epistemic_state :: epistemic_state where
  "bot = EUnknown"

definition sup_epistemic_state :: "epistemic_state \<Rightarrow> epistemic_state \<Rightarrow> epistemic_state" where
  "sup = information_join"

definition less_eq_epistemic_state :: "epistemic_state \<Rightarrow> epistemic_state \<Rightarrow> bool" where
  "less_eq = information_leq"

definition less_epistemic_state :: "epistemic_state \<Rightarrow> epistemic_state \<Rightarrow> bool" where
  "less_epistemic_state a b = (information_leq a b \<and> \<not> information_leq b a)"

instance
proof
  fix x y z :: epistemic_state
  show "x < y \<longleftrightarrow> x \<le> y \<and> \<not> y \<le> x" by (simp add: less_epistemic_state_def less_eq_epistemic_state_def)
  show "x \<le> x" by (simp add: less_eq_epistemic_state_def information_leq_def)
  show "x \<le> y \<Longrightarrow> y \<le> z \<Longrightarrow> x \<le> z" by (auto simp: less_eq_epistemic_state_def information_leq_def)
  show "x \<le> y \<Longrightarrow> y \<le> x \<Longrightarrow> x = y"
    by (rule state_eqI) (auto simp: less_eq_epistemic_state_def information_leq_def)
  show "x \<le> sup x y" "y \<le> sup x y"
    by (simp_all add: less_eq_epistemic_state_def information_leq_def sup_epistemic_state_def)
  show "y \<le> x \<Longrightarrow> z \<le> x \<Longrightarrow> sup y z \<le> x"
    by (auto simp: less_eq_epistemic_state_def information_leq_def sup_epistemic_state_def)
  show "bot \<le> x" by (simp add: less_eq_epistemic_state_def information_leq_def bot_epistemic_state_def)
qed

end

section \<open>Claim profiles\<close>

datatype integrity_status = IntUnknown | IntUnverifiable | IntVerified
datatype authenticity_status = AuthUnknown | AuthSelfAsserted | AuthPinned | AuthProvider
datatype scope_status = ScUnknown | ScIncomplete | ScConditional | ScEstablished
datatype coverage_status = CovUnknown | CovPartial | CovComplete
datatype measurement_status = MeasProxyUnvalidated | MeasProxyValidated | MeasValidated
datatype causality_status = CauNone | CauObservational | CauQuasi | CauRandomized
datatype monetary_basis_status =
  MbNone | MbList | MbEstimated | MbProviderObserved | MbBilled | MbEffective | MbAllocated | MbFullCost | MbMixed
datatype finality_status = FinUnknown | FinProvisional | FinFinal
datatype fitness_status = FitNotAssessed | FitInsufficient | FitSufficient

definition integrities :: "integrity_status list" where
  "integrities = [IntUnknown, IntUnverifiable, IntVerified]"
definition authenticities :: "authenticity_status list" where
  "authenticities = [AuthUnknown, AuthSelfAsserted, AuthPinned, AuthProvider]"
definition scope_statuses :: "scope_status list" where
  "scope_statuses = [ScUnknown, ScIncomplete, ScConditional, ScEstablished]"
definition coverages :: "coverage_status list" where
  "coverages = [CovUnknown, CovPartial, CovComplete]"
definition measurements :: "measurement_status list" where
  "measurements = [MeasProxyUnvalidated, MeasProxyValidated, MeasValidated]"
definition causalities :: "causality_status list" where
  "causalities = [CauNone, CauObservational, CauQuasi, CauRandomized]"
definition monetary_bases :: "monetary_basis_status list" where
  "monetary_bases = [MbNone, MbList, MbEstimated, MbProviderObserved, MbBilled, MbEffective, MbAllocated, MbFullCost, MbMixed]"
definition finalities :: "finality_status list" where
  "finalities = [FinUnknown, FinProvisional, FinFinal]"
definition fitnesses :: "fitness_status list" where
  "fitnesses = [FitNotAssessed, FitInsufficient, FitSufficient]"

fun integrity_name :: "integrity_status \<Rightarrow> string" where
  "integrity_name IntUnknown = ''unknown''"
| "integrity_name IntUnverifiable = ''unverifiable''"
| "integrity_name IntVerified = ''verified''"

fun authenticity_name :: "authenticity_status \<Rightarrow> string" where
  "authenticity_name AuthUnknown = ''unknown''"
| "authenticity_name AuthSelfAsserted = ''self_asserted''"
| "authenticity_name AuthPinned = ''pinned''"
| "authenticity_name AuthProvider = ''provider_authenticated''"

fun scope_status_name :: "scope_status \<Rightarrow> string" where
  "scope_status_name ScUnknown = ''unknown''"
| "scope_status_name ScIncomplete = ''incomplete''"
| "scope_status_name ScConditional = ''conditional''"
| "scope_status_name ScEstablished = ''established''"

fun coverage_name :: "coverage_status \<Rightarrow> string" where
  "coverage_name CovUnknown = ''unknown''"
| "coverage_name CovPartial = ''partial''"
| "coverage_name CovComplete = ''complete''"

fun measurement_name :: "measurement_status \<Rightarrow> string" where
  "measurement_name MeasProxyUnvalidated = ''proxy_unvalidated''"
| "measurement_name MeasProxyValidated = ''proxy_validated''"
| "measurement_name MeasValidated = ''validated''"

fun causality_name :: "causality_status \<Rightarrow> string" where
  "causality_name CauNone = ''none''"
| "causality_name CauObservational = ''observational''"
| "causality_name CauQuasi = ''quasi_experimental''"
| "causality_name CauRandomized = ''randomized''"

fun monetary_basis_name :: "monetary_basis_status \<Rightarrow> string" where
  "monetary_basis_name MbNone = ''none''"
| "monetary_basis_name MbList = ''list''"
| "monetary_basis_name MbEstimated = ''estimated''"
| "monetary_basis_name MbProviderObserved = ''provider_observed''"
| "monetary_basis_name MbBilled = ''billed''"
| "monetary_basis_name MbEffective = ''effective''"
| "monetary_basis_name MbAllocated = ''allocated''"
| "monetary_basis_name MbFullCost = ''full_cost''"
| "monetary_basis_name MbMixed = ''mixed''"

fun finality_name :: "finality_status \<Rightarrow> string" where
  "finality_name FinUnknown = ''unknown''"
| "finality_name FinProvisional = ''provisional''"
| "finality_name FinFinal = ''final''"

fun fitness_name :: "fitness_status \<Rightarrow> string" where
  "fitness_name FitNotAssessed = ''not_assessed''"
| "fitness_name FitInsufficient = ''insufficient''"
| "fitness_name FitSufficient = ''sufficient''"

record claim_profile =
  pf_epistemic :: epistemic_state
  pf_integrity :: integrity_status
  pf_authenticity :: authenticity_status
  pf_scope :: scope_status
  pf_coverage :: coverage_status
  pf_measurement :: measurement_status
  pf_causality :: causality_status
  pf_basis :: monetary_basis_status
  pf_finality :: finality_status
  pf_fitness :: fitness_status

definition claim_profile :: "jsval \<Rightarrow> claim_profile res" where
  "claim_profile v =
     bindE (member_val epistemic_name epistemic_states ''epistemic state'' (field ''epistemic'' v)) (\<lambda>e.
     bindE (member_val integrity_name integrities ''integrity'' (field ''integrity'' v)) (\<lambda>i.
     bindE (member_val authenticity_name authenticities ''authenticity'' (field ''authenticity'' v)) (\<lambda>a.
     bindE (member_val scope_status_name scope_statuses ''scope'' (field ''scope'' v)) (\<lambda>s.
     bindE (member_val coverage_name coverages ''coverage'' (field ''coverage'' v)) (\<lambda>c.
     bindE (member_val measurement_name measurements ''measurement'' (field ''measurement'' v)) (\<lambda>m.
     bindE (member_val causality_name causalities ''causality'' (field ''causality'' v)) (\<lambda>ca.
     bindE (member_val monetary_basis_name monetary_bases ''monetary basis'' (field ''monetaryBasis'' v)) (\<lambda>b.
     bindE (member_val finality_name finalities ''finality'' (field ''finality'' v)) (\<lambda>f.
     bindE (member_val fitness_name fitnesses ''decision fitness'' (field ''decisionFitness'' v)) (\<lambda>d.
       Inr \<lparr>pf_epistemic = e, pf_integrity = i, pf_authenticity = a, pf_scope = s, pf_coverage = c,
            pf_measurement = m, pf_causality = ca, pf_basis = b, pf_finality = f, pf_fitness = d\<rparr>))))))))))"

text \<open>Every member is found under its own name.\<close>

lemma status_names_found [simp]:
  "member_val epistemic_name epistemic_states l (JStr (epistemic_name ep)) = Inr ep"
  "member_val integrity_name integrities l (JStr (integrity_name i)) = Inr i"
  "member_val authenticity_name authenticities l (JStr (authenticity_name au)) = Inr au"
  "member_val scope_status_name scope_statuses l (JStr (scope_status_name sc)) = Inr sc"
  "member_val coverage_name coverages l (JStr (coverage_name co)) = Inr co"
  "member_val measurement_name measurements l (JStr (measurement_name me)) = Inr me"
  "member_val causality_name causalities l (JStr (causality_name ca)) = Inr ca"
  "member_val monetary_basis_name monetary_bases l (JStr (monetary_basis_name mb)) = Inr mb"
  "member_val finality_name finalities l (JStr (finality_name fi)) = Inr fi"
  "member_val fitness_name fitnesses l (JStr (fitness_name ft)) = Inr ft"
proof -
  show "member_val epistemic_name epistemic_states l (JStr (epistemic_name ep)) = Inr ep" by (cases ep) (simp_all add: epistemic_states_def)
  show "member_val integrity_name integrities l (JStr (integrity_name i)) = Inr i" by (cases i) (simp_all add: integrities_def)
  show "member_val authenticity_name authenticities l (JStr (authenticity_name au)) = Inr au" by (cases au) (simp_all add: authenticities_def)
  show "member_val scope_status_name scope_statuses l (JStr (scope_status_name sc)) = Inr sc" by (cases sc) (simp_all add: scope_statuses_def)
  show "member_val coverage_name coverages l (JStr (coverage_name co)) = Inr co" by (cases co) (simp_all add: coverages_def)
  show "member_val measurement_name measurements l (JStr (measurement_name me)) = Inr me" by (cases me) (simp_all add: measurements_def)
  show "member_val causality_name causalities l (JStr (causality_name ca)) = Inr ca" by (cases ca) (simp_all add: causalities_def)
  show "member_val monetary_basis_name monetary_bases l (JStr (monetary_basis_name mb)) = Inr mb" by (cases mb) (simp_all add: monetary_bases_def)
  show "member_val finality_name finalities l (JStr (finality_name fi)) = Inr fi" by (cases fi) (simp_all add: finalities_def)
  show "member_val fitness_name fitnesses l (JStr (fitness_name ft)) = Inr ft" by (cases ft) (simp_all add: fitnesses_def)
qed

text \<open>\<open>Array.prototype.indexOf\<close>: the first position, or -1.\<close>

fun index_from :: "int \<Rightarrow> 'a list \<Rightarrow> 'a \<Rightarrow> int" where
  "index_from i [] x = - 1"
| "index_from i (y # ys) x = (if y = x then i else index_from (i + 1) ys x)"

definition index_of :: "'a list \<Rightarrow> 'a \<Rightarrow> int" where
  "index_of xs x = index_from 0 xs x"

definition weaker :: "'a list \<Rightarrow> 'a \<Rightarrow> 'a \<Rightarrow> 'a" where
  "weaker order a b = order ! nat (min (index_of order a) (index_of order b))"

definition merge_basis :: "monetary_basis_status \<Rightarrow> monetary_basis_status \<Rightarrow> monetary_basis_status" where
  "merge_basis a b = (if a = b then a else MbMixed)"

text \<open>The merged axes are members again, so the final \<open>claimProfile\<close> returns them as they are.\<close>

definition merge_claim_profiles :: "claim_profile \<Rightarrow> claim_profile \<Rightarrow> claim_profile" where
  "merge_claim_profiles a b =
     \<lparr>pf_epistemic = information_join (pf_epistemic a) (pf_epistemic b),
      pf_integrity = weaker integrities (pf_integrity a) (pf_integrity b),
      pf_authenticity = weaker authenticities (pf_authenticity a) (pf_authenticity b),
      pf_scope = weaker scope_statuses (pf_scope a) (pf_scope b),
      pf_coverage = weaker coverages (pf_coverage a) (pf_coverage b),
      pf_measurement = weaker measurements (pf_measurement a) (pf_measurement b),
      pf_causality = weaker causalities (pf_causality a) (pf_causality b),
      pf_basis = merge_basis (pf_basis a) (pf_basis b),
      pf_finality = weaker finalities (pf_finality a) (pf_finality b),
      pf_fitness = weaker fitnesses (pf_fitness a) (pf_fitness b)\<rparr>"


section \<open>The weaker of two guarantees\<close>

lemma index_from_member:
  "x \<in> set xs \<Longrightarrow> \<exists>k < length xs. index_from i xs x = i + int k \<and> xs ! k = x"
proof (induction xs arbitrary: i)
  case Nil
  then show ?case by simp
next
  case (Cons y ys)
  show ?case
  proof (cases "y = x")
    case True
    then show ?thesis by (intro exI [of _ 0]) simp
  next
    case False
    then obtain k where "k < length ys" "index_from (i + 1) ys x = i + 1 + int k" "ys ! k = x"
      using Cons.IH [of "i + 1"] Cons.prems by auto
    then show ?thesis using False by (intro exI [of _ "Suc k"]) simp
  qed
qed

lemma index_of_member: "x \<in> set xs \<Longrightarrow> 0 \<le> index_of xs x \<and> xs ! nat (index_of xs x) = x"
  using index_from_member [of x xs 0] by (auto simp: index_of_def)

lemma index_of_inj: "x \<in> set xs \<Longrightarrow> y \<in> set xs \<Longrightarrow> index_of xs x = index_of xs y \<longleftrightarrow> x = y"
  by (metis index_of_member)

lemma weaker_commute: "weaker order a b = weaker order b a"
  by (simp add: weaker_def min.commute)

lemma weaker_choice:
  assumes "a \<in> set order" "b \<in> set order"
  shows "weaker order a b = (if index_of order a \<le> index_of order b then a else b)"
  using index_of_member [OF assms(1)] index_of_member [OF assms(2)] by (simp add: weaker_def min_def)

lemma weaker_index:
  assumes "a \<in> set order" "b \<in> set order"
  shows "index_of order (weaker order a b) = min (index_of order a) (index_of order b)" "weaker order a b \<in> set order"
  using assms by (auto simp: weaker_choice min_def)

lemma weaker_idem: "a \<in> set order \<Longrightarrow> weaker order a a = a"
  by (simp add: weaker_choice)

lemma weaker_assoc:
  assumes "a \<in> set order" "b \<in> set order" "c \<in> set order"
  shows "weaker order (weaker order a b) c = weaker order a (weaker order b c)"
  unfolding weaker_def [of order "weaker order a b"] weaker_def [of order a "weaker order b c"]
  using assms by (simp add: weaker_index min.assoc)

lemma statuses_complete [simp]:
  "i \<in> set integrities"
  "au \<in> set authenticities"
  "sc \<in> set scope_statuses"
  "co \<in> set coverages"
  "me \<in> set measurements"
  "ca \<in> set causalities"
  "fi \<in> set finalities"
  "fd \<in> set fitnesses"
proof -
  show "i \<in> set integrities" by (cases i) (simp_all add: integrities_def)
  show "au \<in> set authenticities" by (cases au) (simp_all add: authenticities_def)
  show "sc \<in> set scope_statuses" by (cases sc) (simp_all add: scope_statuses_def)
  show "co \<in> set coverages" by (cases co) (simp_all add: coverages_def)
  show "me \<in> set measurements" by (cases me) (simp_all add: measurements_def)
  show "ca \<in> set causalities" by (cases ca) (simp_all add: causalities_def)
  show "fi \<in> set finalities" by (cases fi) (simp_all add: finalities_def)
  show "fd \<in> set fitnesses" by (cases fd) (simp_all add: fitnesses_def)
qed

text \<open>The assurance axes of \<open>a\<close> stand no higher than those of \<open>b\<close>.\<close>

definition no_stronger :: "claim_profile \<Rightarrow> claim_profile \<Rightarrow> bool" where
  "no_stronger a b =
     (index_of integrities (pf_integrity a) \<le> index_of integrities (pf_integrity b)
      \<and> index_of authenticities (pf_authenticity a) \<le> index_of authenticities (pf_authenticity b)
      \<and> index_of scope_statuses (pf_scope a) \<le> index_of scope_statuses (pf_scope b)
      \<and> index_of coverages (pf_coverage a) \<le> index_of coverages (pf_coverage b)
      \<and> index_of measurements (pf_measurement a) \<le> index_of measurements (pf_measurement b)
      \<and> index_of causalities (pf_causality a) \<le> index_of causalities (pf_causality b)
      \<and> index_of finalities (pf_finality a) \<le> index_of finalities (pf_finality b)
      \<and> index_of fitnesses (pf_fitness a) \<le> index_of fitnesses (pf_fitness b))"

lemma merge_basis_algebra:
  "merge_basis a b = merge_basis b a" "merge_basis (merge_basis a b) c = merge_basis a (merge_basis b c)"
  "merge_basis a a = a"
  by (auto simp: merge_basis_def)

lemma no_stronger_merge: "no_stronger c (merge_claim_profiles a b) \<longleftrightarrow> no_stronger c a \<and> no_stronger c b"
  by (simp add: no_stronger_def merge_claim_profiles_def weaker_index) blast

lemma no_stronger_refl [simp]: "no_stronger a a"
  by (simp add: no_stronger_def)

lemma aggregate_append: "aggregate_evidence (ps @ qs) = sup (aggregate_evidence ps) (aggregate_evidence qs)"
proof (induction qs rule: rev_induct)
  case Nil
  show ?case by (simp add: aggregate_evidence_def flip: bot_epistemic_state_def)
next
  case (snoc q qs)
  have step: "aggregate_evidence (rs @ [q]) = sup (aggregate_evidence rs) (state_from_polarity q)" for rs
    by (simp add: aggregate_evidence_def sup_epistemic_state_def)
  show ?case using step [of "ps @ qs"] step [of qs] snoc by (simp add: sup.assoc)
qed

lemma aggregate_polarity:
  "pol_support (state_polarity (aggregate_evidence ps)) \<longleftrightarrow> list_ex pol_support ps"
  "pol_refute (state_polarity (aggregate_evidence ps)) \<longleftrightarrow> list_ex pol_refute ps"
  by (induction ps rule: rev_induct) (auto simp: aggregate_evidence_def)

text \<open>Aggregating evidence is a homomorphism into the information semilattice: the outcome supports
  exactly when some record supports and refutes exactly when some record refutes, so no record is ever
  overwritten by another, and neither the order nor the multiplicity of the records matters.\<close>

theorem aggregate_evidence_retains_all:
  "(aggregate_evidence ps \<in> {ESupported, EConflicted} \<longleftrightarrow> list_ex pol_support ps)
    \<and> (aggregate_evidence ps \<in> {ERefuted, EConflicted} \<longleftrightarrow> list_ex pol_refute ps)
    \<and> aggregate_evidence (ps @ qs) = sup (aggregate_evidence ps) (aggregate_evidence qs)
    \<and> (set ps = set qs \<longrightarrow> aggregate_evidence ps = aggregate_evidence qs)"
proof -
  have s: "s \<in> {ESupported, EConflicted} \<longleftrightarrow> pol_support (state_polarity s)"
    "s \<in> {ERefuted, EConflicted} \<longleftrightarrow> pol_refute (state_polarity s)" for s by (cases s; simp)+
  have "aggregate_evidence ps = aggregate_evidence qs" if "set ps = set qs"
    using that by (intro state_eqI) (simp_all add: aggregate_polarity list_ex_iff)
  then show ?thesis unfolding s by (simp add: aggregate_polarity aggregate_append)
qed

theorem aggregate_evidence_retains_all_witness:
  "aggregate_evidence [\<lparr>pol_support = True, pol_refute = False\<rparr>, \<lparr>pol_support = False, pol_refute = True\<rparr>]
     = aggregate_evidence [\<lparr>pol_support = False, pol_refute = True\<rparr>, \<lparr>pol_support = True, pol_refute = False\<rparr>]"
  using aggregate_evidence_retains_all
    [of "[\<lparr>pol_support = True, pol_refute = False\<rparr>, \<lparr>pol_support = False, pol_refute = True\<rparr>]"
      "[\<lparr>pol_support = False, pol_refute = True\<rparr>, \<lparr>pol_support = True, pol_refute = False\<rparr>]"]
  by auto

text \<open>Merging profiles is a commutative, associative and idempotent conjunction: the merged profile
  is the greatest one that no axis of either input exceeds, it joins the epistemic states, and it keeps a
  monetary basis only when both inputs agree on it.\<close>

theorem merge_claim_profiles_conjunction:
  "merge_claim_profiles a b = merge_claim_profiles b a
    \<and> merge_claim_profiles (merge_claim_profiles a b) c = merge_claim_profiles a (merge_claim_profiles b c)
    \<and> merge_claim_profiles a a = a
    \<and> (no_stronger c (merge_claim_profiles a b) \<longleftrightarrow> no_stronger c a \<and> no_stronger c b)
    \<and> pf_epistemic (merge_claim_profiles a b) = sup (pf_epistemic a) (pf_epistemic b)
    \<and> (pf_basis (merge_claim_profiles a b) \<noteq> MbMixed \<longrightarrow>
         pf_basis a = pf_basis b \<and> pf_basis (merge_claim_profiles a b) = pf_basis a)"
proof -
  have "merge_claim_profiles a b = merge_claim_profiles b a"
    unfolding merge_claim_profiles_def
    by (simp add: weaker_commute merge_basis_algebra(1) sup_commute flip: sup_epistemic_state_def)
  moreover have "merge_claim_profiles (merge_claim_profiles a b) c = merge_claim_profiles a (merge_claim_profiles b c)"
    by (simp add: merge_claim_profiles_def weaker_assoc merge_basis_algebra(2) sup_assoc flip: sup_epistemic_state_def)
  moreover have "merge_claim_profiles a a = a"
    by (simp add: merge_claim_profiles_def weaker_idem merge_basis_algebra(3) flip: sup_epistemic_state_def)
  moreover have "pf_epistemic (merge_claim_profiles a b) = sup (pf_epistemic a) (pf_epistemic b)"
    "pf_basis (merge_claim_profiles a b) = merge_basis (pf_basis a) (pf_basis b)"
    by (simp_all add: merge_claim_profiles_def sup_epistemic_state_def)
  ultimately show ?thesis using no_stronger_merge unfolding merge_basis_def by metis
qed

definition strong_profile :: claim_profile where
  "strong_profile =
     \<lparr>pf_epistemic = ESupported, pf_integrity = IntVerified, pf_authenticity = AuthPinned, pf_scope = ScEstablished,
      pf_coverage = CovComplete, pf_measurement = MeasValidated, pf_causality = CauRandomized, pf_basis = MbBilled,
      pf_finality = FinFinal, pf_fitness = FitSufficient\<rparr>"

definition weak_profile :: claim_profile where
  "weak_profile = strong_profile\<lparr>pf_epistemic := ERefuted, pf_coverage := CovPartial\<rparr>"

theorem merge_claim_profiles_conjunction_witness:
  "pf_basis (merge_claim_profiles strong_profile weak_profile) = MbBilled
    \<and> pf_epistemic (merge_claim_profiles strong_profile weak_profile) = EConflicted"
proof -
  have "pf_basis (merge_claim_profiles strong_profile weak_profile) \<noteq> MbMixed"
    by (simp add: merge_claim_profiles_def merge_basis_def strong_profile_def weak_profile_def)
  then have "pf_basis (merge_claim_profiles strong_profile weak_profile) = pf_basis strong_profile"
    "pf_epistemic (merge_claim_profiles strong_profile weak_profile) = sup (pf_epistemic strong_profile) (pf_epistemic weak_profile)"
    using merge_claim_profiles_conjunction [of strong_profile weak_profile strong_profile] by blast+
  then show ?thesis
    by (simp add: strong_profile_def weak_profile_def sup_epistemic_state_def information_join_def state_from_polarity_def)
qed

end
