(* ===== verification/EpiScope.thy ===== *)
theory EpiScope
  imports JsValue
begin

text \<open>
  The coordinates of evidence and claims: scopes (\<open>src/src/epistemic/scope.ts\<close>) and grains
  (\<open>src/src/epistemic/grain.ts\<close>).  A scope is its list of constraints, sorted by key; its meaning is the
  map from keys to values, and the relations between scopes are proved to be those of the maps.
\<close>

section \<open>Scopes\<close>

type_synonym scope = "(string \<times> string) list"

datatype scope_relation = ScEqual | ScNarrower | ScBroader | ScDisjoint | ScOverlapping

fun duplicate_neighbour :: "string list \<Rightarrow> bool" where
  "duplicate_neighbour (x # y # xs) = (x = y \<or> duplicate_neighbour (y # xs))"
| "duplicate_neighbour _ = False"

text \<open>\<open>scope(input)\<close>; the argument is \<open>Object.entries(input)\<close>.\<close>

definition canonical_part :: "string \<Rightarrow> string \<Rightarrow> string res" where
  "canonical_part value label = non_empty (''scope '' @ label) value"

definition scope :: "(string \<Rightarrow> string \<Rightarrow> int) \<Rightarrow> (string \<times> string) list \<Rightarrow> scope res" where
  "scope lc entries =
     bindE (mapE (\<lambda>kv. bindE (canonical_part (fst kv) ''key'') (\<lambda>k.
                       bindE (canonical_part (snd kv) ''value'') (\<lambda>v. Inr (k, v)))) entries) (\<lambda>cs.
       let sorted = sort_by (\<lambda>a b. lc (fst a) (fst b)) cs
       in if duplicate_neighbour (map fst sorted) then Inl ''duplicate scope key'' else Inr sorted)"

definition same_scope :: "scope \<Rightarrow> scope \<Rightarrow> bool" where
  "same_scope a b = (length a = length b \<and> list_all2 (\<lambda>x y. fst x = fst y \<and> snd x = snd y) a b)"

text \<open>\<open>new Map(constraints)\<close>: the last constraint of a key wins.\<close>

definition constraint_map :: "scope \<Rightarrow> string \<Rightarrow> string option" where
  "constraint_map s = map_of (rev s)"

definition extends_scope :: "scope \<Rightarrow> scope \<Rightarrow> bool" where
  "extends_scope candidate base = list_all (\<lambda>c. constraint_map candidate (fst c) = Some (snd c)) base"

definition has_contradiction :: "scope \<Rightarrow> scope \<Rightarrow> bool" where
  "has_contradiction a b =
     list_ex (\<lambda>c. case constraint_map b (fst c) of None \<Rightarrow> False | Some other \<Rightarrow> other \<noteq> snd c) a"

definition scope_relation :: "scope \<Rightarrow> scope \<Rightarrow> scope_relation" where
  "scope_relation a b =
     (if same_scope a b then ScEqual
      else if has_contradiction a b then ScDisjoint
      else if extends_scope a b then ScNarrower
      else if extends_scope b a then ScBroader
      else ScOverlapping)"

definition scope_is_supported_by :: "scope \<Rightarrow> scope \<Rightarrow> bool" where
  "scope_is_supported_by claimed observed =
     (scope_relation claimed observed = ScEqual \<or> scope_relation claimed observed = ScBroader)"

section \<open>Grains\<close>

type_synonym grain = "string list"

datatype grain_relation = GrEqual | GrFiner | GrCoarser | GrIncomparable

definition grain :: "string list \<Rightarrow> grain res" where
  "grain dimensions =
     bindE (mapE (non_empty ''grain dimensions'') dimensions) (\<lambda>ds.
       if duplicate_neighbour (sort ds) then Inl ''duplicate grain dimension'' else Inr (sort ds))"

definition same_grain :: "grain \<Rightarrow> grain \<Rightarrow> bool" where
  "same_grain a b = (length a = length b \<and> list_all2 (=) a b)"

definition is_dimension_subset :: "grain \<Rightarrow> grain \<Rightarrow> bool" where
  "is_dimension_subset a b = list_all (\<lambda>d. d \<in> set b) a"

definition dimension_rollups :: "(string \<times> string) list" where
  "dimension_rollups =
     [(''billing_record'', ''billing_period''), (''provider_project_day_line_item'', ''provider_project_period'')]"

definition grain_rolls_up_into :: "string \<Rightarrow> string \<Rightarrow> bool" where
  "grain_rolls_up_into finer coarser =
     (finer \<noteq> coarser \<and> list_ex (\<lambda>p. fst p = finer \<and> snd p = coarser) dimension_rollups)"

definition grain_is_supported_by :: "grain \<Rightarrow> grain \<Rightarrow> bool" where
  "grain_is_supported_by claimed observed =
     list_all (\<lambda>d. d \<in> set observed \<or> list_ex (\<lambda>source. grain_rolls_up_into source d) observed) claimed"

definition grain_relation :: "grain \<Rightarrow> grain \<Rightarrow> grain_relation" where
  "grain_relation a b =
     (if same_grain a b then GrEqual
      else if is_dimension_subset b a then GrFiner
      else if is_dimension_subset a b then GrCoarser
      else GrIncomparable)"

section \<open>Scopes mean maps, grains mean sets\<close>

text \<open>The invariant of a constructed scope: distinct keys in collation order, nothing blank.\<close>

definition canonical_scope :: "(string \<Rightarrow> string \<Rightarrow> int) \<Rightarrow> scope \<Rightarrow> bool" where
  "canonical_scope lc s =
     (distinct (map fst s) \<and> sorted_wrt (\<lambda>a b. lc (fst a) (fst b) \<le> 0) s
      \<and> list_all (\<lambda>c. trim (fst c) = fst c \<and> fst c \<noteq> [] \<and> trim (snd c) = snd c \<and> snd c \<noteq> []) s)"

definition canonical_grain :: "grain \<Rightarrow> bool" where
  "canonical_grain g = (distinct g \<and> sorted g \<and> list_all (\<lambda>d. trim d = d \<and> d \<noteq> []) g)"

lemma duplicate_neighbour_sorted: "sorted xs \<Longrightarrow> duplicate_neighbour xs \<longleftrightarrow> \<not> distinct xs"
proof (induction xs rule: duplicate_neighbour.induct)
  case (1 x y xs)
  then have "x \<in> set xs \<longrightarrow> x = y" by (auto intro: order.antisym)
  then show ?case using 1 by auto
qed simp_all

lemma cmp_antisym: "comparator cmp \<Longrightarrow> cmp x y \<le> 0 \<Longrightarrow> cmp y x \<le> 0 \<Longrightarrow> cmp x y = 0"
  using comparator.cmp_swap [of cmp y x] by (auto simp: sgn_if split: if_splits)

lemma duplicate_neighbour_sorted_by:
  assumes "comparator cmp"
  shows "sorted_wrt (\<lambda>a b. cmp a b \<le> 0) xs \<Longrightarrow> (\<And>a b. a \<in> set xs \<Longrightarrow> b \<in> set xs \<Longrightarrow> cmp a b = 0 \<Longrightarrow> a = b)
    \<Longrightarrow> duplicate_neighbour xs \<longleftrightarrow> \<not> distinct xs"
proof (induction xs rule: duplicate_neighbour.induct)
  case (1 x y xs)
  have "x = y" if x: "x \<in> set xs"
  proof (rule 1(3))
    have "cmp x y \<le> 0" "cmp y x \<le> 0" using 1(2) x by simp_all
    then show "cmp x y = 0" by (rule cmp_antisym [OF assms])
  qed simp_all
  moreover have "duplicate_neighbour (y # xs) \<longleftrightarrow> \<not> distinct (y # xs)"
    using 1(2) by (intro 1(1) 1(3)) simp_all
  ultimately show ?case by auto
qed simp_all

lemma same_scope_iff [simp]: "same_scope a b \<longleftrightarrow> a = b"
proof -
  have "(\<lambda>x y :: string \<times> string. fst x = fst y \<and> snd x = snd y) = (=)" by (auto simp: fun_eq_iff prod_eq_iff)
  then show ?thesis by (auto simp: same_scope_def list.rel_eq)
qed

lemma same_grain_iff [simp]: "same_grain a b \<longleftrightarrow> a = b"
  by (auto simp: same_grain_def list.rel_eq)

lemma constraint_map_distinct: "distinct (map fst s) \<Longrightarrow> constraint_map s = map_of s"
  unfolding constraint_map_def by (subst map_of_inject_set) (simp_all add: rev_map [symmetric])

lemma extends_scope_iff:
  assumes "distinct (map fst a)" "distinct (map fst b)"
  shows "extends_scope a b \<longleftrightarrow> map_le (map_of b) (map_of a)"
  using assms
  by (auto simp: extends_scope_def constraint_map_distinct list_all_iff map_le_def dom_map_of_conv_image_fst)

lemma has_contradiction_iff:
  assumes "distinct (map fst a)" "distinct (map fst b)"
  shows "has_contradiction a b \<longleftrightarrow> (\<exists>k x y. map_of a k = Some x \<and> map_of b k = Some y \<and> x \<noteq> y)"
proof -
  have other: "(case map_of b k of None \<Rightarrow> False | Some other \<Rightarrow> other \<noteq> x) \<longleftrightarrow> (\<exists>y. map_of b k = Some y \<and> x \<noteq> y)" for k x
    by (cases "map_of b k") auto
  have member: "(k, x) \<in> set a \<longleftrightarrow> map_of a k = Some x" for k x using assms(1) by simp
  show ?thesis
    by (simp only: has_contradiction_def constraint_map_distinct [OF assms(2)] list_ex_iff Bex_def split_paired_Ex
        fst_conv snd_conv member other) simp
qed

lemma canonical_scope_eq:
  assumes "comparator lc" "canonical_scope lc a" "canonical_scope lc b"
    and "\<And>k k'. k \<in> fst ` set a \<Longrightarrow> k' \<in> fst ` set a \<Longrightarrow> lc k k' = 0 \<Longrightarrow> k = k'"
  shows "a = b \<longleftrightarrow> map_of a = map_of b"
proof
  assume m: "map_of a = map_of b"
  have d: "distinct (map fst a)" "distinct (map fst b)" using assms(2,3) by (simp_all add: canonical_scope_def)
  then have "set a = set b" using m by (metis map_of_eqI map_of_inject_set)
  then have "mset a = mset b" using d by (simp add: distinct_map set_eq_iff_mset_eq_distinct)
  then show "a = b"
    using assms comparator_key [OF assms(1), of fst] d(1)
    by (intro comparator.sorted_unique [of "\<lambda>a b. lc (fst a) (fst b)"])
      (auto simp: canonical_scope_def distinct_map inj_on_def)
qed simp

text \<open>On constructed scopes whose keys the collation tells apart, the relation of two scopes is the
  relation of the maps they stand for, and a scope is supported by exactly those observations whose
  constraints include its own: a claim may drop constraints of its evidence and never add or alter one.\<close>

theorem scope_relation_is_map_relation:
  assumes "comparator lc" "canonical_scope lc a" "canonical_scope lc b"
    and "\<And>k k'. k \<in> fst ` set a \<Longrightarrow> k' \<in> fst ` set a \<Longrightarrow> lc k k' = 0 \<Longrightarrow> k = k'"
  shows "scope_relation a b =
      (if map_of a = map_of b then ScEqual
       else if \<exists>k x y. map_of a k = Some x \<and> map_of b k = Some y \<and> x \<noteq> y then ScDisjoint
       else if map_le (map_of b) (map_of a) then ScNarrower
       else if map_le (map_of a) (map_of b) then ScBroader else ScOverlapping)
    \<and> (scope_is_supported_by a b \<longleftrightarrow> map_le (map_of a) (map_of b))"
proof -
  have d: "distinct (map fst a)" "distinct (map fst b)" using assms(2,3) by (simp_all add: canonical_scope_def)
  have same: "a = b \<longleftrightarrow> map_of a = map_of b"
    by (rule canonical_scope_eq [OF assms(1-3)]) (rule assms(4))
  have eq: "scope_relation a b =
      (if map_of a = map_of b then ScEqual
       else if \<exists>k x y. map_of a k = Some x \<and> map_of b k = Some y \<and> x \<noteq> y then ScDisjoint
       else if map_le (map_of b) (map_of a) then ScNarrower
       else if map_le (map_of a) (map_of b) then ScBroader else ScOverlapping)"
    by (simp only: scope_relation_def same_scope_iff has_contradiction_iff [OF d] extends_scope_iff [OF d]
        extends_scope_iff [OF d(2,1)] same)
  have "\<not> (\<exists>k x y. map_of a k = Some x \<and> map_of b k = Some y \<and> x \<noteq> y)" if "map_le (map_of a) (map_of b)"
    using that by (auto simp: map_le_def dom_def)
  moreover have "map_of a = map_of b" if "map_le (map_of a) (map_of b)" "map_le (map_of b) (map_of a)"
    using that by (rule map_le_antisym)
  ultimately have "scope_is_supported_by a b \<longleftrightarrow> map_le (map_of a) (map_of b)"
    unfolding scope_is_supported_by_def eq by (cases "map_of a = map_of b") (simp, auto)
  then show ?thesis using eq by blast
qed

theorem scope_relation_is_map_relation_witness:
  "scope_is_supported_by [(''a'', ''1'')] [(''a'', ''1''), (''b'', ''2'')]
    \<and> scope_relation [(''a'', ''1'')] [(''a'', ''1''), (''b'', ''2'')] = ScBroader"
proof -
  have c: "canonical_scope code_unit_cmp [(''a'', ''1'')]" "canonical_scope code_unit_cmp [(''a'', ''1''), (''b'', ''2'')]"
    by code_simp+
  have le: "map_le (map_of [(''a'', ''1'')]) (map_of [(''a'', ''1''), (''b'', ''2'')])"
    by (simp add: map_le_def)
  have "scope_is_supported_by [(''a'', ''1'')] [(''a'', ''1''), (''b'', ''2'')]"
    using scope_relation_is_map_relation [OF code_units.comparator_axioms c] le by simp
  moreover have "scope_relation [(''a'', ''1'')] [(''a'', ''1''), (''b'', ''2'')] = ScBroader" by code_simp
  ultimately show ?thesis by blast
qed

section \<open>Constructed coordinates\<close>

lemma scope_entry_Inr:
  "bindE (canonical_part k ''key'') (\<lambda>k. bindE (canonical_part v ''value'') (\<lambda>v. Inr (k, v))) = Inr c
    \<longleftrightarrow> trim k \<noteq> [] \<and> trim v \<noteq> [] \<and> c = (trim k, trim v)"
  by (auto simp: canonical_part_def non_empty_def)

lemma scope_Inr:
  assumes "comparator lc" "scope lc entries = Inr s"
    and "\<And>k k'. k \<in> fst ` set s \<Longrightarrow> k' \<in> fst ` set s \<Longrightarrow> lc k k' = 0 \<Longrightarrow> k = k'"
  shows "canonical_scope lc s \<and> mset s = mset (map (\<lambda>kv. (trim (fst kv), trim (snd kv))) entries)"
proof -
  let ?f = "\<lambda>kv. bindE (canonical_part (fst kv) ''key'') (\<lambda>k. bindE (canonical_part (snd kv) ''value'') (\<lambda>v. Inr (k, v)))"
  let ?g = "\<lambda>kv :: string \<times> string. (trim (fst kv), trim (snd kv))"
  let ?cmp = "\<lambda>a b :: string \<times> string. lc (fst a) (fst b)"
  obtain cs where cs: "mapE ?f entries = Inr cs" "s = sort_by ?cmp cs" "\<not> duplicate_neighbour (map fst s)"
    using assms(2) by (auto simp: scope_def Let_def simp del: bindE_Inr_iff split: if_splits)
  have "cs = map ?g entries"
    by (rule nth_equalityI) (use mapE_length [OF cs(1)] mapE_nth [OF cs(1)] in \<open>simp_all only: scope_entry_Inr length_map nth_map\<close>)
  moreover have nonblank: "\<forall>kv \<in> set entries. trim (fst kv) \<noteq> [] \<and> trim (snd kv) \<noteq> []"
    using mapE_set_conv [OF cs(1)] unfolding scope_entry_Inr by blast
  moreover have sorted: "sorted_wrt (\<lambda>a b. ?cmp a b \<le> 0) s"
    unfolding cs(2) by (rule comparator.sorted_sort_by [OF comparator_key [OF assms(1)]])
  moreover have "distinct (map fst s)"
    using duplicate_neighbour_sorted_by [OF assms(1), of "map fst s"] sorted cs(3) assms(3)
    by (simp add: sorted_wrt_map)
  ultimately show ?thesis by (auto simp: canonical_scope_def list_all_iff cs(2))
qed

lemma grain_cases:
  "grain ds = (if (\<exists>d \<in> set ds. trim d = []) then Inl ''grain dimensions must be non-empty''
     else if \<not> distinct (map trim ds) then Inl ''duplicate grain dimension'' else Inr (sort (map trim ds)))"
proof -
  have "mapE (non_empty l) ds = (if \<exists>d \<in> set ds. trim d = [] then Inl (l @ '' must be non-empty'') else Inr (map trim ds))" for l
    by (induction ds) (auto simp: non_empty_def)
  then show ?thesis by (simp add: grain_def duplicate_neighbour_sorted)
qed

section \<open>Grain support\<close>

lemma grain_rollups: "grain_rolls_up_into x y \<longleftrightarrow> (x, y) \<in> set dimension_rollups"
  by (auto simp: grain_rolls_up_into_def dimension_rollups_def)

lemma rollups_one_level: "(x, y) \<in> set dimension_rollups \<Longrightarrow> (z, x) \<notin> set dimension_rollups"
  by (auto simp: dimension_rollups_def)

lemma grain_is_supported_by_iff:
  "grain_is_supported_by a b \<longleftrightarrow> (\<forall>d \<in> set a. d \<in> set b \<or> (\<exists>s \<in> set b. (s, d) \<in> set dimension_rollups))"
  by (simp add: grain_is_supported_by_def list_all_iff list_ex_iff grain_rollups)

text \<open>Support between grains is reflexive and transitive, so a chain of claims cannot reach a grain
  its first evidence does not support; evidence of an equal or finer grain always supports a claim; and
  no roll-up can be undone, a claim at the finer dimension is never supported by the coarser one.\<close>

theorem grain_support_composes:
  "grain_is_supported_by a a
    \<and> (grain_is_supported_by a b \<longrightarrow> grain_is_supported_by b c \<longrightarrow> grain_is_supported_by a c)
    \<and> (grain_relation b a \<in> {GrEqual, GrFiner} \<longrightarrow> grain_is_supported_by a b)
    \<and> (grain_rolls_up_into x y \<longrightarrow> grain_is_supported_by [y] [x] \<and> \<not> grain_is_supported_by [x] [y])"
proof -
  have "grain_is_supported_by a c" if "grain_is_supported_by a b" "grain_is_supported_by b c"
    using that rollups_one_level unfolding grain_is_supported_by_iff by metis
  moreover have "grain_is_supported_by a b" if "grain_relation b a \<in> {GrEqual, GrFiner}"
    using that by (auto simp: grain_relation_def is_dimension_subset_def list_all_iff grain_is_supported_by_iff split: if_splits)
  moreover have "grain_is_supported_by [y] [x] \<and> \<not> grain_is_supported_by [x] [y]" if "grain_rolls_up_into x y"
    using that rollups_one_level [of x y y] rollups_one_level [of x y x]
    by (auto simp: grain_is_supported_by_iff grain_rollups grain_rolls_up_into_def)
  ultimately show ?thesis by (simp add: grain_is_supported_by_iff)
qed

theorem grain_support_composes_witness:
  "\<not> grain_is_supported_by [''billing_record''] [''billing_period'']
    \<and> grain_is_supported_by [''billing_period''] [''billing_record'', ''day'']"
proof -
  have "grain_rolls_up_into ''billing_record'' ''billing_period''" by code_simp
  moreover have "grain_relation [''billing_record'', ''day''] [''billing_record''] \<in> {GrEqual, GrFiner}" by code_simp
  ultimately show ?thesis
    using grain_support_composes [of "[''billing_period'']" "[''billing_record'']" "[''billing_record'', ''day'']" "''billing_record''" "''billing_period''"]
      grain_support_composes [of "[''billing_record'']" "[''billing_record'', ''day'']" "[]" "[]" "[]"] by blast
qed

end
