(* ===== verification/Worklist.thy ===== *)
theory Worklist
  imports Prelude
begin

text \<open>
  The breadth-first loops of the kernel (\<open>revocationClosure\<close>, \<open>traverse\<close>, \<open>projectRevocation\<close>): a queue
  read by a cursor, a collection of the nodes already seen, and a body that pushes every neighbour not
  yet seen.  \<open>push_new\<close> is the body of such a loop.  The locale \<open>worklist\<close> states what a loop must satisfy
  and proves once what it computes: exactly the nodes reachable from the queue.
\<close>

section \<open>The body of the loops\<close>

definition push_new :: "('s \<Rightarrow> 'a list) \<Rightarrow> ('a \<Rightarrow> 's \<Rightarrow> 's) \<Rightarrow> 'a list \<Rightarrow> 'a list \<times> 's \<Rightarrow> 'a list \<times> 's" where
  "push_new seen mark ds r =
     foldl (\<lambda>(q, s) d. if d \<in> set (seen s) then (q, s) else (q @ [d], mark d s)) r ds"

lemma push_new_Nil [simp]: "push_new seen mark [] r = r"
  by (simp add: push_new_def)

lemma push_new_Cons:
  "push_new seen mark (d # ds) (q, s) =
     push_new seen mark ds (if d \<in> set (seen s) then (q, s) else (q @ [d], mark d s))"
  by (simp add: push_new_def)

lemma push_new_result:
  assumes mark: "\<And>d s. set (seen (mark d s)) = insert d (set (seen s))"
  shows "set (seen (snd (push_new seen mark ds (q, s)))) = set (seen s) \<union> set ds
    \<and> set (fst (push_new seen mark ds (q, s))) = set q \<union> (set ds - set (seen s))"
proof (induction ds arbitrary: q s)
  case Nil
  show ?case by simp
next
  case (Cons d ds)
  show ?case using Cons by (auto simp: push_new_Cons mark)
qed

lemma push_new_invariant:
  assumes "P q s" "\<And>q s d. d \<in> set ds \<Longrightarrow> d \<notin> set (seen s) \<Longrightarrow> P q s \<Longrightarrow> P (q @ [d]) (mark d s)"
  shows "P (fst (push_new seen mark ds (q, s))) (snd (push_new seen mark ds (q, s)))"
  using assms
proof (induction ds arbitrary: q s)
  case Nil
  then show ?case by simp
next
  case (Cons d ds)
  show ?case
  proof (cases "d \<in> set (seen s)")
    case True
    then show ?thesis using Cons.IH [OF Cons.prems(1)] Cons.prems(2) by (simp add: push_new_Cons)
  next
    case False
    then have "P (q @ [d]) (mark d s)" using Cons.prems by simp
    then show ?thesis using Cons.IH [of "q @ [d]" "mark d s"] Cons.prems(2) False by (simp add: push_new_Cons)
  qed
qed

text \<open>What every pass consumes: it marks a new node of \<open>U\<close> or leaves the queue one shorter.\<close>

definition pass_order :: "(('a set \<times> nat) \<times> ('a set \<times> nat)) set" where
  "pass_order = finite_psubset <*lex*> less_than"

lemma wf_pass_order [simp]: "wf pass_order"
  by (simp add: pass_order_def wf_finite_psubset wf_lex_prod)

lemma push_new_decreases:
  assumes mark: "\<And>d s. set (seen (mark d s)) = insert d (set (seen s))" and "finite U" "set ds \<subseteq> U"
  shows "((U - set (seen (snd (push_new seen mark ds (q, s)))), length (fst (push_new seen mark ds (q, s)))),
      U - set (seen s), length (n # q)) \<in> pass_order"
proof (cases "set ds \<subseteq> set (seen s)")
  case True
  have "push_new seen mark ds (q, s) = (q, s)"
    using True by (induction ds) (simp_all add: push_new_Cons)
  then show ?thesis by (simp add: pass_order_def)
next
  case False
  then have "U - set (seen (snd (push_new seen mark ds (q, s)))) \<subset> U - set (seen s)"
    using push_new_result [of seen mark ds q s, OF mark] assms(3) by blast
  then show ?thesis using assms(2) by (simp add: pass_order_def finite_psubset_def)
qed

section \<open>What the loops compute\<close>

definition edges_of :: "('a \<Rightarrow> 'a list) \<Rightarrow> ('a \<times> 'a) set" where
  "edges_of succs = {(x, y). y \<in> set (succs x)}"

lemma edges_of_iff [simp]: "(x, y) \<in> edges_of succs \<longleftrightarrow> y \<in> set (succs x)"
  by (simp add: edges_of_def)

locale worklist =
  fixes succs :: "'a \<Rightarrow> 'a list" and seen :: "'s \<Rightarrow> 'a list" and mark :: "'a \<Rightarrow> 'a \<Rightarrow> 's \<Rightarrow> 's"
    and loop :: "'a list \<Rightarrow> 's \<Rightarrow> 's"
  assumes mark: "set (seen (mark p c s)) = insert c (set (seen s))"
    and finite_succs: "finite (\<Union>x. set (succs x))"
    and loop_Nil: "loop [] s = s"
    and loop_Cons: "loop (n # q) s =
      (let r = push_new seen (mark n) (succs n) (q, s) in loop (fst r) (snd r))"
begin

text \<open>Induction over the passes of the loop.\<close>

lemma loop_invariant:
  assumes "P q s"
    and pass: "\<And>n q s. P (n # q) s \<Longrightarrow>
      P (fst (push_new seen (mark n) (succs n) (q, s))) (snd (push_new seen (mark n) (succs n) (q, s)))"
  shows "P [] (loop q s)"
  using assms(1)
proof (induction "((\<Union>x. set (succs x)) - set (seen s), length q)" arbitrary: q s
    rule: wf_induct_rule [OF wf_pass_order])
  case 1
  show ?case
  proof (cases q)
    case Nil
    then show ?thesis using 1(2) by (simp add: loop_Nil)
  next
    case (Cons n q')
    let ?r = "push_new seen (mark n) (succs n) (q', s)"
    have "set (succs n) \<subseteq> (\<Union>x. set (succs x))" by blast
    from push_new_decreases [of seen "mark n", OF mark finite_succs this]
    have "P [] (loop (fst ?r) (snd ?r))"
      using 1(1) [of "snd ?r" "fst ?r"] pass [of n q' s] 1(2) Cons by simp
    then show ?thesis using Cons by (simp add: loop_Cons Let_def)
  qed
qed

lemma search:
  assumes "\<forall>x \<in> set (seen s) - set q. set (succs x) \<subseteq> set (seen s)"
  shows "set (seen (loop q s)) = set (seen s) \<union> {y. \<exists>x \<in> set q. (x, y) \<in> (edges_of succs)\<^sup>+}"
proof -
  let ?P = "\<lambda>q' s'. (\<forall>x \<in> set (seen s') - set q'. set (succs x) \<subseteq> set (seen s'))
    \<and> set (seen s') \<union> {y. \<exists>x \<in> set q'. (x, y) \<in> (edges_of succs)\<^sup>+} = set (seen s) \<union> {y. \<exists>x \<in> set q. (x, y) \<in> (edges_of succs)\<^sup>+}"
  have "?P [] (loop q s)"
  proof (rule loop_invariant)
    show "?P q s" using assms by blast
  next
    fix n q' s'
    assume P: "?P (n # q') s'"
    let ?r = "push_new seen (mark n) (succs n) (q', s')"
    have r: "set (seen (snd ?r)) = set (seen s') \<union> set (succs n)"
      "set (fst ?r) = set q' \<union> (set (succs n) - set (seen s'))"
      using push_new_result [of seen "mark n" "succs n" q' s', OF mark] by simp_all
    have closed: "\<forall>x \<in> set (seen (snd ?r)) - set (fst ?r). set (succs x) \<subseteq> set (seen (snd ?r))"
    proof
      fix x assume x: "x \<in> set (seen (snd ?r)) - set (fst ?r)"
      show "set (succs x) \<subseteq> set (seen (snd ?r))"
      proof (cases "x = n")
        case False
        then have "x \<in> set (seen s') - set (n # q')" using x r by auto
        then show ?thesis using P r(1) by blast
      qed (use r(1) in simp)
    qed
    have stays: "y \<in> set (seen (snd ?r)) \<union> {y. \<exists>x \<in> set (fst ?r). (x, y) \<in> (edges_of succs)\<^sup>+}"
      if "(n, y) \<in> (edges_of succs)\<^sup>+" for y
      using that
    proof (induction rule: trancl_induct)
      case (base z)
      then show ?case using r(1) by simp
    next
      case (step y z)
      show ?case
      proof (cases "y \<in> set (seen (snd ?r)) \<and> y \<notin> set (fst ?r)")
        case True
        then show ?thesis using closed step(2) by auto
      next
        case False
        then have "\<exists>x \<in> set (fst ?r). (x, z) \<in> (edges_of succs)\<^sup>+"
          using step(2,3) by (blast intro: trancl_into_trancl)
        then show ?thesis by blast
      qed
    qed
    have "set (seen (snd ?r)) \<union> {y. \<exists>x \<in> set (fst ?r). (x, y) \<in> (edges_of succs)\<^sup>+}
        = set (seen s') \<union> {y. \<exists>x \<in> set (n # q'). (x, y) \<in> (edges_of succs)\<^sup>+}"
    proof
      show "set (seen (snd ?r)) \<union> {y. \<exists>x \<in> set (fst ?r). (x, y) \<in> (edges_of succs)\<^sup>+}
          \<subseteq> set (seen s') \<union> {y. \<exists>x \<in> set (n # q'). (x, y) \<in> (edges_of succs)\<^sup>+}"
        using r by (auto intro: trancl_into_trancl2)
      show "set (seen s') \<union> {y. \<exists>x \<in> set (n # q'). (x, y) \<in> (edges_of succs)\<^sup>+}
          \<subseteq> set (seen (snd ?r)) \<union> {y. \<exists>x \<in> set (fst ?r). (x, y) \<in> (edges_of succs)\<^sup>+}"
        using r stays by auto
    qed
    then show "?P (fst ?r) (snd ?r)" using closed P by blast
  qed
  then show ?thesis by auto
qed

text \<open>The two ways the loops start: with the roots seen, or with one unseen start node.\<close>

lemma search_roots:
  assumes "set (seen s) = set q"
  shows "set (seen (loop q s)) = {y. \<exists>x \<in> set q. (x, y) \<in> (edges_of succs)\<^sup>*}"
proof -
  have "set (seen (loop q s)) = set q \<union> {y. \<exists>x \<in> set q. (x, y) \<in> (edges_of succs)\<^sup>+}"
    using search [of s q] assms by simp
  also have "\<dots> = {y. \<exists>x \<in> set q. (x, y) \<in> (edges_of succs)\<^sup>*}" by (auto simp: rtrancl_eq_or_trancl)
  finally show ?thesis .
qed

lemma search_start: "seen s = [] \<Longrightarrow> set (seen (loop [a] s)) = {y. (a, y) \<in> (edges_of succs)\<^sup>+}"
  using search [of s "[a]"] by simp

end

end
