(* ===== verification/Revocation.thy ===== *)
theory Revocation
  imports Worklist JsValue
begin

text \<open>
  Revocation closure over a dependency graph (\<open>src/src/epistemic/revocation.ts\<close>).  The \<open>Map\<close> from a node
  to its \<open>Set\<close> of direct dependents is an association list of lists.
\<close>

type_synonym graph = "(string \<times> string list) list"

definition targets :: "graph \<Rightarrow> string \<Rightarrow> string list" where
  "targets g n = (case map_of g n of None \<Rightarrow> [] | Some ts \<Rightarrow> ts)"

text \<open>\<open>typeof v === 'object' && v !== null\<close>: an array passes too.\<close>

fun object_or_array :: "jsval \<Rightarrow> bool" where
  "object_or_array (JObj fs) = True"
| "object_or_array (JArr vs) = True"
| "object_or_array _ = False"

text \<open>One edge of \<open>validateGraph\<close>; an array has no \<open>from\<close>.\<close>

definition add_edge :: "graph \<Rightarrow> jsval \<Rightarrow> graph res" where
  "add_edge g v =
     (if \<not> object_or_array v then Inl ''dependency edge must be an object''
      else bindE (non_empty_val ''dependency edge from'' (field ''from'' v)) (\<lambda>f.
           bindE (non_empty_val ''dependency edge to'' (field ''to'' v)) (\<lambda>t.
             if t \<in> set (targets g f) then Inl ''duplicate dependency edge''
             else Inr (AList.update f (targets g f @ [t]) g))))"

definition validate_graph :: "jsval \<Rightarrow> graph res" where
  "validate_graph v =
     (case v of JArr vs \<Rightarrow> foldE add_edge [] vs | _ \<Rightarrow> Inl ''dependency graph must be an array'')"

text \<open>The loop over \<open>revokedNodes\<close>: each id once, in the order given.\<close>

definition revoked_roots :: "jsval list \<Rightarrow> string list res" where
  "revoked_roots vs = foldE (\<lambda>seen v. bindE (non_empty_val ''revoked node'' v) (\<lambda>i. Inr (set_add i seen))) [] vs"

lemma finite_targets: "finite (\<Union>x. set (targets g x))"
proof (rule finite_subset)
  show "(\<Union>x. set (targets g x)) \<subseteq> (\<Union>p \<in> set g. set (snd p))"
  proof
    fix y assume "y \<in> (\<Union>x. set (targets g x))"
    then obtain x where "y \<in> set (targets g x)" by blast
    then obtain ts where "map_of g x = Some ts" "y \<in> set ts" by (cases "map_of g x") (auto simp: targets_def)
    then show "y \<in> (\<Union>p \<in> set g. set (snd p))" by (force dest: map_of_SomeD)
  qed
qed simp

text \<open>The queue and the set \<open>revoked\<close>, which lists the revoked ids in the order they were added.\<close>

function revoke_loop :: "graph \<Rightarrow> string list \<Rightarrow> string list \<Rightarrow> string list" where
  "revoke_loop g [] revoked = revoked"
| "revoke_loop g (n # q) revoked =
     (let r = push_new (\<lambda>s. s) (\<lambda>d s. s @ [d]) (targets g n) (q, revoked)
      in revoke_loop g (fst r) (snd r))"
  by pat_completeness auto
termination
proof (relation "inv_image pass_order (\<lambda>(g, q, seen). ((\<Union>x. set (targets g x)) - set seen, length q))")
  show "wf (inv_image pass_order (\<lambda>(g, q, seen). ((\<Union>x. set (targets g x)) - set seen, length q)))"
    by simp
  fix g :: graph and n q revoked and r :: "string list \<times> string list"
  assume r: "r = push_new (\<lambda>s. s) (\<lambda>d s. s @ [d]) (targets g n) (q, revoked)"
  have "set (targets g n) \<subseteq> (\<Union>x. set (targets g x))" by blast
  from push_new_decreases [of "\<lambda>s. s" "\<lambda>d s. s @ [d]", OF _ finite_targets this]
  show "((g, fst r, snd r), g, n # q, revoked) \<in> inv_image pass_order (\<lambda>(g, q, seen). ((\<Union>x. set (targets g x)) - set seen, length q))"
    by (simp add: r case_prod_unfold)
qed

definition revocation_closure :: "(string \<Rightarrow> string \<Rightarrow> int) \<Rightarrow> jsval \<Rightarrow> jsval \<Rightarrow> string list res" where
  "revocation_closure lc revoked graph =
     (case revoked of JArr vs \<Rightarrow>
        bindE (validate_graph graph) (\<lambda>g.
        bindE (revoked_roots vs) (\<lambda>roots. Inr (sort_by lc (revoke_loop g roots roots))))
      | _ \<Rightarrow> Inl ''revoked nodes must be an array'')"

section \<open>The closure is the set of reachable dependents\<close>

interpretation revoke: worklist "targets g" "\<lambda>s. s" "\<lambda>p d s. s @ [d]" "revoke_loop g" for g
  by unfold_locales (auto simp: finite_targets)

lemma revoke_loop_distinct: "distinct s \<Longrightarrow> distinct (revoke_loop g q s)"
proof (rule revoke.loop_invariant [where P = "\<lambda>q s. distinct s"])
  fix n q and s :: "string list"
  assume "distinct s"
  then show "distinct (snd (push_new (\<lambda>s. s) (\<lambda>d s. s @ [d]) (targets g n) (q, s)))"
    by (rule push_new_invariant [where P = "\<lambda>q s. distinct s"]) simp
qed

lemma targets_update: "targets (AList.update f ts g) n = (if n = f then ts else targets g n)"
  by (simp add: targets_def update_conv)

definition edge_value :: "string \<times> string \<Rightarrow> jsval" where
  "edge_value e = JObj [(''from'', JStr (fst e)), (''to'', JStr (snd e))]"

definition trim_edge :: "string \<times> string \<Rightarrow> string \<times> string" where
  "trim_edge e = (trim (fst e), trim (snd e))"

lemma add_edges:
  assumes "\<forall>e \<in> set es. trim (fst e) \<noteq> [] \<and> trim (snd e) \<noteq> []"
    and "distinct (map trim_edge es)" "set (map trim_edge es) \<inter> edges_of (targets g) = {}"
  shows "\<exists>g'. foldE add_edge g (map edge_value es) = Inr g'
    \<and> edges_of (targets g') = edges_of (targets g) \<union> set (map trim_edge es)"
  using assms
proof (induction es arbitrary: g)
  case Nil
  then show ?case by simp
next
  case (Cons e es)
  let ?f = "trim (fst e)" and ?t = "trim (snd e)"
  let ?g = "AList.update ?f (targets g ?f @ [?t]) g"
  have new: "?t \<notin> set (targets g ?f)" using Cons.prems(3) by (simp add: trim_edge_def)
  then have step: "add_edge g (edge_value e) = Inr ?g"
    using Cons.prems(1) by (simp add: add_edge_def edge_value_def non_empty_def)
  have edges: "edges_of (targets ?g) = insert (trim_edge e) (edges_of (targets g))"
    by (auto simp: edges_of_def targets_update trim_edge_def split: if_splits)
  have "\<exists>g'. foldE add_edge ?g (map edge_value es) = Inr g'
      \<and> edges_of (targets g') = edges_of (targets ?g) \<union> set (map trim_edge es)"
    using Cons.prems by (intro Cons.IH) (auto simp: edges)
  then show ?case by (auto simp: step edges)
qed

lemma revoked_roots_strings:
  assumes "\<forall>r \<in> set rs. trim r \<noteq> []"
  shows "revoked_roots (map JStr rs) = Inr (to_set (map trim rs))"
proof -
  have "foldE (\<lambda>seen v. bindE (non_empty_val ''revoked node'' v) (\<lambda>i. Inr (set_add i seen))) acc (map JStr rs)
      = Inr (fold set_add (map trim rs) acc)" for acc
    using assms by (induction rs arbitrary: acc) (simp_all add: non_empty_def)
  then show ?thesis by (simp add: revoked_roots_def to_set_def)
qed

lemma revocation_closure_total:
  assumes "\<forall>r \<in> set rs. trim r \<noteq> []" "\<forall>e \<in> set es. trim (fst e) \<noteq> [] \<and> trim (snd e) \<noteq> []"
    and "distinct (map trim_edge es)"
  shows "\<exists>ids. revocation_closure lc (JArr (map JStr rs)) (JArr (map edge_value es)) = Inr ids
    \<and> set ids = {y. \<exists>r \<in> set rs. (trim r, y) \<in> (set (map trim_edge es))\<^sup>*} \<and> distinct ids
    \<and> (comparator lc \<longrightarrow> sorted_wrt (\<lambda>a b. lc a b \<le> 0) ids)"
proof -
  have "edges_of (targets []) = {}" by (simp add: edges_of_def targets_def)
  with add_edges [OF assms(2,3), of "[]"] obtain g where
    g: "validate_graph (JArr (map edge_value es)) = Inr g" "edges_of (targets g) = set (map trim_edge es)"
    by (auto simp: validate_graph_def)
  let ?roots = "to_set (map trim rs)"
  have "set (revoke_loop g ?roots ?roots) = {y. \<exists>r \<in> set ?roots. (r, y) \<in> (edges_of (targets g))\<^sup>*}"
    by (rule revoke.search_roots) simp
  moreover have "distinct (revoke_loop g ?roots ?roots)" by (rule revoke_loop_distinct) simp
  ultimately show ?thesis
    by (simp add: revocation_closure_def g revoked_roots_strings [OF assms(1)] comparator.sorted_sort_by)
qed

text \<open>C22: revocation terminates on every graph, cyclic or not, and returns exactly the revoked nodes and
  their transitive dependents, each once and in collation order: a branch that no path links to a revoked
  node stays outside.\<close>

theorem revocation_closure_is_reachability:
  assumes "comparator lc" "\<forall>r \<in> set rs. trim r \<noteq> []" "\<forall>e \<in> set es. trim (fst e) \<noteq> [] \<and> trim (snd e) \<noteq> []"
    and "distinct (map trim_edge es)"
  shows "\<exists>ids. revocation_closure lc (JArr (map JStr rs)) (JArr (map edge_value es)) = Inr ids
    \<and> set ids = {y. \<exists>r \<in> set rs. (trim r, y) \<in> (set (map trim_edge es))\<^sup>*} \<and> distinct ids
    \<and> sorted_wrt (\<lambda>a b. lc a b \<le> 0) ids"
  using revocation_closure_total [OF assms(2-4), of lc] assms(1) by blast

theorem revocation_closure_is_reachability_witness:
  "\<exists>ids. revocation_closure code_unit_cmp (JArr [JStr ''b'']) (JArr (map edge_value [(''a'', ''b''), (''b'', ''c''), (''c'', ''b'')])) = Inr ids
    \<and> set ids = {y. (''b'', y) \<in> {(''a'', ''b''), (''b'', ''c''), (''c'', ''b'')}\<^sup>*}"
proof -
  have "\<exists>ids. revocation_closure code_unit_cmp (JArr (map JStr [''b''])) (JArr (map edge_value [(''a'', ''b''), (''b'', ''c''), (''c'', ''b'')])) = Inr ids
      \<and> set ids = {y. \<exists>r \<in> set [''b'']. (trim r, y) \<in> (set (map trim_edge [(''a'', ''b''), (''b'', ''c''), (''c'', ''b'')]))\<^sup>*}
      \<and> distinct ids \<and> sorted_wrt (\<lambda>a b. code_unit_cmp a b \<le> 0) ids"
    by (rule revocation_closure_is_reachability [OF code_units.comparator_axioms])
      (simp_all add: trim_edge_def trim_def js_space_def)
  then show ?thesis by (auto simp: trim_edge_def trim_def js_space_def)
qed

text \<open>Revocation is idempotent: revoking everything a closure returned revokes nothing more.\<close>

theorem revocation_closure_idempotent:
  assumes "comparator lc" "\<forall>r \<in> set rs. trim r \<noteq> []" "\<forall>e \<in> set es. trim (fst e) \<noteq> [] \<and> trim (snd e) \<noteq> []"
    and "distinct (map trim_edge es)" "revocation_closure lc (JArr (map JStr rs)) (JArr (map edge_value es)) = Inr ids"
    and "\<And>a b. a \<in> set ids \<Longrightarrow> b \<in> set ids \<Longrightarrow> lc a b = 0 \<Longrightarrow> a = b"
  shows "revocation_closure lc (JArr (map JStr ids)) (JArr (map edge_value es)) = Inr ids"
proof -
  let ?E = "set (map trim_edge es)"
  from revocation_closure_total [OF assms(2-4), of lc] obtain ids0 where
    "revocation_closure lc (JArr (map JStr rs)) (JArr (map edge_value es)) = Inr ids0"
    "set ids0 = {y. \<exists>r \<in> set rs. (trim r, y) \<in> ?E\<^sup>*}" "distinct ids0"
    "comparator lc \<longrightarrow> sorted_wrt (\<lambda>a b. lc a b \<le> 0) ids0" by blast
  then have ids: "set ids = {y. \<exists>r \<in> set rs. (trim r, y) \<in> ?E\<^sup>*}" "distinct ids" "sorted_wrt (\<lambda>a b. lc a b \<le> 0) ids"
    using assms(1,5) by simp_all
  have node: "trim y = y \<and> y \<noteq> []" if y: "y \<in> set ids" for y
  proof -
    obtain r where r: "r \<in> set rs" "(trim r, y) \<in> ?E\<^sup>*" using y ids(1) by blast
    from r(2) show ?thesis
    proof (cases rule: rtrancl.cases)
      case rtrancl_refl
      then show ?thesis using assms(2) r(1) by simp
    next
      case (rtrancl_into_rtrancl z)
      then obtain e where "e \<in> set es" "y = trim (snd e)" by (auto simp: trim_edge_def)
      then show ?thesis using assms(3) by simp
    qed
  qed
  then have "\<forall>r \<in> set ids. trim r \<noteq> []" by auto
  from revocation_closure_total [OF this assms(3,4), of lc] assms(1) obtain ids' where
    ids': "revocation_closure lc (JArr (map JStr ids)) (JArr (map edge_value es)) = Inr ids'"
      "set ids' = {y. \<exists>r \<in> set ids. (trim r, y) \<in> ?E\<^sup>*}" "distinct ids'" "sorted_wrt (\<lambda>a b. lc a b \<le> 0) ids'" by blast
  have "set ids' = set ids"
  proof
    show "set ids' \<subseteq> set ids"
    proof
      fix y assume "y \<in> set ids'"
      then obtain r where r: "r \<in> set ids" "(r, y) \<in> ?E\<^sup>*" using ids'(2) node by auto
      then obtain r0 where "r0 \<in> set rs" "(trim r0, r) \<in> ?E\<^sup>*" using ids(1) by blast
      then show "y \<in> set ids" using r(2) ids(1) by (blast intro: rtrancl_trans)
    qed
    show "set ids \<subseteq> set ids'" using node ids'(2) by force
  qed
  then have "mset ids = mset ids'" using ids(2) ids'(3) by (simp add: set_eq_iff_mset_eq_distinct)
  then have "ids = ids'"
    by (rule comparator.sorted_unique [OF assms(1) _ ids(3) ids'(4)]) (rule assms(6))
  then show ?thesis using ids'(1) by simp
qed

theorem revocation_closure_idempotent_witness:
  "revocation_closure code_unit_cmp (JArr (map JStr [''b'', ''c''])) (JArr (map edge_value [(''a'', ''b''), (''b'', ''c'')]))
     = Inr [''b'', ''c'']"
proof -
  have "revocation_closure code_unit_cmp (JArr (map JStr [''b''])) (JArr (map edge_value [(''a'', ''b''), (''b'', ''c'')]))
      = Inr [''b'', ''c'']" by code_simp
  then show ?thesis
    by (rule revocation_closure_idempotent [OF code_units.comparator_axioms, rotated 3])
      (auto simp: trim_edge_def trim_def js_space_def code_unit_cmp_def)
qed

end
