(* ===== verification/Dag.thy ===== *)
theory Dag
  imports Revocation EpiState EpiTime
begin

text \<open>
  The Evidence/Claim dependency graph (\<open>src/src/epistemic/dag.ts\<close>): its construction and validation, the
  traversals, the revocation projection with its trace, and the supporting and hitting sets.  The loops of
  \<open>traverse\<close> and of \<open>revocationClosure\<close> have the same body, so \<open>revoke_loop\<close> models both.
\<close>

section \<open>Nodes and edges\<close>

datatype dag_kind = KEvidence | KClaim | KAssumption | KMeasurement | KDecision | KWitness

datatype dag_relation = RelSupports | RelAssumes | RelMeasures | RelDerives | RelDependsOn | RelWitnesses | RelSupersedes

definition dag_node_kinds :: "dag_kind list" where
  "dag_node_kinds = [KEvidence, KClaim, KAssumption, KMeasurement, KDecision, KWitness]"

fun dag_kind_name :: "dag_kind \<Rightarrow> string" where
  "dag_kind_name KEvidence = ''evidence''"
| "dag_kind_name KClaim = ''claim''"
| "dag_kind_name KAssumption = ''assumption''"
| "dag_kind_name KMeasurement = ''measurement''"
| "dag_kind_name KDecision = ''decision''"
| "dag_kind_name KWitness = ''witness''"

definition dag_edge_relations :: "dag_relation list" where
  "dag_edge_relations = [RelSupports, RelAssumes, RelMeasures, RelDerives, RelDependsOn, RelWitnesses, RelSupersedes]"

fun dag_relation_name :: "dag_relation \<Rightarrow> string" where
  "dag_relation_name RelSupports = ''supports''"
| "dag_relation_name RelAssumes = ''assumes''"
| "dag_relation_name RelMeasures = ''measures''"
| "dag_relation_name RelDerives = ''derives''"
| "dag_relation_name RelDependsOn = ''depends_on''"
| "dag_relation_name RelWitnesses = ''witnesses''"
| "dag_relation_name RelSupersedes = ''supersedes''"

definition dependency_relations :: "dag_relation list" where
  "dependency_relations = [RelSupports, RelAssumes, RelMeasures, RelDerives, RelDependsOn, RelWitnesses]"

record dag_node =
  nd_id :: string
  nd_kind :: dag_kind
  nd_available :: instant_ms
  nd_epistemic :: epistemic_state
  nd_supersedes :: "string list"

record dag_edge =
  ed_from :: string
  ed_to :: string
  ed_relation :: dag_relation

record dag =
  dag_nodes :: "dag_node list"
  dag_edges :: "dag_edge list"

definition node_keys :: "string list" where
  "node_keys = [''id'', ''kind'', ''availableAt'', ''epistemic'', ''supersedes'']"

definition dag_edge_keys :: "string list" where
  "dag_edge_keys = [''from'', ''to'', ''relation'']"

definition normalize_node :: "jsval \<Rightarrow> dag_node res" where
  "normalize_node v =
     bindE (assert_known_keys node_keys ''DAG node'' v) (\<lambda>_.
     bindE (non_empty_val ''DAG node id'' (field ''id'' v)) (\<lambda>i.
     bindE (member_val dag_kind_name dag_node_kinds ''DAG node kind'' (field ''kind'' v)) (\<lambda>k.
     bindE (instant_val ''DAG node availableAt'' (field ''availableAt'' v)) (\<lambda>t.
     bindE (if field ''epistemic'' v = JUndefined then Inr EUnknown
            else member_val epistemic_name epistemic_states ''DAG node epistemic state'' (field ''epistemic'' v)) (\<lambda>e.
     bindE (string_list_val ''DAG node supersedes'' (field ''supersedes'' v)) (\<lambda>ss.
       Inr \<lparr>nd_id = i, nd_kind = k, nd_available = t, nd_epistemic = e, nd_supersedes = ss\<rparr>))))))"

definition normalize_edge :: "jsval \<Rightarrow> dag_edge res" where
  "normalize_edge v =
     bindE (assert_known_keys dag_edge_keys ''DAG edge'' v) (\<lambda>_.
     bindE (non_empty_val ''DAG edge from'' (field ''from'' v)) (\<lambda>f.
     bindE (non_empty_val ''DAG edge to'' (field ''to'' v)) (\<lambda>t.
       if f = t then Inl ''self dependency is not allowed''
       else
     bindE (member_val dag_relation_name dag_edge_relations ''DAG edge relation'' (field ''relation'' v)) (\<lambda>r.
       Inr \<lparr>ed_from = f, ed_to = t, ed_relation = r\<rparr>))))"

section \<open>Acyclicity\<close>

text \<open>A \<open>Map\<close> with an entry for every node, filled by one push per edge.\<close>

definition adjacency_of :: "(dag_edge \<Rightarrow> string) \<Rightarrow> (dag_edge \<Rightarrow> string) \<Rightarrow> dag_node list \<Rightarrow> dag_edge list \<Rightarrow> graph" where
  "adjacency_of key val nodes edges =
     foldl (\<lambda>g e. AList.update (key e) (targets g (key e) @ [val e]) g) (map (\<lambda>n. (nd_id n, [])) nodes) edges"

definition is_dependency :: "dag_edge \<Rightarrow> bool" where
  "is_dependency e = (ed_relation e \<in> set dependency_relations)"

text \<open>\<open>visit\<close>: the nodes being visited are the stack \<open>visiting\<close>; the result is the set \<open>visited\<close>.\<close>

definition unstacked :: "graph \<Rightarrow> string list \<Rightarrow> nat" where
  "unstacked g visiting = card (fst ` set g - set visiting)"

lemma targets_key: "x \<in> set (targets g i) \<Longrightarrow> i \<in> fst ` set g"
  by (cases "map_of g i") (auto simp: targets_def dest!: map_of_SomeD intro: rev_image_eqI)

lemma unstacked_step: "i \<in> fst ` set g \<Longrightarrow> i \<notin> set visiting \<Longrightarrow> unstacked g (i # visiting) < unstacked g visiting"
  unfolding unstacked_def by (rule psubset_card_mono) auto

function visit :: "graph \<Rightarrow> string list \<Rightarrow> string list \<Rightarrow> string \<Rightarrow> string list res" where
  "visit g visiting visited i =
     (if i \<in> set visiting then Inl ''dependency graph cycle''
      else if i \<in> set visited then Inr visited
      else bindE (foldE (\<lambda>vs c. visit g (i # visiting) vs c) visited (targets g i)) (\<lambda>vs. Inr (vs @ [i])))"
  by pat_completeness auto
termination
  by (relation "measure (\<lambda>(g, visiting, visited, i). unstacked g visiting)")
    (auto intro: unstacked_step targets_key)

declare visit.simps [simp del]

definition assert_acyclic :: "dag_node list \<Rightarrow> dag_edge list \<Rightarrow> unit res" where
  "assert_acyclic nodes edges =
     (let g = adjacency_of ed_from ed_to nodes (filter is_dependency edges)
      in bindE (foldE (\<lambda>vs n. visit g [] vs (nd_id n)) [] nodes) (\<lambda>_. Inr ()))"

section \<open>Construction\<close>

definition check_node_ids :: "dag_node list \<Rightarrow> string list res" where
  "check_node_ids nodes =
     foldE (\<lambda>seen n. if nd_id n \<in> set seen then Inl ''duplicate node'' else Inr (seen @ [nd_id n])) [] nodes"

definition check_supersedes :: "string list \<Rightarrow> dag_node list \<Rightarrow> unit res" where
  "check_supersedes ids nodes =
     foldE (\<lambda>_ n. foldE (\<lambda>_ s. if s \<notin> set ids then Inl ''unknown superseded node''
                               else if s = nd_id n then Inl ''node cannot supersede itself'' else Inr ())
                    () (nd_supersedes n)) () nodes"

definition edge_key :: "dag_edge \<Rightarrow> string" where
  "edge_key e = join_nul [ed_from e, ed_to e, dag_relation_name (ed_relation e)]"

definition check_edges :: "string list \<Rightarrow> dag_edge list \<Rightarrow> string list res" where
  "check_edges ids edges =
     foldE (\<lambda>seen e. if ed_from e \<notin> set ids \<or> ed_to e \<notin> set ids then Inl ''unknown node in dependency edge''
                     else if edge_key e \<in> set seen then Inl ''duplicate dependency edge''
                     else Inr (seen @ [edge_key e])) [] edges"

definition edge_cmp :: "(string \<Rightarrow> string \<Rightarrow> int) \<Rightarrow> dag_edge \<Rightarrow> dag_edge \<Rightarrow> int" where
  "edge_cmp lc a b =
     or_cmp (lc (ed_from a) (ed_from b))
       (or_cmp (lc (ed_to a) (ed_to b)) (lc (dag_relation_name (ed_relation a)) (dag_relation_name (ed_relation b))))"

definition create_epistemic_dag :: "(string \<Rightarrow> string \<Rightarrow> int) \<Rightarrow> jsval \<Rightarrow> jsval \<Rightarrow> dag res" where
  "create_epistemic_dag lc input_nodes input_edges =
     (case (input_nodes, input_edges) of
        (JArr nvs, JArr evs) \<Rightarrow>
          bindE (mapE normalize_node nvs) (\<lambda>nodes.
          bindE (check_node_ids nodes) (\<lambda>ids.
          bindE (check_supersedes ids nodes) (\<lambda>_.
          bindE (mapE normalize_edge evs) (\<lambda>edges.
          bindE (check_edges ids edges) (\<lambda>_.
          bindE (assert_acyclic nodes edges) (\<lambda>_.
            Inr \<lparr>dag_nodes = sort_by (\<lambda>a b. lc (nd_id a) (nd_id b)) nodes,
                 dag_edges = sort_by (edge_cmp lc) edges\<rparr>))))))
      | (JArr nvs, _) \<Rightarrow> Inl ''DAG edges must be an array''
      | _ \<Rightarrow> Inl ''DAG nodes must be an array'')"

text \<open>The objects nodes and edges are, as they are passed back to the constructor.\<close>

definition node_value :: "dag_node \<Rightarrow> jsval" where
  "node_value n =
     JObj [(''id'', JStr (nd_id n)), (''kind'', JStr (dag_kind_name (nd_kind n))),
           (''availableAt'', JStr (to_iso (nd_available n))), (''epistemic'', JStr (epistemic_name (nd_epistemic n))),
           (''supersedes'', JArr (map JStr (nd_supersedes n)))]"

definition dag_edge_value :: "dag_edge \<Rightarrow> jsval" where
  "dag_edge_value e =
     JObj [(''from'', JStr (ed_from e)), (''to'', JStr (ed_to e)), (''relation'', JStr (dag_relation_name (ed_relation e)))]"

definition append_dag_node :: "(string \<Rightarrow> string \<Rightarrow> int) \<Rightarrow> dag \<Rightarrow> jsval \<Rightarrow> dag res" where
  "append_dag_node lc d v =
     create_epistemic_dag lc (JArr (map node_value (dag_nodes d) @ [v])) (JArr (map dag_edge_value (dag_edges d)))"

definition append_dag_edge :: "(string \<Rightarrow> string \<Rightarrow> int) \<Rightarrow> dag \<Rightarrow> jsval \<Rightarrow> dag res" where
  "append_dag_edge lc d v =
     create_epistemic_dag lc (JArr (map node_value (dag_nodes d))) (JArr (map dag_edge_value (dag_edges d) @ [v]))"

section \<open>Traversals\<close>

definition dependency_edges :: "dag \<Rightarrow> dag_edge list" where
  "dependency_edges d = filter is_dependency (dag_edges d)"

definition has_node :: "dag \<Rightarrow> string \<Rightarrow> bool" where
  "has_node d i = list_ex (\<lambda>n. nd_id n = i) (dag_nodes d)"

datatype direction = Forward | Reverse

definition adjacency :: "dag \<Rightarrow> direction \<Rightarrow> dag_relation option \<Rightarrow> graph" where
  "adjacency d dir rel =
     adjacency_of (if dir = Forward then ed_from else ed_to) (if dir = Forward then ed_to else ed_from) (dag_nodes d)
       (filter (\<lambda>e. case rel of None \<Rightarrow> True | Some r \<Rightarrow> ed_relation e = r) (dependency_edges d))"

definition traverse :: "(string \<Rightarrow> string \<Rightarrow> int) \<Rightarrow> dag \<Rightarrow> string \<Rightarrow> direction \<Rightarrow> dag_relation option \<Rightarrow> string list res" where
  "traverse lc d start dir rel =
     (if \<not> has_node d start then Inl ''unknown DAG node''
      else Inr (sort_by lc (revoke_loop (adjacency d dir rel) [start] [])))"

definition ancestors :: "(string \<Rightarrow> string \<Rightarrow> int) \<Rightarrow> dag \<Rightarrow> string \<Rightarrow> string list res" where
  "ancestors lc d i = traverse lc d i Reverse None"

definition descendants :: "(string \<Rightarrow> string \<Rightarrow> int) \<Rightarrow> dag \<Rightarrow> string \<Rightarrow> string list res" where
  "descendants lc d i = traverse lc d i Forward None"

definition node_is :: "dag \<Rightarrow> dag_kind \<Rightarrow> string \<Rightarrow> bool" where
  "node_is d k i = (case List.find (\<lambda>n. nd_id n = i) (dag_nodes d) of None \<Rightarrow> False | Some n \<Rightarrow> nd_kind n = k)"

definition assumption_dependencies :: "(string \<Rightarrow> string \<Rightarrow> int) \<Rightarrow> dag \<Rightarrow> string \<Rightarrow> string list res" where
  "assumption_dependencies lc d i = bindE (ancestors lc d i) (\<lambda>ids. Inr (filter (node_is d KAssumption) ids))"

definition measurement_dependencies :: "(string \<Rightarrow> string \<Rightarrow> int) \<Rightarrow> dag \<Rightarrow> string \<Rightarrow> string list res" where
  "measurement_dependencies lc d i =
     bindE (traverse lc d i Reverse (Some RelMeasures)) (\<lambda>ids. Inr (filter (node_is d KMeasurement) ids))"

text \<open>\<open>walk\<close>: the paths found so far are the accumulator.\<close>

function walk :: "graph \<Rightarrow> nat \<Rightarrow> string \<Rightarrow> string list \<Rightarrow> string \<Rightarrow> string list list \<Rightarrow> string list list" where
  "walk g limit goal path cur paths =
     (if limit \<le> length paths then paths
      else if cur = goal then paths @ [path]
      else foldl (\<lambda>ps next. if next \<in> set path then ps else walk g limit goal (path @ [next]) next ps) paths (targets g cur))"
  by pat_completeness auto
termination
proof (relation "measure (\<lambda>(g, limit, goal, path, cur, paths). card ((\<Union>x. set (targets g x)) - set path))")
  fix g :: graph and path cur "next" ps limit goal paths
  assume "next \<in> set (targets g cur)" "next \<notin> set path"
  then have "(\<Union>x. set (targets g x)) - set (path @ [next]) \<subset> (\<Union>x. set (targets g x)) - set path" by auto
  then show "((g, limit, goal, path @ [next], next, ps), g, limit, goal, path, cur, paths)
      \<in> measure (\<lambda>(g, limit, goal, path, cur, paths). card ((\<Union>x. set (targets g x)) - set path))"
    by (simp add: psubset_card_mono finite_targets)
qed simp

declare walk.simps [simp del]

definition paths_between :: "dag \<Rightarrow> string \<Rightarrow> string \<Rightarrow> nat \<Rightarrow> string list list" where
  "paths_between d f t limit = walk (adjacency d Forward None) limit t [f] f []"

definition conflict_paths :: "(string \<Rightarrow> string \<Rightarrow> int) \<Rightarrow> dag \<Rightarrow> string \<Rightarrow> string list list res" where
  "conflict_paths lc d i =
     (if \<not> has_node d i then Inl ''unknown DAG node''
      else Inr (sort_by (\<lambda>a b. lc (join_nul a) (join_nul b))
        (concat (map (\<lambda>n. paths_between d (nd_id n) i 1024) (filter (\<lambda>n. nd_epistemic n = EConflicted) (dag_nodes d))))))"

definition as_of_graph :: "(string \<Rightarrow> string \<Rightarrow> int) \<Rightarrow> dag \<Rightarrow> jsval \<Rightarrow> dag res" where
  "as_of_graph lc d v =
     bindE (instant_val ''asOf'' v) (\<lambda>boundary.
       let available = map nd_id (filter (\<lambda>n. nd_available n \<le> boundary) (dag_nodes d)) in
       create_epistemic_dag lc
         (JArr (map (\<lambda>n. node_value (n\<lparr>nd_supersedes := filter (\<lambda>i. i \<in> set available) (nd_supersedes n)\<rparr>))
            (filter (\<lambda>n. nd_id n \<in> set available) (dag_nodes d))))
         (JArr (map dag_edge_value
            (filter (\<lambda>e. ed_from e \<in> set available \<and> ed_to e \<in> set available) (dag_edges d)))))"

section \<open>The revocation projection\<close>

definition projection_step :: "string list \<times> (string \<times> string) list \<Rightarrow> dag_edge \<Rightarrow> string list \<times> (string \<times> string) list" where
  "projection_step acc e =
     (let key = join_nul [ed_from e, ed_to e] in
      if key \<in> set (fst acc) then acc else (fst acc @ [key], snd acc @ [(ed_from e, ed_to e)]))"

definition dependency_projection_edges :: "dag \<Rightarrow> (string \<times> string) list" where
  "dependency_projection_edges d = snd (foldl projection_step ([], []) (dependency_edges d))"

text \<open>\<open>parent\<close>: each reached node with the root that caused it and the node it was reached from.\<close>

type_synonym parents = "(string \<times> (string \<times> string option)) list"

definition cause_of :: "parents \<Rightarrow> string \<Rightarrow> string" where
  "cause_of ps n = (case map_of ps n of None \<Rightarrow> n | Some (c, _) \<Rightarrow> c)"

function trace_loop :: "graph \<Rightarrow> string list \<Rightarrow> parents \<Rightarrow> parents" where
  "trace_loop g [] ps = ps"
| "trace_loop g (n # q) ps =
     (let r = push_new (map fst) (\<lambda>d ps. ps @ [(d, (cause_of ps n, Some n))]) (targets g n) (q, ps)
      in trace_loop g (fst r) (snd r))"
  by pat_completeness auto
termination
proof (relation "inv_image pass_order (\<lambda>(g, q, ps). ((\<Union>x. set (targets g x)) - set (map fst ps), length q))")
  show "wf (inv_image pass_order (\<lambda>(g, q, ps :: parents). ((\<Union>x. set (targets g x)) - set (map fst ps), length q)))"
    by simp
  fix g :: graph and n q and ps :: parents and r :: "string list \<times> parents"
  assume r: "r = push_new (map fst) (\<lambda>d ps. ps @ [(d, (cause_of ps n, Some n))]) (targets g n) (q, ps)"
  have "set (targets g n) \<subseteq> (\<Union>x. set (targets g x))" by blast
  from push_new_decreases [of "map fst" "\<lambda>d ps. ps @ [(d, (cause_of ps n, Some n))]", OF _ finite_targets this]
  show "((g, fst r, snd r), g, n # q, ps)
      \<in> inv_image pass_order (\<lambda>(g, q, ps). ((\<Union>x. set (targets g x)) - set (map fst ps), length q))"
    by (simp add: r case_prod_unfold)
qed

text \<open>The walk back along \<open>previous\<close>; every step names an entry added earlier, so the number of entries
  bounds it.\<close>

fun path_back :: "nat \<Rightarrow> parents \<Rightarrow> string \<Rightarrow> string list" where
  "path_back 0 ps cur = []"
| "path_back (Suc k) ps cur =
     cur # (case map_of ps cur of Some (_, Some prev) \<Rightarrow> path_back k ps prev | _ \<Rightarrow> [])"

record trace_entry =
  tr_node :: string
  tr_caused :: string
  tr_path :: "string list"

record revocation_projection =
  rp_revoked :: "string list"
  rp_trace :: "trace_entry list"
  rp_pending :: "string list"

definition trace_of :: "parents \<Rightarrow> string \<Rightarrow> trace_entry" where
  "trace_of ps i =
     (case map_of ps i of None \<Rightarrow> \<lparr>tr_node = i, tr_caused = i, tr_path = [i]\<rparr>
      | Some (c, _) \<Rightarrow> \<lparr>tr_node = i, tr_caused = c, tr_path = rev (path_back (length ps) ps i)\<rparr>)"

definition root_step :: "dag \<Rightarrow> string list \<times> parents \<Rightarrow> string \<Rightarrow> (string list \<times> parents) res" where
  "root_step d r i =
     (if \<not> has_node d i then Inl ''unknown DAG node''
      else if i \<in> set (map fst (snd r)) then Inr r
      else Inr (fst r @ [i], snd r @ [(i, (i, None))]))"

definition project_revocation :: "(string \<Rightarrow> string \<Rightarrow> int) \<Rightarrow> dag \<Rightarrow> jsval list \<Rightarrow> revocation_projection res" where
  "project_revocation lc d revoked =
     bindE (revocation_closure lc (JArr revoked) (JArr (map edge_value (dependency_projection_edges d)))) (\<lambda>ids.
     bindE (revoked_roots revoked) (\<lambda>roots.
     bindE (foldE (root_step d) ([], []) (sort_by lc roots)) (\<lambda>r.
       let ps = trace_loop (adjacency d Forward None) (fst r) (snd r)
       in Inr \<lparr>rp_revoked = ids, rp_trace = map (trace_of ps) ids, rp_pending = []\<rparr>)))"

section \<open>Supporting sets and hitting sets\<close>

definition support_roots :: "(string \<Rightarrow> string \<Rightarrow> int) \<Rightarrow> dag \<Rightarrow> string \<Rightarrow> string list res" where
  "support_roots lc d goal =
     bindE (ancestors lc d goal) (\<lambda>as.
       let all = to_set (goal # as);
           incoming = map ed_to (filter (\<lambda>e. ed_from e \<in> set all \<and> ed_to e \<in> set all) (dependency_edges d))
       in Inr (sort_by lc (filter (\<lambda>i. i \<notin> set incoming) all)))"

definition minimal_supporting_sets :: "(string \<Rightarrow> string \<Rightarrow> int) \<Rightarrow> dag \<Rightarrow> string \<Rightarrow> string list list res" where
  "minimal_supporting_sets lc d goal =
     (if \<not> has_node d goal then Inl ''unknown DAG node''
      else bindE (support_roots lc d goal) (\<lambda>rs.
        let roots = sort_by lc (filter (\<lambda>r. r \<noteq> goal \<and> 0 < length (paths_between d r goal 1024)) rs)
        in Inr (if roots = [] then [] else [roots])))"

record hitting_sets =
  hs_sets :: "string list list"
  hs_truncated :: bool

definition by_set_order :: "(string \<Rightarrow> string \<Rightarrow> int) \<Rightarrow> string list \<Rightarrow> string list \<Rightarrow> int" where
  "by_set_order lc a b = or_cmp (int (length a) - int (length b)) (lc (join_nul a) (join_nul b))"

definition add_candidate :: "(string \<Rightarrow> string \<Rightarrow> int) \<Rightarrow> string list \<Rightarrow> string list list \<Rightarrow> string \<Rightarrow> string list list" where
  "add_candidate lc base cs i =
     (let c = sort_by lc (to_set (base @ [i]))
      in if list_ex (\<lambda>e. list_all (\<lambda>x. x \<in> set c) e) cs then cs else cs @ [c])"

definition candidates_of :: "(string \<Rightarrow> string \<Rightarrow> int) \<Rightarrow> string list list \<Rightarrow> string list \<Rightarrow> string list list" where
  "candidates_of lc cuts support = foldl (\<lambda>cs base. foldl (add_candidate lc base) cs support) [] cuts"

definition keep_minimal :: "string list list \<Rightarrow> string list list" where
  "keep_minimal cs =
     filter (\<lambda>c. \<not> list_ex (\<lambda>x. length x < length c \<and> list_all (\<lambda>i. i \<in> set c) x) cs) cs"

definition hitting_step ::
    "(string \<Rightarrow> string \<Rightarrow> int) \<Rightarrow> nat option \<Rightarrow> string list list \<times> bool \<Rightarrow> string list \<Rightarrow> string list list \<times> bool" where
  "hitting_step lc limit acc support =
     (let minimal = keep_minimal (candidates_of lc (fst acc) support) in
      case limit of None \<Rightarrow> (minimal, snd acc)
      | Some l \<Rightarrow> if l < length minimal then (take l (sort_by (by_set_order lc) minimal), True) else (minimal, snd acc))"

text \<open>\<open>limit\<close> as \<open>Number.isInteger(limit) && limit >= 1\<close> admits it.\<close>

definition limit_val :: "jsval \<Rightarrow> nat option res" where
  "limit_val v =
     (case v of JUndefined \<Rightarrow> Inr None
      | JNum r \<Rightarrow> if of_int \<lfloor>r\<rfloor> = r \<and> 1 \<le> \<lfloor>r\<rfloor> then Inr (Some (nat \<lfloor>r\<rfloor>)) else Inl ''hitting set limit must be a positive integer''
      | _ \<Rightarrow> Inl ''hitting set limit must be a positive integer'')"

definition minimal_hitting_sets :: "(string \<Rightarrow> string \<Rightarrow> int) \<Rightarrow> string list list \<Rightarrow> jsval \<Rightarrow> hitting_sets res" where
  "minimal_hitting_sets lc family v =
     bindE (limit_val v) (\<lambda>limit.
       if family = [] then Inr \<lparr>hs_sets = [], hs_truncated = False\<rparr>
       else let r = foldl (hitting_step lc limit) ([[]], False) family
            in Inr \<lparr>hs_sets = sort_by (by_set_order lc) (fst r), hs_truncated = snd r\<rparr>)"

definition minimal_cut_sets :: "(string \<Rightarrow> string \<Rightarrow> int) \<Rightarrow> dag \<Rightarrow> string \<Rightarrow> string list list res" where
  "minimal_cut_sets lc d goal =
     bindE (minimal_supporting_sets lc d goal) (\<lambda>sets.
       if sets = [] then Inr [] else bindE (minimal_hitting_sets lc sets JUndefined) (\<lambda>h. Inr (hs_sets h)))"

definition dag_superseded_by :: "(string \<Rightarrow> string \<Rightarrow> int) \<Rightarrow> dag \<Rightarrow> string \<Rightarrow> string list res" where
  "dag_superseded_by lc d i =
     (if \<not> has_node d i then Inl ''unknown DAG node''
      else Inr (sort_by lc (map nd_id (filter (\<lambda>n. i \<in> set (nd_supersedes n)) (dag_nodes d)))))"

end
