(* ===== verification/DagFacts.thy ===== *)
theory DagFacts
  imports Dag
begin

text \<open>
  The facts the properties of the graph rest on: the adjacency maps denote the dependency relation, the
  depth-first check accepts exactly the acyclic graphs, and the constructor returns exactly the valid
  snapshots and returns those unchanged.
\<close>

section \<open>Adjacency\<close>

definition dep_rel :: "dag_edge list \<Rightarrow> (string \<times> string) set" where
  "dep_rel es = (\<lambda>e. (ed_from e, ed_to e)) ` set (filter is_dependency es)"

lemma targets_adjacency_of:
  "targets (adjacency_of key val nodes edges) n = map val (filter (\<lambda>e. key e = n) edges)"
proof -
  have fold: "targets (foldl (\<lambda>g e. AList.update (key e) (targets g (key e) @ [val e]) g) g edges) n
      = targets g n @ map val (filter (\<lambda>e. key e = n) edges)" for g
    by (induction edges arbitrary: g) (auto simp: targets_update)
  have "targets (map (\<lambda>n. (nd_id n, [])) nodes) n = []"
    by (simp add: targets_def map_of_map_restrict split: option.split) (auto dest: map_of_SomeD)
  then show ?thesis by (simp add: adjacency_of_def fold)
qed

lemma edges_adjacency:
  "edges_of (targets (adjacency_of ed_from ed_to nodes (filter is_dependency es))) = dep_rel es"
  "edges_of (targets (adjacency_of ed_to ed_from nodes (filter is_dependency es))) = (dep_rel es)\<inverse>"
  by (auto simp: edges_of_def targets_adjacency_of dep_rel_def)

lemma edges_adjacency_dag:
  "edges_of (targets (adjacency d Forward None)) = dep_rel (dag_edges d)"
  "edges_of (targets (adjacency d Reverse None)) = (dep_rel (dag_edges d))\<inverse>"
  using edges_adjacency [of "dag_nodes d" "dag_edges d"] by (simp_all add: adjacency_def dependency_edges_def)

section \<open>The depth-first check\<close>

lemma foldE_Inl: "foldE f s xs = Inl e \<Longrightarrow> \<exists>x \<in> set xs. \<exists>s'. f s' x = Inl e"
proof (induction xs arbitrary: s)
  case Nil
  then show ?case by simp
next
  case (Cons x xs)
  show ?case
  proof (cases "f s x")
    case (Inl e')
    then show ?thesis using Cons.prems by auto
  next
    case (Inr s')
    then show ?thesis using Cons by auto
  qed
qed

text \<open>The visited nodes are closed under dependents and lie on no cycle.\<close>

definition cleared :: "graph \<Rightarrow> string list \<Rightarrow> bool" where
  "cleared g vs = (\<forall>x \<in> set vs. set (targets g x) \<subseteq> set vs \<and> (x, x) \<notin> (edges_of (targets g))\<^sup>+)"

lemma cleared_stays: "(x, y) \<in> (edges_of (targets g))\<^sup>* \<Longrightarrow> cleared g vs \<Longrightarrow> x \<in> set vs \<Longrightarrow> y \<in> set vs"
  by (induction rule: rtrancl_induct) (auto simp: cleared_def)

lemma cleared_snoc:
  assumes "cleared g vs" "set (targets g i) \<subseteq> set vs" "i \<notin> set vs"
  shows "cleared g (vs @ [i])"
proof -
  have "(i, i) \<notin> (edges_of (targets g))\<^sup>+"
  proof
    assume "(i, i) \<in> (edges_of (targets g))\<^sup>+"
    then obtain c where "c \<in> set (targets g i)" "(c, i) \<in> (edges_of (targets g))\<^sup>*" by (auto dest: tranclD)
    then show False using cleared_stays [OF _ assms(1)] assms(2,3) by blast
  qed
  then show ?thesis using assms(1,2) by (auto simp: cleared_def)
qed

lemma visit_Inr:
  "visit g st vs i = Inr vs' \<Longrightarrow> cleared g vs \<Longrightarrow>
     cleared g vs' \<and> insert i (set vs) \<subseteq> set vs' \<and> set vs' \<inter> set st = set vs \<inter> set st"
proof (induction g st vs i arbitrary: vs' rule: visit.induct)
  case (1 g st vs i)
  show ?case
  proof (cases "i \<in> set vs")
    case True
    then show ?thesis using 1(2,3) by (subst (asm) visit.simps) (auto split: if_splits)
  next
    case False
    have st: "i \<notin> set st" using 1(2) by (subst (asm) visit.simps) (auto split: if_splits)
    then obtain ws where ws: "foldE (\<lambda>vs c. visit g (i # st) vs c) vs (targets g i) = Inr ws" "vs' = ws @ [i]"
      using 1(2) False by (subst (asm) visit.simps) auto
    have "cleared g ws \<and> set vs \<union> set cs \<subseteq> set ws \<and> set ws \<inter> set (i # st) = set vs \<inter> set (i # st)"
      if "foldE (\<lambda>vs c. visit g (i # st) vs c) vs cs = Inr ws" "set cs \<subseteq> set (targets g i)" "cleared g vs" for cs vs ws
      using that
    proof (induction cs arbitrary: vs)
      case Nil
      then show ?case by simp
    next
      case (Cons c cs)
      then obtain us where us: "visit g (i # st) vs c = Inr us" "foldE (\<lambda>vs c. visit g (i # st) vs c) us cs = Inr ws"
        by auto
      have "cleared g us \<and> insert c (set vs) \<subseteq> set us \<and> set us \<inter> set (i # st) = set vs \<inter> set (i # st)"
        using 1(1) [OF st False _ us(1)] Cons.prems by simp
      then show ?case using Cons.IH [OF us(2)] Cons.prems by auto
    qed
    from this [OF ws(1) _ 1(3)] have "cleared g ws" "set vs \<union> set (targets g i) \<subseteq> set ws"
      "set ws \<inter> set (i # st) = set vs \<inter> set (i # st)" by simp_all
    moreover from this have "i \<notin> set ws" using False by auto
    ultimately show ?thesis using cleared_snoc [of g ws i] st ws(2) by auto
  qed
qed

lemma visit_Inl:
  "visit g st vs i = Inl e \<Longrightarrow> \<forall>s \<in> set st. (s, i) \<in> (edges_of (targets g))\<^sup>+ \<Longrightarrow>
     \<exists>x. (x, x) \<in> (edges_of (targets g))\<^sup>+"
proof (induction g st vs i rule: visit.induct)
  case (1 g st vs i)
  show ?case
  proof (cases "i \<in> set st")
    case True
    then show ?thesis using 1(3) by blast
  next
    case False
    have vs: "i \<notin> set vs" using 1(2) False by (subst (asm) visit.simps) (auto split: if_splits)
    have "foldE (\<lambda>vs c. visit g (i # st) vs c) vs (targets g i) = Inl e"
    proof (cases "foldE (\<lambda>vs c. visit g (i # st) vs c) vs (targets g i)")
      case (Inl e')
      then show ?thesis using 1(2) False vs by (subst (asm) visit.simps) simp
    next
      case (Inr ws)
      then show ?thesis using 1(2) False vs by (subst (asm) visit.simps) simp
    qed
    then obtain c vs' where c: "c \<in> set (targets g i)" "visit g (i # st) vs' c = Inl e"
      using foldE_Inl by fast
    have "\<forall>s \<in> set (i # st). (s, c) \<in> (edges_of (targets g))\<^sup>+"
      using 1(3) c(1) by (auto intro: trancl_into_trancl)
    then show ?thesis using 1(1) [OF False vs c(1) c(2)] by blast
  qed
qed

lemma assert_acyclic_iff:
  assumes "\<And>e. e \<in> set es \<Longrightarrow> ed_from e \<in> nd_id ` set ns"
  shows "assert_acyclic ns es = Inr () \<longleftrightarrow> acyclic (dep_rel es)"
proof -
  let ?g = "adjacency_of ed_from ed_to ns (filter is_dependency es)"
  have E: "edges_of (targets ?g) = dep_rel es" by (rule edges_adjacency)
  show ?thesis
  proof (cases "foldE (\<lambda>vs n. visit ?g [] vs (nd_id n)) [] ns")
    case (Inl e)
    from foldE_Inl [OF this] obtain n :: dag_node and vs where "visit ?g [] vs (nd_id n) = Inl e" by auto
    then have "\<exists>x. (x, x) \<in> (edges_of (targets ?g))\<^sup>+" by (rule visit_Inl) simp
    then have "\<not> acyclic (dep_rel es)" by (auto simp: E acyclic_def)
    then show ?thesis using Inl by (simp add: assert_acyclic_def Let_def)
  next
    case (Inr ws)
    have "cleared ?g ws \<and> set vs \<union> nd_id ` set ms \<subseteq> set ws"
      if "foldE (\<lambda>vs n. visit ?g [] vs (nd_id n)) vs ms = Inr ws" "cleared ?g vs" for vs ms
      using that
    proof (induction ms arbitrary: vs)
      case Nil
      then show ?case by simp
    next
      case (Cons m ms)
      then obtain us where us: "visit ?g [] vs (nd_id m) = Inr us" "foldE (\<lambda>vs n. visit ?g [] vs (nd_id n)) us ms = Inr ws"
        by auto
      show ?case using visit_Inr [OF us(1) Cons.prems(2)] Cons.IH [OF us(2)] by auto
    qed
    from this [OF Inr] have c: "cleared ?g ws" "nd_id ` set ns \<subseteq> set ws" by (simp_all add: cleared_def)
    have "(x, x) \<notin> (dep_rel es)\<^sup>+" for x
    proof
      assume x: "(x, x) \<in> (dep_rel es)\<^sup>+"
      then obtain y where "(x, y) \<in> dep_rel es" by (meson tranclD)
      then have "x \<in> set ws" using assms c(2) by (auto simp: dep_rel_def)
      then show False using c(1) x by (simp add: cleared_def E)
    qed
    then have "acyclic (dep_rel es)" by (simp add: acyclic_def)
    then show ?thesis using Inr by (simp add: assert_acyclic_def Let_def)
  qed
qed


section \<open>The valid snapshots\<close>

definition valid_node :: "dag_node \<Rightarrow> bool" where
  "valid_node n =
     (trim (nd_id n) = nd_id n \<and> nd_id n \<noteq> [] \<and> \<bar>nd_available n\<bar> \<le> max_time \<and> canonical_ids (nd_supersedes n))"

definition valid_edge :: "dag_edge \<Rightarrow> bool" where
  "valid_edge e =
     (trim (ed_from e) = ed_from e \<and> ed_from e \<noteq> [] \<and> trim (ed_to e) = ed_to e \<and> ed_to e \<noteq> [] \<and> ed_from e \<noteq> ed_to e)"

definition valid_graph :: "dag_node list \<Rightarrow> dag_edge list \<Rightarrow> bool" where
  "valid_graph ns es =
     (list_all valid_node ns \<and> list_all valid_edge es \<and> distinct (map nd_id ns)
      \<and> (\<forall>n \<in> set ns. set (nd_supersedes n) \<subseteq> nd_id ` set ns - {nd_id n})
      \<and> (\<forall>e \<in> set es. ed_from e \<in> nd_id ` set ns \<and> ed_to e \<in> nd_id ` set ns)
      \<and> distinct (map edge_key es) \<and> acyclic (dep_rel es))"

definition valid_dag :: "(string \<Rightarrow> string \<Rightarrow> int) \<Rightarrow> dag \<Rightarrow> bool" where
  "valid_dag lc d =
     (valid_graph (dag_nodes d) (dag_edges d)
      \<and> sorted_wrt (\<lambda>a b. lc (nd_id a) (nd_id b) \<le> 0) (dag_nodes d) \<and> sorted_wrt (\<lambda>a b. edge_cmp lc a b \<le> 0) (dag_edges d))"

lemma names_found [simp]:
  "member_val dag_kind_name dag_node_kinds l (JStr (dag_kind_name k)) = Inr k"
  "member_val dag_relation_name dag_edge_relations l (JStr (dag_relation_name r)) = Inr r"
proof -
  show "member_val dag_kind_name dag_node_kinds l (JStr (dag_kind_name k)) = Inr k"
    by (cases k) (simp_all add: dag_node_kinds_def)
  show "member_val dag_relation_name dag_edge_relations l (JStr (dag_relation_name r)) = Inr r"
    by (cases r) (simp_all add: dag_edge_relations_def)
qed

lemma normalize_node_value: "valid_node n \<Longrightarrow> normalize_node (node_value n) = Inr n"
  by (simp add: normalize_node_def node_value_def node_keys_def valid_node_def non_empty_canonical
      string_list_val_def unique_id_vals_canonical assert_known_keys_object [THEN iffD2] del: member_val.simps)

lemma normalize_edge_value: "valid_edge e \<Longrightarrow> normalize_edge (dag_edge_value e) = Inr e"
  by (simp add: normalize_edge_def dag_edge_value_def dag_edge_keys_def valid_edge_def non_empty_canonical
      assert_known_keys_object [THEN iffD2] del: member_val.simps)

lemma normalize_node_Inr: "normalize_node v = Inr n \<Longrightarrow> valid_node n"
  by (auto simp: normalize_node_def valid_node_def string_list_val_def
      dest: instant_val_bound non_empty_val_Inr unique_id_vals_canonical_Inr split: jsval.splits if_splits)
    (simp_all add: canonical_ids_def)

lemma normalize_edge_Inr: "normalize_edge v = Inr e \<Longrightarrow> valid_edge e"
  by (auto simp: normalize_edge_def valid_edge_def dest!: non_empty_val_Inr split: if_splits)

lemma check_node_ids_Inr: "check_node_ids ns = Inr ids \<longleftrightarrow> distinct (map nd_id ns) \<and> ids = map nd_id ns"
proof -
  have "foldE (\<lambda>seen n. if nd_id n \<in> set seen then Inl ''duplicate node'' else Inr (seen @ [nd_id n])) acc ns = Inr ids
      \<longleftrightarrow> distinct (map nd_id ns) \<and> set acc \<inter> nd_id ` set ns = {} \<and> ids = acc @ map nd_id ns" for acc
    by (induction ns arbitrary: acc) auto
  from this [of "[]"] show ?thesis by (simp add: check_node_ids_def)
qed

lemma foldE_unit: "foldE (\<lambda>_. f) () xs = Inr () \<longleftrightarrow> (\<forall>x \<in> set xs. f x = Inr ())"
  by (induction xs) (auto simp: bindE_Inr_iff)

lemma check_supersedes_Inr:
  "check_supersedes ids ns = Inr () \<longleftrightarrow> (\<forall>n \<in> set ns. set (nd_supersedes n) \<subseteq> set ids - {nd_id n})"
  by (auto simp: check_supersedes_def foldE_unit)

lemma check_edges_Inr:
  "(\<exists>ks. check_edges ids es = Inr ks) \<longleftrightarrow>
     (\<forall>e \<in> set es. ed_from e \<in> set ids \<and> ed_to e \<in> set ids) \<and> distinct (map edge_key es)"
proof -
  have "(\<exists>ks. foldE (\<lambda>seen e. if ed_from e \<notin> set ids \<or> ed_to e \<notin> set ids then Inl ''unknown node in dependency edge''
                     else if edge_key e \<in> set seen then Inl ''duplicate dependency edge''
                     else Inr (seen @ [edge_key e])) acc es = Inr ks)
      \<longleftrightarrow> (\<forall>e \<in> set es. ed_from e \<in> set ids \<and> ed_to e \<in> set ids) \<and> distinct (map edge_key es) \<and> set acc \<inter> edge_key ` set es = {}" for acc
    by (induction es arbitrary: acc) auto
  from this [of "[]"] show ?thesis by (simp add: check_edges_def)
qed

text \<open>The constructor in one step: its result is the sorted snapshot of a valid graph, or it throws.\<close>

lemma create_epistemic_dag_Inr:
  "create_epistemic_dag lc (JArr nvs) (JArr evs) = Inr d \<longleftrightarrow>
     (\<exists>ns es. mapE normalize_node nvs = Inr ns \<and> mapE normalize_edge evs = Inr es \<and> valid_graph ns es
        \<and> d = \<lparr>dag_nodes = sort_by (\<lambda>a b. lc (nd_id a) (nd_id b)) ns, dag_edges = sort_by (edge_cmp lc) es\<rparr>)"
proof -
  have valid: "valid_graph ns es \<longleftrightarrow>
      (\<exists>ids. check_node_ids ns = Inr ids \<and> check_supersedes ids ns = Inr () \<and> (\<exists>ks. check_edges ids es = Inr ks)
        \<and> assert_acyclic ns es = Inr ())"
    if "mapE normalize_node nvs = Inr ns" "mapE normalize_edge evs = Inr es" for ns es
  proof -
    have "list_all valid_node ns" "list_all valid_edge es"
      unfolding list_all_iff
      by (meson mapE_set [OF that(1)] normalize_node_Inr, meson mapE_set [OF that(2)] normalize_edge_Inr)
    then show ?thesis
      using assert_acyclic_iff [of es ns]
      by (auto simp: valid_graph_def check_node_ids_Inr check_supersedes_Inr check_edges_Inr)
  qed
  show ?thesis
    by (auto simp: create_epistemic_dag_def bindE_Inr_iff valid)
qed

lemma sorted_by_key: "comparator lc \<Longrightarrow> sorted_wrt (\<lambda>a b. lc (f a) (f b) \<le> 0) (sort_by (\<lambda>a b. lc (f a) (f b)) xs)"
  by (rule comparator.sorted_sort_by [OF comparator_key])

lemma comparator_edge_cmp: "comparator lc \<Longrightarrow> comparator (edge_cmp lc)"
  using comparator_or [OF comparator_key [of lc ed_from]
      comparator_or [OF comparator_key [of lc ed_to] comparator_key [of lc "\<lambda>e. dag_relation_name (ed_relation e)"]]]
  by (simp add: edge_cmp_def [abs_def])

lemma valid_graph_mset:
  assumes "mset ns = mset ns'" "mset es = mset es'"
  shows "valid_graph ns es \<longleftrightarrow> valid_graph ns' es'"
proof -
  have "set ns = set ns'" "set es = set es'" using assms by (auto dest: mset_eq_setD)
  moreover have "distinct (map nd_id ns) = distinct (map nd_id ns')" "distinct (map edge_key es) = distinct (map edge_key es')"
    by (rule mset_eq_imp_distinct_iff; simp add: assms)+
  ultimately show ?thesis by (simp add: valid_graph_def list_all_iff dep_rel_def)
qed

lemma create_valid:
  assumes "comparator lc" "create_epistemic_dag lc nv ev = Inr d"
  shows "valid_dag lc d"
proof -
  obtain nvs evs where v: "nv = JArr nvs" "ev = JArr evs"
    using assms(2) by (auto simp: create_epistemic_dag_def split: jsval.splits)
  obtain ns es where g: "valid_graph ns es"
    and d: "d = \<lparr>dag_nodes = sort_by (\<lambda>a b. lc (nd_id a) (nd_id b)) ns, dag_edges = sort_by (edge_cmp lc) es\<rparr>"
    using assms(2) unfolding v create_epistemic_dag_Inr by blast
  show ?thesis
    using g valid_graph_mset [of "dag_nodes d" ns "dag_edges d" es] sorted_by_key [OF assms(1), of nd_id ns]
      comparator.sorted_sort_by [OF comparator_edge_cmp [OF assms(1)], of es]
    by (simp add: valid_dag_def d)
qed

lemma mapE_values: "list_all valid_node ns \<Longrightarrow> mapE normalize_node (map node_value ns) = Inr ns"
  "list_all valid_edge es \<Longrightarrow> mapE normalize_edge (map dag_edge_value es) = Inr es"
  by (simp_all add: mapE_map list_all_iff mapE_fixed normalize_node_value normalize_edge_value)

lemma create_values:
  assumes "list_all valid_node ns" "list_all valid_edge es"
  shows "create_epistemic_dag lc (JArr (map node_value ns)) (JArr (map dag_edge_value es)) = Inr d \<longleftrightarrow>
    valid_graph ns es
    \<and> d = \<lparr>dag_nodes = sort_by (\<lambda>a b. lc (nd_id a) (nd_id b)) ns, dag_edges = sort_by (edge_cmp lc) es\<rparr>"
  by (simp add: create_epistemic_dag_Inr mapE_values(1) [OF assms(1)] mapE_values(2) [OF assms(2)])

end
