(* ===== verification/DagProps.thy ===== *)
theory DagProps
  imports DagFacts
begin

text \<open>
  The properties of the dependency graph: construction, append, traversal and the view as of an instant.
  The revocation projection and the cut sets are in \<open>DagTrace\<close>, the hitting sets in \<open>HittingSets\<close>.
\<close>

section \<open>Construction and append\<close>

definition sample_node :: "string \<Rightarrow> dag_kind \<Rightarrow> instant_ms \<Rightarrow> dag_node" where
  "sample_node i k t = \<lparr>nd_id = i, nd_kind = k, nd_available = t, nd_epistemic = EUnknown, nd_supersedes = []\<rparr>"

definition sample_edge :: "string \<Rightarrow> string \<Rightarrow> dag_edge" where
  "sample_edge f t = \<lparr>ed_from = f, ed_to = t, ed_relation = RelSupports\<rparr>"

text \<open>Two records, a claim resting on both, and a decision resting on the claim.\<close>

definition sample_dag :: dag where
  "sample_dag =
     \<lparr>dag_nodes = [sample_node ''c'' KClaim 20, sample_node ''d'' KDecision 30, sample_node ''e'' KEvidence 0, sample_node ''f'' KEvidence 10],
      dag_edges = [sample_edge ''c'' ''d'', sample_edge ''e'' ''c'', sample_edge ''f'' ''c'']\<rparr>"

lemma acyclic_ranked: "(\<And>a b. (a, b) \<in> r \<Longrightarrow> (f a :: nat) < f b) \<Longrightarrow> acyclic r"
  by (rule acyclicI_order [of r "\<lambda>x. - int (f x)"]) auto

lemma sample_dep_rel: "dep_rel (dag_edges sample_dag) = {(''c'', ''d''), (''e'', ''c''), (''f'', ''c'')}"
  by (auto simp: dep_rel_def sample_dag_def sample_edge_def is_dependency_def dependency_relations_def)

lemma sample_dag_valid: "valid_dag code_unit_cmp sample_dag"
proof -
  have "acyclic (dep_rel (dag_edges sample_dag))" unfolding sample_dep_rel
    by (rule acyclic_ranked [where f = "\<lambda>i. if i = ''d'' then 2 else if i = ''c'' then 1 else 0"]) auto
  moreover have "distinct (map edge_key (dag_edges sample_dag))" by code_simp
  moreover have "sorted_wrt (\<lambda>a b. code_unit_cmp (nd_id a) (nd_id b) \<le> 0) (dag_nodes sample_dag)"
    "sorted_wrt (\<lambda>a b. edge_cmp code_unit_cmp a b \<le> 0) (dag_edges sample_dag)" by code_simp+
  ultimately show ?thesis
    by (simp add: valid_dag_def valid_graph_def sample_dag_def sample_edge_def sample_node_def valid_node_def valid_edge_def
        canonical_ids_def trim_def js_space_def max_time_def)
qed

lemma create_canonical:
  assumes "valid_dag lc d"
  shows "create_epistemic_dag lc (JArr (map node_value (dag_nodes d))) (JArr (map dag_edge_value (dag_edges d))) = Inr d"
proof -
  have "list_all valid_node (dag_nodes d)" "list_all valid_edge (dag_edges d)" "valid_graph (dag_nodes d) (dag_edges d)"
    using assms by (simp_all add: valid_dag_def valid_graph_def)
  then show ?thesis using assms
    by (subst create_values) (simp_all add: valid_dag_def sort_by_sorted)
qed

text \<open>C23: whatever the constructor is given, it throws or returns a valid snapshot (distinct ids, known
  endpoints and superseded nodes, distinct edges, no dependency cycle), and it returns a valid snapshot
  unchanged.\<close>

theorem create_epistemic_dag_valid:
  assumes "comparator lc" "create_epistemic_dag lc nv ev = Inr d"
  shows "valid_dag lc d
    \<and> create_epistemic_dag lc (JArr (map node_value (dag_nodes d))) (JArr (map dag_edge_value (dag_edges d))) = Inr d"
  using create_valid [OF assms] create_canonical by blast

theorem create_epistemic_dag_valid_witness:
  "acyclic (dep_rel (dag_edges sample_dag))"
proof -
  have "valid_dag code_unit_cmp sample_dag"
    using create_epistemic_dag_valid [OF code_units.comparator_axioms create_canonical [OF sample_dag_valid]] by blast
  then show ?thesis by (simp add: valid_dag_def valid_graph_def)
qed

text \<open>C24: a fresh dependency edge between known nodes is accepted exactly when its end does not already
  reach its start; then the new snapshot has that one edge more and the same nodes, and otherwise the cycle
  is reported and nothing is returned.\<close>

theorem append_dag_edge_iff_no_path:
  assumes "valid_dag lc d" "valid_edge e" "is_dependency e" "ed_from e \<in> nd_id ` set (dag_nodes d)"
    and "ed_to e \<in> nd_id ` set (dag_nodes d)" "edge_key e \<notin> edge_key ` set (dag_edges d)"
  shows "((\<exists>d'. append_dag_edge lc d (dag_edge_value e) = Inr d') \<longleftrightarrow> (ed_to e, ed_from e) \<notin> (dep_rel (dag_edges d))\<^sup>*)
    \<and> (\<forall>d'. append_dag_edge lc d (dag_edge_value e) = Inr d' \<longrightarrow>
         dag_nodes d' = dag_nodes d \<and> mset (dag_edges d') = add_mset e (mset (dag_edges d)))"
proof -
  let ?es = "dag_edges d @ [e]"
  have g: "valid_graph (dag_nodes d) (dag_edges d)" and s: "sorted_wrt (\<lambda>a b. lc (nd_id a) (nd_id b) \<le> 0) (dag_nodes d)"
    using assms(1) by (simp_all add: valid_dag_def)
  have v: "list_all valid_node (dag_nodes d)" "list_all valid_edge ?es" using g assms(2) by (simp_all add: valid_graph_def)
  have "dep_rel ?es = insert (ed_from e, ed_to e) (dep_rel (dag_edges d))" using assms(3) by (auto simp: dep_rel_def)
  then have "valid_graph (dag_nodes d) ?es \<longleftrightarrow> (ed_to e, ed_from e) \<notin> (dep_rel (dag_edges d))\<^sup>*"
    using g assms(2,4-6) by (auto simp: valid_graph_def)
  moreover have "append_dag_edge lc d (dag_edge_value e) = Inr d' \<longleftrightarrow> valid_graph (dag_nodes d) ?es
      \<and> d' = \<lparr>dag_nodes = sort_by (\<lambda>a b. lc (nd_id a) (nd_id b)) (dag_nodes d), dag_edges = sort_by (edge_cmp lc) ?es\<rparr>" for d'
    using create_values [OF v, of lc d'] by (simp add: append_dag_edge_def)
  ultimately show ?thesis using s by (auto simp: sort_by_sorted)
qed

theorem append_dag_edge_iff_no_path_witness:
  "\<not> (\<exists>d'. append_dag_edge code_unit_cmp sample_dag (dag_edge_value (sample_edge ''d'' ''e'')) = Inr d')"
proof -
  have "edge_key (sample_edge ''d'' ''e'') \<notin> edge_key ` set (dag_edges sample_dag)" by code_simp
  moreover have "valid_edge (sample_edge ''d'' ''e'')" by code_simp
  moreover have "is_dependency (sample_edge ''d'' ''e'')" by code_simp
  moreover have "ed_from (sample_edge ''d'' ''e'') \<in> nd_id ` set (dag_nodes sample_dag)"
    "ed_to (sample_edge ''d'' ''e'') \<in> nd_id ` set (dag_nodes sample_dag)" by code_simp+
  moreover have "(ed_to (sample_edge ''d'' ''e''), ed_from (sample_edge ''d'' ''e'')) \<in> (dep_rel (dag_edges sample_dag))\<^sup>*"
    by (rule converse_rtrancl_into_rtrancl [of _ "''c''"]) (auto simp: sample_dep_rel sample_edge_def)
  ultimately show ?thesis
    using append_dag_edge_iff_no_path [OF sample_dag_valid, of "sample_edge ''d'' ''e''"] by blast
qed

section \<open>Traversals\<close>

lemma has_node_iff: "has_node d i \<longleftrightarrow> i \<in> nd_id ` set (dag_nodes d)"
  by (auto simp: has_node_def list_ex_iff)

lemma traverse_Inr:
  assumes "has_node d i"
  shows "\<exists>ids. traverse lc d i dir rel = Inr ids \<and> distinct ids
    \<and> set ids = {y. (i, y) \<in> (edges_of (targets (adjacency d dir rel)))\<^sup>+}"
  using assms revoke.search_start [of "[]" "adjacency d dir rel" i] revoke_loop_distinct [of "[]" "adjacency d dir rel" "[i]"]
  by (simp add: traverse_def)

lemma ancestors_Inr:
  assumes "has_node d i"
  shows "\<exists>ids. ancestors lc d i = Inr ids \<and> distinct ids \<and> set ids = {y. (y, i) \<in> (dep_rel (dag_edges d))\<^sup>+}"
  using traverse_Inr [OF assms, of lc Reverse None] by (simp add: ancestors_def edges_adjacency_dag trancl_converse)

lemma node_is_iff:
  assumes "distinct (map nd_id (dag_nodes d))" "n \<in> set (dag_nodes d)"
  shows "node_is d k (nd_id n) \<longleftrightarrow> nd_kind n = k"
proof -
  have "List.find (\<lambda>m. nd_id m = nd_id n) ns = Some n" if "distinct (map nd_id ns)" "n \<in> set ns" for ns :: "dag_node list"
    using that by (induction ns) force+
  then show ?thesis using assms by (simp add: node_is_def)
qed

text \<open>C25: on a valid graph the traversals return exactly the transitive dependents and prerequisites of a
  known node, each once and never the node itself; the two directions are converse, and the assumptions a
  node rests on are exactly the assumption nodes among its prerequisites.\<close>

theorem traversals_are_reachability:
  assumes "valid_dag lc d" "i \<in> nd_id ` set (dag_nodes d)"
  shows "\<exists>ds as ss. descendants lc d i = Inr ds \<and> ancestors lc d i = Inr as \<and> assumption_dependencies lc d i = Inr ss
    \<and> set ds = {y. (i, y) \<in> (dep_rel (dag_edges d))\<^sup>+} \<and> set as = {y. (y, i) \<in> (dep_rel (dag_edges d))\<^sup>+}
    \<and> distinct ds \<and> distinct as \<and> i \<notin> set ds \<union> set as
    \<and> set ss = {nd_id n |n. n \<in> set (dag_nodes d) \<and> nd_kind n = KAssumption \<and> (nd_id n, i) \<in> (dep_rel (dag_edges d))\<^sup>+}"
proof -
  have h: "has_node d i" using assms(2) by (simp add: has_node_iff)
  have g: "acyclic (dep_rel (dag_edges d))" "distinct (map nd_id (dag_nodes d))"
    "\<forall>e \<in> set (dag_edges d). ed_from e \<in> nd_id ` set (dag_nodes d)"
    using assms(1) by (simp_all add: valid_dag_def valid_graph_def)
  obtain ds where ds: "descendants lc d i = Inr ds" "distinct ds" "set ds = {y. (i, y) \<in> (dep_rel (dag_edges d))\<^sup>+}"
    using traverse_Inr [OF h, of lc Forward None] by (auto simp: descendants_def edges_adjacency_dag)
  obtain as where as: "ancestors lc d i = Inr as" "distinct as" "set as = {y. (y, i) \<in> (dep_rel (dag_edges d))\<^sup>+}"
    using ancestors_Inr [OF h] by blast
  have known: "y \<in> nd_id ` set (dag_nodes d)" if y: "y \<in> set as" for y
  proof -
    have "(y, i) \<in> (dep_rel (dag_edges d))\<^sup>+" using y as(3) by simp
    then obtain z where "(y, z) \<in> dep_rel (dag_edges d)" by (meson tranclD)
    then show ?thesis using g(3) by (auto simp: dep_rel_def)
  qed
  have "set (filter (node_is d KAssumption) as)
      = {nd_id n |n. n \<in> set (dag_nodes d) \<and> nd_kind n = KAssumption \<and> (nd_id n, i) \<in> (dep_rel (dag_edges d))\<^sup>+}"
  proof (intro set_eqI iffI)
    fix x assume x: "x \<in> set (filter (node_is d KAssumption) as)"
    then obtain n where "n \<in> set (dag_nodes d)" "x = nd_id n" using known by auto
    then show "x \<in> {nd_id n |n. n \<in> set (dag_nodes d) \<and> nd_kind n = KAssumption \<and> (nd_id n, i) \<in> (dep_rel (dag_edges d))\<^sup>+}"
      using x node_is_iff [OF g(2)] as(3) by auto
  qed (use node_is_iff [OF g(2)] as(3) in auto)
  then show ?thesis using ds as g(1) by (simp add: assumption_dependencies_def acyclic_def)
qed

theorem traversals_are_reachability_witness:
  "\<exists>as. ancestors code_unit_cmp sample_dag ''d'' = Inr as \<and> set as = {y. (y, ''d'') \<in> (dep_rel (dag_edges sample_dag))\<^sup>+}"
proof -
  have "''d'' \<in> nd_id ` set (dag_nodes sample_dag)" by code_simp
  from traversals_are_reachability [OF sample_dag_valid this] show ?thesis by blast
qed

section \<open>The graph as of an instant\<close>

text \<open>The view of a valid graph as of an instant never throws: it is the valid graph of the nodes
  available by then, each still superseding only nodes it contains, with every edge between them.\<close>

theorem as_of_graph_restricts:
  assumes "comparator lc" "valid_dag lc d" "\<bar>t\<bar> \<le> max_time"
  shows "\<exists>d'. as_of_graph lc d (JStr (to_iso t)) = Inr d' \<and> valid_dag lc d'
    \<and> map nd_id (dag_nodes d') = map nd_id (filter (\<lambda>n. nd_available n \<le> t) (dag_nodes d))
    \<and> dag_edges d' = filter (\<lambda>e. ed_from e \<in> nd_id ` set (dag_nodes d') \<and> ed_to e \<in> nd_id ` set (dag_nodes d')) (dag_edges d)"
proof -
  let ?av = "map nd_id (filter (\<lambda>n. nd_available n \<le> t) (dag_nodes d))"
  let ?cut = "\<lambda>n. n\<lparr>nd_supersedes := filter (\<lambda>i. i \<in> set ?av) (nd_supersedes n)\<rparr>"
  let ?ns = "map ?cut (filter (\<lambda>n. nd_id n \<in> set ?av) (dag_nodes d))"
  let ?es = "filter (\<lambda>e. ed_from e \<in> set ?av \<and> ed_to e \<in> set ?av) (dag_edges d)"
  have g: "valid_graph (dag_nodes d) (dag_edges d)" using assms(2) by (simp add: valid_dag_def)
  have dist: "distinct (map nd_id (dag_nodes d))" using g by (simp add: valid_graph_def)
  have same: "nd_id n \<in> set ?av \<longleftrightarrow> nd_available n \<le> t" if "n \<in> set (dag_nodes d)" for n
    using that dist by (auto simp: distinct_map inj_on_def)
  have ids: "map nd_id ?ns = ?av" using same by (simp add: comp_def cong: filter_cong)
  have "dep_rel ?es \<subseteq> dep_rel (dag_edges d)" by (auto simp: dep_rel_def)
  then have acyclic: "acyclic (dep_rel ?es)" using g acyclic_subset by (auto simp: valid_graph_def)
  have vn: "list_all valid_node ?ns" "list_all valid_edge ?es"
    using g by (auto simp: valid_graph_def list_all_iff valid_node_def canonical_ids_def)
  have sup: "set (nd_supersedes m) \<subseteq> nd_id ` set ?ns - {nd_id m}" if m: "m \<in> set ?ns" for m
  proof -
    obtain n where n: "n \<in> set (dag_nodes d)" "m = ?cut n" using m by auto
    then have "set (nd_supersedes n) \<subseteq> nd_id ` set (dag_nodes d) - {nd_id n}" using g by (simp add: valid_graph_def)
    moreover have "nd_id ` set ?ns = set ?av" using ids by (metis set_map)
    ultimately show ?thesis using n(2) by auto
  qed
  have distinct: "distinct (map nd_id ?ns)" "distinct (map edge_key ?es)"
    unfolding ids using g by (simp_all add: valid_graph_def distinct_map_filter)
  have ends: "\<forall>e \<in> set ?es. ed_from e \<in> nd_id ` set ?ns \<and> ed_to e \<in> nd_id ` set ?ns"
    unfolding set_map [symmetric] ids by simp
  have valid: "valid_graph ?ns ?es" unfolding valid_graph_def using vn distinct sup ends acyclic by blast
  have sorted: "sorted_wrt (\<lambda>a b. lc (nd_id a) (nd_id b) \<le> 0) ?ns" "sorted_wrt (\<lambda>a b. edge_cmp lc a b \<le> 0) ?es"
    using assms(2) by (auto simp: valid_dag_def sorted_wrt_map intro: sorted_wrt_filter)
  have "create_epistemic_dag lc (JArr (map node_value ?ns)) (JArr (map dag_edge_value ?es)) = Inr \<lparr>dag_nodes = ?ns, dag_edges = ?es\<rparr>"
    unfolding create_values [OF vn] using valid sorted by (simp only: sort_by_sorted simp_thms)
  moreover have "map node_value ?ns = map (\<lambda>n. node_value (?cut n)) (filter (\<lambda>n. nd_id n \<in> set ?av) (dag_nodes d))"
    by simp
  ultimately have made: "as_of_graph lc d (JStr (to_iso t)) = Inr \<lparr>dag_nodes = ?ns, dag_edges = ?es\<rparr>"
    unfolding as_of_graph_def instant_val.simps instant_to_iso [OF assms(3)] bindE_simps Let_def by (simp only:)
  have "valid_dag lc \<lparr>dag_nodes = ?ns, dag_edges = ?es\<rparr>" using valid sorted by (simp add: valid_dag_def)
  then show ?thesis using made ids by (auto simp flip: set_map)
qed

theorem as_of_graph_restricts_witness:
  "\<exists>d'. as_of_graph code_unit_cmp sample_dag (JStr (to_iso 15)) = Inr d' \<and> map nd_id (dag_nodes d') = [''e'', ''f'']"
proof -
  have "map nd_id (filter (\<lambda>n. nd_available n \<le> 15) (dag_nodes sample_dag)) = [''e'', ''f'']" by code_simp
  then show ?thesis
    using as_of_graph_restricts [OF code_units.comparator_axioms sample_dag_valid, of 15] by (auto simp: max_time_def)
qed

end
