(* ===== verification/DagTrace.thy ===== *)
theory DagTrace
  imports DagProps
begin

text \<open>
  The revocation projection of \<open>src/src/epistemic/dag.ts\<close>: the projected edges are the dependency relation,
  the table of parents grows like a forest whose paths lead back to a root, and so every entry of the trace
  is a dependency path from a revoked root.
\<close>

section \<open>The projected edges\<close>

definition nul_free :: "string \<Rightarrow> bool" where
  "nul_free s = (CHR 0x00 \<notin> set s)"

lemma nul_free_split: "a @ CHR 0x00 # b = c @ CHR 0x00 # d \<Longrightarrow> nul_free a \<Longrightarrow> nul_free c \<Longrightarrow> a = c \<and> b = d"
proof (induction a arbitrary: c)
  case Nil
  then show ?case by (cases c) (auto simp: nul_free_def)
next
  case (Cons x a)
  then show ?case by (cases c) (auto simp: nul_free_def)
qed

definition pair_of :: "dag_edge \<Rightarrow> string \<times> string" where
  "pair_of e = (ed_from e, ed_to e)"

definition pair_key :: "string \<times> string \<Rightarrow> string" where
  "pair_key p = join_nul [fst p, snd p]"

lemma pair_key_inj: "pair_key p = pair_key q \<Longrightarrow> nul_free (fst p) \<Longrightarrow> nul_free (fst q) \<Longrightarrow> p = q"
  using nul_free_split [of "fst p" "snd p" "fst q" "snd q"] by (auto simp: pair_key_def prod_eq_iff)

lemma projection_fold:
  assumes "\<forall>p \<in> set ps. nul_free (fst p)" "\<forall>e \<in> set es. nul_free (ed_from e)" "distinct ps"
  shows "\<exists>qs. foldl projection_step (map pair_key ps, ps) es = (map pair_key qs, qs) \<and> distinct qs \<and> set qs = set ps \<union> pair_of ` set es"
  using assms
proof (induction es arbitrary: ps)
  case Nil
  then show ?case by auto
next
  case (Cons e es)
  have key: "join_nul [ed_from e, ed_to e] = pair_key (pair_of e)" by (simp add: pair_key_def pair_of_def)
  have "pair_key (pair_of e) \<in> pair_key ` set ps \<longleftrightarrow> pair_of e \<in> set ps"
    using Cons.prems(1,2) pair_key_inj [of "pair_of e"] by (auto simp: pair_of_def)
  then have step: "projection_step (map pair_key ps, ps) e
      = (if pair_of e \<in> set ps then (map pair_key ps, ps) else (map pair_key (ps @ [pair_of e]), ps @ [pair_of e]))"
    unfolding projection_step_def key by (simp add: Let_def pair_of_def)
  show ?case
  proof (cases "pair_of e \<in> set ps")
    case True
    then show ?thesis using Cons.IH [of ps] Cons.prems by (auto simp: step)
  next
    case False
    have "\<exists>qs. foldl projection_step (map pair_key (ps @ [pair_of e]), ps @ [pair_of e]) es = (map pair_key qs, qs)
        \<and> distinct qs \<and> set qs = set (ps @ [pair_of e]) \<union> pair_of ` set es"
      using Cons.prems False by (intro Cons.IH) (auto simp: pair_of_def)
    then show ?thesis using False by (auto simp: step)
  qed
qed

text \<open>Without a NUL character in an id the projection keeps every dependency, once.\<close>

lemma projection_edges:
  assumes "\<forall>e \<in> set (dag_edges d). nul_free (ed_from e)"
  shows "distinct (dependency_projection_edges d) \<and> set (dependency_projection_edges d) = dep_rel (dag_edges d)"
proof -
  have "\<forall>e \<in> set (dependency_edges d). nul_free (ed_from e)" using assms by (simp add: dependency_edges_def)
  from projection_fold [of "[]", OF _ this] obtain qs where
    "foldl projection_step ([], []) (dependency_edges d) = (map pair_key qs, qs)" "distinct qs"
    "set qs = pair_of ` set (dependency_edges d)" by auto
  then show ?thesis
    by (simp add: dependency_projection_edges_def dependency_edges_def dep_rel_def pair_of_def [abs_def])
qed

section \<open>The table of parents\<close>

interpretation trace: worklist "targets g" "map fst" "\<lambda>p d ps. ps @ [(d, (cause_of ps p, Some p))]" "trace_loop g" for g
  by unfold_locales (auto simp: finite_targets)

text \<open>The tables the two loops of \<open>projectRevocation\<close> build.\<close>

inductive traced :: "(string \<times> string) set \<Rightarrow> string set \<Rightarrow> parents \<Rightarrow> bool" for E R where
  traced_start: "traced E R []"
| traced_root: "traced E R ps \<Longrightarrow> r \<in> R \<Longrightarrow> r \<notin> fst ` set ps \<Longrightarrow> traced E R (ps @ [(r, (r, None))])"
| traced_step: "traced E R ps \<Longrightarrow> p \<in> fst ` set ps \<Longrightarrow> (p, x) \<in> E \<Longrightarrow> x \<notin> fst ` set ps \<Longrightarrow>
    traced E R (ps @ [(x, (cause_of ps p, Some p))])"

lemma traced_distinct: "traced E R ps \<Longrightarrow> distinct (map fst ps)"
  by (induction rule: traced.induct) auto

lemma map_of_snoc: "map_of (ps @ [(x, v)]) i = (if i \<in> fst ` set ps then map_of ps i else if i = x then Some v else None)"
proof (cases "i \<in> fst ` set ps")
  case True
  then obtain w where "map_of ps i = Some w" by (cases "map_of ps i") (auto simp: map_of_eq_None_set)
  then show ?thesis using True by (simp add: map_add_def)
next
  case False
  then have "map_of ps i = None" by (simp add: map_of_eq_None_set)
  then show ?thesis using False by (simp add: map_add_def)
qed

declare map_of_append [simp del] map_of_snoc [simp]

lemma path_back_snoc:
  assumes closed: "\<And>i c p. map_of ps i = Some (c, Some p) \<Longrightarrow> p \<in> fst ` set ps"
  shows "i \<in> fst ` set ps \<Longrightarrow> path_back k (ps @ [(x, v)]) i = path_back k ps i"
proof (induction k arbitrary: i)
  case (Suc k)
  then show ?case using closed
    by (auto split: option.split)
qed simp

definition leads_back :: "(string \<times> string) set \<Rightarrow> string set \<Rightarrow> parents \<Rightarrow> string \<Rightarrow> bool" where
  "leads_back E R ps i =
     (\<exists>path. (\<forall>k \<ge> length ps. path_back k ps i = path) \<and> path \<noteq> [] \<and> hd path = i \<and> last path = cause_of ps i
        \<and> cause_of ps i \<in> R \<and> successively (\<lambda>b a. (a, b) \<in> E) path)"

lemma traced_closed: "traced E R ps \<Longrightarrow> map_of ps i = Some (c, Some p) \<Longrightarrow> p \<in> fst ` set ps"
proof (induction arbitrary: i rule: traced.induct)
  case (traced_step ps q x)
  then show ?case by (auto split: if_splits)
qed (auto split: if_splits)

lemma cause_of_snoc: "i \<in> fst ` set ps \<Longrightarrow> cause_of (ps @ [(x, v)]) i = cause_of ps i"
  by (simp add: cause_of_def)

lemma leads_back_snoc:
  assumes "traced E R ps" "i \<in> fst ` set ps" "leads_back E R ps i"
  shows "leads_back E R (ps @ [(x, v)]) i"
proof -
  obtain path where p: "\<forall>k \<ge> length ps. path_back k ps i = path" "path \<noteq> []" "hd path = i" "last path = cause_of ps i"
    "cause_of ps i \<in> R" "successively (\<lambda>b a. (a, b) \<in> E) path"
    using assms(3) by (auto simp: leads_back_def)
  have "path_back k (ps @ [(x, v)]) i = path" if "k \<ge> length (ps @ [(x, v)])" for k
    using p(1) that path_back_snoc [OF traced_closed [OF assms(1)] assms(2)] by simp
  then show ?thesis unfolding leads_back_def cause_of_snoc [OF assms(2)] using p by blast
qed

lemma traced_leads_back: "traced E R ps \<Longrightarrow> i \<in> fst ` set ps \<Longrightarrow> leads_back E R ps i"
proof (induction arbitrary: i rule: traced.induct)
  case traced_start
  then show ?case by simp
next
  case (traced_root ps r)
  show ?case
  proof (cases "i \<in> fst ` set ps")
    case True
    then show ?thesis using leads_back_snoc traced_root by blast
  next
    case False
    then have i: "i = r" using traced_root.prems by auto
    have "path_back k (ps @ [(r, (r, None))]) r = [r]" if "k \<ge> length (ps @ [(r, (r, None))])" for k
      using that traced_root(3) by (cases k) simp_all
    then show ?thesis using traced_root(2,3) unfolding leads_back_def i
      by (intro exI [of _ "[r]"]) (simp add: cause_of_def)
  qed
next
  case (traced_step ps p x)
  show ?case
  proof (cases "i \<in> fst ` set ps")
    case True
    then show ?thesis using leads_back_snoc traced_step by blast
  next
    case False
    then have i: "i = x" using traced_step.prems by auto
    let ?ps = "ps @ [(x, (cause_of ps p, Some p))]"
    obtain path where path: "\<forall>k \<ge> length ps. path_back k ps p = path" "path \<noteq> []" "hd path = p" "last path = cause_of ps p"
      "cause_of ps p \<in> R" "successively (\<lambda>b a. (a, b) \<in> E) path"
      using traced_step(5) [OF traced_step(2)] by (auto simp: leads_back_def)
    have same: "path_back k ?ps p = path_back k ps p" for k
      by (rule path_back_snoc [OF traced_closed [OF traced_step(1)] traced_step(2)])
    have "path_back k ?ps x = x # path" if k: "k \<ge> length ?ps" for k
    proof -
      obtain m where m: "k = Suc m" "m \<ge> length ps" using k by (cases k) auto
      have "map_of ?ps x = Some (cause_of ps p, Some p)" using traced_step(4) by simp
      then show ?thesis using path(1) m by (simp add: same)
    qed
    moreover have "cause_of ?ps x = cause_of ps p" using traced_step(4) by (simp add: cause_of_def)
    moreover have "successively (\<lambda>b a. (a, b) \<in> E) (x # path)"
      using path(2,3,6) traced_step(3) by (cases path) auto
    ultimately show ?thesis unfolding leads_back_def i using path(2,4,5)
      by (intro exI [of _ "x # path"]) simp
  qed
qed

lemma trace_loop_traced:
  assumes "traced (edges_of (targets g)) R ps" "set q \<subseteq> fst ` set ps"
  shows "traced (edges_of (targets g)) R (trace_loop g q ps)"
proof -
  let ?P = "\<lambda>q ps. traced (edges_of (targets g)) R ps \<and> set q \<subseteq> fst ` set ps"
  let ?mark = "\<lambda>p d ps. ps @ [(d, (cause_of ps p, Some p))]"
  have "?P [] (trace_loop g q ps)"
  proof (rule trace.loop_invariant)
    show "?P q ps" using assms by blast
  next
    fix n q ps assume P: "?P (n # q) ps"
    let ?Q = "\<lambda>q ps. ?P q ps \<and> n \<in> fst ` set ps"
    have "?Q (fst (push_new (map fst) (?mark n) (targets g n) (q, ps))) (snd (push_new (map fst) (?mark n) (targets g n) (q, ps)))"
    proof (rule push_new_invariant [where P = ?Q])
      show "?Q q ps" using P by simp
    next
      fix q ps d assume "d \<in> set (targets g n)" "d \<notin> set (map fst ps)" "?Q q ps"
      then have "traced (edges_of (targets g)) R (?mark n d ps)" by (intro traced_step) simp_all
      then show "?Q (q @ [d]) (?mark n d ps)" using \<open>?Q q ps\<close> by auto
    qed
    then show "?P (fst (push_new (map fst) (?mark n) (targets g n) (q, ps))) (snd (push_new (map fst) (?mark n) (targets g n) (q, ps)))"
      by blast
  qed
  then show ?thesis by blast
qed

definition root_table :: "string list \<Rightarrow> parents" where
  "root_table rs = map (\<lambda>r. (r, (r, None))) rs"

lemma root_steps:
  assumes "\<forall>r \<in> set rs. has_node d r" "distinct (map fst ps @ rs)"
  shows "foldE (root_step d) (q, ps) rs = Inr (q @ rs, ps @ root_table rs)"
  using assms
proof (induction rs arbitrary: q ps)
  case (Cons r rs)
  then have "root_step d (q, ps) r = Inr (q @ [r], ps @ [(r, (r, None))])" by (simp add: root_step_def)
  moreover have "foldE (root_step d) (q @ [r], ps @ [(r, (r, None))]) rs = Inr ((q @ [r]) @ rs, (ps @ [(r, (r, None))]) @ root_table rs)"
    using Cons.prems by (intro Cons.IH) auto
  ultimately show ?case by (simp add: root_table_def)
qed (simp add: root_table_def)

lemma traced_roots: "distinct rs \<Longrightarrow> set rs \<subseteq> R \<Longrightarrow> traced E R (root_table rs)"
proof (induction rs rule: rev_induct)
  case (snoc r rs)
  then have "traced E R (root_table rs @ [(r, (r, None))])"
    by (intro traced_root) (auto simp: root_table_def)
  then show ?case by (simp add: root_table_def)
qed (simp add: root_table_def traced_start)

section \<open>The projection\<close>

lemma project_revocation_Inr:
  assumes "comparator lc" "valid_dag lc d" "\<forall>n \<in> set (dag_nodes d). nul_free (nd_id n)" "set rs \<subseteq> nd_id ` set (dag_nodes d)"
  shows "\<exists>r. project_revocation lc d (map JStr rs) = Inr r
    \<and> set (rp_revoked r) = {y. \<exists>x \<in> set rs. (x, y) \<in> (dep_rel (dag_edges d))\<^sup>*} \<and> distinct (rp_revoked r)
    \<and> map tr_node (rp_trace r) = rp_revoked r \<and> rp_pending r = []
    \<and> (\<forall>t \<in> set (rp_trace r). tr_caused t \<in> set rs \<and> tr_path t \<noteq> [] \<and> hd (tr_path t) = tr_caused t \<and> last (tr_path t) = tr_node t
         \<and> successively (\<lambda>a b. (a, b) \<in> dep_rel (dag_edges d)) (tr_path t))"
proof -
  let ?E = "dep_rel (dag_edges d)" and ?es = "dependency_projection_edges d" and ?g = "adjacency d Forward None"
  have g: "valid_graph (dag_nodes d) (dag_edges d)" using assms(2) by (simp add: valid_dag_def)
  have plain: "trim i = i \<and> i \<noteq> []" if "i \<in> nd_id ` set (dag_nodes d)" for i
    using that g by (auto simp: valid_graph_def valid_node_def list_all_iff)
  have ends: "ed_from e \<in> nd_id ` set (dag_nodes d) \<and> ed_to e \<in> nd_id ` set (dag_nodes d)" if "e \<in> set (dag_edges d)" for e
    using that g by (simp add: valid_graph_def)
  have "\<forall>e \<in> set (dag_edges d). nul_free (ed_from e)" using ends assms(3) by fastforce
  then have es: "distinct ?es" "set ?es = ?E" using projection_edges by blast+
  have edge: "fst p \<in> nd_id ` set (dag_nodes d) \<and> snd p \<in> nd_id ` set (dag_nodes d)" if "p \<in> set ?es" for p
    using that ends unfolding es(2) by (auto simp: dep_rel_def)
  have trims: "map trim_edge ?es = ?es" "map trim rs = rs"
    using edge plain assms(4) by (auto simp: trim_edge_def prod_eq_iff intro!: map_idI)
  have nonblank: "\<forall>r \<in> set rs. trim r \<noteq> []" "\<forall>e \<in> set ?es. trim (fst e) \<noteq> [] \<and> trim (snd e) \<noteq> []"
    using plain assms(4) edge by (metis subsetD)+
  have same_root: "(\<exists>r \<in> set rs. (trim r, y) \<in> X) \<longleftrightarrow> (\<exists>r \<in> set rs. (r, y) \<in> X)" for y X
    using plain assms(4) by (metis subsetD)
  have "distinct (map trim_edge ?es)" unfolding trims(1) by (rule es(1))
  from revocation_closure_total [OF nonblank this, of lc, unfolded trims(1) es(2) same_root]
  obtain ids where ids: "revocation_closure lc (JArr (map JStr rs)) (JArr (map edge_value ?es)) = Inr ids"
    "set ids = {y. \<exists>x \<in> set rs. (x, y) \<in> ?E\<^sup>*}" "distinct ids"
    by blast
  let ?roots = "sort_by lc (to_set rs)"
  have roots: "distinct ?roots" "set ?roots = set rs"
    using mset_eq_imp_distinct_iff [of ?roots "to_set rs"] by simp_all
  have known: "\<forall>r \<in> set ?roots. has_node d r" using assms(4) by (auto simp: has_node_iff)
  have rr: "revoked_roots (map JStr rs) = Inr (to_set rs)"
    using revoked_roots_strings [OF nonblank(1)] trims(2) by simp
  let ?ps = "trace_loop ?g ?roots (root_table ?roots)"
  have made: "project_revocation lc d (map JStr rs) = Inr \<lparr>rp_revoked = ids, rp_trace = map (trace_of ?ps) ids, rp_pending = []\<rparr>"
    using root_steps [OF known, of "[]" "[]"] roots(1) by (simp add: project_revocation_def ids(1) rr)
  have tr: "traced ?E (set rs) ?ps"
    using trace_loop_traced [where g = ?g, OF traced_roots [OF roots(1)], of "set rs" ?roots] roots(2)
    by (simp add: edges_adjacency_dag root_table_def image_image)
  have "set (map fst ?ps) = {y. \<exists>x \<in> set ?roots. (x, y) \<in> (edges_of (targets ?g))\<^sup>*}"
    by (rule trace.search_roots) (simp add: root_table_def image_image)
  then have dom: "fst ` set ?ps = set ids" using roots(2) ids(2) by (simp add: edges_adjacency_dag)
  have entry: "tr_node (trace_of ?ps i) = i \<and> tr_caused (trace_of ?ps i) \<in> set rs \<and> tr_path (trace_of ?ps i) \<noteq> []
      \<and> hd (tr_path (trace_of ?ps i)) = tr_caused (trace_of ?ps i) \<and> last (tr_path (trace_of ?ps i)) = i
      \<and> successively (\<lambda>a b. (a, b) \<in> ?E) (tr_path (trace_of ?ps i))" if i: "i \<in> set ids" for i
  proof -
    have i': "i \<in> fst ` set ?ps" using i dom by simp
    obtain c q where c: "map_of ?ps i = Some (c, q)" using i' by (cases "map_of ?ps i") (auto simp: map_of_eq_None_set)
    obtain path where p: "path_back (length ?ps) ?ps i = path" "path \<noteq> []" "hd path = i" "last path = cause_of ?ps i"
      "cause_of ?ps i \<in> set rs" "successively (\<lambda>b a. (a, b) \<in> ?E) path"
      using traced_leads_back [OF tr i'] unfolding leads_back_def by blast
    have "cause_of ?ps i = c" using c by (simp add: cause_of_def)
    then show ?thesis using p c by (simp add: trace_of_def hd_rev last_rev)
  qed
  show ?thesis unfolding made using ids(2,3) entry by (auto simp: comp_def intro!: map_idI)
qed

section \<open>Properties\<close>

text \<open>C26: on a valid graph whose ids hold no NUL character, revoking known nodes never throws: the revoked
  ids are exactly the nodes and their transitive dependents, and the trace has for each of them one
  dependency path that starts at a revoked node and ends at it.\<close>

theorem project_revocation_explained:
  assumes "comparator lc" "valid_dag lc d" "\<forall>n \<in> set (dag_nodes d). nul_free (nd_id n)" "set rs \<subseteq> nd_id ` set (dag_nodes d)"
  shows "\<exists>r. project_revocation lc d (map JStr rs) = Inr r
    \<and> set (rp_revoked r) = {y. \<exists>x \<in> set rs. (x, y) \<in> (dep_rel (dag_edges d))\<^sup>*} \<and> distinct (rp_revoked r)
    \<and> map tr_node (rp_trace r) = rp_revoked r \<and> rp_pending r = []
    \<and> (\<forall>t \<in> set (rp_trace r). tr_caused t \<in> set rs \<and> tr_path t \<noteq> [] \<and> hd (tr_path t) = tr_caused t \<and> last (tr_path t) = tr_node t
         \<and> successively (\<lambda>a b. (a, b) \<in> dep_rel (dag_edges d)) (tr_path t))"
  by (rule project_revocation_Inr [OF assms])

theorem project_revocation_explained_witness:
  "\<exists>r. project_revocation code_unit_cmp sample_dag (map JStr [''e'']) = Inr r \<and> ''d'' \<in> set (rp_revoked r)"
proof -
  have "\<forall>n \<in> set (dag_nodes sample_dag). nul_free (nd_id n)" by code_simp
  moreover have "set [''e''] \<subseteq> nd_id ` set (dag_nodes sample_dag)" by code_simp
  ultimately obtain r where r: "project_revocation code_unit_cmp sample_dag (map JStr [''e'']) = Inr r"
    "set (rp_revoked r) = {y. \<exists>x \<in> set [''e'']. (x, y) \<in> (dep_rel (dag_edges sample_dag))\<^sup>*}"
    using project_revocation_explained [OF code_units.comparator_axioms sample_dag_valid] by blast
  have "(''e'', ''d'') \<in> (dep_rel (dag_edges sample_dag))\<^sup>*"
    by (rule converse_rtrancl_into_rtrancl [of _ "''c''"]) (auto simp: sample_dep_rel)
  then show ?thesis using r by auto
qed

section \<open>Ids with a NUL character\<close>

text \<open>The projection identifies an edge by the text \<open>from NUL to\<close>.  Two valid edges of different relations can
  share that text; the second is dropped, so revoking its start does not reach its end.\<close>

definition nul_dag :: dag where
  "nul_dag =
     \<lparr>dag_nodes = [sample_node ''a'' KEvidence 0, sample_node [CHR ''a'', CHR 0x00, CHR ''b''] KEvidence 0,
                   sample_node [CHR ''b'', CHR 0x00, CHR ''c''] KClaim 0, sample_node ''c'' KClaim 0],
      dag_edges = [sample_edge ''a'' [CHR ''b'', CHR 0x00, CHR ''c''],
                   \<lparr>ed_from = [CHR ''a'', CHR 0x00, CHR ''b''], ed_to = ''c'', ed_relation = RelDerives\<rparr>]\<rparr>"

lemma nul_ids_escape_revocation:
  "create_epistemic_dag code_unit_cmp (JArr (map node_value (dag_nodes nul_dag))) (JArr (map dag_edge_value (dag_edges nul_dag))) = Inr nul_dag
    \<and> ([CHR ''a'', CHR 0x00, CHR ''b''], ''c'') \<in> dep_rel (dag_edges nul_dag)
    \<and> dependency_projection_edges nul_dag = [(''a'', [CHR ''b'', CHR 0x00, CHR ''c''])]"
proof -
  have rel: "dep_rel (dag_edges nul_dag) = {(''a'', [CHR ''b'', CHR 0x00, CHR ''c'']), ([CHR ''a'', CHR 0x00, CHR ''b''], ''c'')}"
    by (auto simp: dep_rel_def nul_dag_def sample_edge_def is_dependency_def dependency_relations_def)
  have "acyclic (dep_rel (dag_edges nul_dag))" unfolding rel
    by (rule acyclic_ranked [where f = "\<lambda>i. if i = ''c'' \<or> i = [CHR ''b'', CHR 0x00, CHR ''c''] then 1 else 0"]) auto
  moreover have "distinct (map edge_key (dag_edges nul_dag))" by code_simp
  moreover have "sorted_wrt (\<lambda>a b. code_unit_cmp (nd_id a) (nd_id b) \<le> 0) (dag_nodes nul_dag)"
    "sorted_wrt (\<lambda>a b. edge_cmp code_unit_cmp a b \<le> 0) (dag_edges nul_dag)" by code_simp+
  ultimately have "valid_dag code_unit_cmp nul_dag"
    by (simp add: valid_dag_def valid_graph_def nul_dag_def sample_edge_def sample_node_def valid_node_def valid_edge_def
        canonical_ids_def trim_def js_space_def max_time_def)
  then show ?thesis using create_canonical rel by simp code_simp
qed

end
