(* ===== verification/HittingSets.thy ===== *)
theory HittingSets
  imports DagTrace
begin

text \<open>
  The supporting and cut sets of \<open>src/src/epistemic/dag.ts\<close>: the fold of \<open>minimalHittingSets\<close> computes the
  inclusion-minimal hitting sets, and the cut sets of a node are its roots, one by one.
\<close>

section \<open>Minimal hitting sets\<close>

definition hits :: "'a set \<Rightarrow> 'a list list \<Rightarrow> bool" where
  "hits H family = (\<forall>s \<in> set family. set s \<inter> H \<noteq> {})"

definition minimal_hits :: "'a list list \<Rightarrow> 'a set set" where
  "minimal_hits family = {H. hits H family \<and> (\<forall>K. K \<subset> H \<longrightarrow> \<not> hits K family)}"

lemma hits_snoc [simp]: "hits H (family @ [s]) \<longleftrightarrow> hits H family \<and> set s \<inter> H \<noteq> {}"
  by (auto simp: hits_def)

lemma hits_mono: "hits H family \<Longrightarrow> H \<subseteq> K \<Longrightarrow> hits K family"
  by (auto simp: hits_def)

lemma minimal_hits_Nil [simp]: "minimal_hits [] = {{}}"
  by (auto simp: minimal_hits_def hits_def)

lemma minimal_below:
  assumes "hits H family"
  shows "\<exists>B \<in> minimal_hits family. B \<subseteq> H"
proof -
  have "\<exists>B \<in> minimal_hits family. B \<subseteq> K" if "finite K" "hits K family" for K
    using that
  proof (induction K rule: finite_psubset_induct)
    case (psubset K)
    show ?case
    proof (cases "K \<in> minimal_hits family")
      case False
      then obtain L where "L \<subset> K" "hits L family" using psubset(3) by (auto simp: minimal_hits_def)
      then show ?thesis using psubset(2) [of L] by blast
    qed blast
  qed
  moreover have "hits (H \<inter> (\<Union>s \<in> set family. set s)) family" using assms by (auto simp: hits_def)
  moreover have "finite (H \<inter> (\<Union>s \<in> set family. set s))" by simp
  ultimately obtain B where "B \<in> minimal_hits family" "B \<subseteq> H \<inter> (\<Union>s \<in> set family. set s)" by blast
  then show ?thesis by blast
qed

text \<open>A set of hitting sets below which every hitting set of the longer family lies has the right minimal elements.\<close>

lemma minimal_elements:
  assumes "\<And>e. e \<in> C \<Longrightarrow> hits e family" "\<And>H. hits H family \<Longrightarrow> \<exists>e \<in> C. e \<subseteq> H"
  shows "{e \<in> C. \<not> (\<exists>x \<in> C. x \<subset> e)} = minimal_hits family"
proof
  show "{e \<in> C. \<not> (\<exists>x \<in> C. x \<subset> e)} \<subseteq> minimal_hits family"
  proof
    fix e assume e: "e \<in> {e \<in> C. \<not> (\<exists>x \<in> C. x \<subset> e)}"
    have "\<not> hits K family" if K: "K \<subset> e" for K
    proof
      assume "hits K family"
      from assms(2) [OF this] obtain x where x: "x \<in> C" "x \<subseteq> K" by blast
      have "x \<subset> e" by (rule subset_psubset_trans [OF x(2) K])
      then show False using e x(1) by blast
    qed
    then show "e \<in> minimal_hits family" using e assms(1) by (simp add: minimal_hits_def)
  qed
  show "minimal_hits family \<subseteq> {e \<in> C. \<not> (\<exists>x \<in> C. x \<subset> e)}"
  proof
    fix H assume H: "H \<in> minimal_hits family"
    then have "hits H family" by (simp add: minimal_hits_def)
    from assms(2) [OF this] obtain e where e: "e \<in> C" "e \<subseteq> H" by blast
    have none: "\<not> hits K family" if "K \<subset> H" for K using H that by (simp add: minimal_hits_def)
    then have "e = H" using assms(1) [OF e(1)] e(2) none [of e] by (auto simp only: psubset_eq)
    moreover have "\<not> x \<subset> H" if "x \<in> C" for x using assms(1) [OF that] none [of x] by (rule contrapos_pn)
    ultimately show "H \<in> {e \<in> C. \<not> (\<exists>x \<in> C. x \<subset> e)}" using e(1) by blast
  qed
qed

section \<open>The candidates of one step\<close>

text \<open>The candidates collected so far: distinct lists, none contained in a later one.\<close>

definition antichain_so_far :: "string list list \<Rightarrow> bool" where
  "antichain_so_far cs = ((\<forall>c \<in> set cs. distinct c) \<and> sorted_wrt (\<lambda>a b. \<not> set a \<subseteq> set b) cs)"

lemma add_candidate_cases:
  "add_candidate lc base cs i = (if \<exists>e \<in> set cs. set e \<subseteq> insert i (set base) then cs else cs @ [sort_by lc (to_set (base @ [i]))])"
  by (auto simp: add_candidate_def Let_def list_ex_iff list_all_iff subset_iff)

lemma add_candidate_antichain: "antichain_so_far cs \<Longrightarrow> antichain_so_far (add_candidate lc base cs i)"
proof -
  have "distinct (sort_by lc (to_set (base @ [i])))"
    using mset_eq_imp_distinct_iff [of "sort_by lc (to_set (base @ [i]))" "to_set (base @ [i])"] by simp
  then show "antichain_so_far cs \<Longrightarrow> antichain_so_far (add_candidate lc base cs i)"
    by (auto simp: add_candidate_cases antichain_so_far_def sorted_wrt_append)
qed

definition dominated :: "string list list \<Rightarrow> string set \<Rightarrow> bool" where
  "dominated cs H = (\<exists>e \<in> set cs. set e \<subseteq> H)"

lemma add_candidate_dominates:
  "dominated cs H \<Longrightarrow> dominated (add_candidate lc base cs i) H"
  "dominated (add_candidate lc base cs i) (insert i (set base))"
  "c \<in> set (add_candidate lc base cs i) \<Longrightarrow> c \<in> set cs \<or> set c = insert i (set base)"
  by (auto simp: add_candidate_cases dominated_def split: if_splits)

lemma inner_candidates:
  assumes "antichain_so_far cs"
  shows "antichain_so_far (foldl (add_candidate lc base) cs support)
    \<and> (\<forall>H. dominated cs H \<longrightarrow> dominated (foldl (add_candidate lc base) cs support) H)
    \<and> (\<forall>i \<in> set support. dominated (foldl (add_candidate lc base) cs support) (insert i (set base)))
    \<and> (\<forall>c \<in> set (foldl (add_candidate lc base) cs support). c \<in> set cs \<or> (\<exists>i \<in> set support. set c = insert i (set base)))"
  using assms
proof (induction support arbitrary: cs)
  case (Cons i support)
  let ?cs = "add_candidate lc base cs i"
  have "antichain_so_far ?cs" by (rule add_candidate_antichain [OF Cons.prems])
  note IH = Cons.IH [OF this]
  show ?case using IH add_candidate_dominates(1) [of cs _ lc base i] add_candidate_dominates(2) [of lc base cs i]
      add_candidate_dominates(3) [of _ lc base cs i]
    by simp blast
qed simp

lemma outer_candidates:
  assumes "antichain_so_far cs"
  shows "antichain_so_far (foldl (\<lambda>cs base. foldl (add_candidate lc base) cs support) cs cuts)
    \<and> (\<forall>H. dominated cs H \<longrightarrow> dominated (foldl (\<lambda>cs base. foldl (add_candidate lc base) cs support) cs cuts) H)
    \<and> (\<forall>b \<in> set cuts. \<forall>i \<in> set support. dominated (foldl (\<lambda>cs base. foldl (add_candidate lc base) cs support) cs cuts) (insert i (set b)))
    \<and> (\<forall>c \<in> set (foldl (\<lambda>cs base. foldl (add_candidate lc base) cs support) cs cuts).
         c \<in> set cs \<or> (\<exists>b \<in> set cuts. \<exists>i \<in> set support. set c = insert i (set b)))"
  using assms
proof (induction cuts arbitrary: cs)
  case (Cons b cuts)
  let ?cs = "foldl (add_candidate lc b) cs support"
  note inner = inner_candidates [OF Cons.prems, of lc b support]
  then have "antichain_so_far ?cs" by blast
  note IH = Cons.IH [OF this]
  show ?case using IH inner by simp blast
qed simp

lemma candidates:
  "antichain_so_far (candidates_of lc cuts support)"
  "b \<in> set cuts \<Longrightarrow> i \<in> set support \<Longrightarrow> \<exists>e \<in> set (candidates_of lc cuts support). set e \<subseteq> insert i (set b)"
  "c \<in> set (candidates_of lc cuts support) \<Longrightarrow> \<exists>b \<in> set cuts. \<exists>i \<in> set support. set c = insert i (set b)"
  using outer_candidates [of "[]" lc support cuts] by (auto simp: candidates_of_def antichain_so_far_def dominated_def)

section \<open>The step keeps the minimal ones\<close>

lemma antichain_inj: "antichain_so_far cs \<Longrightarrow> distinct cs \<and> inj_on set (set cs)"
proof (induction cs)
  case (Cons c cs)
  then show ?case by (auto simp: antichain_so_far_def)
qed simp

lemma keep_minimal_iff:
  assumes "antichain_so_far cs"
  shows "c \<in> set (keep_minimal cs) \<longleftrightarrow> c \<in> set cs \<and> \<not> (\<exists>x \<in> set cs. set x \<subset> set c)"
proof -
  have shorter: "length x < length c \<and> (\<forall>i \<in> set x. i \<in> set c) \<longleftrightarrow> set x \<subset> set c" if "x \<in> set cs" "c \<in> set cs" for x
  proof -
    have "length x = card (set x)" "length c = card (set c)"
      using assms that by (simp_all add: antichain_so_far_def distinct_card)
    then show ?thesis
      using psubset_card_mono [of "set c" "set x"] by (auto simp only: psubset_eq subset_iff List.finite_set)
  qed
  have "(\<exists>x \<in> set cs. length x < length c \<and> (\<forall>i \<in> set x. i \<in> set c)) \<longleftrightarrow> (\<exists>x \<in> set cs. set x \<subset> set c)" if c: "c \<in> set cs"
    by (rule bex_cong [OF refl], rule shorter [OF _ c])
  then show ?thesis unfolding keep_minimal_def list_ex_iff list_all_iff set_filter mem_Collect_eq by blast
qed

lemma keep_minimal_antichain: "antichain_so_far cs \<Longrightarrow> antichain_so_far (keep_minimal cs)"
  by (auto simp: antichain_so_far_def keep_minimal_def intro: sorted_wrt_filter)

lemma image_filter_pred: "f ` {c \<in> A. P (f c)} = {e \<in> f ` A. P e}"
  by auto

lemma step_minimal:
  assumes "set ` set cuts = minimal_hits family"
  shows "set ` set (keep_minimal (candidates_of lc cuts support)) = minimal_hits (family @ [support])"
proof -
  let ?cs = "candidates_of lc cuts support"
  have "set ` set (keep_minimal ?cs) = {e \<in> set ` set ?cs. \<not> (\<exists>x \<in> set ` set ?cs. x \<subset> e)}"
  proof -
    have "set (keep_minimal ?cs) = {c \<in> set ?cs. \<not> (\<exists>x \<in> set ?cs. set x \<subset> set c)}"
      by (intro set_eqI) (simp only: keep_minimal_iff [OF candidates(1)] mem_Collect_eq)
    then have "set ` set (keep_minimal ?cs) = {e \<in> set ` set ?cs. \<not> (\<exists>x \<in> set ?cs. set x \<subset> e)}"
      using image_filter_pred [of set "set ?cs" "\<lambda>e. \<not> (\<exists>x \<in> set ?cs. set x \<subset> e)"] by (simp only:)
    then show ?thesis by (simp only: bex_simps)
  qed
  also have "\<dots> = minimal_hits (family @ [support])"
  proof (rule minimal_elements)
    fix e assume "e \<in> set ` set ?cs"
    then obtain b i where "b \<in> set cuts" "i \<in> set support" "e = insert i (set b)" using candidates(3) by blast
    moreover from this have "hits (set b) family" using assms by (auto simp: minimal_hits_def)
    ultimately show "hits e (family @ [support])" using hits_mono [of "set b" family e] by auto
  next
    fix H assume H: "hits H (family @ [support])"
    then obtain B i where B: "B \<in> minimal_hits family" "B \<subseteq> H" "i \<in> set support" "i \<in> H"
      using minimal_below [of H family] by auto
    then obtain b where "b \<in> set cuts" "set b = B" using assms by (metis imageE)
    then obtain e where "e \<in> set ?cs" "set e \<subseteq> insert i B" using candidates(2) B(3) by blast
    then show "\<exists>e \<in> set ` set ?cs. e \<subseteq> H" using B by blast
  qed
  finally show ?thesis .
qed

section \<open>The fold\<close>

text \<open>The frontier of candidates after a part of the family.\<close>

definition set_lists :: "string list list \<Rightarrow> bool" where
  "set_lists cs = (distinct cs \<and> inj_on set (set cs) \<and> (\<forall>c \<in> set cs. distinct c))"

definition frontier :: "string list list \<Rightarrow> nat option \<Rightarrow> string list list \<times> bool \<Rightarrow> bool" where
  "frontier family limit acc =
     (set_lists (fst acc) \<and> (\<forall>c \<in> set (fst acc). hits (set c) family)
      \<and> (\<not> snd acc \<longrightarrow> set ` set (fst acc) = minimal_hits family)
      \<and> (limit = None \<longrightarrow> \<not> snd acc) \<and> (\<forall>l. limit = Some l \<longrightarrow> length (fst acc) \<le> max 1 l))"

lemma antichain_set_lists: "antichain_so_far cs \<Longrightarrow> set_lists cs"
  using antichain_inj by (auto simp: set_lists_def antichain_so_far_def)

lemma set_lists_sort: "set_lists cs \<Longrightarrow> set_lists (sort_by cmp cs)"
  using mset_eq_imp_distinct_iff [of "sort_by cmp cs" cs] by (simp add: set_lists_def)

lemma set_lists_take: "set_lists cs \<Longrightarrow> set_lists (take l cs)"
  by (auto simp: set_lists_def dest: in_set_takeD intro: inj_on_subset set_take_subset)

lemma hitting_step_frontier:
  assumes "frontier family limit acc"
  shows "frontier (family @ [s]) limit (hitting_step lc limit acc s)"
proof -
  let ?m = "keep_minimal (candidates_of lc (fst acc) s)"
  have lists: "set_lists ?m" by (rule antichain_set_lists [OF keep_minimal_antichain [OF candidates(1)]])
  have hit: "hits (set c) (family @ [s])" if c: "c \<in> set ?m" for c
  proof -
    have "c \<in> set (candidates_of lc (fst acc) s)" using c keep_minimal_iff [OF candidates(1)] by blast
    from candidates(3) [OF this] obtain b i where b: "b \<in> set (fst acc)" "i \<in> set s" "set c = insert i (set b)" by blast
    then have "hits (set b) family" using assms by (simp add: frontier_def)
    then show ?thesis using b(2,3) hits_mono [of "set b" family "set c"] by auto
  qed
  have exact: "set ` set ?m = minimal_hits (family @ [s])" if "\<not> snd acc"
    using assms that by (intro step_minimal) (simp add: frontier_def)
  show ?thesis
  proof (cases limit)
    case None
    then show ?thesis using assms lists hit exact by (simp add: frontier_def hitting_step_def)
  next
    case (Some l)
    show ?thesis
    proof (cases "l < length ?m")
      case True
      have "set_lists (take l (sort_by (by_set_order lc) ?m))" by (intro set_lists_take set_lists_sort lists)
      moreover have "\<forall>c \<in> set (take l (sort_by (by_set_order lc) ?m)). hits (set c) (family @ [s])"
        using hit by (auto dest: in_set_takeD)
      ultimately show ?thesis using Some True by (simp add: frontier_def hitting_step_def)
    next
      case False
      then show ?thesis using Some assms lists hit exact by (simp add: frontier_def hitting_step_def)
    qed
  qed
qed

lemma hitting_fold_frontier: "frontier family limit (foldl (hitting_step lc limit) ([[]], False) family)"
proof (induction family rule: rev_induct)
  case Nil
  show ?case by (simp add: frontier_def set_lists_def hits_def)
next
  case (snoc s family)
  then show ?case using hitting_step_frontier by simp
qed

lemma minimal_hitting_sets_frontier:
  assumes "limit_val v = Inr limit" "family \<noteq> []"
  shows "\<exists>h. minimal_hitting_sets lc family v = Inr h \<and> frontier family limit (hs_sets h, hs_truncated h)"
proof -
  let ?r = "foldl (hitting_step lc limit) ([[]], False) family"
  have "frontier family limit (sort_by (by_set_order lc) (fst ?r), snd ?r)"
    using hitting_fold_frontier [of family limit lc] set_lists_sort by (simp add: frontier_def)
  then show ?thesis using assms by (simp add: minimal_hitting_sets_def Let_def)
qed

text \<open>C27: the enumeration returns hitting sets of the family, each set once and without repetition; unless it
  reports truncation they are exactly the inclusion-minimal ones; it never truncates without a limit and
  never returns more sets than the limit.\<close>

theorem minimal_hitting_sets_exact:
  assumes "limit_val v = Inr limit" "family \<noteq> []"
  shows "\<exists>h. minimal_hitting_sets lc family v = Inr h
    \<and> distinct (hs_sets h) \<and> (\<forall>c \<in> set (hs_sets h). distinct c \<and> (\<forall>s \<in> set family. set s \<inter> set c \<noteq> {}))
    \<and> (\<not> hs_truncated h \<longrightarrow> inj_on set (set (hs_sets h)) \<and> set ` set (hs_sets h) = minimal_hits family)
    \<and> (limit = None \<longrightarrow> \<not> hs_truncated h) \<and> (\<forall>l. limit = Some l \<longrightarrow> length (hs_sets h) \<le> l)"
proof -
  have "1 \<le> l" if "limit = Some l" for l
    using assms(1) that by (auto simp: limit_val_def le_nat_iff split: jsval.splits if_splits)
  then show ?thesis
    using minimal_hitting_sets_frontier [OF assms, of lc] by (fastforce simp: frontier_def set_lists_def hits_def)
qed

theorem minimal_hitting_sets_exact_witness:
  "\<exists>h. minimal_hitting_sets code_unit_cmp [[''a'', ''b''], [''b'', ''c'']] JUndefined = Inr h
    \<and> set ` set (hs_sets h) = minimal_hits [[''a'', ''b''], [''b'', ''c'']]"
  using minimal_hitting_sets_exact [of JUndefined None "[[''a'', ''b''], [''b'', ''c'']]" code_unit_cmp]
  by (auto simp: limit_val_def)

section \<open>Cut sets\<close>

lemma foldl_not_Nil: "(\<And>ps x. x \<in> set xs \<Longrightarrow> ps \<noteq> [] \<Longrightarrow> f ps x \<noteq> []) \<Longrightarrow> ps \<noteq> [] \<Longrightarrow> foldl f ps xs \<noteq> []"
  by (induction xs arbitrary: ps) auto

lemma walk_keeps: "paths \<noteq> [] \<Longrightarrow> walk g limit goal path cur paths \<noteq> []"
proof (induction g limit goal path cur paths rule: walk.induct)
  case (1 g limit goal path cur paths)
  show ?case
  proof (cases "limit \<le> length paths \<or> cur = goal")
    case True
    then show ?thesis using 1(2) by (subst walk.simps) auto
  next
    case False
    have "foldl (\<lambda>ps next. if next \<in> set path then ps else walk g limit goal (path @ [next]) next ps) paths (targets g cur) \<noteq> []"
      using 1(1) False by (intro foldl_not_Nil [OF _ 1(2)]) auto
    then show ?thesis using False by (subst walk.simps) simp
  qed
qed

text \<open>On an acyclic graph the search finds a path to whatever its start reaches.\<close>

lemma walk_finds:
  assumes "acyclic (edges_of (targets g))" "0 < limit"
  shows "(cur, goal) \<in> (edges_of (targets g))\<^sup>* \<Longrightarrow> \<forall>x \<in> set path. (x, cur) \<in> (edges_of (targets g))\<^sup>* \<Longrightarrow>
    walk g limit goal path cur paths \<noteq> []"
  using assms
proof (induction g limit goal path cur paths rule: walk.induct)
  case (1 g limit goal path cur paths)
  let ?E = "edges_of (targets g)"
  show ?case
  proof (cases "limit \<le> length paths \<or> cur = goal")
    case True
    then show ?thesis using 1(5) by (subst walk.simps) auto
  next
    case False
    let ?f = "\<lambda>ps next. if next \<in> set path then ps else walk g limit goal (path @ [next]) next ps"
    obtain n where n: "n \<in> set (targets g cur)" "(n, goal) \<in> ?E\<^sup>*"
      using 1(2) False by (metis converse_rtranclE edges_of_iff)
    have "(cur, n) \<in> ?E\<^sup>+" using n(1) by auto
    then have "(n, cur) \<notin> ?E\<^sup>*" using 1(4) by (meson acyclic_def rtrancl_trancl_trancl)
    then have fresh: "n \<notin> set path" using 1(3) by blast
    obtain xs ys where split: "targets g cur = xs @ n # ys" using n(1) by (meson split_list)
    have "\<forall>x \<in> set (path @ [n]). (x, n) \<in> ?E\<^sup>*" using 1(3) n(1) by (auto intro: rtrancl_into_rtrancl)
    then have "?f (foldl ?f paths xs) n \<noteq> []" using 1(1) [OF _ _ n(1) fresh n(2)] 1(4,5) False fresh by simp
    moreover have "?f ps x \<noteq> []" if "ps \<noteq> []" for ps x using that walk_keeps by simp
    ultimately have "foldl ?f (?f (foldl ?f paths xs) n) ys \<noteq> []" by (intro foldl_not_Nil)
    then have "foldl ?f paths (targets g cur) \<noteq> []"
      by (simp only: split foldl_append foldl_Cons not_False_eq_True)
    then show ?thesis using False by (subst walk.simps) simp
  qed
qed

lemma paths_between_reach:
  assumes "acyclic (dep_rel (dag_edges d))" "(r, t) \<in> (dep_rel (dag_edges d))\<^sup>*" "0 < limit"
  shows "paths_between d r t limit \<noteq> []"
  using walk_finds [of "adjacency d Forward None" limit r t "[r]" "[]"] assms
  by (simp add: paths_between_def edges_adjacency_dag)

text \<open>The nodes a node rests on that rest on nothing themselves.\<close>

definition prerequisite_roots :: "dag \<Rightarrow> string \<Rightarrow> string set" where
  "prerequisite_roots d t =
     {r. (r, t) \<in> (dep_rel (dag_edges d))\<^sup>+ \<and> (\<forall>x. (x, r) \<notin> dep_rel (dag_edges d))}"

lemma support_roots_Inr:
  assumes "valid_dag lc d" "has_node d t"
  shows "\<exists>rs. support_roots lc d t = Inr rs \<and> distinct rs
    \<and> set rs = {r. (r, t) \<in> (dep_rel (dag_edges d))\<^sup>* \<and> (\<forall>x. (x, r) \<notin> dep_rel (dag_edges d))}"
proof -
  let ?E = "dep_rel (dag_edges d)"
  obtain as where as: "ancestors lc d t = Inr as" "set as = {y. (y, t) \<in> ?E\<^sup>+}" using ancestors_Inr [OF assms(2)] by blast
  let ?all = "to_set (t # as)"
  let ?inc = "map ed_to (filter (\<lambda>e. ed_from e \<in> set ?all \<and> ed_to e \<in> set ?all) (dependency_edges d))"
  have all: "set ?all = {y. (y, t) \<in> ?E\<^sup>*}" using as(2) by (auto simp: rtrancl_eq_or_trancl)
  have "i \<in> set ?inc \<longleftrightarrow> (\<exists>x. (x, i) \<in> ?E)" if i: "i \<in> set ?all" for i
  proof -
    have "i \<in> set ?inc \<longleftrightarrow> (\<exists>x. (x, i) \<in> ?E \<and> x \<in> set ?all)"
      using i by (auto simp: dependency_edges_def dep_rel_def image_iff)
    also have "\<dots> \<longleftrightarrow> (\<exists>x. (x, i) \<in> ?E)"
      using i unfolding all by (auto intro: converse_rtrancl_into_rtrancl)
    finally show ?thesis .
  qed
  then have "set (filter (\<lambda>i. i \<notin> set ?inc) ?all) = {r. (r, t) \<in> ?E\<^sup>* \<and> (\<forall>x. (x, r) \<notin> ?E)}"
    using all by (simp only: set_filter) blast
  moreover have "distinct (sort_by lc (filter (\<lambda>i. i \<notin> set ?inc) ?all))"
    using mset_eq_imp_distinct_iff [of "sort_by lc (filter (\<lambda>i. i \<notin> set ?inc) ?all)" "filter (\<lambda>i. i \<notin> set ?inc) ?all"] by simp
  moreover have "support_roots lc d t = Inr (sort_by lc (filter (\<lambda>i. i \<notin> set ?inc) ?all))"
    by (simp only: support_roots_def as(1) bindE_simps Let_def)
  ultimately show ?thesis by simp
qed

lemma minimal_supporting_sets_Inr:
  assumes "valid_dag lc d" "has_node d t"
  shows "\<exists>roots. minimal_supporting_sets lc d t = Inr (if roots = [] then [] else [roots]) \<and> set roots = prerequisite_roots d t"
proof -
  let ?E = "dep_rel (dag_edges d)"
  have acyclic: "acyclic ?E" using assms(1) by (simp add: valid_dag_def valid_graph_def)
  obtain rs where rs: "support_roots lc d t = Inr rs" "set rs = {r. (r, t) \<in> ?E\<^sup>* \<and> (\<forall>x. (x, r) \<notin> ?E)}"
    using support_roots_Inr [OF assms] by blast
  let ?roots = "sort_by lc (filter (\<lambda>r. r \<noteq> t \<and> 0 < length (paths_between d r t 1024)) rs)"
  have keep: "r \<noteq> t \<and> 0 < length (paths_between d r t 1024) \<longleftrightarrow> (r, t) \<in> ?E\<^sup>+" if "r \<in> set rs" for r
    using that rs(2) paths_between_reach [OF acyclic, of r t 1024] acyclic by (auto simp: rtrancl_eq_or_trancl acyclic_def)
  have "set ?roots = {r \<in> set rs. r \<noteq> t \<and> 0 < length (paths_between d r t 1024)}" by simp
  also have "\<dots> = {r \<in> set rs. (r, t) \<in> ?E\<^sup>+}" using keep by blast
  also have "\<dots> = prerequisite_roots d t"
    unfolding rs(2) prerequisite_roots_def by (auto intro: trancl_into_rtrancl)
  finally have "set ?roots = prerequisite_roots d t" .
  moreover have "minimal_supporting_sets lc d t = Inr (if ?roots = [] then [] else [?roots])"
    using assms(2) by (simp only: minimal_supporting_sets_def rs(1) bindE_simps Let_def simp_thms if_False not_True_eq_False)
  ultimately show ?thesis by blast
qed

lemma minimal_hits_single: "minimal_hits [roots] = (\<lambda>r. {r}) ` set roots"
proof
  show "minimal_hits [roots] \<subseteq> (\<lambda>r. {r}) ` set roots"
  proof
    fix H assume H: "H \<in> minimal_hits [roots]"
    then obtain r where r: "r \<in> set roots" "r \<in> H" by (auto simp: minimal_hits_def hits_def)
    then have "hits {r} [roots]" by (simp add: hits_def)
    then have "\<not> {r} \<subset> H" using H by (auto simp: minimal_hits_def)
    then show "H \<in> (\<lambda>r. {r}) ` set roots" using r by blast
  qed
  show "(\<lambda>r. {r}) ` set roots \<subseteq> minimal_hits [roots]" by (auto simp: minimal_hits_def hits_def)
qed

lemma distinct_one_element: "distinct c \<Longrightarrow> set c = {r} \<Longrightarrow> c = [r]"
  by (cases c; cases "tl c") auto

lemma minimal_cut_sets_Inr:
  assumes "valid_dag lc d" "has_node d t"
  shows "\<exists>cuts. minimal_cut_sets lc d t = Inr cuts \<and> distinct cuts \<and> set cuts = (\<lambda>r. [r]) ` prerequisite_roots d t"
proof -
  obtain roots where roots: "minimal_supporting_sets lc d t = Inr (if roots = [] then [] else [roots])"
    "set roots = prerequisite_roots d t" using minimal_supporting_sets_Inr [OF assms] by blast
  show ?thesis
  proof (cases "roots = []")
    case True
    then show ?thesis using roots by (simp add: minimal_cut_sets_def)
  next
    case False
    have none: "limit_val JUndefined = Inr None" by (simp add: limit_val_def)
    obtain h where h: "minimal_hitting_sets lc [roots] JUndefined = Inr h" "frontier [roots] None (hs_sets h, hs_truncated h)"
      using minimal_hitting_sets_frontier [OF none, of "[roots]" lc] by blast
    then have sets: "set ` set (hs_sets h) = (\<lambda>r. {r}) ` set roots" and lists: "set_lists (hs_sets h)"
      by (simp_all add: frontier_def minimal_hits_single)
    have "set (hs_sets h) = (\<lambda>r. [r]) ` set roots"
    proof (intro set_eqI iffI)
      fix c assume c: "c \<in> set (hs_sets h)"
      then have "set c \<in> (\<lambda>r. {r}) ` set roots" using sets by blast
      then obtain r where r: "r \<in> set roots" "set c = {r}" by blast
      have "distinct c" using lists c by (simp add: set_lists_def)
      then have "c = [r]" by (rule distinct_one_element [OF _ r(2)])
      then show "c \<in> (\<lambda>r. [r]) ` set roots" using r(1) by simp
    next
      fix c assume "c \<in> (\<lambda>r. [r]) ` set roots"
      then obtain r where r: "r \<in> set roots" "c = [r]" by blast
      then have "{r} \<in> set ` set (hs_sets h)" using sets by blast
      then obtain e where e: "e \<in> set (hs_sets h)" "set e = {r}" by blast
      have "distinct e" using lists e(1) by (simp add: set_lists_def)
      then have "e = [r]" by (rule distinct_one_element [OF _ e(2)])
      then show "c \<in> set (hs_sets h)" using e(1) r(2) by simp
    qed
    then show ?thesis using False roots h(1) lists by (simp add: minimal_cut_sets_def set_lists_def)
  qed
qed

text \<open>The cut sets of a node agree with revocation: they are the single nodes it rests on that rest on
  nothing themselves, each once; and revoking any one of them reaches the node.\<close>

theorem minimal_cut_sets_revoke:
  assumes "comparator lc" "valid_dag lc d" "\<forall>n \<in> set (dag_nodes d). nul_free (nd_id n)" "t \<in> nd_id ` set (dag_nodes d)"
  shows "\<exists>cuts. minimal_cut_sets lc d t = Inr cuts \<and> distinct cuts \<and> set cuts = (\<lambda>r. [r]) ` prerequisite_roots d t
    \<and> (\<forall>c \<in> set cuts. \<exists>p. project_revocation lc d (map JStr c) = Inr p \<and> t \<in> set (rp_revoked p))"
proof -
  have h: "has_node d t" using assms(4) by (simp add: has_node_iff)
  have "\<exists>p. project_revocation lc d (map JStr [r]) = Inr p \<and> t \<in> set (rp_revoked p)" if r: "r \<in> prerequisite_roots d t" for r
  proof -
    have reach: "(r, t) \<in> (dep_rel (dag_edges d))\<^sup>+" using r by (simp add: prerequisite_roots_def)
    then obtain x where "(r, x) \<in> dep_rel (dag_edges d)" by (meson tranclD)
    then have "r \<in> nd_id ` set (dag_nodes d)" using assms(2) by (auto simp: dep_rel_def valid_dag_def valid_graph_def)
    then have "set [r] \<subseteq> nd_id ` set (dag_nodes d)" by simp
    from project_revocation_Inr [OF assms(1-3) this] reach show ?thesis by (auto intro: trancl_into_rtrancl)
  qed
  then show ?thesis using minimal_cut_sets_Inr [OF assms(2) h] by fastforce
qed

theorem minimal_cut_sets_revoke_witness:
  "\<exists>cuts. minimal_cut_sets code_unit_cmp sample_dag ''d'' = Inr cuts \<and> [''e''] \<in> set cuts"
proof -
  have "\<forall>n \<in> set (dag_nodes sample_dag). nul_free (nd_id n)" "''d'' \<in> nd_id ` set (dag_nodes sample_dag)" by code_simp+
  from minimal_cut_sets_revoke [OF code_units.comparator_axioms sample_dag_valid this] obtain cuts where
    "minimal_cut_sets code_unit_cmp sample_dag ''d'' = Inr cuts" "set cuts = (\<lambda>r. [r]) ` prerequisite_roots sample_dag ''d''" by blast
  moreover have "''e'' \<in> prerequisite_roots sample_dag ''d''"
    unfolding prerequisite_roots_def sample_dep_rel
    by (auto intro: trancl_into_trancl2 [of _ "''c''"])
  ultimately show ?thesis by auto
qed

end
