(* ===== verification/EpiEnvelope.thy ===== *)
theory EpiEnvelope
  imports EpiState EpiScope EpiTime Events
begin

text \<open>
  The runtime boundary that evidence, claims and derivations share: the normalisers of scopes, grains,
  instants, intervals and revocation metadata at the head of \<open>evidence.ts\<close>, \<open>claim.ts\<close> and
  \<open>derivation.ts\<close> under \<open>src/src/epistemic\<close>, and that each returns a canonical value unchanged.
\<close>

section \<open>Scopes\<close>

text \<open>
  \<open>Object.entries(pairs)\<close> lists the array indices first, in numeric order, then the other keys in insertion
  order.  Assigning a string to the key \<open>__proto__\<close> of a plain object stores nothing: the setter of
  \<open>Object.prototype\<close> ignores it.
\<close>

definition array_index :: "string \<Rightarrow> bool" where
  "array_index k = (canonical_nat_text k \<and> read_nat k < 4294967295)"

definition object_entries :: "(string \<times> 'a) list \<Rightarrow> (string \<times> 'a) list" where
  "object_entries ps =
     sort_key (\<lambda>p. read_nat (fst p)) (filter (\<lambda>p. array_index (fst p)) ps) @ filter (\<lambda>p. \<not> array_index (fst p)) ps"

definition add_pair :: "(string \<times> string) list \<Rightarrow> jsval \<Rightarrow> (string \<times> string) list res" where
  "add_pair pairs v =
     (if \<not> is_object v then Inl ''scope constraint must be an object''
      else bindE (non_empty_val ''scope constraint key'' (field ''key'' v)) (\<lambda>k.
           bindE (non_empty_val ''scope constraint value'' (field ''value'' v)) (\<lambda>x.
             if k \<in> fst ` set pairs then Inl ''duplicate scope key''
             else if k = ''__proto__'' then Inr pairs else Inr (pairs @ [(k, x)]))))"

definition scope_val :: "(string \<Rightarrow> string \<Rightarrow> int) \<Rightarrow> jsval \<Rightarrow> scope res" where
  "scope_val lc v =
     (if \<not> is_object v then Inl ''scope must be an object''
      else case field ''constraints'' v of
        JArr cs \<Rightarrow> bindE (foldE add_pair [] cs) (\<lambda>pairs. scope lc (object_entries pairs))
      | _ \<Rightarrow> Inl ''scope constraints must be an array'')"

definition constraint_value :: "string \<times> string \<Rightarrow> jsval" where
  "constraint_value c = JObj [(''key'', JStr (fst c)), (''value'', JStr (snd c))]"

definition scope_value :: "scope \<Rightarrow> jsval" where
  "scope_value s = JObj [(''constraints'', JArr (map constraint_value s))]"

section \<open>Grains, instants and intervals\<close>

definition grain_val :: "jsval \<Rightarrow> grain res" where
  "grain_val v =
     (if \<not> is_object v then Inl ''grain must be an object''
      else case field ''dimensions'' v of
        JArr ds \<Rightarrow> bindE (as_strings ''grain dimensions'' ds) grain
      | _ \<Rightarrow> Inl ''grain dimensions must be an array'')"

definition grain_value :: "grain \<Rightarrow> jsval" where
  "grain_value g = JObj [(''dimensions'', JArr (map JStr g))]"

definition optional_instant :: "string \<Rightarrow> jsval \<Rightarrow> instant_ms option res" where
  "optional_instant label v =
     (if v = JUndefined \<or> v = JNull then Inr None else bindE (instant_val label v) (\<lambda>t. Inr (Some t)))"

definition optional_interval :: "string \<Rightarrow> jsval \<Rightarrow> time_interval option res" where
  "optional_interval label v =
     (if v = JUndefined \<or> v = JNull then Inr None
      else if \<not> is_object v then Inl (label @ '' must be a time interval'')
      else bindE (instant_val label (field ''from'' v)) (\<lambda>f.
           bindE (instant_val label (field ''to'' v)) (\<lambda>t.
           bindE (interval_of f t) (\<lambda>i. Inr (Some i)))))"

definition instant_or_null :: "instant_ms option \<Rightarrow> jsval" where
  "instant_or_null t = (case t of None \<Rightarrow> JNull | Some ms \<Rightarrow> JStr (to_iso ms))"

definition interval_or_null :: "time_interval option \<Rightarrow> jsval" where
  "interval_or_null i =
     (case i of None \<Rightarrow> JNull
      | Some j \<Rightarrow> JObj [(''from'', JStr (to_iso (from_ms j))), (''to'', JStr (to_iso (to_ms j)))])"

section \<open>Revocation metadata\<close>

record revocation_metadata =
  rm_event :: string
  rm_effective :: instant_ms
  rm_reason :: string

definition revocation_keys :: "string list" where
  "revocation_keys = [''eventId'', ''effectiveAt'', ''reason'']"

definition revocation_metadata :: "jsval \<Rightarrow> revocation_metadata option res" where
  "revocation_metadata v =
     (if v = JUndefined \<or> v = JNull then Inr None
      else bindE (assert_known_keys revocation_keys ''revocation'' v) (\<lambda>_.
           bindE (non_empty_val ''revocation eventId'' (field ''eventId'' v)) (\<lambda>i.
           bindE (optional_instant ''revocation effectiveAt'' (field ''effectiveAt'' v)) (\<lambda>t.
             case t of None \<Rightarrow> Inl ''revocation effectiveAt must be provided''
             | Some ms \<Rightarrow>
                 bindE (non_empty_val ''revocation reason'' (field ''reason'' v)) (\<lambda>r.
                   Inr (Some \<lparr>rm_event = i, rm_effective = ms, rm_reason = r\<rparr>))))))"

definition revocation_or_null :: "revocation_metadata option \<Rightarrow> jsval" where
  "revocation_or_null r =
     (case r of None \<Rightarrow> JNull
      | Some m \<Rightarrow> JObj [(''eventId'', JStr (rm_event m)), (''effectiveAt'', JStr (to_iso (rm_effective m))),
                        (''reason'', JStr (rm_reason m))])"

section \<open>Canonical values\<close>

text \<open>A text that normalisation leaves as it is.\<close>

definition plain_text :: "string \<Rightarrow> bool" where
  "plain_text s = (trim s = s \<and> s \<noteq> [])"

text \<open>What the normaliser stores: never the key an object cannot hold.\<close>

definition stored_scope :: "(string \<Rightarrow> string \<Rightarrow> int) \<Rightarrow> scope \<Rightarrow> bool" where
  "stored_scope lc s = (canonical_scope lc s \<and> ''__proto__'' \<notin> fst ` set s)"

text \<open>The collation tells the keys of the scope apart.\<close>

definition told_apart :: "(string \<Rightarrow> string \<Rightarrow> int) \<Rightarrow> scope \<Rightarrow> bool" where
  "told_apart lc s = (\<forall>k \<in> fst ` set s. \<forall>k' \<in> fst ` set s. lc k k' = 0 \<longrightarrow> k = k')"

definition canonical_text :: "string option \<Rightarrow> bool" where
  "canonical_text t = (\<forall>s. t = Some s \<longrightarrow> plain_text s)"

definition canonical_instant :: "instant_ms option \<Rightarrow> bool" where
  "canonical_instant t = (\<forall>ms. t = Some ms \<longrightarrow> \<bar>ms\<bar> \<le> max_time)"

definition canonical_interval :: "time_interval option \<Rightarrow> bool" where
  "canonical_interval i =
     (\<forall>j. i = Some j \<longrightarrow> from_ms j < to_ms j \<and> \<bar>from_ms j\<bar> \<le> max_time \<and> \<bar>to_ms j\<bar> \<le> max_time)"

definition canonical_revocation :: "revocation_metadata option \<Rightarrow> bool" where
  "canonical_revocation r =
     (\<forall>m. r = Some m \<longrightarrow> plain_text (rm_event m) \<and> plain_text (rm_reason m) \<and> \<bar>rm_effective m\<bar> \<le> max_time)"

lemma non_empty_val_plain: "non_empty_val l v = Inr s \<Longrightarrow> plain_text s"
  by (auto simp: plain_text_def dest!: non_empty_val_Inr)

lemma non_empty_plain [simp]: "plain_text s \<Longrightarrow> non_empty l s = Inr s"
  by (simp add: plain_text_def non_empty_canonical)

lemma object_entries_mset [simp]: "mset (object_entries ps) = mset ps"
proof -
  have "mset (object_entries ps)
      = mset (filter (\<lambda>p. array_index (fst p)) ps) + mset (filter (\<lambda>p. \<not> array_index (fst p)) ps)"
    by (simp add: object_entries_def)
  then show ?thesis by (simp add: multiset_partition [symmetric])
qed

lemma object_entries_set [simp]: "set (object_entries ps) = set ps"
  by (metis object_entries_mset set_mset_mset)

lemma distinct_no_duplicate: "distinct xs \<Longrightarrow> \<not> duplicate_neighbour xs"
  by (induction xs rule: duplicate_neighbour.induct) auto

lemma scope_plain:
  assumes "\<forall>c \<in> set cs. plain_text (fst c) \<and> plain_text (snd c)" "distinct (map fst cs)"
  shows "scope lc cs = Inr (sort_by (\<lambda>a b. lc (fst a) (fst b)) cs)"
proof -
  let ?s = "sort_by (\<lambda>a b. lc (fst a) (fst b)) cs"
  have "mapE (\<lambda>kv. bindE (canonical_part (fst kv) ''key'') (\<lambda>k. bindE (canonical_part (snd kv) ''value'') (\<lambda>v. Inr (k, v)))) cs
      = Inr cs"
    using assms(1) by (intro mapE_fixed) (simp add: canonical_part_def plain_text_def non_empty_canonical)
  moreover have "mset (map fst ?s) = mset (map fst cs)" by simp
  then have "distinct (map fst ?s)" using assms(2) mset_eq_imp_distinct_iff by blast
  ultimately show ?thesis by (simp add: scope_def Let_def distinct_no_duplicate)
qed

text \<open>The pairs collected so far: distinct plain keys, none of them \<open>__proto__\<close>.\<close>

definition good_pairs :: "(string \<times> string) list \<Rightarrow> bool" where
  "good_pairs ps =
     (distinct (map fst ps) \<and> ''__proto__'' \<notin> fst ` set ps \<and> (\<forall>c \<in> set ps. plain_text (fst c) \<and> plain_text (snd c)))"

lemma add_pair_Inr:
  "add_pair ps v = Inr ps' \<Longrightarrow> ps' = ps \<or> (\<exists>k x. ps' = ps @ [(k, x)] \<and> k \<notin> fst ` set ps \<and> k \<noteq> ''__proto__'' \<and> plain_text k \<and> plain_text x)"
  unfolding add_pair_def if_Inl_Inr_iff bindE_Inr_iff
  by (elim exE conjE) (auto dest!: non_empty_val_plain simp del: set_map split: if_splits)

lemma good_snoc:
  "good_pairs (ps @ [(k, x)]) \<longleftrightarrow> good_pairs ps \<and> k \<notin> fst ` set ps \<and> k \<noteq> ''__proto__'' \<and> plain_text k \<and> plain_text x"
  by (auto simp: good_pairs_def)

lemma add_pair_good: "good_pairs ps \<Longrightarrow> add_pair ps v = Inr ps' \<Longrightarrow> good_pairs ps'"
  by (drule add_pair_Inr) (elim disjE exE conjE; simp add: good_snoc)

lemma add_pairs_good: "foldE add_pair [] cs = Inr ps \<Longrightarrow> good_pairs ps"
  by (rule foldE_invariant [where P = good_pairs and f = add_pair and s = "[]"])
    (auto simp: good_pairs_def [of "[]"] intro: add_pair_good)

lemma add_pairs_values: "good_pairs (ps @ s) \<Longrightarrow> foldE add_pair ps (map constraint_value s) = Inr (ps @ s)"
proof (induction s arbitrary: ps)
  case Nil
  then show ?case by simp
next
  case (Cons c s)
  have "add_pair ps (constraint_value c) = Inr (ps @ [c])"
    using Cons.prems by (cases c) (auto simp: add_pair_def constraint_value_def good_pairs_def)
  then show ?case using Cons by simp
qed

lemma sorted_pairs_stored:
  assumes "comparator lc" "good_pairs ps"
  shows "stored_scope lc (sort_by (\<lambda>a b. lc (fst a) (fst b)) (object_entries ps))"
proof -
  let ?s = "sort_by (\<lambda>a b. lc (fst a) (fst b)) (object_entries ps)"
  have "mset (map fst ?s) = mset (map fst ps)" by (metis mset_map mset_sort_by object_entries_mset)
  moreover have "distinct (map fst ps)" using assms(2) by (simp add: good_pairs_def)
  ultimately have "distinct (map fst ?s)" using mset_eq_imp_distinct_iff by blast
  moreover have "sorted_wrt (\<lambda>a b. lc (fst a) (fst b) \<le> 0) ?s"
    by (rule comparator.sorted_sort_by [OF comparator_key [OF assms(1)]])
  ultimately show ?thesis
    using assms(2) by (auto simp: stored_scope_def canonical_scope_def good_pairs_def list_all_iff plain_text_def)
qed

lemma stored_good: "stored_scope lc s \<Longrightarrow> good_pairs s"
  by (auto simp: stored_scope_def canonical_scope_def good_pairs_def list_all_iff plain_text_def)

lemma sorted_pairs_fixed:
  assumes "comparator lc" "stored_scope lc s" "told_apart lc s"
  shows "sort_by (\<lambda>a b. lc (fst a) (fst b)) (object_entries s) = s"
proof (rule comparator.sorted_unique [OF comparator_key [OF assms(1), of fst]])
  show "mset (sort_by (\<lambda>a b. lc (fst a) (fst b)) (object_entries s)) = mset s" by simp
  show "sorted_wrt (\<lambda>a b. lc (fst a) (fst b) \<le> 0) (sort_by (\<lambda>a b. lc (fst a) (fst b)) (object_entries s))"
    by (rule comparator.sorted_sort_by [OF comparator_key [OF assms(1)]])
  show "sorted_wrt (\<lambda>a b. lc (fst a) (fst b) \<le> 0) s" using assms(2) by (simp add: stored_scope_def canonical_scope_def)
  fix a b assume "a \<in> set (sort_by (\<lambda>a b. lc (fst a) (fst b)) (object_entries s))"
    "b \<in> set (sort_by (\<lambda>a b. lc (fst a) (fst b)) (object_entries s))" "lc (fst a) (fst b) = 0"
  then have "a \<in> set s" "b \<in> set s" "fst a = fst b" using assms(3) by (auto simp: told_apart_def)
  then show "a = b" using assms(2) by (auto simp: stored_scope_def canonical_scope_def distinct_map inj_on_def)
qed

lemma scope_val_Inr:
  assumes "comparator lc" "scope_val lc v = Inr s"
  shows "stored_scope lc s"
proof -
  obtain cs ps where ps: "foldE add_pair [] cs = Inr ps" "scope lc (object_entries ps) = Inr s"
    using assms(2) by (auto simp: scope_val_def split: if_splits jsval.splits)
  have good: "good_pairs ps" by (rule add_pairs_good [OF ps(1)])
  moreover have "distinct (map fst (object_entries ps))"
    using good mset_eq_imp_distinct_iff by (metis good_pairs_def mset_map object_entries_mset)
  ultimately have "s = sort_by (\<lambda>a b. lc (fst a) (fst b)) (object_entries ps)"
    using ps(2) scope_plain [of "object_entries ps" lc] by (simp add: good_pairs_def)
  then show ?thesis using sorted_pairs_stored [OF assms(1) good] by simp
qed

lemma scope_val_value:
  assumes "comparator lc" "stored_scope lc s" "told_apart lc s"
  shows "scope_val lc (scope_value s) = Inr s"
proof -
  have good: "good_pairs s" by (rule stored_good [OF assms(2)])
  then have "foldE add_pair [] (map constraint_value s) = Inr s" using add_pairs_values [of "[]" s] by simp
  moreover have "distinct (map fst (object_entries s))"
    using good mset_eq_imp_distinct_iff by (metis good_pairs_def mset_map object_entries_mset)
  then have "scope lc (object_entries s) = Inr (sort_by (\<lambda>a b. lc (fst a) (fst b)) (object_entries s))"
    using good by (intro scope_plain) (auto simp: good_pairs_def)
  ultimately show ?thesis by (simp add: scope_val_def scope_value_def sorted_pairs_fixed [OF assms])
qed

lemma as_strings_map [simp]: "as_strings l (map JStr ss) = Inr ss"
  by (induction ss) simp_all

lemma grain_val_Inr: "grain_val v = Inr g \<Longrightarrow> canonical_grain g"
  by (fastforce simp: grain_val_def grain_cases canonical_grain_def list_all_iff split: if_splits jsval.splits)

lemma grain_val_value [simp]: "canonical_grain g \<Longrightarrow> grain_val (grain_value g) = Inr g"
  by (auto simp: grain_val_def grain_value_def grain_cases canonical_grain_def list_all_iff sorted_sort_id map_idI cong: map_cong)

lemma optional_text_plain: "optional_text l v = Inr t \<Longrightarrow> canonical_text t"
  using optional_text_Inr by (cases t) (fastforce simp: canonical_text_def plain_text_def)+

lemma optional_text_value [simp]:
  assumes "canonical_text t"
  shows "optional_text l (text_or_null t) = Inr t" "optional_text l (case t of None \<Rightarrow> JUndefined | Some s \<Rightarrow> JStr s) = Inr t"
  using assms by (cases t; simp add: optional_text_def text_or_null_def canonical_text_def)+

lemma optional_instant_Inr: "optional_instant l v = Inr t \<Longrightarrow> canonical_instant t"
  by (auto simp: optional_instant_def canonical_instant_def dest: instant_val_bound split: if_splits)

lemma optional_instant_value [simp]: "canonical_instant t \<Longrightarrow> optional_instant l (instant_or_null t) = Inr t"
  by (cases t) (simp_all add: optional_instant_def instant_or_null_def canonical_instant_def)

lemma optional_interval_Inr: "optional_interval l v = Inr i \<Longrightarrow> canonical_interval i"
  by (auto simp: optional_interval_def canonical_interval_def interval_of_Inr dest: instant_val_bound split: if_splits)

lemma optional_interval_value [simp]: "canonical_interval i \<Longrightarrow> optional_interval l (interval_or_null i) = Inr i"
  by (cases i) (simp_all add: optional_interval_def interval_or_null_def canonical_interval_def interval_of_def)

lemma revocation_metadata_Inr: "revocation_metadata v = Inr r \<Longrightarrow> canonical_revocation r"
  by (auto simp: revocation_metadata_def canonical_revocation_def canonical_instant_def
      dest!: non_empty_val_plain optional_instant_Inr split: if_splits option.splits)

lemma revocation_metadata_value [simp]:
  assumes "canonical_revocation r"
  shows "revocation_metadata (revocation_or_null r) = Inr r"
proof (cases r)
  case (Some m)
  have "optional_instant l (JStr (to_iso (rm_effective m))) = Inr (Some (rm_effective m))" for l
    using assms Some by (simp add: optional_instant_def canonical_revocation_def)
  then show ?thesis using assms Some
    by (simp add: revocation_metadata_def revocation_or_null_def canonical_revocation_def revocation_keys_def
        assert_known_keys_object [THEN iffD2])
qed (simp add: revocation_metadata_def revocation_or_null_def)

lemma code_units_told_apart: "told_apart code_unit_cmp s"
  by (auto simp: told_apart_def code_unit_cmp_def split: if_splits)

text \<open>A constraint on the key \<open>__proto__\<close> is dropped without an error: the stored scope is wider than the given one.\<close>

lemma scope_drops_proto_key:
  "scope_val lc (scope_value [(''provider'', ''p''), (''__proto__'', ''x'')]) = Inr [(''provider'', ''p'')]"
proof -
  have plain: "plain_text ''provider''" "plain_text ''p''" "plain_text ''__proto__''" "plain_text ''x''"
    by (simp_all add: plain_text_def trim_def js_space_def)
  have "foldE add_pair [] (map constraint_value [(''provider'', ''p''), (''__proto__'', ''x'')]) = Inr [(''provider'', ''p'')]"
    using plain by (simp add: add_pair_def constraint_value_def)
  moreover have "object_entries [(''provider'', ''p'')] = [(''provider'', ''p'')]" by code_simp
  moreover have "scope lc [(''provider'', ''p'')] = Inr [(''provider'', ''p'')]"
    using plain by (subst scope_plain) (simp_all add: sort_by_def)
  ultimately show ?thesis by (simp add: scope_val_def scope_value_def)
qed

end
