(* ===== verification/Evidence.thy ===== *)
theory Evidence
  imports EpiEnvelope
begin

text \<open>
  The evidence envelope (\<open>src/src/epistemic/evidence.ts\<close>): its record, its constructor, and that the
  constructor returns canonical envelopes only and returns those unchanged.
\<close>

section \<open>The envelope\<close>

datatype completeness_status = CsUnknown | CsPartial | CsComplete
datatype sensitivity_class = SnPublic | SnInternal | SnConfidential | SnRestricted
datatype redaction_class = RdNone | RdPartial | RdFull

definition completeness_statuses :: "completeness_status list" where
  "completeness_statuses = [CsUnknown, CsPartial, CsComplete]"
definition sensitivity_classes :: "sensitivity_class list" where
  "sensitivity_classes = [SnPublic, SnInternal, SnConfidential, SnRestricted]"
definition redaction_classes :: "redaction_class list" where
  "redaction_classes = [RdNone, RdPartial, RdFull]"

fun completeness_name :: "completeness_status \<Rightarrow> string" where
  "completeness_name CsUnknown = ''unknown''"
| "completeness_name CsPartial = ''partial''"
| "completeness_name CsComplete = ''complete''"

fun sensitivity_name :: "sensitivity_class \<Rightarrow> string" where
  "sensitivity_name SnPublic = ''public''"
| "sensitivity_name SnInternal = ''internal''"
| "sensitivity_name SnConfidential = ''confidential''"
| "sensitivity_name SnRestricted = ''restricted''"

fun redaction_name :: "redaction_class \<Rightarrow> string" where
  "redaction_name RdNone = ''none''"
| "redaction_name RdPartial = ''partial''"
| "redaction_name RdFull = ''full''"

record completeness_profile =
  cp_status :: completeness_status
  cp_method :: "string option"
  cp_events :: "string list"
  cp_scope :: "scope option"
  cp_time :: "time_interval option"

record evidence =
  vd_id :: string
  vd_type :: string
  vd_source :: string
  vd_source_class :: string
  vd_payload :: "jsval option"
  vd_hash :: "string option"
  vd_reference :: "string option"
  vd_scope :: scope
  vd_grain :: grain
  vd_occurred :: "instant_ms option"
  vd_valid :: "time_interval option"
  vd_observed :: "instant_ms option"
  vd_recorded :: "instant_ms option"
  vd_asserted :: "instant_ms option"
  vd_finalized :: "instant_ms option"
  vd_integrity :: integrity_status
  vd_authenticity :: authenticity_status
  vd_completeness :: completeness_profile
  vd_model :: "string option"
  vd_basis :: "economic_basis option"
  vd_assumptions :: "string list"
  vd_supersedes :: "string list"
  vd_superseded :: "string option"
  vd_revocation :: "revocation_metadata option"
  vd_schema :: int
  vd_sensitivity :: sensitivity_class
  vd_redaction :: redaction_class

definition evidence_keys :: "string list" where
  "evidence_keys =
     [''id'', ''evidenceType'', ''sourceIdentity'', ''sourceClass'', ''payload'', ''payloadHash'', ''reference'',
      ''scope'', ''grain'', ''occurredAt'', ''validTime'', ''observedAt'', ''recordedAt'', ''assertedAt'',
      ''finalizedAt'', ''integrity'', ''authenticity'', ''completeness'', ''measurementModelRef'',
      ''monetaryBasis'', ''assumptions'', ''supersedes'', ''supersededBy'', ''revocation'', ''schemaVersion'',
      ''sensitivity'', ''redaction'']"

definition completeness_keys :: "string list" where
  "completeness_keys = [''status'', ''method'', ''coveredEventTypes'', ''coveredScope'', ''coveredTime'']"

text \<open>\<open>coveredScope\<close>: absent, null or a scope.\<close>

definition optional_scope :: "(string \<Rightarrow> string \<Rightarrow> int) \<Rightarrow> jsval \<Rightarrow> scope option res" where
  "optional_scope lc v =
     (if v = JUndefined \<or> v = JNull then Inr None else bindE (scope_val lc v) (\<lambda>s. Inr (Some s)))"

definition completeness_profile :: "(string \<Rightarrow> string \<Rightarrow> int) \<Rightarrow> jsval \<Rightarrow> completeness_profile res" where
  "completeness_profile lc v =
     bindE (assert_known_keys completeness_keys ''completeness'' v) (\<lambda>_.
     bindE (member_val completeness_name completeness_statuses ''completeness status'' (field ''status'' v)) (\<lambda>s.
     bindE (optional_text ''completeness method'' (field ''method'' v)) (\<lambda>m.
     bindE (string_list_val ''covered event type'' (field ''coveredEventTypes'' v)) (\<lambda>es.
     bindE (optional_scope lc (field ''coveredScope'' v)) (\<lambda>c.
     bindE (optional_interval ''completeness coveredTime'' (field ''coveredTime'' v)) (\<lambda>t.
       Inr \<lparr>cp_status = s, cp_method = m, cp_events = es, cp_scope = c, cp_time = t\<rparr>))))))"

definition optional_basis :: "jsval \<Rightarrow> economic_basis option res" where
  "optional_basis v =
     (if v = JUndefined \<or> v = JNull then Inr None
      else bindE (member_val basis_name economic_bases ''monetary basis'' v) (\<lambda>b. Inr (Some b)))"

text \<open>\<open>payload\<close>: a null payload is a payload, an absent one is none.\<close>

definition optional_payload :: "(string \<Rightarrow> string \<Rightarrow> int) \<Rightarrow> jsval \<Rightarrow> jsval option res" where
  "optional_payload lc v = (if v = JUndefined then Inr None else bindE (clone_json lc v) (\<lambda>p. Inr (Some p)))"

definition evidence :: "(string \<Rightarrow> string \<Rightarrow> int) \<Rightarrow> jsval \<Rightarrow> evidence res" where
  "evidence lc v =
     bindE (assert_known_keys evidence_keys ''evidence'' v) (\<lambda>_.
     bindE (non_empty_val ''evidence id'' (field ''id'' v)) (\<lambda>i.
     bindE (non_empty_val ''evidence type'' (field ''evidenceType'' v)) (\<lambda>ty.
     bindE (non_empty_val ''evidence source identity'' (field ''sourceIdentity'' v)) (\<lambda>src.
     bindE (non_empty_val ''evidence source class'' (field ''sourceClass'' v)) (\<lambda>cls.
     bindE (optional_text ''evidence payloadHash'' (field ''payloadHash'' v)) (\<lambda>hash.
     bindE (optional_text ''evidence reference'' (field ''reference'' v)) (\<lambda>ref.
       if field ''payload'' v = JUndefined \<and> hash = None \<and> ref = None
       then Inl ''evidence requires payload, payloadHash, or reference''
       else
     bindE (optional_payload lc (field ''payload'' v)) (\<lambda>payload.
     bindE (optional_instant ''evidence observedAt'' (field ''observedAt'' v)) (\<lambda>obs.
     bindE (optional_instant ''evidence recordedAt'' (field ''recordedAt'' v)) (\<lambda>rec.
     bindE (optional_instant ''evidence assertedAt'' (field ''assertedAt'' v)) (\<lambda>asr.
       if obs = None \<and> rec = None \<and> asr = None
       then Inl ''evidence requires at least one acquisition timestamp (observedAt, recordedAt, or assertedAt)''
       else
     bindE (optional_basis (field ''monetaryBasis'' v)) (\<lambda>basis.
     bindE (optional_text ''measurementModelRef'' (field ''measurementModelRef'' v)) (\<lambda>model.
     bindE (string_list_val ''supersedes'' (field ''supersedes'' v)) (\<lambda>supersedes.
     bindE (optional_text ''supersededBy'' (field ''supersededBy'' v)) (\<lambda>superseded.
     bindE (schema_version_val ''schemaVersion'' (field ''schemaVersion'' v)) (\<lambda>schema.
     bindE (scope_val lc (field ''scope'' v)) (\<lambda>sc.
     bindE (grain_val (field ''grain'' v)) (\<lambda>gr.
     bindE (optional_instant ''evidence occurredAt'' (field ''occurredAt'' v)) (\<lambda>occ.
     bindE (optional_interval ''evidence validTime'' (field ''validTime'' v)) (\<lambda>valid.
     bindE (optional_instant ''evidence finalizedAt'' (field ''finalizedAt'' v)) (\<lambda>fin.
     bindE (member_val integrity_name integrities ''integrity'' (field ''integrity'' v)) (\<lambda>int.
     bindE (member_val authenticity_name authenticities ''authenticity'' (field ''authenticity'' v)) (\<lambda>auth.
     bindE (completeness_profile lc (field ''completeness'' v)) (\<lambda>cp.
     bindE (string_list_val ''assumption'' (field ''assumptions'' v)) (\<lambda>as.
     bindE (revocation_metadata (field ''revocation'' v)) (\<lambda>rm.
     bindE (member_val sensitivity_name sensitivity_classes ''sensitivity'' (field ''sensitivity'' v)) (\<lambda>sens.
     bindE (member_val redaction_name redaction_classes ''redaction'' (field ''redaction'' v)) (\<lambda>red.
       Inr \<lparr>vd_id = i, vd_type = ty, vd_source = src, vd_source_class = cls, vd_payload = payload, vd_hash = hash,
            vd_reference = ref, vd_scope = sc, vd_grain = gr, vd_occurred = occ, vd_valid = valid, vd_observed = obs,
            vd_recorded = rec, vd_asserted = asr, vd_finalized = fin, vd_integrity = int, vd_authenticity = auth,
            vd_completeness = cp, vd_model = model, vd_basis = basis, vd_assumptions = as, vd_supersedes = supersedes,
            vd_superseded = superseded, vd_revocation = rm, vd_schema = schema, vd_sensitivity = sens,
            vd_redaction = red\<rparr>))))))))))))))))))))))))))))"

text \<open>The object an envelope is, as it is passed back to the constructor.\<close>

definition scope_or_null :: "scope option \<Rightarrow> jsval" where
  "scope_or_null s = (case s of None \<Rightarrow> JNull | Some x \<Rightarrow> scope_value x)"

definition completeness_value :: "completeness_profile \<Rightarrow> jsval" where
  "completeness_value c =
     JObj [(''status'', JStr (completeness_name (cp_status c))), (''method'', text_or_null (cp_method c)),
           (''coveredEventTypes'', JArr (map JStr (cp_events c))),
           (''coveredScope'', scope_or_null (cp_scope c)),
           (''coveredTime'', interval_or_null (cp_time c))]"

text \<open>A spread \<open>...(x === null ? {} : { key: x })\<close>.\<close>

definition spread :: "string \<Rightarrow> jsval option \<Rightarrow> (string \<times> jsval) list" where
  "spread key x = (case x of None \<Rightarrow> [] | Some v \<Rightarrow> [(key, v)])"

definition evidence_value :: "evidence \<Rightarrow> jsval" where
  "evidence_value e =
     JObj ([(''id'', JStr (vd_id e)), (''evidenceType'', JStr (vd_type e)), (''sourceIdentity'', JStr (vd_source e)),
            (''sourceClass'', JStr (vd_source_class e))]
           @ spread ''payload'' (vd_payload e) @ spread ''payloadHash'' (map_option JStr (vd_hash e))
           @ spread ''reference'' (map_option JStr (vd_reference e))
           @ [(''scope'', scope_value (vd_scope e)), (''grain'', grain_value (vd_grain e)),
              (''occurredAt'', instant_or_null (vd_occurred e)), (''validTime'', interval_or_null (vd_valid e)),
              (''observedAt'', instant_or_null (vd_observed e)), (''recordedAt'', instant_or_null (vd_recorded e)),
              (''assertedAt'', instant_or_null (vd_asserted e)), (''finalizedAt'', instant_or_null (vd_finalized e)),
              (''integrity'', JStr (integrity_name (vd_integrity e))),
              (''authenticity'', JStr (authenticity_name (vd_authenticity e))),
              (''completeness'', completeness_value (vd_completeness e)),
              (''measurementModelRef'', text_or_null (vd_model e)),
              (''monetaryBasis'', text_or_null (map_option basis_name (vd_basis e))),
              (''assumptions'', JArr (map JStr (vd_assumptions e))),
              (''supersedes'', JArr (map JStr (vd_supersedes e))), (''supersededBy'', text_or_null (vd_superseded e)),
              (''revocation'', revocation_or_null (vd_revocation e)), (''schemaVersion'', JNum (of_int (vd_schema e))),
              (''sensitivity'', JStr (sensitivity_name (vd_sensitivity e))),
              (''redaction'', JStr (redaction_name (vd_redaction e)))])"

section \<open>Canonical envelopes\<close>

definition canonical_completeness :: "(string \<Rightarrow> string \<Rightarrow> int) \<Rightarrow> completeness_profile \<Rightarrow> bool" where
  "canonical_completeness lc c =
     (canonical_text (cp_method c) \<and> canonical_ids (cp_events c) \<and> (\<forall>s. cp_scope c = Some s \<longrightarrow> stored_scope lc s)
      \<and> canonical_interval (cp_time c))"

definition canonical_evidence :: "(string \<Rightarrow> string \<Rightarrow> int) \<Rightarrow> evidence \<Rightarrow> bool" where
  "canonical_evidence lc e =
     (plain_text (vd_id e) \<and> plain_text (vd_type e) \<and> plain_text (vd_source e) \<and> plain_text (vd_source_class e)
      \<and> (vd_payload e \<noteq> None \<or> vd_hash e \<noteq> None \<or> vd_reference e \<noteq> None)
      \<and> (vd_observed e \<noteq> None \<or> vd_recorded e \<noteq> None \<or> vd_asserted e \<noteq> None)
      \<and> (\<forall>p. vd_payload e = Some p \<longrightarrow> canonical_json lc p) \<and> canonical_text (vd_hash e) \<and> canonical_text (vd_reference e)
      \<and> stored_scope lc (vd_scope e) \<and> canonical_grain (vd_grain e)
      \<and> canonical_instant (vd_occurred e) \<and> canonical_interval (vd_valid e) \<and> canonical_instant (vd_observed e)
      \<and> canonical_instant (vd_recorded e) \<and> canonical_instant (vd_asserted e) \<and> canonical_instant (vd_finalized e)
      \<and> canonical_completeness lc (vd_completeness e) \<and> canonical_text (vd_model e)
      \<and> canonical_ids (vd_assumptions e) \<and> canonical_ids (vd_supersedes e) \<and> canonical_text (vd_superseded e)
      \<and> canonical_revocation (vd_revocation e) \<and> 1 \<le> vd_schema e \<and> vd_schema e \<le> max_safe)"

lemma evidence_names_found [simp]:
  "member_val completeness_name completeness_statuses l (JStr (completeness_name c)) = Inr c"
  "member_val sensitivity_name sensitivity_classes l (JStr (sensitivity_name s)) = Inr s"
  "member_val redaction_name redaction_classes l (JStr (redaction_name r)) = Inr r"
proof -
  show "member_val completeness_name completeness_statuses l (JStr (completeness_name c)) = Inr c" by (cases c) (simp_all add: completeness_statuses_def)
  show "member_val sensitivity_name sensitivity_classes l (JStr (sensitivity_name s)) = Inr s" by (cases s) (simp_all add: sensitivity_classes_def)
  show "member_val redaction_name redaction_classes l (JStr (redaction_name r)) = Inr r" by (cases r) (simp_all add: redaction_classes_def)
qed

lemma spread_map: "map_of (spread k x @ fs) q = (if x \<noteq> None \<and> q = k then x else map_of fs q)"
  by (cases x) (auto simp: spread_def)

lemma spread_keys: "fst ` set (spread k x) \<subseteq> {k}"
  by (cases x) (auto simp: spread_def)

lemma completeness_Inr:
  assumes "comparator lc" "completeness_profile lc v = Inr c"
  shows "canonical_completeness lc c"
  using assms(2) scope_val_Inr [OF assms(1)]
  by (auto simp: completeness_profile_def canonical_completeness_def optional_scope_def
      dest: optional_text_plain string_list_val_Inr optional_interval_Inr split: if_splits)

definition optional_told_apart :: "(string \<Rightarrow> string \<Rightarrow> int) \<Rightarrow> scope option \<Rightarrow> bool" where
  "optional_told_apart lc c = (\<forall>s. c = Some s \<longrightarrow> told_apart lc s)"

lemma scope_value_object [simp]: "scope_value s \<noteq> JUndefined" "scope_value s \<noteq> JNull"
  by (simp_all add: scope_value_def)

lemma optional_scope_value:
  assumes "comparator lc" "\<forall>s. c = Some s \<longrightarrow> stored_scope lc s" "optional_told_apart lc c"
  shows "optional_scope lc (scope_or_null c) = Inr c"
  using assms by (cases c) (simp_all add: optional_scope_def scope_or_null_def optional_told_apart_def scope_val_value)

lemma completeness_value_roundtrip:
  assumes "comparator lc" "canonical_completeness lc c" "optional_told_apart lc (cp_scope c)"
  shows "completeness_profile lc (completeness_value c) = Inr c"
  using assms(2) optional_scope_value [OF assms(1) _ assms(3)]
  by (simp add: completeness_profile_def completeness_value_def completeness_keys_def canonical_completeness_def
      string_list_val_canonical assert_known_keys_object [THEN iffD2] del: member_val.simps)

lemma evidence_value_fields [simp]:
  "field ''id'' (evidence_value e) = JStr (vd_id e)"
  "field ''evidenceType'' (evidence_value e) = JStr (vd_type e)"
  "field ''sourceIdentity'' (evidence_value e) = JStr (vd_source e)"
  "field ''sourceClass'' (evidence_value e) = JStr (vd_source_class e)"
  "field ''payload'' (evidence_value e) = (case vd_payload e of None \<Rightarrow> JUndefined | Some p \<Rightarrow> p)"
  "field ''payloadHash'' (evidence_value e) = (case vd_hash e of None \<Rightarrow> JUndefined | Some s \<Rightarrow> JStr s)"
  "field ''reference'' (evidence_value e) = (case vd_reference e of None \<Rightarrow> JUndefined | Some s \<Rightarrow> JStr s)"
  "field ''scope'' (evidence_value e) = scope_value (vd_scope e)"
  "field ''grain'' (evidence_value e) = grain_value (vd_grain e)"
  "field ''occurredAt'' (evidence_value e) = instant_or_null (vd_occurred e)"
  "field ''validTime'' (evidence_value e) = interval_or_null (vd_valid e)"
  "field ''observedAt'' (evidence_value e) = instant_or_null (vd_observed e)"
  "field ''recordedAt'' (evidence_value e) = instant_or_null (vd_recorded e)"
  "field ''assertedAt'' (evidence_value e) = instant_or_null (vd_asserted e)"
  "field ''finalizedAt'' (evidence_value e) = instant_or_null (vd_finalized e)"
  "field ''integrity'' (evidence_value e) = JStr (integrity_name (vd_integrity e))"
  "field ''authenticity'' (evidence_value e) = JStr (authenticity_name (vd_authenticity e))"
  "field ''completeness'' (evidence_value e) = completeness_value (vd_completeness e)"
  "field ''measurementModelRef'' (evidence_value e) = text_or_null (vd_model e)"
  "field ''monetaryBasis'' (evidence_value e) = text_or_null (map_option basis_name (vd_basis e))"
  "field ''assumptions'' (evidence_value e) = JArr (map JStr (vd_assumptions e))"
  "field ''supersedes'' (evidence_value e) = JArr (map JStr (vd_supersedes e))"
  "field ''supersededBy'' (evidence_value e) = text_or_null (vd_superseded e)"
  "field ''revocation'' (evidence_value e) = revocation_or_null (vd_revocation e)"
  "field ''schemaVersion'' (evidence_value e) = JNum (of_int (vd_schema e))"
  "field ''sensitivity'' (evidence_value e) = JStr (sensitivity_name (vd_sensitivity e))"
  "field ''redaction'' (evidence_value e) = JStr (redaction_name (vd_redaction e))"
  by (simp_all add: evidence_value_def spread_map del: map_of_append split: option.split)

lemma evidence_value_keys [simp]: "assert_known_keys evidence_keys l (evidence_value e) = Inr ()"
  using spread_keys [of "''payload''" "vd_payload e"] spread_keys [of "''payloadHash''" "map_option JStr (vd_hash e)"]
    spread_keys [of "''reference''" "map_option JStr (vd_reference e)"]
  by (simp add: evidence_value_def evidence_keys_def image_Un) blast

lemma optional_basis_value [simp]: "optional_basis (text_or_null (map_option basis_name b)) = Inr b"
proof (cases b)
  case (Some x)
  then show ?thesis
    by (cases x) (simp_all add: optional_basis_def text_or_null_def economic_bases_def)
qed (simp add: optional_basis_def text_or_null_def)

lemma evidence_Inr:
  assumes "comparator lc" "evidence lc v = Inr e"
  shows "canonical_evidence lc e"
proof -
  from assms(2) obtain i ty src cls hash ref payload obs rec asr basis model supersedes superseded schema sc gr occ valid fin
      int auth cp as rm sens red where
    plain: "non_empty_val ''evidence id'' (field ''id'' v) = Inr i"
      "non_empty_val ''evidence type'' (field ''evidenceType'' v) = Inr ty"
      "non_empty_val ''evidence source identity'' (field ''sourceIdentity'' v) = Inr src"
      "non_empty_val ''evidence source class'' (field ''sourceClass'' v) = Inr cls"
    and texts: "optional_text ''evidence payloadHash'' (field ''payloadHash'' v) = Inr hash"
      "optional_text ''evidence reference'' (field ''reference'' v) = Inr ref"
      "optional_text ''measurementModelRef'' (field ''measurementModelRef'' v) = Inr model"
      "optional_text ''supersededBy'' (field ''supersededBy'' v) = Inr superseded"
    and content: "\<not> (field ''payload'' v = JUndefined \<and> hash = None \<and> ref = None)" "\<not> (obs = None \<and> rec = None \<and> asr = None)"
    and payload: "optional_payload lc (field ''payload'' v) = Inr payload"
    and times: "optional_instant ''evidence observedAt'' (field ''observedAt'' v) = Inr obs"
      "optional_instant ''evidence recordedAt'' (field ''recordedAt'' v) = Inr rec"
      "optional_instant ''evidence assertedAt'' (field ''assertedAt'' v) = Inr asr"
      "optional_instant ''evidence occurredAt'' (field ''occurredAt'' v) = Inr occ"
      "optional_instant ''evidence finalizedAt'' (field ''finalizedAt'' v) = Inr fin"
    and valid: "optional_interval ''evidence validTime'' (field ''validTime'' v) = Inr valid"
    and lists: "string_list_val ''supersedes'' (field ''supersedes'' v) = Inr supersedes"
      "string_list_val ''assumption'' (field ''assumptions'' v) = Inr as"
    and rest: "schema_version_val ''schemaVersion'' (field ''schemaVersion'' v) = Inr schema"
      "scope_val lc (field ''scope'' v) = Inr sc" "grain_val (field ''grain'' v) = Inr gr"
      "completeness_profile lc (field ''completeness'' v) = Inr cp" "revocation_metadata (field ''revocation'' v) = Inr rm"
    and made: "\<lparr>vd_id = i, vd_type = ty, vd_source = src, vd_source_class = cls, vd_payload = payload, vd_hash = hash,
            vd_reference = ref, vd_scope = sc, vd_grain = gr, vd_occurred = occ, vd_valid = valid, vd_observed = obs,
            vd_recorded = rec, vd_asserted = asr, vd_finalized = fin, vd_integrity = int, vd_authenticity = auth,
            vd_completeness = cp, vd_model = model, vd_basis = basis, vd_assumptions = as, vd_supersedes = supersedes,
            vd_superseded = superseded, vd_revocation = rm, vd_schema = schema, vd_sensitivity = sens,
            vd_redaction = red\<rparr> = e"
    unfolding evidence_def bindE_Inr_iff if_Inl_Inr_iff sum.inject
    by (elim exE conjE) (rule that; assumption)
  have "payload \<noteq> None \<or> hash \<noteq> None \<or> ref \<noteq> None" "\<forall>p. payload = Some p \<longrightarrow> canonical_json lc p"
    using payload content(1) clone_json_canonical [OF assms(1)] by (auto simp: optional_payload_def split: if_splits)
  then show ?thesis
    unfolding canonical_evidence_def made [symmetric] evidence.simps
    using plain [THEN non_empty_val_plain] texts [THEN optional_text_plain] times [THEN optional_instant_Inr] optional_interval_Inr [OF valid]
      lists [THEN string_list_val_Inr] content(2) rest(1) [unfolded schema_version_Inr] scope_val_Inr [OF assms(1) rest(2)] grain_val_Inr [OF rest(3)]
      completeness_Inr [OF assms(1) rest(4)] revocation_metadata_Inr [OF rest(5)]
    by (intro conjI) (assumption | simp)+
qed

lemma evidence_fixed:
  assumes "comparator lc" "canonical_evidence lc e" "told_apart lc (vd_scope e)" "optional_told_apart lc (cp_scope (vd_completeness e))"
  shows "evidence lc (evidence_value e) = Inr e"
proof -
  have c: "canonical_evidence lc e" by fact
  have payload: "optional_payload lc (case vd_payload e of None \<Rightarrow> JUndefined | Some p \<Rightarrow> p) = Inr (vd_payload e)"
    "(case vd_payload e of None \<Rightarrow> JUndefined | Some p \<Rightarrow> p) = JUndefined \<longleftrightarrow> vd_payload e = None"
    using c by (cases "vd_payload e"; auto simp: canonical_evidence_def clone_canonical_json optional_payload_def)+
  have sc: "scope_val lc (scope_value (vd_scope e)) = Inr (vd_scope e)"
    using c by (intro scope_val_value [OF assms(1) _ assms(3)]) (simp add: canonical_evidence_def)
  have cp: "completeness_profile lc (completeness_value (vd_completeness e)) = Inr (vd_completeness e)"
    using c by (intro completeness_value_roundtrip [OF assms(1) _ assms(4)]) (simp add: canonical_evidence_def)
  have schema: "schema_version_val l (JNum (of_int (vd_schema e))) = Inr (vd_schema e)" for l
    using c by (simp add: schema_version_Inr canonical_evidence_def)
  have guards: "\<not> (vd_payload e = None \<and> vd_hash e = None \<and> vd_reference e = None)"
    "\<not> (vd_observed e = None \<and> vd_recorded e = None \<and> vd_asserted e = None)"
    using c by (auto simp: canonical_evidence_def)
  show ?thesis
    unfolding evidence_def evidence_value_fields evidence_value_keys bindE_simps payload sc cp schema
    using c guards
    by (simp add: canonical_evidence_def string_list_val_canonical del: member_val.simps)
qed

section \<open>Properties\<close>

definition sample_evidence :: evidence where
  "sample_evidence =
     \<lparr>vd_id = ''e'', vd_type = ''invoice'', vd_source = ''p'', vd_source_class = ''provider'', vd_payload = Some JNull,
      vd_hash = None, vd_reference = Some ''r'', vd_scope = [(''project'', ''x''), (''team'', ''y'')], vd_grain = [''day''],
      vd_occurred = Some 0, vd_valid = Some \<lparr>from_ms = 0, to_ms = 1000\<rparr>, vd_observed = None, vd_recorded = Some 1000,
      vd_asserted = None, vd_finalized = None, vd_integrity = IntVerified, vd_authenticity = AuthPinned,
      vd_completeness = \<lparr>cp_status = CsPartial, cp_method = Some ''m'', cp_events = [''usage''],
                         cp_scope = Some [(''project'', ''x'')], cp_time = None\<rparr>,
      vd_model = None, vd_basis = Some BBilled, vd_assumptions = [], vd_supersedes = [''d''], vd_superseded = None,
      vd_revocation = None, vd_schema = 1, vd_sensitivity = SnInternal, vd_redaction = RdNone\<rparr>"

lemma sample_evidence_canonical: "canonical_evidence code_unit_cmp sample_evidence"
proof -
  have scopes: "sorted_wrt (\<lambda>a b. code_unit_cmp (fst a) (fst b) \<le> 0) [(''project'', ''x''), (''team'', ''y'')]" by code_simp
  then show ?thesis
    by (simp add: canonical_evidence_def sample_evidence_def plain_text_def trim_def js_space_def canonical_text_def stored_scope_def
        canonical_scope_def canonical_grain_def canonical_instant_def canonical_interval_def canonical_completeness_def
        canonical_ids_def canonical_revocation_def max_time_def max_safe_def)
qed

text \<open>C28: the constructor returns canonical envelopes only: some content, an acquisition time, distinct
  plain ids, a sorted scope and grain, ordered intervals; and as long as the collation tells the keys of
  its scopes apart, an envelope is returned unchanged when it is passed back.\<close>

theorem evidence_canonical_roundtrip:
  assumes "comparator lc" "evidence lc v = Inr e"
  shows "canonical_evidence lc e
    \<and> (told_apart lc (vd_scope e) \<and> optional_told_apart lc (cp_scope (vd_completeness e)) \<longrightarrow>
         evidence lc (evidence_value e) = Inr e)"
  using evidence_Inr [OF assms] evidence_fixed [OF assms(1)] by blast

theorem evidence_canonical_roundtrip_witness:
  "evidence code_unit_cmp (evidence_value sample_evidence) = Inr sample_evidence"
proof -
  have apart: "told_apart code_unit_cmp (vd_scope sample_evidence)"
    "optional_told_apart code_unit_cmp (cp_scope (vd_completeness sample_evidence))"
    by (simp_all add: code_units_told_apart optional_told_apart_def)
  have "evidence code_unit_cmp (evidence_value sample_evidence) = Inr sample_evidence"
    by (rule evidence_fixed [OF code_units.comparator_axioms sample_evidence_canonical apart])
  then show ?thesis using evidence_canonical_roundtrip [OF code_units.comparator_axioms] apart by blast
qed

end
