(* ===== verification/Claim.thy ===== *)
theory Claim
  imports EpiEnvelope
begin

text \<open>
  The claim envelope (\<open>src/src/epistemic/claim.ts\<close>): its record, its constructor with every cross-axis
  guard, and that the constructor returns canonical claims only and returns those unchanged.
\<close>

section \<open>The envelope\<close>

datatype uncertainty_kind = UkInterval | UkIdentifiedSet | UkDistribution | UkQualitative

definition uncertainty_kinds :: "uncertainty_kind list" where
  "uncertainty_kinds = [UkInterval, UkIdentifiedSet, UkDistribution, UkQualitative]"

fun uncertainty_name :: "uncertainty_kind \<Rightarrow> string" where
  "uncertainty_name UkInterval = ''interval''"
| "uncertainty_name UkIdentifiedSet = ''identified_set''"
| "uncertainty_name UkDistribution = ''distribution''"
| "uncertainty_name UkQualitative = ''qualitative''"

record typed_proposition =
  pr_predicate :: string
  pr_value :: jsval

record negative_claim =
  nc_event :: string
  nc_witnesses :: "string list"

record uncertainty =
  un_kind :: uncertainty_kind
  un_lower :: "rat option"
  un_upper :: "rat option"
  un_values :: "rat list"
  un_description :: "string option"

record claim =
  cl_id :: string
  cl_proposition :: typed_proposition
  cl_negative :: "negative_claim option"
  cl_subject :: string
  cl_scope :: scope
  cl_grain :: grain
  cl_valid :: "time_interval option"
  cl_as_of :: "instant_ms option"
  cl_epistemic :: epistemic_state
  cl_profile :: claim_profile
  cl_model :: "string option"
  cl_evidence :: "string list"
  cl_rule :: string
  cl_rule_version :: int
  cl_assumptions :: "string list"
  cl_assumption_ids :: "string list"
  cl_uncertainty :: "uncertainty option"
  cl_causal :: causality_status
  cl_basis :: monetary_basis_status
  cl_finality :: finality_status
  cl_issued :: instant_ms
  cl_supersedes :: "string list"
  cl_superseded :: "string option"
  cl_revocation :: "revocation_metadata option"
  cl_certificates :: "string list"
  cl_schema :: int

definition claim_keys :: "string list" where
  "claim_keys =
     [''id'', ''proposition'', ''negativeClaim'', ''subject'', ''scope'', ''grain'', ''time'', ''epistemic'', ''profile'',
      ''measurementModelRef'', ''evidenceIds'', ''derivationRule'', ''derivationVersion'', ''assumptions'',
      ''uncertainty'', ''causalStatus'', ''issuedAt'', ''supersedes'', ''supersededBy'', ''revocation'', ''assumptionIds'',
      ''decisionCertificateIds'', ''schemaVersion'', ''monetaryBasis'', ''finality'']"

definition proposition_keys :: "string list" where "proposition_keys = [''predicate'', ''value'']"
definition time_keys :: "string list" where "time_keys = [''validTime'', ''asOf'']"
definition uncertainty_keys :: "string list" where
  "uncertainty_keys = [''kind'', ''lower'', ''upper'', ''values'', ''description'']"
definition profile_keys :: "string list" where
  "profile_keys =
     [''epistemic'', ''integrity'', ''authenticity'', ''scope'', ''coverage'', ''measurement'', ''causality'',
      ''monetaryBasis'', ''finality'', ''decisionFitness'']"

section \<open>The parts\<close>

definition finite_val :: "string \<Rightarrow> jsval \<Rightarrow> rat res" where
  "finite_val label v = (case v of JNum r \<Rightarrow> Inr r | _ \<Rightarrow> Inl (label @ '' must be finite''))"

text \<open>\<open>stringList(value, label, true)\<close>.\<close>

definition required_list_val :: "string \<Rightarrow> jsval \<Rightarrow> string list res" where
  "required_list_val label v =
     (if v = JUndefined then Inl (label @ '' must contain at least one entry'')
      else bindE (string_list_val label v) (\<lambda>ids.
             if ids = [] then Inl (label @ '' must contain at least one entry'') else Inr ids))"

definition negative_claim :: "jsval \<Rightarrow> negative_claim option res" where
  "negative_claim v =
     (if v = JUndefined \<or> v = JNull then Inr None
      else bindE (assert_known_keys [''eventType'', ''completenessWitnessIds''] ''negativeClaim'' v) (\<lambda>_.
           bindE (non_empty_val ''negativeClaim eventType'' (field ''eventType'' v)) (\<lambda>ev.
           bindE (required_list_val ''negativeClaim completenessWitnessIds'' (field ''completenessWitnessIds'' v)) (\<lambda>ws.
             Inr (Some \<lparr>nc_event = ev, nc_witnesses = ws\<rparr>)))))"

definition optional_finite :: "string \<Rightarrow> jsval \<Rightarrow> rat option res" where
  "optional_finite label v =
     (if v = JUndefined \<or> v = JNull then Inr None else bindE (finite_val label v) (\<lambda>r. Inr (Some r)))"

definition uncertainty :: "jsval \<Rightarrow> uncertainty option res" where
  "uncertainty v =
     (if v = JUndefined \<or> v = JNull then Inr None
      else bindE (assert_known_keys uncertainty_keys ''uncertainty'' v) (\<lambda>_.
           bindE (member_val uncertainty_name uncertainty_kinds ''uncertainty kind'' (field ''kind'' v)) (\<lambda>k.
           bindE (optional_finite ''uncertainty lower'' (field ''lower'' v)) (\<lambda>lower.
           bindE (optional_finite ''uncertainty upper'' (field ''upper'' v)) (\<lambda>upper.
             if (lower = None) \<noteq> (upper = None) then Inl ''uncertainty lower and upper must be supplied together''
             else if (case (lower, upper) of (Some l, Some u) \<Rightarrow> l > u | _ \<Rightarrow> False)
             then Inl ''uncertainty lower must be <= upper''
             else
           bindE (case field ''values'' v of JUndefined \<Rightarrow> Inr [] | JArr vs \<Rightarrow> mapE (finite_val ''uncertainty values'') vs
                  | _ \<Rightarrow> Inl ''uncertainty values must be an array'') (\<lambda>vals.
             if k = UkIdentifiedSet \<and> vals = [] \<and> lower = None
             then Inl ''identified_set uncertainty requires values or bounds''
             else
           bindE (optional_text ''uncertainty description'' (field ''description'' v)) (\<lambda>d.
             Inr (Some \<lparr>un_kind = k, un_lower = lower, un_upper = upper, un_values = vals, un_description = d\<rparr>))))))))"

definition claim_proposition :: "(string \<Rightarrow> string \<Rightarrow> int) \<Rightarrow> jsval \<Rightarrow> typed_proposition res" where
  "claim_proposition lc v =
     bindE (assert_known_keys proposition_keys ''proposition'' v) (\<lambda>_.
     bindE (non_empty_val ''proposition predicate'' (field ''predicate'' v)) (\<lambda>p.
     bindE (clone_json lc (field ''value'' v)) (\<lambda>w.
       Inr \<lparr>pr_predicate = p, pr_value = w\<rparr>)))"

definition claim_time :: "jsval \<Rightarrow> (time_interval option \<times> instant_ms option) res" where
  "claim_time v =
     bindE (assert_known_keys time_keys ''claim time'' v) (\<lambda>_.
     bindE (optional_interval ''claim validTime'' (field ''validTime'' v)) (\<lambda>valid.
     bindE (optional_instant ''claim asOf'' (field ''asOf'' v)) (\<lambda>as_of.
       if valid = None \<and> as_of = None then Inl ''claim time requires validTime or asOf'' else Inr (valid, as_of))))"

text \<open>The profile and the aliases that must repeat it.\<close>

definition claim_axes :: "jsval \<Rightarrow> claim_profile res" where
  "claim_axes v =
     bindE (assert_known_keys profile_keys ''claim profile'' (field ''profile'' v)) (\<lambda>_.
     bindE (claim_profile (field ''profile'' v)) (\<lambda>p.
     bindE (member_val epistemic_name epistemic_states ''epistemic state'' (field ''epistemic'' v)) (\<lambda>e.
       if e \<noteq> pf_epistemic p then Inl ''claim epistemic must match profile.epistemic''
       else
     bindE (member_val causality_name causalities ''causal status'' (field ''causalStatus'' v)) (\<lambda>c.
       if c \<noteq> pf_causality p then Inl ''claim causalStatus must match profile.causality''
       else if field ''monetaryBasis'' v \<noteq> JUndefined \<and> field ''monetaryBasis'' v \<noteq> JStr (monetary_basis_name (pf_basis p))
       then Inl ''claim monetaryBasis must match profile.monetaryBasis''
       else if field ''finality'' v \<noteq> JUndefined \<and> field ''finality'' v \<noteq> JStr (finality_name (pf_finality p))
       then Inl ''claim finality must match profile.finality''
       else Inr p))))"

definition claim :: "(string \<Rightarrow> string \<Rightarrow> int) \<Rightarrow> jsval \<Rightarrow> claim res" where
  "claim lc v =
     bindE (assert_known_keys claim_keys ''claim'' v) (\<lambda>_.
     bindE (non_empty_val ''claim id'' (field ''id'' v)) (\<lambda>i.
     bindE (claim_proposition lc (field ''proposition'' v)) (\<lambda>pr.
     bindE (non_empty_val ''claim subject'' (field ''subject'' v)) (\<lambda>subj.
     bindE (negative_claim (field ''negativeClaim'' v)) (\<lambda>neg.
     bindE (scope_val lc (field ''scope'' v)) (\<lambda>sc.
     bindE (grain_val (field ''grain'' v)) (\<lambda>gr.
     bindE (claim_time (field ''time'' v)) (\<lambda>time.
     bindE (claim_axes v) (\<lambda>profile.
     bindE (optional_text ''measurementModelRef'' (field ''measurementModelRef'' v)) (\<lambda>model.
       if pf_measurement profile \<noteq> MeasProxyUnvalidated \<and> model = None
       then Inl ''measurementModelRef is required when profile.measurement is validated''
       else
     bindE (required_list_val ''evidenceIds'' (field ''evidenceIds'' v)) (\<lambda>ev.
     bindE (non_empty_val ''derivationRule'' (field ''derivationRule'' v)) (\<lambda>rule.
     bindE (schema_version_val ''derivationVersion'' (field ''derivationVersion'' v)) (\<lambda>rver.
     bindE (optional_instant ''claim issuedAt'' (field ''issuedAt'' v)) (\<lambda>issued.
       case issued of None \<Rightarrow> Inl ''claim issuedAt must be provided''
       | Some ms \<Rightarrow>
     bindE (string_list_val ''supersedes'' (field ''supersedes'' v)) (\<lambda>supersedes.
     bindE (optional_text ''supersededBy'' (field ''supersededBy'' v)) (\<lambda>superseded.
     bindE (string_list_val ''assumptionIds'' (field ''assumptionIds'' v)) (\<lambda>aids.
     bindE (string_list_val ''decisionCertificateIds'' (field ''decisionCertificateIds'' v)) (\<lambda>certs.
     bindE (schema_version_val ''schemaVersion'' (field ''schemaVersion'' v)) (\<lambda>schema.
     bindE (string_list_val ''assumption'' (field ''assumptions'' v)) (\<lambda>as.
     bindE (uncertainty (field ''uncertainty'' v)) (\<lambda>unc.
     bindE (revocation_metadata (field ''revocation'' v)) (\<lambda>rm.
       Inr \<lparr>cl_id = i, cl_proposition = pr, cl_negative = neg, cl_subject = subj, cl_scope = sc, cl_grain = gr,
            cl_valid = fst time, cl_as_of = snd time, cl_epistemic = pf_epistemic profile, cl_profile = profile,
            cl_model = model, cl_evidence = ev, cl_rule = rule, cl_rule_version = rver, cl_assumptions = as,
            cl_assumption_ids = aids, cl_uncertainty = unc, cl_causal = pf_causality profile, cl_basis = pf_basis profile,
            cl_finality = pf_finality profile, cl_issued = ms, cl_supersedes = supersedes, cl_superseded = superseded,
            cl_revocation = rm, cl_certificates = certs, cl_schema = schema\<rparr>))))))))))))))))))))))"

section \<open>The object a claim is\<close>

definition negative_value :: "negative_claim \<Rightarrow> jsval" where
  "negative_value n =
     JObj [(''eventType'', JStr (nc_event n)), (''completenessWitnessIds'', JArr (map JStr (nc_witnesses n)))]"

definition number_or_null :: "rat option \<Rightarrow> jsval" where
  "number_or_null r = (case r of None \<Rightarrow> JNull | Some x \<Rightarrow> JNum x)"

definition uncertainty_or_null :: "uncertainty option \<Rightarrow> jsval" where
  "uncertainty_or_null u =
     (case u of None \<Rightarrow> JNull
      | Some x \<Rightarrow> JObj [(''kind'', JStr (uncertainty_name (un_kind x))), (''lower'', number_or_null (un_lower x)),
                        (''upper'', number_or_null (un_upper x)), (''values'', JArr (map JNum (un_values x))),
                        (''description'', text_or_null (un_description x))])"

definition proposition_value :: "typed_proposition \<Rightarrow> jsval" where
  "proposition_value p = JObj [(''predicate'', JStr (pr_predicate p)), (''value'', pr_value p)]"

definition time_value :: "time_interval option \<Rightarrow> instant_ms option \<Rightarrow> jsval" where
  "time_value valid as_of = JObj [(''validTime'', interval_or_null valid), (''asOf'', instant_or_null as_of)]"

definition profile_value :: "claim_profile \<Rightarrow> jsval" where
  "profile_value p =
     JObj [(''epistemic'', JStr (epistemic_name (pf_epistemic p))), (''integrity'', JStr (integrity_name (pf_integrity p))),
           (''authenticity'', JStr (authenticity_name (pf_authenticity p))), (''scope'', JStr (scope_status_name (pf_scope p))),
           (''coverage'', JStr (coverage_name (pf_coverage p))), (''measurement'', JStr (measurement_name (pf_measurement p))),
           (''causality'', JStr (causality_name (pf_causality p))), (''monetaryBasis'', JStr (monetary_basis_name (pf_basis p))),
           (''finality'', JStr (finality_name (pf_finality p))), (''decisionFitness'', JStr (fitness_name (pf_fitness p)))]"

definition claim_value :: "claim \<Rightarrow> jsval" where
  "claim_value c =
     JObj ([(''id'', JStr (cl_id c)), (''proposition'', proposition_value (cl_proposition c))]
           @ (case cl_negative c of None \<Rightarrow> [] | Some n \<Rightarrow> [(''negativeClaim'', negative_value n)])
           @ [(''subject'', JStr (cl_subject c)), (''scope'', scope_value (cl_scope c)), (''grain'', grain_value (cl_grain c)),
              (''time'', time_value (cl_valid c) (cl_as_of c)), (''epistemic'', JStr (epistemic_name (cl_epistemic c))),
              (''profile'', profile_value (cl_profile c)), (''measurementModelRef'', text_or_null (cl_model c)),
              (''evidenceIds'', JArr (map JStr (cl_evidence c))), (''derivationRule'', JStr (cl_rule c)),
              (''derivationVersion'', JNum (of_int (cl_rule_version c))),
              (''assumptions'', JArr (map JStr (cl_assumptions c))), (''assumptionIds'', JArr (map JStr (cl_assumption_ids c))),
              (''uncertainty'', uncertainty_or_null (cl_uncertainty c)),
              (''causalStatus'', JStr (causality_name (cl_causal c))),
              (''monetaryBasis'', JStr (monetary_basis_name (cl_basis c))), (''finality'', JStr (finality_name (cl_finality c))),
              (''issuedAt'', JStr (to_iso (cl_issued c))), (''supersedes'', JArr (map JStr (cl_supersedes c))),
              (''supersededBy'', text_or_null (cl_superseded c)), (''revocation'', revocation_or_null (cl_revocation c)),
              (''decisionCertificateIds'', JArr (map JStr (cl_certificates c))),
              (''schemaVersion'', JNum (of_int (cl_schema c)))])"

section \<open>Canonical claims\<close>

definition canonical_uncertainty :: "uncertainty option \<Rightarrow> bool" where
  "canonical_uncertainty u =
     (\<forall>x. u = Some x \<longrightarrow> (un_lower x = None \<longleftrightarrow> un_upper x = None)
        \<and> (\<forall>l h. un_lower x = Some l \<and> un_upper x = Some h \<longrightarrow> l \<le> h)
        \<and> (un_kind x = UkIdentifiedSet \<longrightarrow> un_values x \<noteq> [] \<or> un_lower x \<noteq> None) \<and> canonical_text (un_description x))"

definition canonical_negative :: "negative_claim option \<Rightarrow> bool" where
  "canonical_negative n =
     (\<forall>x. n = Some x \<longrightarrow> plain_text (nc_event x) \<and> canonical_ids (nc_witnesses x) \<and> nc_witnesses x \<noteq> [])"

text \<open>The guards across the axes.\<close>

definition claim_rules :: "claim \<Rightarrow> bool" where
  "claim_rules c =
     (cl_epistemic c = pf_epistemic (cl_profile c) \<and> cl_causal c = pf_causality (cl_profile c)
      \<and> cl_basis c = pf_basis (cl_profile c) \<and> cl_finality c = pf_finality (cl_profile c)
      \<and> (pf_measurement (cl_profile c) \<noteq> MeasProxyUnvalidated \<longrightarrow> cl_model c \<noteq> None)
      \<and> cl_evidence c \<noteq> [] \<and> (cl_valid c \<noteq> None \<or> cl_as_of c \<noteq> None))"

definition claim_shape :: "(string \<Rightarrow> string \<Rightarrow> int) \<Rightarrow> claim \<Rightarrow> bool" where
  "claim_shape lc c =
     (plain_text (cl_id c) \<and> plain_text (pr_predicate (cl_proposition c)) \<and> canonical_json lc (pr_value (cl_proposition c))
      \<and> canonical_negative (cl_negative c) \<and> plain_text (cl_subject c) \<and> stored_scope lc (cl_scope c)
      \<and> canonical_grain (cl_grain c) \<and> canonical_interval (cl_valid c) \<and> canonical_instant (cl_as_of c)
      \<and> canonical_text (cl_model c) \<and> canonical_ids (cl_evidence c) \<and> plain_text (cl_rule c)
      \<and> 1 \<le> cl_rule_version c \<and> cl_rule_version c \<le> max_safe \<and> canonical_ids (cl_assumptions c)
      \<and> canonical_ids (cl_assumption_ids c) \<and> canonical_uncertainty (cl_uncertainty c) \<and> \<bar>cl_issued c\<bar> \<le> max_time
      \<and> canonical_ids (cl_supersedes c) \<and> canonical_text (cl_superseded c) \<and> canonical_revocation (cl_revocation c)
      \<and> canonical_ids (cl_certificates c) \<and> 1 \<le> cl_schema c \<and> cl_schema c \<le> max_safe)"

definition canonical_claim :: "(string \<Rightarrow> string \<Rightarrow> int) \<Rightarrow> claim \<Rightarrow> bool" where
  "canonical_claim lc c = (claim_shape lc c \<and> claim_rules c)"

lemma required_list_Inr: "required_list_val l v = Inr ids \<Longrightarrow> canonical_ids ids \<and> ids \<noteq> []"
  by (auto simp: required_list_val_def dest: string_list_val_Inr split: if_splits)

lemma required_list_value [simp]: "canonical_ids ids \<Longrightarrow> ids \<noteq> [] \<Longrightarrow> required_list_val l (JArr (map JStr ids)) = Inr ids"
  by (simp add: required_list_val_def string_list_val_canonical)

lemma negative_claim_Inr: "negative_claim v = Inr n \<Longrightarrow> canonical_negative n"
  by (auto simp: negative_claim_def canonical_negative_def dest!: non_empty_val_plain required_list_Inr split: if_splits)

lemma negative_claim_value [simp]:
  "canonical_negative n \<Longrightarrow> negative_claim (case n of None \<Rightarrow> JUndefined | Some x \<Rightarrow> negative_value x) = Inr n"
  by (cases n) (simp_all add: negative_claim_def negative_value_def canonical_negative_def assert_known_keys_object [THEN iffD2])

lemma uncertainty_Inr: "uncertainty v = Inr u \<Longrightarrow> canonical_uncertainty u"
  by (auto simp: uncertainty_def canonical_uncertainty_def dest!: optional_text_plain split: if_splits option.splits)

lemma optional_finite_value [simp]: "optional_finite l (number_or_null r) = Inr r"
  by (cases r) (simp_all add: optional_finite_def number_or_null_def finite_val_def)

lemma finite_values [simp]: "mapE (finite_val l) (map JNum rs) = Inr rs"
  by (induction rs) (simp_all add: finite_val_def)

lemma uncertainty_name_found [simp]: "member_val uncertainty_name uncertainty_kinds l (JStr (uncertainty_name k)) = Inr k"
  by (cases k) (simp_all add: uncertainty_kinds_def)

lemma uncertainty_value [simp]:
  assumes "canonical_uncertainty u"
  shows "uncertainty (uncertainty_or_null u) = Inr u"
proof (cases u)
  case (Some x)
  then show ?thesis using assms
    by (auto simp: uncertainty_def uncertainty_or_null_def canonical_uncertainty_def uncertainty_keys_def
        assert_known_keys_object [THEN iffD2] simp del: member_val.simps split: option.split)
qed (simp add: uncertainty_def uncertainty_or_null_def)

lemma claim_profile_value [simp]: "claim_profile (profile_value p) = Inr p"
  by (simp add: claim_profile_def profile_value_def del: member_val.simps)

lemma proposition_Inr:
  "comparator lc \<Longrightarrow> claim_proposition lc v = Inr p \<Longrightarrow> plain_text (pr_predicate p) \<and> canonical_json lc (pr_value p)"
  using clone_json_canonical by (auto simp: claim_proposition_def dest!: non_empty_val_plain)

lemma proposition_fixed [simp]:
  "plain_text (pr_predicate p) \<Longrightarrow> canonical_json lc (pr_value p) \<Longrightarrow> claim_proposition lc (proposition_value p) = Inr p"
  by (simp add: claim_proposition_def proposition_value_def proposition_keys_def clone_canonical_json assert_known_keys_object [THEN iffD2])

lemma claim_time_Inr:
  "claim_time v = Inr t \<Longrightarrow> canonical_interval (fst t) \<and> canonical_instant (snd t) \<and> (fst t \<noteq> None \<or> snd t \<noteq> None)"
  by (auto simp: claim_time_def dest!: optional_interval_Inr optional_instant_Inr split: if_splits)

lemma claim_time_value [simp]:
  "canonical_interval valid \<Longrightarrow> canonical_instant as_of \<Longrightarrow> valid \<noteq> None \<or> as_of \<noteq> None \<Longrightarrow>
     claim_time (time_value valid as_of) = Inr (valid, as_of)"
  by (auto simp: claim_time_def time_value_def time_keys_def assert_known_keys_object [THEN iffD2])

lemma claim_value_fields [simp]:
  "field ''id'' (claim_value c) = JStr (cl_id c)"
  "field ''proposition'' (claim_value c) = proposition_value (cl_proposition c)"
  "field ''negativeClaim'' (claim_value c) = (case cl_negative c of None \<Rightarrow> JUndefined | Some n \<Rightarrow> negative_value n)"
  "field ''subject'' (claim_value c) = JStr (cl_subject c)"
  "field ''scope'' (claim_value c) = scope_value (cl_scope c)"
  "field ''grain'' (claim_value c) = grain_value (cl_grain c)"
  "field ''time'' (claim_value c) = time_value (cl_valid c) (cl_as_of c)"
  "field ''epistemic'' (claim_value c) = JStr (epistemic_name (cl_epistemic c))"
  "field ''profile'' (claim_value c) = profile_value (cl_profile c)"
  "field ''measurementModelRef'' (claim_value c) = text_or_null (cl_model c)"
  "field ''evidenceIds'' (claim_value c) = JArr (map JStr (cl_evidence c))"
  "field ''derivationRule'' (claim_value c) = JStr (cl_rule c)"
  "field ''derivationVersion'' (claim_value c) = JNum (of_int (cl_rule_version c))"
  "field ''assumptions'' (claim_value c) = JArr (map JStr (cl_assumptions c))"
  "field ''assumptionIds'' (claim_value c) = JArr (map JStr (cl_assumption_ids c))"
  "field ''uncertainty'' (claim_value c) = uncertainty_or_null (cl_uncertainty c)"
  "field ''causalStatus'' (claim_value c) = JStr (causality_name (cl_causal c))"
  "field ''monetaryBasis'' (claim_value c) = JStr (monetary_basis_name (cl_basis c))"
  "field ''finality'' (claim_value c) = JStr (finality_name (cl_finality c))"
  "field ''issuedAt'' (claim_value c) = JStr (to_iso (cl_issued c))"
  "field ''supersedes'' (claim_value c) = JArr (map JStr (cl_supersedes c))"
  "field ''supersededBy'' (claim_value c) = text_or_null (cl_superseded c)"
  "field ''revocation'' (claim_value c) = revocation_or_null (cl_revocation c)"
  "field ''decisionCertificateIds'' (claim_value c) = JArr (map JStr (cl_certificates c))"
  "field ''schemaVersion'' (claim_value c) = JNum (of_int (cl_schema c))"
  by (cases "cl_negative c"; simp add: claim_value_def)+

lemma claim_value_keys [simp]: "assert_known_keys claim_keys l (claim_value c) = Inr ()"
  by (cases "cl_negative c"; simp add: claim_value_def claim_keys_def)

lemma profile_value_keys [simp]: "assert_known_keys profile_keys l (profile_value p) = Inr ()"
  by (simp add: profile_value_def profile_keys_def)

lemma claim_axes_value [simp]: "claim_rules c \<Longrightarrow> claim_axes (claim_value c) = Inr (cl_profile c)"
  by (simp add: claim_axes_def claim_rules_def del: member_val.simps)

lemma claim_Inr:
  assumes "comparator lc" "claim lc v = Inr c"
  shows "canonical_claim lc c"
proof -
  from assms(2) obtain i pr subj neg sc gr time profile model ev rule rver issued ms supersedes superseded aids certs schema as unc rm where
    plain: "non_empty_val ''claim id'' (field ''id'' v) = Inr i" "non_empty_val ''claim subject'' (field ''subject'' v) = Inr subj"
      "non_empty_val ''derivationRule'' (field ''derivationRule'' v) = Inr rule"
    and parts: "claim_proposition lc (field ''proposition'' v) = Inr pr" "negative_claim (field ''negativeClaim'' v) = Inr neg"
      "scope_val lc (field ''scope'' v) = Inr sc" "grain_val (field ''grain'' v) = Inr gr" "claim_time (field ''time'' v) = Inr time"
      "required_list_val ''evidenceIds'' (field ''evidenceIds'' v) = Inr ev" "uncertainty (field ''uncertainty'' v) = Inr unc"
      "revocation_metadata (field ''revocation'' v) = Inr rm"
    and model: "\<not> (pf_measurement profile \<noteq> MeasProxyUnvalidated \<and> model = None)"
    and texts: "optional_text ''measurementModelRef'' (field ''measurementModelRef'' v) = Inr model"
      "optional_text ''supersededBy'' (field ''supersededBy'' v) = Inr superseded"
    and versions: "schema_version_val ''derivationVersion'' (field ''derivationVersion'' v) = Inr rver"
      "schema_version_val ''schemaVersion'' (field ''schemaVersion'' v) = Inr schema"
    and issued: "optional_instant ''claim issuedAt'' (field ''issuedAt'' v) = Inr (Some ms)"
    and lists: "string_list_val ''supersedes'' (field ''supersedes'' v) = Inr supersedes"
      "string_list_val ''assumptionIds'' (field ''assumptionIds'' v) = Inr aids"
      "string_list_val ''decisionCertificateIds'' (field ''decisionCertificateIds'' v) = Inr certs"
      "string_list_val ''assumption'' (field ''assumptions'' v) = Inr as"
    and made: "\<lparr>cl_id = i, cl_proposition = pr, cl_negative = neg, cl_subject = subj, cl_scope = sc, cl_grain = gr,
            cl_valid = fst time, cl_as_of = snd time, cl_epistemic = pf_epistemic profile, cl_profile = profile,
            cl_model = model, cl_evidence = ev, cl_rule = rule, cl_rule_version = rver, cl_assumptions = as,
            cl_assumption_ids = aids, cl_uncertainty = unc, cl_causal = pf_causality profile, cl_basis = pf_basis profile,
            cl_finality = pf_finality profile, cl_issued = ms, cl_supersedes = supersedes, cl_superseded = superseded,
            cl_revocation = rm, cl_certificates = certs, cl_schema = schema\<rparr> = c"
    unfolding claim_def bindE_Inr_iff if_Inl_Inr_iff option_Inl_Inr_iff sum.inject
    by (elim exE conjE) (rule that; (assumption | simp only:))
  have rules: "claim_rules c"
    unfolding claim_rules_def made [symmetric] claim.simps
    using model required_list_Inr [OF parts(6)] claim_time_Inr [OF parts(5)] by auto
  have "claim_shape lc c"
    unfolding claim_shape_def made [symmetric] claim.simps
    using plain [THEN non_empty_val_plain] proposition_Inr [OF assms(1) parts(1)] negative_claim_Inr [OF parts(2)]
      scope_val_Inr [OF assms(1) parts(3)] grain_val_Inr [OF parts(4)] claim_time_Inr [OF parts(5)] required_list_Inr [OF parts(6)]
      uncertainty_Inr [OF parts(7)] revocation_metadata_Inr [OF parts(8)] texts [THEN optional_text_plain]
      versions [unfolded schema_version_Inr] optional_instant_Inr [OF issued, unfolded canonical_instant_def] lists [THEN string_list_val_Inr]
    by (intro conjI) (assumption | simp)+
  then show ?thesis using rules by (simp add: canonical_claim_def)
qed

lemma claim_fixed:
  assumes "comparator lc" "canonical_claim lc c" "told_apart lc (cl_scope c)"
  shows "claim lc (claim_value c) = Inr c"
proof -
  have shape: "claim_shape lc c" and rules: "claim_rules c" using assms(2) by (simp_all add: canonical_claim_def)
  have sc: "scope_val lc (scope_value (cl_scope c)) = Inr (cl_scope c)"
    using shape by (intro scope_val_value [OF assms(1) _ assms(3)]) (simp add: claim_shape_def)
  have versions: "schema_version_val l (JNum (of_int (cl_rule_version c))) = Inr (cl_rule_version c)"
    "schema_version_val l (JNum (of_int (cl_schema c))) = Inr (cl_schema c)" for l
    using shape by (simp_all add: schema_version_Inr claim_shape_def)
  have issued: "optional_instant l (JStr (to_iso (cl_issued c))) = Inr (Some (cl_issued c))" for l
    using shape by (simp add: optional_instant_def claim_shape_def)
  show ?thesis
    unfolding claim_def claim_value_fields claim_value_keys bindE_simps sc versions claim_axes_value [OF rules] issued
    using shape rules
    by (auto simp: claim_shape_def claim_rules_def string_list_val_canonical simp del: member_val.simps)
qed

section \<open>Properties\<close>

definition sample_profile :: claim_profile where
  "sample_profile =
     \<lparr>pf_epistemic = ESupported, pf_integrity = IntVerified, pf_authenticity = AuthPinned, pf_scope = ScEstablished,
      pf_coverage = CovComplete, pf_measurement = MeasValidated, pf_causality = CauObservational, pf_basis = MbBilled,
      pf_finality = FinFinal, pf_fitness = FitNotAssessed\<rparr>"

definition sample_claim :: claim where
  "sample_claim =
     \<lparr>cl_id = ''c'', cl_proposition = \<lparr>pr_predicate = ''cost'', pr_value = JNum 3\<rparr>,
      cl_negative = Some \<lparr>nc_event = ''charge'', nc_witnesses = [''w'']\<rparr>, cl_subject = ''p'',
      cl_scope = [(''project'', ''x''), (''team'', ''y'')], cl_grain = [''day''],
      cl_valid = Some \<lparr>from_ms = 0, to_ms = 1000\<rparr>, cl_as_of = None, cl_epistemic = ESupported, cl_profile = sample_profile,
      cl_model = Some ''m'', cl_evidence = [''e''], cl_rule = ''billing'', cl_rule_version = 1, cl_assumptions = [],
      cl_assumption_ids = [''a''],
      cl_uncertainty = Some \<lparr>un_kind = UkInterval, un_lower = Some 1, un_upper = Some 2, un_values = [], un_description = None\<rparr>,
      cl_causal = CauObservational, cl_basis = MbBilled, cl_finality = FinFinal, cl_issued = 1000, cl_supersedes = [],
      cl_superseded = None, cl_revocation = None, cl_certificates = [], cl_schema = 1\<rparr>"

lemma sample_claim_canonical: "canonical_claim code_unit_cmp sample_claim"
proof -
  have "sorted_wrt (\<lambda>a b. code_unit_cmp (fst a) (fst b) \<le> 0) [(''project'', ''x''), (''team'', ''y'')]" by code_simp
  then show ?thesis
    by (simp add: canonical_claim_def claim_shape_def claim_rules_def sample_claim_def sample_profile_def plain_text_def trim_def js_space_def
        canonical_text_def stored_scope_def canonical_scope_def canonical_grain_def canonical_instant_def canonical_interval_def
        canonical_negative_def canonical_uncertainty_def canonical_ids_def canonical_revocation_def max_time_def max_safe_def)
qed

text \<open>C29: the constructor returns canonical claims only: the epistemic state, the causal status, the
  monetary basis and the finality repeat the profile, a validated measurement names its model, evidence
  and a time are present; and as long as the collation tells the keys of its scope apart, a claim is
  returned unchanged when it is passed back.\<close>

theorem claim_canonical_roundtrip:
  assumes "comparator lc" "claim lc v = Inr c"
  shows "canonical_claim lc c \<and> (told_apart lc (cl_scope c) \<longrightarrow> claim lc (claim_value c) = Inr c)"
  using claim_Inr [OF assms] claim_fixed [OF assms(1)] by blast

theorem claim_canonical_roundtrip_witness: "claim code_unit_cmp (claim_value sample_claim) = Inr sample_claim"
proof -
  have apart: "told_apart code_unit_cmp (cl_scope sample_claim)" by (rule code_units_told_apart)
  have "claim code_unit_cmp (claim_value sample_claim) = Inr sample_claim"
    by (rule claim_fixed [OF code_units.comparator_axioms sample_claim_canonical apart])
  then show ?thesis using claim_canonical_roundtrip [OF code_units.comparator_axioms] apart by blast
qed

end
