(* ===== verification/Derivation.thy ===== *)
theory Derivation
  imports Claim
begin

text \<open>
  Derivations and their legality (\<open>src/src/epistemic/derivation.ts\<close>): coordinate witnesses, the derivation
  record and its constructor, and the rule that decides which changes from an input claim to an output claim
  need a witness.  A profile axis is compared by the position of its name in the ladder of the axis.
\<close>

section \<open>Coordinates and their witnesses\<close>

record coordinates =
  co_grain :: grain
  co_scope :: scope

datatype coordinate_kind = GrainRefinement | GrainAggregation | GrainBridge | ScopeFilter | ScopeCoverage | ScopeBridge

definition coordinate_kinds :: "coordinate_kind list" where
  "coordinate_kinds = [GrainRefinement, GrainAggregation, GrainBridge, ScopeFilter, ScopeCoverage, ScopeBridge]"

fun coordinate_kind_name :: "coordinate_kind \<Rightarrow> string" where
  "coordinate_kind_name GrainRefinement = ''grain_refinement''"
| "coordinate_kind_name GrainAggregation = ''grain_aggregation''"
| "coordinate_kind_name GrainBridge = ''grain_bridge''"
| "coordinate_kind_name ScopeFilter = ''scope_filter''"
| "coordinate_kind_name ScopeCoverage = ''scope_coverage''"
| "coordinate_kind_name ScopeBridge = ''scope_bridge''"

record coordinate_witness =
  cw_id :: string
  cw_kind :: coordinate_kind
  cw_from :: coordinates
  cw_to :: coordinates

record 'k assessment =
  as_allowed :: bool
  as_required :: "'k list"
  as_satisfied :: "'k list"
  as_missing :: "'k list"

definition same_coordinates :: "coordinates \<Rightarrow> coordinates \<Rightarrow> bool" where
  "same_coordinates a b = (same_grain (co_grain a) (co_grain b) \<and> same_scope (co_scope a) (co_scope b))"

definition coordinate_witness :: "string \<Rightarrow> coordinate_kind \<Rightarrow> coordinates \<Rightarrow> coordinates \<Rightarrow> coordinate_witness res" where
  "coordinate_witness i k f t =
     bindE (non_empty ''coordinate witness id'' i) (\<lambda>w. Inr \<lparr>cw_id = w, cw_kind = k, cw_from = f, cw_to = t\<rparr>)"

definition required_coordinate_witnesses :: "coordinates \<Rightarrow> coordinates \<Rightarrow> coordinate_kind list" where
  "required_coordinate_witnesses f t =
     (case grain_relation (co_grain t) (co_grain f) of
        GrFiner \<Rightarrow> [GrainRefinement] | GrCoarser \<Rightarrow> [GrainAggregation] | GrIncomparable \<Rightarrow> [GrainBridge] | GrEqual \<Rightarrow> [])
     @ (case scope_relation (co_scope t) (co_scope f) of
        ScNarrower \<Rightarrow> [ScopeFilter] | ScBroader \<Rightarrow> [ScopeCoverage] | ScDisjoint \<Rightarrow> [ScopeBridge]
      | ScOverlapping \<Rightarrow> [ScopeBridge] | ScEqual \<Rightarrow> [])"

definition check_witness_ids :: "coordinate_witness list \<Rightarrow> string list res" where
  "check_witness_ids ws =
     foldE (\<lambda>ids w. if cw_id w \<in> set ids then Inl ''duplicate witness id'' else Inr (ids @ [cw_id w])) [] ws"

definition assess_coordinate_derivation ::
    "coordinates \<Rightarrow> coordinates \<Rightarrow> coordinate_witness list \<Rightarrow> coordinate_kind assessment res" where
  "assess_coordinate_derivation f t ws =
     bindE (check_witness_ids ws) (\<lambda>_.
       let required = required_coordinate_witnesses f t;
           satisfied = filter (\<lambda>k. list_ex (\<lambda>w. cw_kind w = k \<and> same_coordinates (cw_from w) f \<and> same_coordinates (cw_to w) t) ws) required;
           missing = filter (\<lambda>k. k \<notin> set satisfied) required
       in Inr \<lparr>as_allowed = (missing = []), as_required = required, as_satisfied = satisfied, as_missing = missing\<rparr>)"

section \<open>The derivation record\<close>

datatype derivation_kind =
    Coordinate coordinate_kind
  | EpistemicResolution | CoverageWitness | ScopeValidation | MeasurementValidation | CausalIdentification
  | CausalTransport | MonetaryFinality | MonetaryRebasing | IntegrityAttestation | AuthenticityAttestation
  | DecisionFitness

definition derivation_kinds :: "derivation_kind list" where
  "derivation_kinds =
     map Coordinate coordinate_kinds
     @ [EpistemicResolution, CoverageWitness, ScopeValidation, MeasurementValidation, CausalIdentification, CausalTransport,
        MonetaryFinality, MonetaryRebasing, IntegrityAttestation, AuthenticityAttestation, DecisionFitness]"

fun derivation_kind_name :: "derivation_kind \<Rightarrow> string" where
  "derivation_kind_name (Coordinate k) = coordinate_kind_name k"
| "derivation_kind_name EpistemicResolution = ''epistemic_resolution''"
| "derivation_kind_name CoverageWitness = ''coverage_witness''"
| "derivation_kind_name ScopeValidation = ''scope_validation''"
| "derivation_kind_name MeasurementValidation = ''measurement_validation''"
| "derivation_kind_name CausalIdentification = ''causal_identification''"
| "derivation_kind_name CausalTransport = ''causal_transport''"
| "derivation_kind_name MonetaryFinality = ''monetary_finality''"
| "derivation_kind_name MonetaryRebasing = ''monetary_rebasing''"
| "derivation_kind_name IntegrityAttestation = ''integrity_attestation''"
| "derivation_kind_name AuthenticityAttestation = ''authenticity_attestation''"
| "derivation_kind_name DecisionFitness = ''decision_fitness''"

record derivation_witness =
  dw_id :: string
  dw_kind :: derivation_kind
  dw_from :: "coordinates option"
  dw_to :: "coordinates option"
  dw_evidence :: "string list"
  dw_detail :: "string option"

record derivation =
  dv_id :: string
  dv_evidence :: "string list"
  dv_claims :: "string list"
  dv_transformation :: string
  dv_output :: string
  dv_proposition :: typed_proposition
  dv_from :: coordinates
  dv_to :: coordinates
  dv_witnesses :: "derivation_witness list"
  dv_assumptions :: "string list"
  dv_uncertainty :: "string option"
  dv_version :: int
  dv_hash :: string

definition derivation_keys :: "string list" where
  "derivation_keys =
     [''id'', ''inputEvidenceIds'', ''inputClaimIds'', ''transformation'', ''outputClaimId'', ''outputProposition'',
      ''coordinateChange'', ''witnesses'', ''assumptions'', ''uncertaintyTransformation'', ''version'',
      ''reproducibilityHash'']"

definition derivation_proposition_keys :: "string list" where
  "derivation_proposition_keys = [''predicate'', ''value'']"
definition coordinate_change_keys :: "string list" where
  "coordinate_change_keys = [''from'', ''to'']"
definition derivation_witness_keys :: "string list" where
  "derivation_witness_keys = [''id'', ''kind'', ''from'', ''to'', ''evidenceIds'', ''detail'']"

definition canonical_grain_coordinates :: "string list \<Rightarrow> grain res" where
  "canonical_grain_coordinates ds =
     (if duplicate_neighbour (sort ds) then Inl ''duplicate grain dimension'' else Inr (sort ds))"

definition canonical_scope_coordinates :: "(string \<Rightarrow> string \<Rightarrow> int) \<Rightarrow> (string \<times> string) list \<Rightarrow> scope" where
  "canonical_scope_coordinates lc pairs = sort_by (\<lambda>a b. lc (fst a) (fst b)) (object_entries pairs)"

definition canonical_coordinates :: "(string \<Rightarrow> string \<Rightarrow> int) \<Rightarrow> jsval \<Rightarrow> coordinates res" where
  "canonical_coordinates lc v =
     (if \<not> is_object v then Inl ''coordinates must be an object''
      else if \<not> is_object (field ''grain'' v) then Inl ''coordinates grain must be an object''
      else if \<not> is_object (field ''scope'' v) then Inl ''coordinates scope must be an object''
      else case (field ''dimensions'' (field ''grain'' v), field ''constraints'' (field ''scope'' v)) of
        (JArr ds, JArr cs) \<Rightarrow>
          bindE (mapE (non_empty_val ''grain dimension'') ds) (\<lambda>dims.
          bindE (foldE add_pair [] cs) (\<lambda>pairs.
          bindE (canonical_grain_coordinates dims) (\<lambda>g.
            Inr \<lparr>co_grain = g, co_scope = canonical_scope_coordinates lc pairs\<rparr>)))
      | (JArr ds, _) \<Rightarrow> Inl ''scope constraints must be an array''
      | _ \<Rightarrow> Inl ''grain dimensions must be an array'')"

fun is_coordinate :: "derivation_kind \<Rightarrow> bool" where
  "is_coordinate (Coordinate k) = True"
| "is_coordinate _ = False"

definition canonical_witness :: "(string \<Rightarrow> string \<Rightarrow> int) \<Rightarrow> jsval \<Rightarrow> derivation_witness res" where
  "canonical_witness lc v =
     bindE (assert_known_keys derivation_witness_keys ''derivation witness'' v) (\<lambda>_.
     bindE (non_empty_val ''derivation witness id'' (field ''id'' v)) (\<lambda>i.
     bindE (member_val derivation_kind_name derivation_kinds ''derivation witness kind'' (field ''kind'' v)) (\<lambda>k.
       if is_coordinate k \<and> (field ''from'' v = JUndefined \<or> field ''to'' v = JUndefined)
       then Inl ''coordinate witness requires from and to coordinates''
       else if \<not> is_coordinate k \<and> (field ''from'' v \<noteq> JUndefined \<or> field ''to'' v \<noteq> JUndefined)
       then Inl ''non-coordinate witness cannot carry coordinates''
       else
     bindE (string_list_val ''derivation witness evidenceIds'' (field ''evidenceIds'' v)) (\<lambda>ev.
     bindE (optional_text ''derivation witness detail'' (field ''detail'' v)) (\<lambda>d.
       if is_coordinate k then
         bindE (canonical_coordinates lc (field ''from'' v)) (\<lambda>f.
         bindE (canonical_coordinates lc (field ''to'' v)) (\<lambda>t.
           Inr \<lparr>dw_id = i, dw_kind = k, dw_from = Some f, dw_to = Some t, dw_evidence = ev, dw_detail = d\<rparr>))
       else Inr \<lparr>dw_id = i, dw_kind = k, dw_from = None, dw_to = None, dw_evidence = ev, dw_detail = d\<rparr>)))))"

definition output_proposition :: "(string \<Rightarrow> string \<Rightarrow> int) \<Rightarrow> jsval \<Rightarrow> typed_proposition res" where
  "output_proposition lc v =
     bindE (assert_known_keys derivation_proposition_keys ''outputProposition'' v) (\<lambda>_.
     bindE (non_empty_val ''output proposition predicate'' (field ''predicate'' v)) (\<lambda>p.
     bindE (clone_json lc (field ''value'' v)) (\<lambda>w.
       Inr \<lparr>pr_predicate = p, pr_value = w\<rparr>)))"

text \<open>The loop over \<open>witnesses\<close>: each normalised, none repeating an id.\<close>

definition add_witness :: "(string \<Rightarrow> string \<Rightarrow> int) \<Rightarrow> derivation_witness list \<Rightarrow> jsval \<Rightarrow> derivation_witness list res" where
  "add_witness lc ws v =
     bindE (canonical_witness lc v) (\<lambda>w.
       if dw_id w \<in> dw_id ` set ws then Inl ''duplicate witness id'' else Inr (ws @ [w]))"

definition derivation :: "(string \<Rightarrow> string \<Rightarrow> int) \<Rightarrow> jsval \<Rightarrow> derivation res" where
  "derivation lc v =
     bindE (assert_known_keys derivation_keys ''derivation'' v) (\<lambda>_.
     bindE (non_empty_val ''derivation id'' (field ''id'' v)) (\<lambda>i.
     bindE (string_list_val ''inputEvidenceIds'' (field ''inputEvidenceIds'' v)) (\<lambda>ev.
     bindE (string_list_val ''inputClaimIds'' (field ''inputClaimIds'' v)) (\<lambda>cs.
       if ev = [] \<and> cs = [] then Inl ''derivation requires at least one input evidence or claim''
       else
     bindE (non_empty_val ''transformation'' (field ''transformation'' v)) (\<lambda>tr.
     bindE (non_empty_val ''outputClaimId'' (field ''outputClaimId'' v)) (\<lambda>out.
     bindE (output_proposition lc (field ''outputProposition'' v)) (\<lambda>pr.
     bindE (assert_known_keys coordinate_change_keys ''coordinateChange'' (field ''coordinateChange'' v)) (\<lambda>_.
     bindE (canonical_coordinates lc (field ''from'' (field ''coordinateChange'' v))) (\<lambda>f.
     bindE (canonical_coordinates lc (field ''to'' (field ''coordinateChange'' v))) (\<lambda>t.
     bindE (case field ''witnesses'' v of JUndefined \<Rightarrow> Inr [] | JArr vs \<Rightarrow> foldE (add_witness lc) [] vs
            | _ \<Rightarrow> Inl ''witnesses must be an array'') (\<lambda>ws.
     bindE (schema_version_val ''derivation version'' (field ''version'' v)) (\<lambda>ver.
     bindE (optional_text ''uncertaintyTransformation'' (field ''uncertaintyTransformation'' v)) (\<lambda>unc.
     bindE (string_list_val ''assumption'' (field ''assumptions'' v)) (\<lambda>as.
     bindE (non_empty_val ''reproducibilityHash'' (field ''reproducibilityHash'' v)) (\<lambda>h.
       Inr \<lparr>dv_id = i, dv_evidence = ev, dv_claims = cs, dv_transformation = tr, dv_output = out, dv_proposition = pr,
            dv_from = f, dv_to = t, dv_witnesses = ws, dv_assumptions = as, dv_uncertainty = unc, dv_version = ver,
            dv_hash = h\<rparr>)))))))))))))))"

section \<open>Legality\<close>

text \<open>The ladders compare names, as the code does.\<close>

definition profile_strength_axes :: "(derivation_kind \<times> (claim_profile \<Rightarrow> string) \<times> string list) list" where
  "profile_strength_axes =
     [(CoverageWitness, \<lambda>p. coverage_name (pf_coverage p), map coverage_name coverages),
      (ScopeValidation, \<lambda>p. scope_status_name (pf_scope p), [''unknown'', ''incomplete'', ''conditional'', ''established'']),
      (MeasurementValidation, \<lambda>p. measurement_name (pf_measurement p), map measurement_name measurements),
      (CausalIdentification, \<lambda>p. causality_name (pf_causality p), map causality_name causalities),
      (MonetaryFinality, \<lambda>p. finality_name (pf_finality p), map finality_name finalities),
      (IntegrityAttestation, \<lambda>p. integrity_name (pf_integrity p), map integrity_name integrities),
      (AuthenticityAttestation, \<lambda>p. authenticity_name (pf_authenticity p), map authenticity_name authenticities),
      (DecisionFitness, \<lambda>p. fitness_name (pf_fitness p), map fitness_name fitnesses)]"

definition monetary_rebasing :: "monetary_basis_status \<Rightarrow> monetary_basis_status \<Rightarrow> bool" where
  "monetary_rebasing f t = (if f = t then False else if t = MbNone \<or> t = MbMixed then False else True)"

text \<open>\<open>JSON.stringify\<close> tells canonical JSON values apart, so comparing the texts compares the values.\<close>

definition same_proposition :: "typed_proposition \<Rightarrow> typed_proposition \<Rightarrow> bool" where
  "same_proposition a b = (pr_predicate a = pr_predicate b \<and> pr_value a = pr_value b)"

definition has_witness :: "derivation_witness list \<Rightarrow> derivation_kind \<Rightarrow> bool" where
  "has_witness ws k = list_ex (\<lambda>w. dw_kind w = k) ws"

definition stronger :: "'a \<Rightarrow> 'a \<Rightarrow> 'a list \<Rightarrow> bool" where
  "stronger source output order = (index_of order output > index_of order source)"

definition coordinate_witnesses :: "derivation_witness list \<Rightarrow> coordinate_witness list" where
  "coordinate_witnesses ws =
     concat (map (\<lambda>w. case (dw_kind w, dw_from w, dw_to w) of
         (Coordinate k, Some f, Some t) \<Rightarrow> [\<lparr>cw_id = dw_id w, cw_kind = k, cw_from = f, cw_to = t\<rparr>] | _ \<Rightarrow> []) ws)"

definition matches_claim_coordinates :: "coordinates \<Rightarrow> claim \<Rightarrow> bool" where
  "matches_claim_coordinates a c = (same_grain (co_grain a) (cl_grain c) \<and> same_scope (co_scope a) (cl_scope c))"

definition claim_coordinates :: "claim \<Rightarrow> coordinates" where
  "claim_coordinates c = \<lparr>co_grain = cl_grain c, co_scope = cl_scope c\<rparr>"

definition needs_causal_transport :: "claim \<Rightarrow> claim \<Rightarrow> bool" where
  "needs_causal_transport source output =
     (index_of causalities (cl_causal output) > index_of causalities CauObservational
      \<and> (\<not> same_coordinates (claim_coordinates source) (claim_coordinates output)
         \<or> cl_subject source \<noteq> cl_subject output \<or> cl_model source \<noteq> cl_model output
         \<or> map_option from_ms (cl_valid source) \<noteq> map_option from_ms (cl_valid output)
         \<or> map_option to_ms (cl_valid source) \<noteq> map_option to_ms (cl_valid output)))"

definition required_witnesses :: "coordinate_kind list \<Rightarrow> claim \<Rightarrow> claim \<Rightarrow> derivation_kind list" where
  "required_witnesses coordinate source output =
     map Coordinate coordinate
     @ (if needs_causal_transport source output then [CausalTransport] else [])
     @ (if cl_epistemic source \<noteq> cl_epistemic output then [EpistemicResolution] else [])
     @ (if monetary_rebasing (pf_basis (cl_profile source)) (pf_basis (cl_profile output)) then [MonetaryRebasing] else [])
     @ map fst (filter (\<lambda>(k, axis, order). stronger (axis (cl_profile source)) (axis (cl_profile output)) order) profile_strength_axes)"

definition assess_derivation_legality :: "claim \<Rightarrow> claim \<Rightarrow> derivation \<Rightarrow> derivation_kind assessment res" where
  "assess_derivation_legality source output d =
     (if cl_id source \<notin> set (dv_claims d) then Inl ''derivation input claim does not include the source''
      else if dv_output d \<noteq> cl_id output then Inl ''derivation output claim does not match''
      else if \<not> same_proposition (dv_proposition d) (cl_proposition output)
      then Inl ''derivation output proposition does not match output claim''
      else if \<not> matches_claim_coordinates (dv_from d) source \<or> \<not> matches_claim_coordinates (dv_to d) output
      then Inl ''derivation coordinate change does not match input/output claims''
      else bindE (assess_coordinate_derivation (claim_coordinates source) (claim_coordinates output)
                    (coordinate_witnesses (dv_witnesses d))) (\<lambda>coordinate.
        let required = to_set (required_witnesses (as_required coordinate) source output);
            satisfied = filter (\<lambda>k. case k of Coordinate c \<Rightarrow> c \<in> set (as_satisfied coordinate)
                                    | _ \<Rightarrow> has_witness (dv_witnesses d) k) required;
            missing = filter (\<lambda>k. k \<notin> set satisfied) required
        in Inr \<lparr>as_allowed = (missing = []), as_required = required, as_satisfied = satisfied, as_missing = missing\<rparr>))"

end
