(* ===== verification/DerivationProps.thy ===== *)
theory DerivationProps
  imports Derivation
begin

text \<open>
  The legality of derivations: exactly which changes need which witness, that a chain of unwitnessed
  derivations can only weaken, and that the constructor of derivation records is canonical.
\<close>

section \<open>Required and satisfied witnesses\<close>

lemma index_from_names: "inj name \<Longrightarrow> index_from i (map name xs) (name x) = index_from i xs x"
  by (induction xs arbitrary: i) (auto dest: injD)

lemma stronger_names: "inj name \<Longrightarrow> stronger (name a) (name b) (map name order) \<longleftrightarrow> index_of order b > index_of order a"
  by (simp add: stronger_def index_of_def index_from_names)

lemma inj_member_name: "(\<And>x. member_val name xs [] (JStr (name x)) = Inr x) \<Longrightarrow> inj name"
  by (metis injI sum.inject(2))

lemma status_names_inj [simp]:
  "inj coverage_name" "inj scope_status_name" "inj measurement_name" "inj causality_name" "inj finality_name"
  "inj integrity_name" "inj authenticity_name" "inj fitness_name"
  by (rule inj_member_name, rule status_names_found)+

lemma same_coordinates_iff [simp]: "same_coordinates a b \<longleftrightarrow> a = b"
  by (auto simp: same_coordinates_def)

lemma scope_ladder: "[''unknown'', ''incomplete'', ''conditional'', ''established''] = map scope_status_name scope_statuses"
  by (simp add: scope_statuses_def)

lemmas axis_stronger = stronger_names [OF status_names_inj(1)] stronger_names [OF status_names_inj(2)]
  stronger_names [OF status_names_inj(3)] stronger_names [OF status_names_inj(4)] stronger_names [OF status_names_inj(5)]
  stronger_names [OF status_names_inj(6)] stronger_names [OF status_names_inj(7)] stronger_names [OF status_names_inj(8)]

text \<open>What a witness of a kind has to be for a derivation between two claims.\<close>

fun witnessed :: "derivation_witness list \<Rightarrow> claim \<Rightarrow> claim \<Rightarrow> derivation_kind \<Rightarrow> bool" where
  "witnessed ws s t (Coordinate k) =
     (\<exists>w \<in> set ws. dw_kind w = Coordinate k \<and> dw_from w = Some (claim_coordinates s) \<and> dw_to w = Some (claim_coordinates t))"
| "witnessed ws s t k = (\<exists>w \<in> set ws. dw_kind w = k)"

lemma coordinate_witnesses_set:
  "x \<in> set (coordinate_witnesses ws) \<longleftrightarrow>
     (\<exists>w \<in> set ws. dw_id w = cw_id x \<and> dw_kind w = Coordinate (cw_kind x) \<and> dw_from w = Some (cw_from x) \<and> dw_to w = Some (cw_to x))"
proof
  assume "\<exists>w \<in> set ws. dw_id w = cw_id x \<and> dw_kind w = Coordinate (cw_kind x) \<and> dw_from w = Some (cw_from x) \<and> dw_to w = Some (cw_to x)"
  then obtain w where "w \<in> set ws" "dw_id w = cw_id x" "dw_kind w = Coordinate (cw_kind x)" "dw_from w = Some (cw_from x)"
    "dw_to w = Some (cw_to x)" by blast
  moreover have "\<lparr>cw_id = cw_id x, cw_kind = cw_kind x, cw_from = cw_from x, cw_to = cw_to x\<rparr> = x" by simp
  ultimately show "x \<in> set (coordinate_witnesses ws)" by (force simp: coordinate_witnesses_def)
qed (auto simp: coordinate_witnesses_def split: derivation_kind.splits option.splits)

lemma filter_missing: "filter (\<lambda>k. k \<notin> set (filter P ks)) ks = [] \<longleftrightarrow> (\<forall>k \<in> set ks. P k)"
  by (auto simp: filter_empty_conv)

lemma coordinate_satisfied:
  "list_ex (\<lambda>w. cw_kind w = k \<and> cw_from w = claim_coordinates s \<and> cw_to w = claim_coordinates t) (coordinate_witnesses ws)
     \<longleftrightarrow> witnessed ws s t (Coordinate k)"
proof
  assume "witnessed ws s t (Coordinate k)"
  then obtain w where "w \<in> set ws" "dw_kind w = Coordinate k" "dw_from w = Some (claim_coordinates s)" "dw_to w = Some (claim_coordinates t)"
    by auto
  then have "\<lparr>cw_id = dw_id w, cw_kind = k, cw_from = claim_coordinates s, cw_to = claim_coordinates t\<rparr> \<in> set (coordinate_witnesses ws)"
    unfolding coordinate_witnesses_set by auto
  then show "list_ex (\<lambda>w. cw_kind w = k \<and> cw_from w = claim_coordinates s \<and> cw_to w = claim_coordinates t) (coordinate_witnesses ws)"
    unfolding list_ex_iff by force
qed (auto simp: list_ex_iff coordinate_witnesses_set)

definition required :: "claim \<Rightarrow> claim \<Rightarrow> derivation_kind list" where
  "required s t = required_witnesses (required_coordinate_witnesses (claim_coordinates s) (claim_coordinates t)) s t"

lemma ball_filter_fst: "(\<forall>k \<in> set (map fst (filter Q xs)). P k) \<longleftrightarrow> (\<forall>x \<in> set xs. Q x \<longrightarrow> P (fst x))"
  by auto

lemma ball_if_single: "(\<forall>k \<in> set (if c then [x] else []). P k) \<longleftrightarrow> (c \<longrightarrow> P x)"
  by (cases c) simp_all

text \<open>The required kinds, one change at a time.\<close>

lemma ball_required:
  "(\<forall>k \<in> set (required s t). P k) \<longleftrightarrow>
     (\<forall>c \<in> set (required_coordinate_witnesses (claim_coordinates s) (claim_coordinates t)). P (Coordinate c))
     \<and> (needs_causal_transport s t \<longrightarrow> P CausalTransport) \<and> (cl_epistemic s \<noteq> cl_epistemic t \<longrightarrow> P EpistemicResolution)
     \<and> (monetary_rebasing (pf_basis (cl_profile s)) (pf_basis (cl_profile t)) \<longrightarrow> P MonetaryRebasing)
     \<and> (index_of coverages (pf_coverage (cl_profile t)) \<le> index_of coverages (pf_coverage (cl_profile s)) \<or> P CoverageWitness)
     \<and> (index_of scope_statuses (pf_scope (cl_profile t)) \<le> index_of scope_statuses (pf_scope (cl_profile s)) \<or> P ScopeValidation)
     \<and> (index_of measurements (pf_measurement (cl_profile t)) \<le> index_of measurements (pf_measurement (cl_profile s)) \<or> P MeasurementValidation)
     \<and> (index_of causalities (pf_causality (cl_profile t)) \<le> index_of causalities (pf_causality (cl_profile s)) \<or> P CausalIdentification)
     \<and> (index_of finalities (pf_finality (cl_profile t)) \<le> index_of finalities (pf_finality (cl_profile s)) \<or> P MonetaryFinality)
     \<and> (index_of integrities (pf_integrity (cl_profile t)) \<le> index_of integrities (pf_integrity (cl_profile s)) \<or> P IntegrityAttestation)
     \<and> (index_of authenticities (pf_authenticity (cl_profile t)) \<le> index_of authenticities (pf_authenticity (cl_profile s)) \<or> P AuthenticityAttestation)
     \<and> (index_of fitnesses (pf_fitness (cl_profile t)) \<le> index_of fitnesses (pf_fitness (cl_profile s)) \<or> P DecisionFitness)"
proof -
  have axes: "(\<forall>x \<in> set profile_strength_axes. (case x of (k, axis, order) \<Rightarrow> stronger (axis (cl_profile s)) (axis (cl_profile t)) order) \<longrightarrow> P (fst x)) \<longleftrightarrow>
     (index_of coverages (pf_coverage (cl_profile t)) \<le> index_of coverages (pf_coverage (cl_profile s)) \<or> P CoverageWitness)
     \<and> (index_of scope_statuses (pf_scope (cl_profile t)) \<le> index_of scope_statuses (pf_scope (cl_profile s)) \<or> P ScopeValidation)
     \<and> (index_of measurements (pf_measurement (cl_profile t)) \<le> index_of measurements (pf_measurement (cl_profile s)) \<or> P MeasurementValidation)
     \<and> (index_of causalities (pf_causality (cl_profile t)) \<le> index_of causalities (pf_causality (cl_profile s)) \<or> P CausalIdentification)
     \<and> (index_of finalities (pf_finality (cl_profile t)) \<le> index_of finalities (pf_finality (cl_profile s)) \<or> P MonetaryFinality)
     \<and> (index_of integrities (pf_integrity (cl_profile t)) \<le> index_of integrities (pf_integrity (cl_profile s)) \<or> P IntegrityAttestation)
     \<and> (index_of authenticities (pf_authenticity (cl_profile t)) \<le> index_of authenticities (pf_authenticity (cl_profile s)) \<or> P AuthenticityAttestation)
     \<and> (index_of fitnesses (pf_fitness (cl_profile t)) \<le> index_of fitnesses (pf_fitness (cl_profile s)) \<or> P DecisionFitness)"
    unfolding profile_strength_axes_def scope_ladder
    by (simp only: list.set ball_simps prod.case fst_conv axis_stronger not_less imp_conv_disj simp_thms)
  show ?thesis
    unfolding required_def required_witnesses_def set_append ball_Un ball_filter_fst ball_if_single axes
    by (simp only: set_map ball_simps conj_assoc)
qed

lemma required_coordinate: "Coordinate c \<in> set (required s t) \<Longrightarrow> c \<in> set (required_coordinate_witnesses (claim_coordinates s) (claim_coordinates t))"
proof -
  assume k: "Coordinate c \<in> set (required s t)"
  have "\<forall>k \<in> set (required s t). k \<in> Coordinate ` set (required_coordinate_witnesses (claim_coordinates s) (claim_coordinates t)) \<or> \<not> is_coordinate k"
    unfolding ball_required by simp
  then show ?thesis using k by force
qed

lemma legality_Inr:
  assumes "assess_derivation_legality s t d = Inr a"
  shows "as_allowed a \<longleftrightarrow> (\<forall>k \<in> set (required s t). witnessed (dv_witnesses d) s t k)"
proof -
  let ?req = "required_coordinate_witnesses (claim_coordinates s) (claim_coordinates t)"
  let ?sat = "filter (\<lambda>k. witnessed (dv_witnesses d) s t (Coordinate k)) ?req"
  let ?ok = "\<lambda>k. case k of Coordinate c \<Rightarrow> c \<in> set ?sat | _ \<Rightarrow> has_witness (dv_witnesses d) k"
  obtain c where c: "assess_coordinate_derivation (claim_coordinates s) (claim_coordinates t) (coordinate_witnesses (dv_witnesses d)) = Inr c"
    using assms by (auto simp: assess_derivation_legality_def split: if_splits)
  then have parts: "as_required c = ?req" "as_satisfied c = ?sat"
    unfolding assess_coordinate_derivation_def Let_def same_coordinates_iff coordinate_satisfied
    by (auto simp del: witnessed.simps)
  have "as_allowed a \<longleftrightarrow> (\<forall>k \<in> set (required s t). ?ok k)"
    using assms
    unfolding assess_derivation_legality_def if_Inl_Inr_iff c bindE_simps parts Let_def filter_missing set_to_set required_def [symmetric]
    by (elim conjE) (drule sum.inject(2) [THEN iffD1], erule subst, simp only: assessment.simps)
  also have "\<dots> \<longleftrightarrow> (\<forall>k \<in> set (required s t). witnessed (dv_witnesses d) s t k)"
  proof (rule ball_cong [OF refl])
    fix k assume k: "k \<in> set (required s t)"
    show "?ok k \<longleftrightarrow> witnessed (dv_witnesses d) s t k"
    proof (cases k)
      case (Coordinate c)
      then have "c \<in> set ?req" using k required_coordinate by blast
      then show ?thesis using Coordinate by auto
    qed (auto simp: has_witness_def list_ex_iff)
  qed
  finally show ?thesis .
qed

lemma ball_required_coordinates:
  "(\<forall>c \<in> set (required_coordinate_witnesses f t). P c) \<longleftrightarrow>
     (co_grain t = co_grain f
       \<or> P (if set (co_grain f) \<subseteq> set (co_grain t) then GrainRefinement
             else if set (co_grain t) \<subseteq> set (co_grain f) then GrainAggregation else GrainBridge))
     \<and> (co_scope t = co_scope f
       \<or> P (case scope_relation (co_scope t) (co_scope f) of ScNarrower \<Rightarrow> ScopeFilter | ScBroader \<Rightarrow> ScopeCoverage | _ \<Rightarrow> ScopeBridge))"
proof -
  have dims: "is_dimension_subset a b \<longleftrightarrow> set a \<subseteq> set b" for a b by (auto simp: is_dimension_subset_def list_all_iff)
  have grain: "(\<forall>c \<in> set (case grain_relation h g of GrFiner \<Rightarrow> [GrainRefinement] | GrCoarser \<Rightarrow> [GrainAggregation]
        | GrIncomparable \<Rightarrow> [GrainBridge] | GrEqual \<Rightarrow> []). P c)
      \<longleftrightarrow> (h = g \<or> P (if set g \<subseteq> set h then GrainRefinement else if set h \<subseteq> set g then GrainAggregation else GrainBridge))" for g h
    by (cases "h = g"; cases "set g \<subseteq> set h"; cases "set h \<subseteq> set g"; simp add: grain_relation_def dims)
  have equal: "scope_relation a b = ScEqual \<longleftrightarrow> a = b" for a b by (simp add: scope_relation_def)
  have scope: "(\<forall>c \<in> set (case scope_relation b a of ScNarrower \<Rightarrow> [ScopeFilter] | ScBroader \<Rightarrow> [ScopeCoverage]
        | ScDisjoint \<Rightarrow> [ScopeBridge] | ScOverlapping \<Rightarrow> [ScopeBridge] | ScEqual \<Rightarrow> []). P c)
      \<longleftrightarrow> (b = a \<or> P (case scope_relation b a of ScNarrower \<Rightarrow> ScopeFilter | ScBroader \<Rightarrow> ScopeCoverage | _ \<Rightarrow> ScopeBridge))" for a b
    using equal [of b a] by (cases "scope_relation b a") auto
  show ?thesis unfolding required_coordinate_witnesses_def set_append ball_Un grain scope ..
qed

section \<open>Unwitnessed derivations\<close>

text \<open>What is left when nothing is witnessed: the output repeats the coordinates and the epistemic state, and
  stands no higher on any axis.\<close>

definition weakens :: "claim \<Rightarrow> claim \<Rightarrow> bool" where
  "weakens s t =
     (cl_grain t = cl_grain s \<and> cl_scope t = cl_scope s \<and> cl_epistemic t = cl_epistemic s
      \<and> pf_basis (cl_profile t) \<in> {pf_basis (cl_profile s), MbNone, MbMixed}
      \<and> no_stronger (cl_profile t) (cl_profile s) \<and> \<not> needs_causal_transport s t)"

lemma unwitnessed_legality:
  assumes "assess_derivation_legality s t d = Inr a" "dv_witnesses d = []"
  shows "as_allowed a \<longleftrightarrow> weakens s t"
proof -
  have none: "witnessed [] s t k \<longleftrightarrow> False" for k by (cases k) simp_all
  have basis: "\<not> monetary_rebasing (pf_basis (cl_profile s)) (pf_basis (cl_profile t))
      \<longleftrightarrow> pf_basis (cl_profile t) \<in> {pf_basis (cl_profile s), MbNone, MbMixed}"
    by (auto simp: monetary_rebasing_def)
  show ?thesis
    unfolding legality_Inr [OF assms(1)] assms(2) none ball_required ball_required_coordinates weakens_def no_stronger_def
      claim_coordinates_def coordinates.simps simp_thms basis eq_commute [of "cl_epistemic s"] not_not
    by (simp only: conj_ac)
qed

lemma weakens_refl: "weakens c c"
  by (simp add: weakens_def needs_causal_transport_def)

lemma no_stronger_trans: "no_stronger a b \<Longrightarrow> no_stronger b c \<Longrightarrow> no_stronger a c"
  unfolding no_stronger_def by (elim conjE) (intro conjI; rule order_trans; assumption)

lemma weakens_trans:
  assumes "weakens a b" "weakens b c" "claim_rules b" "claim_rules c"
  shows "weakens a c"
proof -
  have strength: "no_stronger (cl_profile c) (cl_profile a)"
    using assms(1,2) no_stronger_trans by (auto simp: weakens_def)
  have "index_of causalities (cl_causal c) \<le> index_of causalities (cl_causal b)"
    using assms by (simp add: weakens_def no_stronger_def claim_rules_def)
  then have "\<not> needs_causal_transport a c"
    using assms(1,2) by (auto simp: weakens_def needs_causal_transport_def)
  then show ?thesis using assms(1,2) strength by (auto simp: weakens_def)
qed

lemma weakens_chain:
  "successively weakens cs \<Longrightarrow> cs \<noteq> [] \<Longrightarrow> (\<And>c. c \<in> set cs \<Longrightarrow> claim_rules c) \<Longrightarrow> weakens (hd cs) (last cs)"
proof (induction cs rule: induct_list012)
  case (3 x y cs)
  have "weakens y (last (y # cs))" using 3 by simp
  moreover have "weakens x y" using 3 by simp
  ultimately show ?case using 3(5) by (auto intro: weakens_trans [of x y])
qed (simp_all add: weakens_refl)

section \<open>Constructed derivations\<close>

lemma canonical_coordinates_Inr:
  assumes "comparator lc" "canonical_coordinates lc v = Inr c"
  shows "canonical_grain (co_grain c) \<and> stored_scope lc (co_scope c)"
proof -
  obtain ds cs dims pairs where p: "mapE (non_empty_val ''grain dimension'') ds = Inr dims" "foldE add_pair [] cs = Inr pairs"
    "canonical_grain_coordinates dims = Inr (co_grain c)" "co_scope c = canonical_scope_coordinates lc pairs"
    using assms(2) by (auto simp: canonical_coordinates_def split: if_splits jsval.splits)
  have "plain_text x" if "x \<in> set dims" for x
    using mapE_set [OF p(1) that] non_empty_val_plain by blast
  moreover have "co_grain c = sort dims" "distinct dims"
    using p(3) by (auto simp: canonical_grain_coordinates_def duplicate_neighbour_sorted split: if_splits)
  ultimately have "canonical_grain (co_grain c)" by (simp add: canonical_grain_def list_all_iff plain_text_def)
  then show ?thesis
    using sorted_pairs_stored [OF assms(1) add_pairs_good [OF p(2)]] p(4) by (simp add: canonical_scope_coordinates_def)
qed

text \<open>A constructed witness carries coordinates exactly when its kind is about coordinates.\<close>

lemma canonical_witness_Inr:
  "canonical_witness lc v = Inr w \<Longrightarrow> plain_text (dw_id w) \<and> (dw_from w \<noteq> None \<longleftrightarrow> is_coordinate (dw_kind w)) \<and> (dw_to w \<noteq> None \<longleftrightarrow> is_coordinate (dw_kind w))"
  unfolding canonical_witness_def bindE_Inr_iff if_Inl_Inr_iff
  by (elim exE conjE) (auto dest: non_empty_val_plain split: if_splits)

lemma add_witnesses_Inr:
  "foldE (add_witness lc) acc vs = Inr ws \<Longrightarrow> distinct (map dw_id acc) \<Longrightarrow> distinct (map dw_id ws)"
  by (erule foldE_invariant [where P = "\<lambda>ws. distinct (map dw_id ws)" and f = "add_witness lc", rotated 2])
    (auto simp: add_witness_def split: if_splits)

lemma derivation_witnesses_distinct:
  assumes "derivation lc v = Inr d"
  shows "distinct (map dw_id (dv_witnesses d))"
proof -
  from assms obtain ws where ws: "(case field ''witnesses'' v of JUndefined \<Rightarrow> Inr [] | JArr vs \<Rightarrow> foldE (add_witness lc) [] vs
      | _ \<Rightarrow> Inl ''witnesses must be an array'') = Inr ws" "dv_witnesses d = ws"
    unfolding derivation_def bindE_Inr_iff if_Inl_Inr_iff sum.inject by (elim exE conjE) (rule that; (assumption | erule subst; simp))
  then show ?thesis by (auto dest: add_witnesses_Inr split: jsval.splits)
qed

lemma check_witness_ids_Inr: "distinct (map cw_id ws) \<Longrightarrow> \<exists>ids. check_witness_ids ws = Inr ids"
proof -
  have "distinct (acc @ map cw_id ws) \<Longrightarrow>
      \<exists>ids. foldE (\<lambda>ids w. if cw_id w \<in> set ids then Inl ''duplicate witness id'' else Inr (ids @ [cw_id w])) acc ws = Inr ids" for acc
    by (induction ws arbitrary: acc) auto
  from this [of "[]"] show "distinct (map cw_id ws) \<Longrightarrow> \<exists>ids. check_witness_ids ws = Inr ids" by (simp add: check_witness_ids_def)
qed

lemma coordinate_witness_ids: "distinct (map dw_id ws) \<Longrightarrow> distinct (map cw_id (coordinate_witnesses ws))"
proof (induction ws)
  case (Cons w ws)
  have "cw_id ` set (coordinate_witnesses ws) \<subseteq> dw_id ` set ws" by (auto simp: coordinate_witnesses_set) (metis imageI)
  then show ?case using Cons
    by (auto simp: coordinate_witnesses_def split: derivation_kind.split option.split)
qed (simp add: coordinate_witnesses_def)

text \<open>The assessment of a constructed derivation throws exactly when the record is bound to other claims.\<close>

lemma constructed_derivation_assessed:
  assumes "derivation lc v = Inr d"
  shows "(\<exists>a. assess_derivation_legality s t d = Inr a) \<longleftrightarrow>
    cl_id s \<in> set (dv_claims d) \<and> dv_output d = cl_id t \<and> dv_proposition d = cl_proposition t
    \<and> dv_from d = claim_coordinates s \<and> dv_to d = claim_coordinates t"
proof -
  obtain ids where "check_witness_ids (coordinate_witnesses (dv_witnesses d)) = Inr ids"
    using check_witness_ids_Inr coordinate_witness_ids derivation_witnesses_distinct [OF assms] by blast
  moreover have "matches_claim_coordinates x c \<longleftrightarrow> x = claim_coordinates c" for x c
    by (auto simp: matches_claim_coordinates_def claim_coordinates_def)
  moreover have "same_proposition p q \<longleftrightarrow> p = q" for p q by (auto simp: same_proposition_def)
  ultimately show ?thesis
    by (simp add: assess_derivation_legality_def assess_coordinate_derivation_def Let_def)
qed

section \<open>Properties\<close>

definition estimated_claim :: claim where
  "estimated_claim = sample_claim\<lparr>cl_id := ''s'', cl_basis := MbEstimated, cl_profile := sample_profile\<lparr>pf_basis := MbEstimated\<rparr>\<rparr>"

definition partial_claim :: claim where
  "partial_claim = sample_claim\<lparr>cl_id := ''p'', cl_profile := sample_profile\<lparr>pf_coverage := CovPartial\<rparr>\<rparr>"

definition provisional_claim :: claim where
  "provisional_claim = sample_claim\<lparr>cl_id := ''q'', cl_basis := MbMixed, cl_finality := FinProvisional,
     cl_profile := sample_profile\<lparr>pf_coverage := CovPartial, pf_basis := MbMixed, pf_finality := FinProvisional\<rparr>\<rparr>"

definition plain_derivation :: "claim \<Rightarrow> claim \<Rightarrow> derivation" where
  "plain_derivation s t =
     \<lparr>dv_id = ''d'', dv_evidence = [], dv_claims = [cl_id s], dv_transformation = ''copy'', dv_output = cl_id t,
      dv_proposition = cl_proposition t, dv_from = claim_coordinates s, dv_to = claim_coordinates t, dv_witnesses = [],
      dv_assumptions = [], dv_uncertainty = None, dv_version = 1, dv_hash = ''h''\<rparr>"

lemma plain_derivation_assessed: "\<exists>a. assess_derivation_legality s t (plain_derivation s t) = Inr a"
  by (simp add: assess_derivation_legality_def plain_derivation_def same_proposition_def matches_claim_coordinates_def
      claim_coordinates_def assess_coordinate_derivation_def check_witness_ids_def coordinate_witnesses_def Let_def)


text \<open>C30: a derivation is allowed exactly when every change that can strengthen the claim is witnessed in
  kind: a change of grain or of scope by a coordinate witness between exactly these coordinates, a changed
  epistemic state, a monetary basis that changes to one other than none and mixed, and every profile axis
  that rises by a witness of its own kind, and causal standing carried to another subject, model, time or
  place by a transport witness.  An axis may fall, and the basis be given up or mixed, without a witness.\<close>

theorem derivation_allowed_iff_witnessed:
  assumes "assess_derivation_legality s t d = Inr a"
  shows "as_allowed a \<longleftrightarrow>
    (cl_grain t = cl_grain s
      \<or> witnessed (dv_witnesses d) s t (Coordinate
          (if set (cl_grain s) \<subseteq> set (cl_grain t) then GrainRefinement
           else if set (cl_grain t) \<subseteq> set (cl_grain s) then GrainAggregation else GrainBridge)))
    \<and> (cl_scope t = cl_scope s
      \<or> witnessed (dv_witnesses d) s t (Coordinate
          (case scope_relation (cl_scope t) (cl_scope s) of ScNarrower \<Rightarrow> ScopeFilter | ScBroader \<Rightarrow> ScopeCoverage | _ \<Rightarrow> ScopeBridge)))
    \<and> (cl_epistemic t = cl_epistemic s \<or> witnessed (dv_witnesses d) s t EpistemicResolution)
    \<and> (pf_basis (cl_profile t) \<in> {pf_basis (cl_profile s), MbNone, MbMixed} \<or> witnessed (dv_witnesses d) s t MonetaryRebasing)
    \<and> (\<not> needs_causal_transport s t \<or> witnessed (dv_witnesses d) s t CausalTransport)
    \<and> (\<forall>(k, rises) \<in> {(CoverageWitness, index_of coverages (pf_coverage (cl_profile t)) > index_of coverages (pf_coverage (cl_profile s))),
          (ScopeValidation, index_of scope_statuses (pf_scope (cl_profile t)) > index_of scope_statuses (pf_scope (cl_profile s))),
          (MeasurementValidation, index_of measurements (pf_measurement (cl_profile t)) > index_of measurements (pf_measurement (cl_profile s))),
          (CausalIdentification, index_of causalities (pf_causality (cl_profile t)) > index_of causalities (pf_causality (cl_profile s))),
          (MonetaryFinality, index_of finalities (pf_finality (cl_profile t)) > index_of finalities (pf_finality (cl_profile s))),
          (IntegrityAttestation, index_of integrities (pf_integrity (cl_profile t)) > index_of integrities (pf_integrity (cl_profile s))),
          (AuthenticityAttestation, index_of authenticities (pf_authenticity (cl_profile t)) > index_of authenticities (pf_authenticity (cl_profile s))),
          (DecisionFitness, index_of fitnesses (pf_fitness (cl_profile t)) > index_of fitnesses (pf_fitness (cl_profile s)))}.
        rises \<longrightarrow> witnessed (dv_witnesses d) s t k)"
proof -
  have basis: "monetary_rebasing (pf_basis (cl_profile s)) (pf_basis (cl_profile t))
      \<longleftrightarrow> pf_basis (cl_profile t) \<notin> {pf_basis (cl_profile s), MbNone, MbMixed}"
    by (auto simp: monetary_rebasing_def)
  show ?thesis
    unfolding legality_Inr [OF assms] ball_required ball_required_coordinates basis claim_coordinates_def coordinates.simps
    by (simp only: ball_simps prod.case imp_conv_disj not_less not_not conj_ac simp_thms eq_commute [of "cl_epistemic s"]
        claim_coordinates_def [symmetric])
qed

text \<open>An estimate never becomes a bill without a witness.\<close>

theorem derivation_allowed_iff_witnessed_witness:
  "\<exists>a. assess_derivation_legality estimated_claim sample_claim (plain_derivation estimated_claim sample_claim) = Inr a \<and> \<not> as_allowed a"
proof -
  obtain a where a: "assess_derivation_legality estimated_claim sample_claim (plain_derivation estimated_claim sample_claim) = Inr a"
    using plain_derivation_assessed by blast
  have "pf_basis (cl_profile sample_claim) \<notin> {pf_basis (cl_profile estimated_claim), MbNone, MbMixed}" by code_simp
  moreover have "dv_witnesses (plain_derivation estimated_claim sample_claim) = []" by (simp add: plain_derivation_def)
  ultimately show ?thesis using a derivation_allowed_iff_witnessed [OF a] by auto
qed

text \<open>C31: unwitnessed derivations cannot launder a claim step by step: along a chain of them over constructed
  claims the coordinates and the epistemic state stay, no axis rises, the monetary basis stays or is given
  up, and the direct derivation from the first claim to the last is allowed as well.\<close>

theorem unwitnessed_chain_never_strengthens:
  assumes "cs \<noteq> []" "\<And>c. c \<in> set cs \<Longrightarrow> claim_rules c"
    and "successively (\<lambda>s t. \<exists>d a. assess_derivation_legality s t d = Inr a \<and> as_allowed a \<and> dv_witnesses d = []) cs"
  shows "cl_grain (last cs) = cl_grain (hd cs) \<and> cl_scope (last cs) = cl_scope (hd cs) \<and> cl_epistemic (last cs) = cl_epistemic (hd cs)
    \<and> no_stronger (cl_profile (last cs)) (cl_profile (hd cs))
    \<and> pf_basis (cl_profile (last cs)) \<in> {pf_basis (cl_profile (hd cs)), MbNone, MbMixed}
    \<and> (\<forall>d a. assess_derivation_legality (hd cs) (last cs) d = Inr a \<and> dv_witnesses d = [] \<longrightarrow> as_allowed a)"
proof -
  have "successively weakens cs"
    using assms(3) by (rule successively_mono) (use unwitnessed_legality in blast)
  then have w: "weakens (hd cs) (last cs)" using assms(1,2) by (rule weakens_chain)
  moreover from this have "as_allowed a"
    if "assess_derivation_legality (hd cs) (last cs) d = Inr a" "dv_witnesses d = []" for d a
    using unwitnessed_legality [OF that] by blast
  ultimately show ?thesis unfolding weakens_def by blast
qed

theorem unwitnessed_chain_never_strengthens_witness:
  "no_stronger (cl_profile provisional_claim) (cl_profile sample_claim)"
proof -
  have allowed: "\<exists>d a. assess_derivation_legality s t d = Inr a \<and> as_allowed a \<and> dv_witnesses d = []" if "weakens s t" for s t
  proof -
    obtain a where "assess_derivation_legality s t (plain_derivation s t) = Inr a" using plain_derivation_assessed by blast
    moreover have "dv_witnesses (plain_derivation s t) = []" by (simp add: plain_derivation_def)
    ultimately show ?thesis using unwitnessed_legality that by blast
  qed
  have "weakens sample_claim partial_claim" "weakens partial_claim provisional_claim" by code_simp+
  then have "successively (\<lambda>s t. \<exists>d a. assess_derivation_legality s t d = Inr a \<and> as_allowed a \<and> dv_witnesses d = [])
      [sample_claim, partial_claim, provisional_claim]"
    using allowed by simp
  moreover have "claim_rules c" if "c \<in> set [sample_claim, partial_claim, provisional_claim]" for c
    using that by (auto simp: claim_rules_def sample_claim_def partial_claim_def provisional_claim_def sample_profile_def)
  ultimately show ?thesis
    using unwitnessed_chain_never_strengthens [of "[sample_claim, partial_claim, provisional_claim]"] by simp
qed

end
