(* ===== verification/Admissibility.thy ===== *)
theory Admissibility
  imports EpiState
begin

text \<open>
  Claim-relative admissibility (\<open>src/src/epistemic/admissibility.ts\<close>) and the uses a figure can be put to
  (\<open>src/src/epistemic/claim-uses.ts\<close>): whether a profile clears the bar a use states, how two profiles compare
  for one use, and which uses a surface bars a figure from.
\<close>

section \<open>Axes\<close>

definition ordered_axes :: "string list" where
  "ordered_axes = [''integrity'', ''authenticity'', ''scope'', ''coverage'', ''measurement'', ''causality'', ''finality'', ''decisionFitness'']"

definition unordered_axes :: "string list" where
  "unordered_axes = [''monetaryBasis'', ''epistemic'']"

definition axis_order :: "string \<Rightarrow> string list" where
  "axis_order axis =
     (if axis = ''integrity'' then map integrity_name integrities
      else if axis = ''authenticity'' then map authenticity_name authenticities
      else if axis = ''scope'' then map scope_status_name scope_statuses
      else if axis = ''coverage'' then map coverage_name coverages
      else if axis = ''measurement'' then map measurement_name measurements
      else if axis = ''causality'' then map causality_name causalities
      else if axis = ''finality'' then map finality_name finalities
      else if axis = ''decisionFitness'' then map fitness_name fitnesses
      else [])"

text \<open>\<open>String(profile[axis])\<close>; a key that is no axis reads as \<open>undefined\<close>.\<close>

definition profile_axis :: "claim_profile \<Rightarrow> string \<Rightarrow> string" where
  "profile_axis p axis =
     (if axis = ''integrity'' then integrity_name (pf_integrity p)
      else if axis = ''authenticity'' then authenticity_name (pf_authenticity p)
      else if axis = ''scope'' then scope_status_name (pf_scope p)
      else if axis = ''coverage'' then coverage_name (pf_coverage p)
      else if axis = ''measurement'' then measurement_name (pf_measurement p)
      else if axis = ''causality'' then causality_name (pf_causality p)
      else if axis = ''finality'' then finality_name (pf_finality p)
      else if axis = ''decisionFitness'' then fitness_name (pf_fitness p)
      else if axis = ''monetaryBasis'' then monetary_basis_name (pf_basis p)
      else if axis = ''epistemic'' then epistemic_name (pf_epistemic p)
      else ''undefined'')"

section \<open>Requirements\<close>

datatype axis_requirement =
    AtLeast (rq_axis: string) (rq_least: string)
  | OneOf (rq_axis: string) (rq_values: "string list")

record use_requirement =
  ur_id :: string
  ur_requires :: "axis_requirement list"
  ur_because :: string

record unmet_requirement =
  um_axis :: string
  um_needed :: string
  um_actual :: string

record admissibility =
  ad_use :: string
  ad_admitted :: bool
  ad_stated :: bool
  ad_unmet :: "unmet_requirement list"
  ad_because :: string

definition axis_rank :: "string \<Rightarrow> string \<Rightarrow> int res" where
  "axis_rank axis v =
     (let i = index_of (axis_order axis) v
      in if i < 0 then Inl ''axis carries a value outside its declared order'' else Inr i)"

definition check_requirement :: "string list \<Rightarrow> axis_requirement \<Rightarrow> string list res" where
  "check_requirement seen q =
     (if rq_axis q \<in> set seen then Inl ''use requirement states an axis twice''
      else case q of
        AtLeast axis least \<Rightarrow>
          if axis \<notin> set ordered_axes then Inl ''use requirement uses atLeast on an axis with no declared ordering''
          else bindE (axis_rank axis least) (\<lambda>_. Inr (axis # seen))
      | OneOf axis vs \<Rightarrow>
          if axis \<notin> set unordered_axes then Inl ''use requirement uses oneOf on an ordered axis''
          else if vs = [] then Inl ''use requirement states an empty oneOf''
          else if axis = ''monetaryBasis'' \<and> \<not> list_all (\<lambda>v. v \<in> set (map monetary_basis_name monetary_bases)) vs
               then Inl ''use requirement names a monetary basis that does not exist''
          else Inr (axis # seen))"

definition use_requirement :: "use_requirement \<Rightarrow> use_requirement res" where
  "use_requirement u =
     (if trim (ur_id u) = [] then Inl ''use requirement id must be a non-empty string''
      else if trim (ur_because u) = [] then Inl ''use requirement must say why''
      else bindE (foldE check_requirement [] (ur_requires u)) (\<lambda>_.
        Inr \<lparr>ur_id = trim (ur_id u), ur_requires = ur_requires u, ur_because = trim (ur_because u)\<rparr>))"

fun join_comma :: "string list \<Rightarrow> string" where
  "join_comma [] = []"
| "join_comma [x] = x"
| "join_comma (x # y # ys) = x @ '', '' @ join_comma (y # ys)"

definition add_unmet :: "claim_profile \<Rightarrow> unmet_requirement list \<Rightarrow> axis_requirement \<Rightarrow> unmet_requirement list res" where
  "add_unmet p unmet q =
     (let actual = profile_axis p (rq_axis q) in
      case q of
        AtLeast axis least \<Rightarrow>
          bindE (axis_rank axis actual) (\<lambda>i. bindE (axis_rank axis least) (\<lambda>j.
            Inr (if i < j then unmet @ [\<lparr>um_axis = axis, um_needed = ''at least '' @ least, um_actual = actual\<rparr>] else unmet)))
      | OneOf axis vs \<Rightarrow>
          Inr (if actual \<notin> set vs
               then unmet @ [\<lparr>um_axis = axis, um_needed = ''one of '' @ join_comma vs, um_actual = actual\<rparr>] else unmet))"

definition admits :: "claim_profile \<Rightarrow> use_requirement \<Rightarrow> admissibility res" where
  "admits p u =
     bindE (foldE (add_unmet p) [] (ur_requires u)) (\<lambda>unmet.
       let stated = (ur_requires u \<noteq> [])
       in Inr \<lparr>ad_use = ur_id u, ad_admitted = (stated \<and> unmet = []), ad_stated = stated, ad_unmet = unmet,
               ad_because = ur_because u\<rparr>)"

section \<open>Comparison for one use\<close>

datatype use_comparison = Better | Worse | Equivalent | Incomparable

text \<open>The loop of \<open>compareForUse\<close>: \<open>None\<close> is its early return of \<open>incomparable\<close>.\<close>

fun compare_parts :: "claim_profile \<Rightarrow> claim_profile \<Rightarrow> bool \<times> bool \<Rightarrow> axis_requirement list \<Rightarrow> (bool \<times> bool) option res" where
  "compare_parts a b ahead [] = Inr (Some ahead)"
| "compare_parts a b ahead (q # qs) =
     (let left = profile_axis a (rq_axis q); right = profile_axis b (rq_axis q) in
      if left = right then compare_parts a b ahead qs
      else case q of
        AtLeast axis least \<Rightarrow>
          bindE (axis_rank axis left) (\<lambda>i. bindE (axis_rank axis right) (\<lambda>j.
            compare_parts a b (if j < i then (True, snd ahead) else (fst ahead, True)) qs))
      | OneOf axis vs \<Rightarrow>
          if (left \<in> set vs) = (right \<in> set vs) then Inr None
          else compare_parts a b (if left \<in> set vs then (True, snd ahead) else (fst ahead, True)) qs)"

definition compare_for_use :: "claim_profile \<Rightarrow> claim_profile \<Rightarrow> use_requirement \<Rightarrow> use_comparison res" where
  "compare_for_use a b u =
     (if ur_requires u = [] then Inr Incomparable
      else bindE (compare_parts a b (False, False) (ur_requires u)) (\<lambda>r. Inr (case r of
        None \<Rightarrow> Incomparable
      | Some (a_ahead, b_ahead) \<Rightarrow>
          if a_ahead \<and> b_ahead then Incomparable else if a_ahead then Better else if b_ahead then Worse else Equivalent)))"

section \<open>The declared uses\<close>

definition claim_uses :: "string list" where
  "claim_uses = [''request_metered_spend'', ''budget_enforcement'', ''outcome_attribution'', ''roi'', ''model_recommendations'']"

definition use_requires :: "string \<Rightarrow> axis_requirement list" where
  "use_requires use =
     (if use = ''request_metered_spend'' then [OneOf ''monetaryBasis'' [''list'', ''mixed'']]
      else if use = ''budget_enforcement'' then [OneOf ''monetaryBasis'' [''list'', ''mixed''], OneOf ''epistemic'' [''supported'']]
      else if use = ''outcome_attribution'' then
        [OneOf ''epistemic'' [''supported''], AtLeast ''scope'' ''conditional'', AtLeast ''coverage'' ''complete'']
      else if use = ''model_recommendations'' then
        [AtLeast ''measurement'' ''proxy_validated'', AtLeast ''decisionFitness'' ''sufficient'']
      else [])"

text \<open>The prose of the table; its dashes are written \<open>--\<close>.\<close>

definition use_because :: "string \<Rightarrow> string" where
  "use_because use =
     (if use = ''request_metered_spend'' then
         ''The metered spend figure is the local rate-card read of requests Segreant routed. A provider-billed, '' @
         ''allocated or provider-observed total is a different quantity, and substituting one silently '' @
         ''redefines the number rather than improving it.''
      else if use = ''budget_enforcement'' then
         ''Enforcement gates the traffic Segreant can see and stop, which is the metered population, and it '' @
         ''fails closed: a figure that is unknown, refuted or self-contradictory must not be the one '' @
         ''deciding whether a request proceeds.''
      else if use = ''outcome_attribution'' then
         ''Attributing an outcome to work is a claim over a named population, not a causal claim, so no causal '' @
         ''identification is required and a claim at causality \"none\" is admissible. What is required is that '' @
         ''the population be named at all, that the outcome not be contradicted -- unknown evidence never '' @
         ''becomes confirmation and conflict never becomes confirmation -- and that the evidence cover the '' @
         ''scope completely, because half of \"this work realized\" is a negative claim, and on partial coverage '' @
         ''\"no revert was observed\" silently becomes \"no revert occurred\".''
      else if use = ''roi'' then
         ''RoI is a ratio of a realized-value claim to a cost claim, and the two are deliberately different '' @
         ''quantities: the value side is issued at monetaryBasis \"estimated\" and the cost side at \"list\", '' @
         ''\"estimated\" or \"effective\". A UseRequirement bars ONE profile, and merging the two sides collapses '' @
         ''monetaryBasis to \"mixed\" -- the same sentinel a metered figure carries when some requests were '' @
         ''estimated, and the same one a metered figure would carry if a billed total had been folded into it. '' @
         ''So a membership bar admitting \"mixed\" admits the contamination it exists to catch, and one refusing '' @
         ''\"mixed\" refuses the ordinary case. To state this bar, either a requirement would have to range over '' @
         ''a numerator and a denominator by name, or a profile would have to carry its constituent bases '' @
         ''instead of collapsing them. Until then the hand-written exclusion lists are the authority, and '' @
         ''stating the axes that do fit would report this door as examined when its deciding axis is not -- and '' @
         ''an unstated requirement is not a satisfied one.''
      else
         ''A model recommendation is acted on: it moves future work, and therefore future spend, to a different '' @
         ''model. So it needs a decision that was proven rather than assessed -- strict interval dominance over '' @
         ''every rival, not an overlap someone read a winner out of -- and it needs the surrogate that decided '' @
         ''it to have a stated relationship to the thing being optimised. Neither substitutes for the other: '' @
         ''dominance on an unbridged proxy is dominance on the proxy. This is why the local model comparison in '' @
         ''src/value/frontier.ts is review-only and never changes provider routing.'')"

definition use_requirement_of :: "string \<Rightarrow> use_requirement res" where
  "use_requirement_of use = use_requirement \<lparr>ur_id = use, ur_requires = use_requires use, ur_because = use_because use\<rparr>"

definition stated_uses :: "string list" where
  "stated_uses = filter (\<lambda>use. use_requires use \<noteq> []) claim_uses"

definition is_claim_use :: "string \<Rightarrow> bool" where
  "is_claim_use v = (v \<in> set claim_uses)"

text \<open>\<open>CLAIM_USES.filter\<close> with a callback that may throw.\<close>

fun filterE :: "('a \<Rightarrow> bool res) \<Rightarrow> 'a list \<Rightarrow> 'a list res" where
  "filterE f [] = Inr []"
| "filterE f (x # xs) = bindE (f x) (\<lambda>b. bindE (filterE f xs) (\<lambda>ys. Inr (if b then x # ys else ys)))"

definition excluded_uses_for :: "claim_profile \<Rightarrow> string list res" where
  "excluded_uses_for p =
     filterE (\<lambda>use. bindE (use_requirement_of use) (\<lambda>u. bindE (admits p u) (\<lambda>a. Inr (\<not> ad_admitted a)))) claim_uses"

definition barred_uses :: "claim_profile \<Rightarrow> string list \<Rightarrow> string list res" where
  "barred_uses p floor_uses =
     bindE (foldE (\<lambda>_ use. if \<not> is_claim_use use then Inl ''excludedFrom floor names a use no registry declares'' else Inr ()) () floor_uses) (\<lambda>_.
     bindE (excluded_uses_for p) (\<lambda>excluded.
       let refused = to_set (floor_uses @ excluded) in Inr (filter (\<lambda>use. use \<in> set refused) claim_uses)))"

section \<open>Ranks\<close>

definition well_formed_requirement :: "axis_requirement \<Rightarrow> bool" where
  "well_formed_requirement q =
     (case q of AtLeast axis least \<Rightarrow> axis \<in> set ordered_axes \<and> least \<in> set (axis_order axis)
      | OneOf axis vs \<Rightarrow> axis \<in> set unordered_axes)"

lemma profile_in_order: "axis \<in> set ordered_axes \<Longrightarrow> profile_axis p axis \<in> set (axis_order axis)"
  by (auto simp: ordered_axes_def profile_axis_def axis_order_def)

lemma index_from_missing: "x \<notin> set xs \<Longrightarrow> index_from i xs x = - 1"
  by (induction xs arbitrary: i) auto

lemma axis_rank_Inr: "axis_rank axis v = Inr i \<longleftrightarrow> v \<in> set (axis_order axis) \<and> i = index_of (axis_order axis) v"
proof (cases "v \<in> set (axis_order axis)")
  case True
  then show ?thesis using index_of_member [OF True] by (auto simp: axis_rank_def Let_def)
next
  case False
  then show ?thesis by (simp add: axis_rank_def Let_def index_of_def index_from_missing)
qed

lemma axis_rank_total: "v \<in> set (axis_order axis) \<Longrightarrow> axis_rank axis v = Inr (index_of (axis_order axis) v)"
  by (simp add: axis_rank_Inr)

text \<open>One part of a requirement, and one profile being at least as good as another on it.\<close>

definition meets :: "claim_profile \<Rightarrow> axis_requirement \<Rightarrow> bool" where
  "meets p q =
     (case q of AtLeast axis least \<Rightarrow> index_of (axis_order axis) least \<le> index_of (axis_order axis) (profile_axis p axis)
      | OneOf axis vs \<Rightarrow> profile_axis p axis \<in> set vs)"

definition no_worse :: "claim_profile \<Rightarrow> claim_profile \<Rightarrow> axis_requirement \<Rightarrow> bool" where
  "no_worse a b q =
     (profile_axis a (rq_axis q) = profile_axis b (rq_axis q) \<or>
      (case q of AtLeast axis least \<Rightarrow> index_of (axis_order axis) (profile_axis b axis) < index_of (axis_order axis) (profile_axis a axis)
       | OneOf axis vs \<Rightarrow> profile_axis a axis \<in> set vs \<and> profile_axis b axis \<notin> set vs))"

lemma no_worse_meets: "no_worse a b q \<Longrightarrow> meets b q \<Longrightarrow> meets a q"
  by (cases q) (auto simp: no_worse_def meets_def)

lemma add_unmet_Inr:
  assumes "well_formed_requirement q"
  shows "\<exists>unmet'. add_unmet p unmet q = Inr unmet' \<and> (unmet' = [] \<longleftrightarrow> unmet = [] \<and> meets p q)"
proof (cases q)
  case (AtLeast axis least)
  then have "axis \<in> set ordered_axes" "least \<in> set (axis_order axis)" using assms by (simp_all add: well_formed_requirement_def)
  then show ?thesis
    using AtLeast profile_in_order [of axis p] by (auto simp: add_unmet_def axis_rank_total meets_def Let_def)
next
  case (OneOf axis vs)
  then show ?thesis by (auto simp: add_unmet_def meets_def Let_def)
qed

lemma unmet_fold:
  assumes "\<forall>q \<in> set qs. well_formed_requirement q"
  shows "\<exists>unmet'. foldE (add_unmet p) unmet qs = Inr unmet' \<and> (unmet' = [] \<longleftrightarrow> unmet = [] \<and> (\<forall>q \<in> set qs. meets p q))"
  using assms
proof (induction qs arbitrary: unmet)
  case Nil
  then show ?case by simp
next
  case (Cons q qs)
  obtain u where u: "add_unmet p unmet q = Inr u" "u = [] \<longleftrightarrow> unmet = [] \<and> meets p q"
    using add_unmet_Inr [of q p unmet] Cons.prems by auto
  obtain v where "foldE (add_unmet p) u qs = Inr v" "v = [] \<longleftrightarrow> u = [] \<and> (\<forall>q \<in> set qs. meets p q)"
    using Cons.IH [of u] Cons.prems by auto
  then show ?case using u by auto
qed

lemma admits_iff:
  assumes "\<forall>q \<in> set (ur_requires u). well_formed_requirement q"
  shows "\<exists>a. admits p u = Inr a \<and> (ad_admitted a \<longleftrightarrow> ur_requires u \<noteq> [] \<and> (\<forall>q \<in> set (ur_requires u). meets p q))
    \<and> ad_stated a = (ur_requires u \<noteq> [])"
proof -
  obtain v where "foldE (add_unmet p) [] (ur_requires u) = Inr v" "v = [] \<longleftrightarrow> (\<forall>q \<in> set (ur_requires u). meets p q)"
    using unmet_fold [OF assms, of p "[]"] by auto
  then show ?thesis by (auto simp: admits_def Let_def)
qed

text \<open>What the constructor accepts is well formed.\<close>

lemma check_requirement_well_formed:
  "foldE check_requirement seen qs = Inr seen' \<Longrightarrow> \<forall>q \<in> set qs. well_formed_requirement q"
proof (induction qs arbitrary: seen)
  case Nil
  then show ?case by simp
next
  case (Cons q qs)
  then obtain s where s: "check_requirement seen q = Inr s" "foldE check_requirement s qs = Inr seen'" by auto
  have "well_formed_requirement q"
    using s(1) by (cases q) (auto simp: check_requirement_def well_formed_requirement_def axis_rank_Inr split: if_splits)
  with Cons.IH [OF s(2)] show ?case by simp
qed

lemma use_requirement_well_formed:
  "use_requirement u = Inr v \<Longrightarrow> ur_requires v = ur_requires u \<and> (\<forall>q \<in> set (ur_requires v). well_formed_requirement q)"
  using check_requirement_well_formed [of "[]" "ur_requires u"] by (auto simp: use_requirement_def split: if_splits)

section \<open>Comparison\<close>

text \<open>What the loop finds: an incomparable part, or which side is ahead on some part.\<close>

definition parts_meaning ::
    "claim_profile \<Rightarrow> claim_profile \<Rightarrow> bool \<times> bool \<Rightarrow> axis_requirement list \<Rightarrow> (bool \<times> bool) option \<Rightarrow> bool" where
  "parts_meaning a b ahead qs r = (case r of
      None \<Rightarrow> \<exists>q \<in> set qs. \<not> no_worse a b q \<and> \<not> no_worse b a q
    | Some (x, y) \<Rightarrow> (y \<longleftrightarrow> snd ahead \<or> (\<exists>q \<in> set qs. \<not> no_worse a b q))
        \<and> (x \<longleftrightarrow> fst ahead \<or> (\<exists>q \<in> set qs. \<not> no_worse b a q)))"

lemma compare_parts_meaning:
  assumes "\<forall>q \<in> set qs. well_formed_requirement q"
  shows "\<exists>r. compare_parts a b ahead qs = Inr r \<and> parts_meaning a b ahead qs r"
  using assms
proof (induction a b ahead qs rule: compare_parts.induct)
  case (1 a b ahead)
  then show ?case by (simp add: parts_meaning_def split: prod.split)
next
  case (2 a b ahead q qs)
  let ?l = "profile_axis a (rq_axis q)" and ?r = "profile_axis b (rq_axis q)"
  have wf: "well_formed_requirement q" "\<forall>q \<in> set qs. well_formed_requirement q" using "2.prems" by simp_all
  show ?case
  proof (cases "?l = ?r")
    case True
    then have "no_worse a b q" "no_worse b a q" by (simp_all add: no_worse_def)
    moreover obtain r where "compare_parts a b ahead qs = Inr r" "parts_meaning a b ahead qs r"
      using "2.IH"(1) [OF refl refl True wf(2)] by blast
    ultimately show ?thesis using True by (intro exI [of _ r]) (auto simp: parts_meaning_def split: option.splits)
  next
    case False
    show ?thesis
    proof (cases q)
      case (AtLeast axis least)
      then have axis: "axis \<in> set ordered_axes" using wf(1) by (simp add: well_formed_requirement_def)
      let ?i = "index_of (axis_order axis) ?l" and ?j = "index_of (axis_order axis) ?r"
      have ranks: "axis_rank axis ?l = Inr ?i" "axis_rank axis ?r = Inr ?j"
        using profile_in_order [OF axis] AtLeast by (simp_all add: axis_rank_total)
      have "?i \<noteq> ?j"
        using False AtLeast index_of_inj [of ?l "axis_order axis" ?r] profile_in_order [OF axis] by simp
      then have side: "no_worse a b q = (?j < ?i)" "no_worse b a q = (\<not> ?j < ?i)"
        using False AtLeast by (auto simp: no_worse_def)
      obtain r where "compare_parts a b (if ?j < ?i then (True, snd ahead) else (fst ahead, True)) qs = Inr r"
        "parts_meaning a b (if ?j < ?i then (True, snd ahead) else (fst ahead, True)) qs r"
        using "2.IH"(2) [OF refl refl False AtLeast ranks wf(2)] by blast
      moreover from this(1) have "compare_parts a b ahead (q # qs) = Inr r"
        using False AtLeast ranks by simp
      ultimately show ?thesis using side
        by (intro exI [of _ r] conjI) (auto simp: parts_meaning_def split: option.splits if_splits)
    next
      case (OneOf axis vs)
      show ?thesis
      proof (cases "(?l \<in> set vs) = (?r \<in> set vs)")
        case True
        then show ?thesis using False OneOf by (auto simp: parts_meaning_def no_worse_def)
      next
        case out: False
        then have side: "no_worse a b q = (?l \<in> set vs)" "no_worse b a q = (?l \<notin> set vs)"
          using False OneOf by (auto simp: no_worse_def)
        obtain r where "compare_parts a b (if ?l \<in> set vs then (True, snd ahead) else (fst ahead, True)) qs = Inr r"
          "parts_meaning a b (if ?l \<in> set vs then (True, snd ahead) else (fst ahead, True)) qs r"
          using "2.IH"(3) [OF refl refl False OneOf out wf(2)] by blast
        moreover from this(1) have "compare_parts a b ahead (q # qs) = Inr r" using False OneOf out by simp
        ultimately show ?thesis using side
          by (intro exI [of _ r] conjI) (auto simp: parts_meaning_def split: option.splits if_splits)
      qed
    qed
  qed
qed

text \<open>One profile being at least as good as another for a use: on every part of its bar.  Two profiles
  that are each as good as the other carry the same value on every axis the bar names.\<close>

definition as_good_for :: "use_requirement \<Rightarrow> claim_profile \<Rightarrow> claim_profile \<Rightarrow> bool" where
  "as_good_for u a b = list_all (no_worse a b) (ur_requires u)"

lemma no_worse_antisym: "no_worse a b q \<and> no_worse b a q \<longleftrightarrow> profile_axis a (rq_axis q) = profile_axis b (rq_axis q)"
  by (cases q) (auto simp: no_worse_def)

lemma as_good_antisym:
  "as_good_for u a b \<and> as_good_for u b a \<longleftrightarrow>
     (\<forall>q \<in> set (ur_requires u). profile_axis a (rq_axis q) = profile_axis b (rq_axis q))"
  using no_worse_antisym [of a b] by (auto simp: as_good_for_def list_all_iff)

definition comparison_of :: "bool \<Rightarrow> bool \<Rightarrow> use_comparison" where
  "comparison_of ab ba = (if ab then if ba then Equivalent else Better else if ba then Worse else Incomparable)"

lemma compare_for_use_iff:
  assumes "\<forall>q \<in> set (ur_requires u). well_formed_requirement q" "ur_requires u \<noteq> []"
  shows "compare_for_use a b u = Inr (comparison_of (as_good_for u a b) (as_good_for u b a))"
proof -
  obtain r where r: "compare_parts a b (False, False) (ur_requires u) = Inr r"
    and meaning: "parts_meaning a b (False, False) (ur_requires u) r"
    using compare_parts_meaning [OF assms(1)] by blast
  show ?thesis
  proof (cases r)
    case None
    then have "\<not> as_good_for u a b" "\<not> as_good_for u b a"
      using meaning by (auto simp: parts_meaning_def as_good_for_def list_all_iff)
    then show ?thesis using None r assms(2) by (simp add: compare_for_use_def comparison_of_def)
  next
    case (Some xy)
    then have "snd xy = (\<not> as_good_for u a b)" "fst xy = (\<not> as_good_for u b a)"
      using meaning by (auto simp: parts_meaning_def as_good_for_def list_all_iff)
    then show ?thesis using Some r assms(2) by (cases xy) (simp add: compare_for_use_def comparison_of_def)
  qed
qed

definition admitted :: "claim_profile \<Rightarrow> use_requirement \<Rightarrow> bool" where
  "admitted p u = (case admits p u of Inl e \<Rightarrow> False | Inr a \<Rightarrow> ad_admitted a)"

lemma admitted_iff:
  assumes "\<forall>q \<in> set (ur_requires u). well_formed_requirement q"
  shows "admitted p u \<longleftrightarrow> ur_requires u \<noteq> [] \<and> (\<forall>q \<in> set (ur_requires u). meets p q)"
  using admits_iff [OF assms, of p] by (auto simp: admitted_def)

lemma as_good_meets:
  assumes "as_good_for u a b" "\<forall>q \<in> set (ur_requires u). meets b q"
  shows "\<forall>q \<in> set (ur_requires u). meets a q"
  using assms no_worse_meets [of a b] by (simp add: as_good_for_def list_all_iff)

text \<open>C35: on a requirement the constructor accepts, the comparison of two profiles and their admission are total,
  and both are decided by the parts of its bar.  The comparison is the one of the preorder \<open>as_good_for\<close>: better
  when one profile is at least as good as the other on every part and not conversely, equivalent when they agree on
  every axis the bar names, worse the other way round, incomparable otherwise and whenever the use states nothing;
  so exchanging the profiles exchanges better and worse.  A profile is admitted exactly when the use states
  something and the profile meets every part, and a profile that is better or equivalent is admitted wherever the
  other is.\<close>

theorem comparison_respects_admission:
  assumes "use_requirement v = Inr u"
  shows "\<exists>c x y. compare_for_use a b u = Inr c \<and> admits a u = Inr x \<and> admits b u = Inr y
    \<and> c = (if ur_requires v = [] then Incomparable else comparison_of (as_good_for u a b) (as_good_for u b a))
    \<and> compare_for_use b a u = Inr (case c of Better \<Rightarrow> Worse | Worse \<Rightarrow> Better | _ \<Rightarrow> c)
    \<and> (c = Equivalent \<longleftrightarrow> ur_requires v \<noteq> []
        \<and> (\<forall>q \<in> set (ur_requires v). profile_axis a (rq_axis q) = profile_axis b (rq_axis q)))
    \<and> (ad_admitted x \<longleftrightarrow> ur_requires v \<noteq> [] \<and> (\<forall>q \<in> set (ur_requires v). meets a q))
    \<and> (c = Better \<or> c = Equivalent \<longrightarrow> ad_admitted y \<longrightarrow> ad_admitted x)
    \<and> (c = Worse \<or> c = Equivalent \<longrightarrow> ad_admitted x \<longrightarrow> ad_admitted y)"
proof -
  have u: "ur_requires u = ur_requires v" "\<forall>q \<in> set (ur_requires u). well_formed_requirement q"
    using use_requirement_well_formed [OF assms] by auto
  obtain x y where x: "admits a u = Inr x" "ad_admitted x \<longleftrightarrow> ur_requires v \<noteq> [] \<and> (\<forall>q \<in> set (ur_requires v). meets a q)"
    and y: "admits b u = Inr y" "ad_admitted y \<longleftrightarrow> ur_requires v \<noteq> [] \<and> (\<forall>q \<in> set (ur_requires v). meets b q)"
    using admits_iff [OF u(2), of a] admits_iff [OF u(2), of b] u(1) by auto
  show ?thesis
  proof (cases "ur_requires v = []")
    case True
    then show ?thesis using x y u(1) by (simp add: compare_for_use_def)
  next
    case False
    note cmp = compare_for_use_iff [OF u(2), unfolded u(1), OF False]
    have adm: "as_good_for u a b \<Longrightarrow> ad_admitted y \<Longrightarrow> ad_admitted x" "as_good_for u b a \<Longrightarrow> ad_admitted x \<Longrightarrow> ad_admitted y"
      using as_good_meets [of u a b] as_good_meets [of u b a] x(2) y(2) u(1) by simp_all
    show ?thesis
      using cmp [of a b] cmp [of b a] x y adm False as_good_antisym [of u a b] u(1)
      by (cases "as_good_for u a b"; cases "as_good_for u b a") (simp_all add: comparison_of_def)
  qed
qed

definition sample_use :: use_requirement where
  "sample_use = \<lparr>ur_id = ''gate'', ur_requires = [AtLeast ''coverage'' ''partial'', OneOf ''epistemic'' [''supported'']], ur_because = ''sample''\<rparr>"

lemma sample_use_accepted: "use_requirement sample_use = Inr sample_use"
  by code_simp

definition plain_profile :: "coverage_status \<Rightarrow> claim_profile" where
  "plain_profile c = \<lparr>pf_epistemic = ESupported, pf_integrity = IntVerified, pf_authenticity = AuthSelfAsserted, pf_scope = ScConditional,
     pf_coverage = c, pf_measurement = MeasProxyUnvalidated, pf_causality = CauNone, pf_basis = MbAllocated,
     pf_finality = FinProvisional, pf_fitness = FitNotAssessed\<rparr>"

theorem comparison_respects_admission_witness:
  "compare_for_use (plain_profile CovComplete) (plain_profile CovPartial) sample_use = Inr Better
    \<and> compare_for_use (plain_profile CovPartial) (plain_profile CovComplete) sample_use = Inr Worse
    \<and> (\<exists>x. admits (plain_profile CovComplete) sample_use = Inr x \<and> ad_admitted x)"
proof -
  have "as_good_for sample_use (plain_profile CovComplete) (plain_profile CovPartial)"
    "\<not> as_good_for sample_use (plain_profile CovPartial) (plain_profile CovComplete)"
    "list_all (meets (plain_profile CovComplete)) (ur_requires sample_use)" by code_simp+
  moreover have "ur_requires sample_use \<noteq> []" by (simp add: sample_use_def)
  ultimately show ?thesis
    using comparison_respects_admission [OF sample_use_accepted, of "plain_profile CovComplete" "plain_profile CovPartial"]
    by (auto simp: comparison_of_def list_all_iff)
qed

section \<open>Barred uses\<close>

lemma use_requirement_of_total:
  assumes "use \<in> set claim_uses"
  shows "\<exists>u. use_requirement_of use = Inr u \<and> ur_requires u = use_requires use"
proof -
  have "list_all (\<lambda>use. case use_requirement_of use of Inl e \<Rightarrow> False | Inr u \<Rightarrow> ur_requires u = use_requires use) claim_uses"
    by code_simp
  then have "case use_requirement_of use of Inl e \<Rightarrow> False | Inr u \<Rightarrow> ur_requires u = use_requires use"
    using assms unfolding list_all_iff by blast
  then show ?thesis by (cases "use_requirement_of use") auto
qed

definition refuses :: "claim_profile \<Rightarrow> string \<Rightarrow> bool" where
  "refuses p use = (case use_requirement_of use of Inl e \<Rightarrow> True | Inr u \<Rightarrow> \<not> admitted p u)"

lemma filterE_Inr: "(\<And>x. x \<in> set xs \<Longrightarrow> f x = Inr (g x)) \<Longrightarrow> filterE f xs = Inr (filter g xs)"
  by (induction xs) auto

lemma excluded_uses: "excluded_uses_for p = Inr (filter (refuses p) claim_uses)"
  unfolding excluded_uses_for_def
proof (rule filterE_Inr)
  fix use assume "use \<in> set claim_uses"
  then obtain u where u: "use_requirement_of use = Inr u" using use_requirement_of_total by blast
  then have "\<forall>q \<in> set (ur_requires u). well_formed_requirement q"
    using use_requirement_well_formed unfolding use_requirement_of_def by blast
  from admits_iff [OF this, of p] u
  show "bindE (use_requirement_of use) (\<lambda>u. bindE (admits p u) (\<lambda>a. Inr (\<not> ad_admitted a))) = Inr (refuses p use)"
    by (auto simp: refuses_def admitted_def)
qed

lemma foldE_all_unit:
  "foldE (\<lambda>_ x. if \<not> P x then Inl e else Inr ()) () xs = Inr () \<longleftrightarrow> (\<forall>x \<in> set xs. P x)"
  by (induction xs) auto

text \<open>C36: a surface bars a figure from exactly the uses it bars in writing and those the vocabulary refuses
  the profile, each once and in the order of the vocabulary; return on investment, whose bar nobody has
  stated, is always among them; and a written bar that no registry declares is refused.\<close>

theorem barred_uses_exact:
  "if set floor_uses \<subseteq> set claim_uses
   then barred_uses p floor_uses = Inr (filter (\<lambda>use. use \<in> set floor_uses \<or> refuses p use) claim_uses) \<and> refuses p ''roi''
   else \<exists>e. barred_uses p floor_uses = Inl e"
proof (cases "set floor_uses \<subseteq> set claim_uses")
  case True
  then have "foldE (\<lambda>_ use. if \<not> is_claim_use use then Inl ''excludedFrom floor names a use no registry declares'' else Inr ()) () floor_uses = Inr ()"
    by (subst foldE_all_unit) (auto simp: is_claim_use_def)
  then have "barred_uses p floor_uses = Inr (filter (\<lambda>use. use \<in> set floor_uses \<or> refuses p use) claim_uses)"
    by (auto simp: barred_uses_def excluded_uses Let_def intro!: filter_cong)
  moreover have "refuses p ''roi''"
  proof -
    obtain u where u: "use_requirement_of ''roi'' = Inr u" "ur_requires u = use_requires ''roi''"
      using use_requirement_of_total [of "''roi''"] by (auto simp: claim_uses_def)
    then have "ur_requires u = []" by (simp add: use_requires_def)
    then show ?thesis using u(1) admitted_iff [of u p] by (simp add: refuses_def)
  qed
  ultimately show ?thesis using True by simp
next
  case False
  then have "foldE (\<lambda>_ use. if \<not> is_claim_use use then Inl ''excludedFrom floor names a use no registry declares'' else Inr ()) () floor_uses \<noteq> Inr ()"
    by (subst foldE_all_unit) (auto simp: is_claim_use_def)
  then have "barred_uses p floor_uses \<noteq> Inr r" for r by (auto simp: barred_uses_def)
  then show ?thesis using False by (cases "barred_uses p floor_uses") auto
qed

theorem barred_uses_exact_witness:
  "barred_uses (plain_profile CovPartial) [''roi''] = Inr (filter (refuses (plain_profile CovPartial)) claim_uses)"
  using barred_uses_exact [of "[''roi'']" "plain_profile CovPartial"] by (auto simp: claim_uses_def)

end
