(* ===== verification/Double.thy ===== *)
theory Double
  imports Prelude
begin

text \<open>
  The arithmetic of JavaScript numbers the allocation and the budget code use.  A finite number is the
  rational it denotes; every arithmetic operation is the exact operation followed by rounding to the
  nearest IEEE 754 double, ties to even (\<open>round_double\<close>, gradual underflow included).  Results beyond the
  largest double, which JavaScript turns into an infinity, are outside the model: the amounts the code
  handles stay some three hundred orders of magnitude below.

  The lemmas give what the conservation proofs need: an integer of at most 53 bits is a double, and the
  relative error of an operation is at most one part in \<open>2 ^ 53\<close>.
\<close>

section \<open>Rounding\<close>

fun ilog2 :: "int \<Rightarrow> int" where
  "ilog2 n = (if n \<le> 1 then 0 else 1 + ilog2 (n div 2))"

declare ilog2.simps [simp del]

text \<open>The exponent of a positive rational: \<open>2 ^ e \<le> q < 2 ^ (e + 1)\<close>.\<close>

definition binary_exponent :: "rat \<Rightarrow> int" where
  "binary_exponent q =
     (let (a, b) = quotient_of q; k = ilog2 a - ilog2 b in if 2 powi k \<le> q then k else k - 1)"

definition round_half_even :: "rat \<Rightarrow> int" where
  "round_half_even x =
     (let f = \<lfloor>x\<rfloor>; d = x - of_int f
      in if d < 1 / 2 then f else if 1 / 2 < d then f + 1 else if even f then f else f + 1)"

definition double_ulp :: "rat \<Rightarrow> rat" where
  "double_ulp x = 2 powi (max (binary_exponent \<bar>x\<bar> - 52) (- 1074))"

definition round_double :: "rat \<Rightarrow> rat" where
  "round_double x = (if x = 0 then 0 else of_int (round_half_even (x / double_ulp x)) * double_ulp x)"

text \<open>The operators of the language on finite numbers.\<close>

definition num_add :: "rat \<Rightarrow> rat \<Rightarrow> rat" where "num_add a b = round_double (a + b)"
definition num_sub :: "rat \<Rightarrow> rat \<Rightarrow> rat" where "num_sub a b = round_double (a - b)"
definition num_mult :: "rat \<Rightarrow> rat \<Rightarrow> rat" where "num_mult a b = round_double (a * b)"
definition num_div :: "rat \<Rightarrow> rat \<Rightarrow> rat" where "num_div a b = round_double (a / b)"

text \<open>\<open>Math.round\<close>: the nearest integer, a tie to the greater one.\<close>

definition math_round :: "rat \<Rightarrow> int" where
  "math_round x = \<lfloor>x + 1 / 2\<rfloor>"

text \<open>A sum of numbers that hold integers, as in \<open>reduce((sum, x) => sum + x, 0)\<close>.\<close>

definition num_sum :: "rat list \<Rightarrow> rat" where
  "num_sum xs = foldl num_add 0 xs"

section \<open>The exponent\<close>

lemma ilog2_bounds: "1 \<le> n \<Longrightarrow> 0 \<le> ilog2 n \<and> 2 ^ nat (ilog2 n) \<le> n \<and> n < 2 ^ (nat (ilog2 n) + 1)"
proof (induction n rule: ilog2.induct)
  case (1 n)
  show ?case
  proof (cases "n \<le> 1")
    case True
    then have "n = 1" using 1(2) by simp
    then show ?thesis by (simp add: ilog2.simps [of 1])
  next
    case False
    let ?m = "n div 2"
    have IH: "0 \<le> ilog2 ?m \<and> 2 ^ nat (ilog2 ?m) \<le> ?m \<and> ?m < 2 ^ (nat (ilog2 ?m) + 1)"
      using False by (intro 1(1)) auto
    have e: "ilog2 n = 1 + ilog2 ?m" using False by (simp add: ilog2.simps [of n])
    have "nat (ilog2 n) = Suc (nat (ilog2 ?m))" using IH e by (simp add: nat_add_distrib)
    moreover have "2 * 2 ^ nat (ilog2 ?m) \<le> n" using IH by linarith
    moreover have "?m + 1 \<le> 2 ^ (nat (ilog2 ?m) + 1)" using IH by linarith
    then have "n < 2 * 2 ^ (nat (ilog2 ?m) + 1)" by linarith
    ultimately show ?thesis using IH e by simp
  qed
qed

lemma power_int_ilog2:
  assumes "1 \<le> n"
  shows "2 powi ilog2 n \<le> (of_int n :: rat) \<and> (of_int n :: rat) < 2 powi (ilog2 n + 1)"
proof -
  note b = ilog2_bounds [OF assms]
  have "(2 :: rat) powi ilog2 n = of_int (2 ^ nat (ilog2 n))" using b by (simp add: power_int_def)
  moreover have "(2 :: rat) powi (ilog2 n + 1) = of_int (2 ^ (nat (ilog2 n) + 1))"
    using b by (simp add: power_int_def nat_add_distrib)
  ultimately show ?thesis using b by (simp only: of_int_le_iff of_int_less_iff)
qed

lemma power_int_less_exp: "(2 :: rat) powi m < 2 powi n \<Longrightarrow> m < n"
  by (rule ccontr) (use power_int_increasing [of n m "2 :: rat"] in auto)

lemma power_int_le_exp: "(2 :: rat) powi m \<le> 2 powi n \<Longrightarrow> m \<le> n"
  by (rule ccontr) (use power_int_strict_increasing [of n m "2 :: rat"] in auto)

lemma binary_exponent_bounds:
  assumes "0 < q"
  shows "2 powi binary_exponent q \<le> q \<and> q < 2 powi (binary_exponent q + 1)"
proof -
  obtain a b where ab: "quotient_of q = (a, b)" by (cases "quotient_of q")
  have b: "0 < b" using quotient_of_denom_pos [OF ab] .
  have q: "q = of_int a / of_int b" using quotient_of_div [OF ab] .
  then have a: "0 < a" using assms b by (simp add: zero_less_divide_iff)
  let ?k = "ilog2 a - ilog2 b"
  have A: "2 powi ilog2 a \<le> (of_int a :: rat)" "(of_int a :: rat) < 2 powi (ilog2 a + 1)"
    and B: "2 powi ilog2 b \<le> (of_int b :: rat)" "(of_int b :: rat) < 2 powi (ilog2 b + 1)"
    using power_int_ilog2 [of a] power_int_ilog2 [of b] a b by simp_all
  have "q < 2 powi (ilog2 a + 1) / 2 powi ilog2 b"
    unfolding q using A B a b by (intro frac_less) (auto simp: less_imp_le)
  also have "\<dots> = 2 powi (?k + 1)" by (simp add: power_int_diff power_int_add algebra_simps)
  finally have up: "q < 2 powi (?k + 1)" .
  have "2 powi ilog2 a / 2 powi (ilog2 b + 1) < q"
    unfolding q using A B a b by (intro frac_less2) auto
  moreover have "2 powi ilog2 a / (2 :: rat) powi (ilog2 b + 1) = 2 powi (?k - 1)"
    by (simp add: power_int_diff power_int_add)
  ultimately have lo: "2 powi (?k - 1) < q" by simp
  show ?thesis
  proof (cases "2 powi ?k \<le> q")
    case True
    then show ?thesis using up by (simp add: binary_exponent_def ab)
  next
    case False
    then show ?thesis using lo by (simp add: binary_exponent_def ab)
  qed
qed

lemma double_ulp_pos [simp]: "0 < double_ulp x" and double_ulp_nonzero [simp]: "double_ulp x \<noteq> 0"
  by (simp_all add: double_ulp_def)

section \<open>The error of rounding\<close>

lemma round_half_even_error: "\<bar>of_int (round_half_even x) - x\<bar> \<le> 1 / 2"
proof -
  have "of_int \<lfloor>x\<rfloor> \<le> x" "x < of_int \<lfloor>x\<rfloor> + 1" by linarith+
  then show ?thesis unfolding round_half_even_def Let_def by (simp split: if_splits add: abs_le_iff)
qed

lemma round_half_even_int [simp]: "round_half_even (of_int i) = i"
  by (simp add: round_half_even_def)

lemma round_double_error:
  shows "\<bar>round_double x - x\<bar> \<le> double_ulp x / 2"
proof (cases "x = 0")
  case False
  let ?u = "double_ulp x" and ?n = "round_half_even (x / double_ulp x)"
  have "round_double x - x = (of_int ?n - x / ?u) * ?u"
    using False double_ulp_pos [of x] by (simp add: round_double_def field_simps)
  moreover have "\<bar>?u\<bar> = ?u" using double_ulp_pos [of x] by (intro abs_of_pos)
  ultimately have "\<bar>round_double x - x\<bar> = \<bar>of_int ?n - x / ?u\<bar> * ?u" by (simp add: abs_mult)
  also have "\<dots> \<le> 1 / 2 * ?u"
    using round_half_even_error double_ulp_pos [of x] by (intro mult_right_mono) (auto intro: less_imp_le)
  finally show ?thesis by simp
next
  case True
  then show ?thesis using double_ulp_pos [of x] by (simp add: round_double_def del: double_ulp_pos)
qed

lemma ulp_relative:
  assumes "2 powi - 1022 \<le> \<bar>x\<bar>"
  shows "double_ulp x \<le> \<bar>x\<bar> / 2 ^ 52"
proof -
  have pos: "0 < \<bar>x\<bar>" using assms by (metis order_less_le_trans zero_less_numeral zero_less_power_int)
  let ?e = "binary_exponent \<bar>x\<bar>"
  note b = binary_exponent_bounds [OF pos]
  have "(2 :: rat) powi - 1022 < 2 powi (?e + 1)" using assms b by (rule order_le_less_trans [OF _ conjunct2])
  then have "- 1022 < ?e + 1" by (rule power_int_less_exp)
  then have "max (?e - 52) (- 1074) = ?e - 52" by simp
  then have "double_ulp x = 2 powi (?e - 52)" by (simp only: double_ulp_def)
  also have "\<dots> = 2 powi ?e / 2 ^ 52" by (simp add: power_int_diff)
  also have "\<dots> \<le> \<bar>x\<bar> / 2 ^ 52" using b by (intro divide_right_mono) auto
  finally show ?thesis .
qed

text \<open>The relative error of an operation whose result is not subnormal.\<close>

lemma round_double_relative:
  assumes "2 powi - 1022 \<le> \<bar>x\<bar>"
  shows "\<bar>round_double x - x\<bar> \<le> \<bar>x\<bar> / 2 ^ 53"
  using round_double_error [of x] ulp_relative [OF assms] by simp

lemma round_double_0 [simp]: "round_double 0 = 0"
  by (simp add: round_double_def)

lemma round_double_int [simp]:
  assumes "\<bar>i\<bar> \<le> 2 ^ 53"
  shows "round_double (of_int i) = of_int i"
proof (cases "i = 0")
  case False
  let ?x = "of_int i :: rat"
  have pos: "1 \<le> \<bar>?x\<bar>" using False by (metis of_int_abs of_int_1_le_iff int_one_le_iff_zero_less zero_less_abs_iff)
  let ?e = "binary_exponent \<bar>?x\<bar>"
  have b: "2 powi ?e \<le> \<bar>?x\<bar>" "\<bar>?x\<bar> < 2 powi (?e + 1)"
    using binary_exponent_bounds [of "\<bar>?x\<bar>"] pos by auto
  have "\<bar>?x\<bar> \<le> 2 powi 53" using assms by (metis of_int_abs of_int_le_iff of_int_numeral of_int_power power_int_numeral)
  then have "(2 :: rat) powi ?e \<le> 2 powi 53" using b(1) by (rule order_trans [rotated])
  then have e53: "?e \<le> 53" by (rule power_int_le_exp)
  have "(2 :: rat) powi 0 < 2 powi (?e + 1)" using order_le_less_trans [OF pos b(2)] by simp
  then have e0: "0 \<le> ?e" using power_int_less_exp [of 0 "?e + 1"] by simp
  have "\<exists>k. ?x / double_ulp ?x = of_int k"
  proof (cases "?e \<le> 52")
    case True
    then have "double_ulp ?x = 2 powi - (52 - ?e)" using e0 by (simp add: double_ulp_def max_def)
    also have "\<dots> = inverse (2 ^ nat (52 - ?e))"
      using True by (metis diff_ge_0_iff_ge power_int_minus power_int_of_nat int_nat_eq)
    finally have "?x / double_ulp ?x = of_int (i * 2 ^ nat (52 - ?e))" by (simp add: field_simps)
    then show ?thesis by blast
  next
    case False
    then have e: "?e = 53" using e53 by simp
    have "2 ^ 53 \<le> \<bar>i\<bar>"
      using b(1) unfolding e by (metis of_int_abs of_int_le_iff of_int_numeral of_int_power power_int_numeral)
    then have "i = 2 ^ 53 \<or> i = - (2 ^ 53)" using assms by linarith
    then show ?thesis by (auto simp: double_ulp_def e intro: exI [of _ "2 ^ 52"] exI [of _ "- (2 ^ 52)"])
  qed
  then obtain k where k: "?x / double_ulp ?x = of_int k" by blast
  have "round_double ?x = of_int k * double_ulp ?x" using False by (simp add: round_double_def k)
  also have "\<dots> = ?x" using k double_ulp_pos [of ?x] by (simp add: field_simps)
  finally show ?thesis .
qed simp

lemma num_add_int [simp]: "\<bar>a + b\<bar> \<le> 2 ^ 53 \<Longrightarrow> num_add (of_int a) (of_int b) = of_int (a + b)"
  using round_double_int [of "a + b"] by (simp add: num_add_def)

lemma num_sub_int [simp]: "\<bar>a - b\<bar> \<le> 2 ^ 53 \<Longrightarrow> num_sub (of_int a) (of_int b) = of_int (a - b)"
  using round_double_int [of "a - b"] by (simp add: num_sub_def)

text \<open>A sum of integers is exact as long as the magnitudes add up to at most 53 bits.\<close>

lemma num_sum_ints:
  assumes "\<bar>a\<bar> + sum_list (map abs xs) \<le> 2 ^ 53"
  shows "foldl num_add (of_int a) (map of_int xs) = of_int (a + sum_list xs)"
  using assms
proof (induction xs arbitrary: a)
  case Nil
  then show ?case by simp
next
  case (Cons x xs)
  have nonneg: "0 \<le> sum_list (map abs xs)" by (rule sum_list_nonneg) auto
  have "\<bar>a + x\<bar> + sum_list (map abs xs) \<le> 2 ^ 53" using Cons.prems by simp
  from Cons.IH [OF this] show ?case using nonneg Cons.prems by (simp add: add.assoc)
qed

lemma num_sum_int: "sum_list (map abs xs) \<le> 2 ^ 53 \<Longrightarrow> num_sum (map of_int xs) = of_int (sum_list xs)"
  using num_sum_ints [of 0 xs] by (simp add: num_sum_def)

end
