(* ===== verification/AllocRules.thy ===== *)
theory AllocRules
  imports JsValue Double
begin

text \<open>
  Allocation rules (\<open>src/src/alloc/rules.ts\<close>): the vocabulary, the validation of a rule, the matching of
  a rule against a row of spend, and the largest-remainder distribution of micro-dollars.

  The numeric fields of a rule are finite numbers, kept as the rationals they denote; the ratio of a
  target is the raw value \<open>ratioToParts\<close> tests.  Totals and weights of the distribution are integers at
  every call, computed with the double arithmetic of \<open>Double\<close>.
\<close>

section \<open>Rules\<close>

datatype match_axis = MProject | MProvider | MModel | MSource | MUser

definition match_fields :: "match_axis list" where
  "match_fields = [MProject, MProvider, MModel, MSource, MUser]"

record alloc_match =
  am_project :: "string option"
  am_provider :: "string option"
  am_model :: "string option"
  am_source :: "string option"
  am_user :: "string option"

fun match_on :: "match_axis \<Rightarrow> alloc_match \<Rightarrow> string option" where
  "match_on MProject m = am_project m"
| "match_on MProvider m = am_provider m"
| "match_on MModel m = am_model m"
| "match_on MSource m = am_source m"
| "match_on MUser m = am_user m"

record alloc_target =
  at_centre :: string
  at_ratio :: jsval

record alloc_rule =
  ru_id :: string
  ru_version :: rat
  ru_method :: string
  ru_match :: alloc_match
  ru_targets :: "alloc_target list"
  ru_priority :: rat
  ru_from :: rat
  ru_to :: "rat option"
  ru_revoked :: "rat option"

record cost_centre =
  cc_id :: string
  cc_name :: jsval
  cc_owner :: "jsval option"
  cc_archived :: "rat option"

definition direct_method :: string where "direct_method = ''direct''"
definition split_method :: string where "split_method = ''fixed_split''"
definition pool_method :: string where "pool_method = ''proportional_to_direct''"

definition alloc_methods :: "string list" where
  "alloc_methods = [direct_method, split_method, pool_method]"

definition ratio_scale :: int where "ratio_scale = 1000000"

text \<open>The regular expressions \<open>ID\<close> and \<open>CONTROL\<close>.\<close>

definition id_head :: "char \<Rightarrow> bool" where
  "id_head c = (is_digit c \<or> (97 \<le> (of_char c :: nat) \<and> (of_char c :: nat) \<le> 122))"

definition id_tail :: "char \<Rightarrow> bool" where
  "id_tail c = (id_head c \<or> c \<in> set ''._-'')"

definition is_cost_centre_id :: "string \<Rightarrow> bool" where
  "is_cost_centre_id s = (case s of [] \<Rightarrow> False | c # cs \<Rightarrow> id_head c \<and> length cs \<le> 63 \<and> list_all id_tail cs)"

definition control_char :: "char \<Rightarrow> bool" where
  "control_char c = ((of_char c :: nat) \<le> 31 \<or> (of_char c :: nat) = 127)"

text \<open>\<open>ratioToParts\<close>: parts per million, refusing a ratio that is not a six-decimal number.\<close>

fun ratio_to_parts :: "string \<Rightarrow> jsval \<Rightarrow> int res" where
  "ratio_to_parts label (JNum r) =
     (if r < 0 \<or> 1 < r then Inl (label @ '' must be a number between 0 and 1'')
      else let scaled = num_mult r (of_int ratio_scale); parts = math_round scaled
           in if round_double (1 / 1000000) < \<bar>num_sub scaled (of_int parts)\<bar>
              then Inl (label @ '' must be expressible to six decimal places'')
              else Inr parts)"
| "ratio_to_parts label _ = Inl (label @ '' must be a number between 0 and 1'')"

fun short_text :: "string \<Rightarrow> nat \<Rightarrow> jsval \<Rightarrow> string res" where
  "short_text label len (JStr s) =
     (let t = trim s
      in if t = [] \<or> len < length t \<or> list_ex control_char t then Inl (label @ '' must be a short, single-line value'')
         else Inr t)"
| "short_text label len _ = Inl (label @ '' must be a string'')"

definition validate_cost_centre :: "cost_centre \<Rightarrow> unit res" where
  "validate_cost_centre c =
     (if \<not> is_cost_centre_id (cc_id c)
      then Inl ''cost centre id must be lowercase alphanumeric with . _ - (max 64 chars)''
      else bindE (short_text ''cost centre name'' 200 (cc_name c)) (\<lambda>_.
        case cc_owner c of None \<Rightarrow> Inr ()
        | Some ow \<Rightarrow> bindE (short_text ''cost centre owner'' 200 ow) (\<lambda>_. Inr ())))"

text \<open>\<open>Number.isSafeInteger\<close> on a finite number.\<close>

definition safe_num :: "rat \<Rightarrow> bool" where
  "safe_num r = (of_int \<lfloor>r\<rfloor> = r \<and> safe_int \<lfloor>r\<rfloor>)"

definition check_effective_to :: "alloc_rule \<Rightarrow> unit res" where
  "check_effective_to r =
     (case ru_to r of None \<Rightarrow> Inr ()
      | Some t \<Rightarrow> if \<not> safe_num t then Inl ''rule effectiveTo must be a timestamp or null''
                  else if t \<le> ru_from r then Inl ''rule effectiveTo must be after effectiveFrom'' else Inr ())"

definition check_match_text :: "alloc_match \<Rightarrow> match_axis \<Rightarrow> unit res" where
  "check_match_text m f =
     (case match_on f m of None \<Rightarrow> Inr () | Some s \<Rightarrow> bindE (short_text ''match'' 200 (JStr s)) (\<lambda>_. Inr ()))"

definition check_target :: "string list \<Rightarrow> alloc_target \<Rightarrow> string list res" where
  "check_target seen t =
     (if \<not> is_cost_centre_id (at_centre t) then Inl ''invalid cost centre id''
      else if at_centre t \<in> set seen then Inl ''rule names a cost centre twice''
      else Inr (at_centre t # seen))"

definition target_parts :: "alloc_target \<Rightarrow> int res" where
  "target_parts t = ratio_to_parts ''ratio'' (at_ratio t)"

definition check_direct :: "alloc_target list \<Rightarrow> unit res" where
  "check_direct ts =
     (if length ts \<noteq> 1 then Inl ''a direct rule allocates to exactly one cost centre''
      else bindE (ratio_to_parts ''direct ratio'' (at_ratio (hd ts))) (\<lambda>p.
        if p \<noteq> ratio_scale then Inl ''a direct rule allocates the whole matched slice (ratio 1)'' else Inr ()))"

definition check_split :: "alloc_target list \<Rightarrow> unit res" where
  "check_split ts =
     bindE (foldE (\<lambda>parts t. bindE (target_parts t) (\<lambda>p. Inr (parts + p))) 0 ts) (\<lambda>parts.
       if parts \<noteq> ratio_scale then Inl ''fixed_split ratios must sum to exactly 1'' else Inr ())"

definition check_pool :: "alloc_target list \<Rightarrow> unit res" where
  "check_pool ts =
     foldE (\<lambda>_ t. bindE (target_parts t) (\<lambda>p.
       if p \<noteq> 0 then Inl ''a proportional_to_direct rule derives its shares; declared ratios must be 0'' else Inr ())) () ts"

definition validate_rule :: "alloc_rule \<Rightarrow> unit res" where
  "validate_rule r =
     (if ru_method r \<notin> set alloc_methods then Inl ''unknown allocation method''
      else if \<not> safe_num (ru_version r) \<or> ru_version r < 1 then Inl ''rule version must be a positive integer''
      else if \<not> safe_num (ru_priority r) then Inl ''rule priority must be an integer''
      else if \<not> safe_num (ru_from r) then Inl ''rule effectiveFrom must be a timestamp''
      else
     bindE (check_effective_to r) (\<lambda>_.
     bindE (foldE (\<lambda>_. check_match_text (ru_match r)) () match_fields) (\<lambda>_.
     if ru_targets r = [] then Inl ''a rule must name at least one cost centre''
     else
     bindE (foldE check_target [] (ru_targets r)) (\<lambda>_.
     if ru_method r = direct_method then check_direct (ru_targets r)
     else if ru_method r = split_method then check_split (ru_targets r)
     else check_pool (ru_targets r)))))"

section \<open>Matching\<close>

record alloc_row =
  ar_project :: string
  ar_provider :: string
  ar_model :: string
  ar_source :: "string option"
  ar_user :: "string option"
  ar_ts :: rat
  ar_cost :: rat
  ar_basis :: string

fun row_on :: "match_axis \<Rightarrow> alloc_row \<Rightarrow> string option" where
  "row_on MProject w = Some (ar_project w)"
| "row_on MProvider w = Some (ar_provider w)"
| "row_on MModel w = Some (ar_model w)"
| "row_on MSource w = ar_source w"
| "row_on MUser w = ar_user w"

definition rule_applies_at :: "alloc_rule \<Rightarrow> rat \<Rightarrow> bool" where
  "rule_applies_at r ts =
     (if (case ru_revoked r of None \<Rightarrow> False | Some v \<Rightarrow> v \<le> ts) then False
      else if ts < ru_from r then False
      else case ru_to r of None \<Rightarrow> True | Some t \<Rightarrow> ts < t)"

definition matches_row :: "alloc_rule \<Rightarrow> alloc_row \<Rightarrow> bool" where
  "matches_row r w =
     list_all (\<lambda>f. case match_on f (ru_match r) of None \<Rightarrow> True | Some v \<Rightarrow> row_on f w = Some v) match_fields"

definition num_cmp :: "rat \<Rightarrow> rat \<Rightarrow> int" where
  "num_cmp a b = (if a < b then -1 else if a = b then 0 else 1)"

definition order_rules :: "(string \<Rightarrow> string \<Rightarrow> int) \<Rightarrow> alloc_rule list \<Rightarrow> alloc_rule list" where
  "order_rules lc rs = sort_by (\<lambda>a b. or_cmp (num_cmp (ru_priority a) (ru_priority b)) (lc (ru_id a) (ru_id b))) rs"

section \<open>Largest-remainder distribution\<close>

record micro_share =
  ms_key :: string
  ms_floor :: int
  ms_remainder :: rat

definition provisional_share :: "int \<Rightarrow> rat \<Rightarrow> string \<times> int \<Rightarrow> micro_share" where
  "provisional_share magnitude total_weight kw =
     (let exact = num_div (num_mult (of_int magnitude) (of_int (snd kw))) total_weight; f = \<lfloor>exact\<rfloor>
      in \<lparr>ms_key = fst kw, ms_floor = f, ms_remainder = num_sub exact (of_int f)\<rparr>)"

text \<open>The objects of \<open>order\<close> are those of \<open>provisional\<close>, so a position stands for the shared object.\<close>

definition remainder_order :: "(string \<Rightarrow> string \<Rightarrow> int) \<Rightarrow> micro_share list \<Rightarrow> nat list" where
  "remainder_order lc ps =
     sort_by (\<lambda>i j. or_cmp (num_cmp (ms_remainder (ps ! j)) (ms_remainder (ps ! i))) (lc (ms_key (ps ! i)) (ms_key (ps ! j))))
       [0..<length ps]"

definition distribute_micros :: "(string \<Rightarrow> string \<Rightarrow> int) \<Rightarrow> int \<Rightarrow> (string \<times> int) list \<Rightarrow> (string \<times> int) list" where
  "distribute_micros lc micros ws =
     (let total_weight = num_sum (map (\<lambda>kw. of_int (snd kw)) ws)
      in if ws = [] \<or> total_weight \<le> 0 then []
         else let magnitude = \<bar>micros\<bar>;
                  ps = map (provisional_share magnitude total_weight) ws;
                  assigned = num_sum (map (\<lambda>p. of_int (ms_floor p)) ps);
                  leftover = num_sub (of_int magnitude) assigned;
                  raised = take (nat \<lceil>leftover\<rceil>) (remainder_order lc ps);
                  part = (\<lambda>i. ms_floor (ps ! i) + (if i \<in> set raised then 1 else 0))
              in foldl (\<lambda>out i. AList.update (ms_key (ps ! i)) (if micros < 0 then - part i else part i) out) [] [0..<length ps])"

end
