(* ===== verification/AllocShares.thy ===== *)
theory AllocShares
  imports AllocRules
begin

text \<open>
  The largest-remainder distribution conserves money although every share is computed in floating point:
  the rounding errors of all shares together stay below one micro-dollar, so between nothing and one
  micro-dollar per share is left over, and the code hands exactly that out.
\<close>

section \<open>Sums over the result map\<close>

lemma fold_update_values:
  fixes v :: "nat \<Rightarrow> int"
  assumes "distinct (map fst acc @ map k xs)"
  shows "foldl (\<lambda>out i. AList.update (k i) (v i) out) acc xs = acc @ map (\<lambda>i. (k i, v i)) xs"
  using assms
proof (induction xs arbitrary: acc)
  case Nil
  then show ?case by simp
next
  case (Cons x xs)
  then have "k x \<notin> fst ` set acc" by auto
  then have "AList.update (k x) (v x) acc = acc @ [(k x, v x)]" by (rule update_new)
  then show ?case using Cons by simp
qed

lemma sum_members:
  fixes n :: nat
  assumes "distinct xs" "set xs \<subseteq> {0..<n}"
  shows "(\<Sum>i\<leftarrow>[0..<n]. if i \<in> set xs then (1::int) else 0) = int (length xs)"
proof -
  have "(\<Sum>i\<leftarrow>[0..<n]. if i \<in> set xs then (1::int) else 0) = (\<Sum>i\<in>{0..<n}. if i \<in> set xs then 1 else 0)"
    by (simp add: sum_list_distinct_conv_sum_set)
  also have "\<dots> = int (card ({0..<n} \<inter> set xs))" by (simp add: sum.If_cases)
  also have "{0..<n} \<inter> set xs = set xs" using assms(2) by blast
  finally show ?thesis by (simp add: distinct_card [OF assms(1)])
qed

section \<open>The floating-point share\<close>

lemma near_bounds: "\<bar>a - b\<bar> \<le> e \<Longrightarrow> a \<le> b + (e :: rat)" "\<bar>a - b\<bar> \<le> e \<Longrightarrow> b - e \<le> a"
  by (simp_all add: abs_le_iff)

definition float_share :: "int \<Rightarrow> int \<Rightarrow> int \<Rightarrow> rat" where
  "float_share m w W = num_div (num_mult (of_int m) (of_int w)) (of_int W)"

lemma float_share_error:
  assumes "0 \<le> m" "0 \<le> w" "0 < W" "W \<le> 2 ^ 53"
  shows "\<bar>float_share m w W - of_int (m * w) / of_int W\<bar> \<le> of_int (m * w) / of_int W / 2 ^ 51"
proof (cases "m * w = 0")
  case True
  then have "num_mult (of_int m) (of_int w) = 0" by (simp only: num_mult_def of_int_mult [symmetric]) simp
  moreover have "of_int (m * w) = (0 :: rat)" using True by (simp only: of_int_0)
  ultimately show ?thesis by (simp only: float_share_def num_div_def) simp
next
  case False
  define p where "p = num_mult (of_int m) (of_int w)"
  define x where "x = (of_int (m * w) :: rat)"
  define V where "V = (of_int W :: rat)"
  have "0 < m * w" using False assms(1,2) by (metis less_le mult_nonneg_nonneg)
  then have x1: "1 \<le> x" unfolding x_def by (metis int_one_le_iff_zero_less of_int_1_le_iff)
  have V: "0 < V" "V \<le> 2 ^ 53" unfolding V_def using assms(3,4)
    by (simp, metis of_int_le_iff of_int_numeral of_int_power)
  have "2 powi - 1022 \<le> (1 :: rat)" by (simp add: power_int_minus)
  then have "\<bar>p - x\<bar> \<le> x / 2 ^ 53"
    using round_double_relative [of x] x1 unfolding p_def num_mult_def x_def by simp
  note p = near_bounds [OF this]
  then have p1: "1 / 2 \<le> p" using x1 by simp
  have small: "2 powi - 1022 \<le> p / V"
  proof -
    have "(2 :: rat) powi - 1022 \<le> (1 / 2) / 2 ^ 53" by (simp add: power_int_minus)
    also have "\<dots> \<le> p / V" using p1 V by (intro frac_le) auto
    finally show ?thesis .
  qed
  have pV: "0 < p / V" using p1 V by simp
  have "\<bar>num_div p V - p / V\<bar> \<le> p / V / 2 ^ 53"
    using round_double_relative [of "p / V", unfolded abs_of_pos [OF pV], OF small] unfolding num_div_def .
  note q = near_bounds [OF this]
  have r: "p / V \<le> x / V + x / V / 2 ^ 53" "x / V - x / V / 2 ^ 53 \<le> p / V"
    using divide_right_mono [OF p(1), of V] divide_right_mono [OF p(2), of V] V
    by (simp_all add: add_divide_distrib diff_divide_distrib mult.commute)
  have "0 \<le> x / V" using x1 V by simp
  then have "num_div p V - x / V \<le> x / V / 2 ^ 51" "x / V - num_div p V \<le> x / V / 2 ^ 51" using q r by simp_all
  then have "\<bar>num_div p V - x / V\<bar> \<le> x / V / 2 ^ 51" by (intro abs_leI) (simp_all only: minus_diff_eq)
  then show ?thesis by (simp add: float_share_def p_def x_def V_def)
qed

lemma sum_int_mult_left: "sum_list (map (\<lambda>x. m * f x) xs) = (m :: int) * sum_list (map f xs)"
  by (induction xs) (simp_all add: algebra_simps)

text \<open>The floors of all shares fall short of the total by at least nothing and at most one per share.\<close>

lemma floors_bounds:
  assumes m: "0 \<le> m" "m < 2 ^ 51" and ws: "\<And>w. w \<in> set ws \<Longrightarrow> 0 \<le> w"
    and W: "sum_list ws = W" "0 < W" "W \<le> 2 ^ 53"
  shows "sum_list (map (\<lambda>w. \<lfloor>float_share m w W\<rfloor>) ws) \<le> m"
    and "m - int (length ws) \<le> sum_list (map (\<lambda>w. \<lfloor>float_share m w W\<rfloor>) ws)"
proof -
  define x where "x w = (of_int (m * w) / of_int W :: rat)" for w
  define y where "y w = x w / 2 ^ 51" for w
  have err: "\<bar>float_share m w W - x w\<bar> \<le> y w" if "w \<in> set ws" for w
    using float_share_error [OF m(1) ws [OF that] W(2,3)] by (simp add: x_def y_def)
  have lin: "sum_list (map x vs) = of_int (m * sum_list vs) / of_int W" for vs
    by (induction vs) (simp_all add: x_def add_divide_distrib algebra_simps)
  have total: "sum_list (map x ws) = of_int m" using lin [of ws] W by simp
  have "sum_list (map y vs) = sum_list (map x vs) / 2 ^ 51" for vs
    by (induction vs) (simp_all add: y_def add_divide_distrib)
  then have total_err: "sum_list (map y ws) = of_int m / 2 ^ 51" by (simp only: total)
  have bounds: "of_int (sum_list (map (\<lambda>w. \<lfloor>float_share m w W\<rfloor>) vs)) \<le> sum_list (map x vs) + sum_list (map y vs)
      \<and> sum_list (map x vs) - sum_list (map y vs) - of_nat (length vs)
        \<le> of_int (sum_list (map (\<lambda>w. \<lfloor>float_share m w W\<rfloor>) vs))" if "set vs \<subseteq> set ws" for vs
    using that
  proof (induction vs)
    case Nil
    then show ?case by simp
  next
    case (Cons v vs)
    have e: "float_share m v W \<le> x v + y v" "x v - y v \<le> float_share m v W"
      using near_bounds [OF err [of v]] Cons.prems by simp_all
    have f: "of_int \<lfloor>float_share m v W\<rfloor> \<le> float_share m v W" "float_share m v W < of_int \<lfloor>float_share m v W\<rfloor> + 1"
      by linarith+
    have "set vs \<subseteq> set ws" using Cons.prems by simp
    note Cons.IH [OF this]
    with e f show ?case by (simp only: list.map sum_list.Cons of_int_add length_Cons of_nat_Suc) linarith
  qed
  let ?F = "sum_list (map (\<lambda>w. \<lfloor>float_share m w W\<rfloor>) ws)"
  have "(of_int m :: rat) < of_int (2 ^ 51)" using m by (simp only: of_int_less_iff)
  then have "sum_list (map y ws) < 1" unfolding total_err by (simp add: divide_less_eq)
  then have "(of_int ?F :: rat) < of_int (m + 1)" "of_int (m - int (length ws) - 1) < (of_int ?F :: rat)"
    using bounds [of ws] total by auto
  then show "?F \<le> m" "m - int (length ws) \<le> ?F" by linarith+
qed

section \<open>Conservation\<close>

lemma distinct_remainder_order: "distinct (remainder_order lc ps)" "set (remainder_order lc ps) = {0..<length ps}"
  "length (remainder_order lc ps) = length ps"
  by (simp_all add: remainder_order_def)

lemma distribute_micros_cases:
  assumes "ws \<noteq> []" "distinct (map fst ws)" "\<And>w. w \<in> snd ` set ws \<Longrightarrow> 0 \<le> w"
    and "0 < sum_list (map snd ws)" "sum_list (map snd ws) \<le> 2 ^ 53" "\<bar>micros\<bar> < 2 ^ 51"
  defines "W \<equiv> sum_list (map snd ws)"
  defines "fs \<equiv> map (\<lambda>kw. \<lfloor>float_share \<bar>micros\<bar> (snd kw) W\<rfloor>) ws"
  shows "\<exists>R. R \<subseteq> {0..<length ws} \<and> int (card R) = \<bar>micros\<bar> - sum_list fs
    \<and> distribute_micros lc micros ws
        = map (\<lambda>i. (fst (ws ! i), (if micros < 0 then -1 else 1) * (fs ! i + (if i \<in> R then 1 else 0)))) [0..<length ws]"
proof -
  let ?m = "\<bar>micros\<bar>" and ?n = "length ws"
  let ?ps = "map (provisional_share ?m (of_int W)) ws"
  have abs_weights: "map abs (map snd ws) = map snd ws" using assms(3) by (intro map_idI) auto
  have weight: "num_sum (map (\<lambda>kw. of_int (snd kw)) ws) = of_int W"
    using num_sum_int [of "map snd ws"] assms(5) unfolding abs_weights W_def by (simp add: o_def)
  note fb = floors_bounds [of ?m "map snd ws" W]
  have fs_map: "map (\<lambda>w. \<lfloor>float_share ?m w W\<rfloor>) (map snd ws) = fs" by (simp add: fs_def)
  have bounds: "sum_list fs \<le> ?m" "?m - int ?n \<le> sum_list fs"
    using fb assms(3-6) unfolding fs_map W_def [symmetric] by auto
  have ps_fs: "map ms_floor ?ps = fs" by (simp add: fs_def provisional_share_def Let_def float_share_def)
  have nonneg: "0 \<le> f" if f: "f \<in> set fs" for f
  proof -
    obtain w where w: "w \<in> snd ` set ws" "f = \<lfloor>float_share ?m w W\<rfloor>" using f unfolding fs_def by force
    have "\<bar>float_share ?m w W - of_int (?m * w) / of_int W\<bar> \<le> of_int (?m * w) / of_int W / 2 ^ 51"
      using assms(3-5) w(1) by (intro float_share_error) (auto simp: W_def)
    moreover have "0 \<le> (of_int (?m * w) / of_int W :: rat)" using assms(3,4) w(1) by (auto simp: W_def)
    ultimately have "0 \<le> float_share ?m w W" using near_bounds(2) [of "float_share ?m w W"] by fastforce
    then show ?thesis by (simp add: w(2))
  qed
  have "map abs fs = fs" using nonneg by (intro map_idI) auto
  then have "sum_list (map abs fs) \<le> 2 ^ 53" using bounds assms(6) by simp
  then have assigned: "num_sum (map (\<lambda>p. of_int (ms_floor p)) ?ps) = of_int (sum_list fs)"
    using num_sum_int [of fs] unfolding ps_fs [symmetric] by (simp add: o_def)
  have leftover: "num_sub (of_int ?m) (of_int (sum_list fs)) = of_int (?m - sum_list fs)"
    using bounds assms(6) nonneg sum_list_nonneg [of fs] by (intro num_sub_int) auto
  let ?k = "nat (?m - sum_list fs)"
  let ?raised = "take ?k (remainder_order lc ?ps)"
  let ?R = "set ?raised"
  have len: "length ?raised = ?k" using bounds by (simp add: distinct_remainder_order)
  have "distinct ?raised" by (simp add: distinct_remainder_order)
  then have card: "int (card ?R) = ?m - sum_list fs" using bounds len by (simp add: distinct_card)
  have R: "?R \<subseteq> {0..<?n}" using set_take_subset [of ?k "remainder_order lc ?ps"] by (simp add: distinct_remainder_order)
  define part where "part i = ms_floor (?ps ! i) + (if i \<in> ?R then 1 else 0)" for i
  have part: "part i = fs ! i + (if i \<in> ?R then 1 else 0)" if "i < ?n" for i
    using that by (simp add: part_def ps_fs [symmetric])
  have "distribute_micros lc micros ws
      = foldl (\<lambda>out i. AList.update (ms_key (?ps ! i)) (if micros < 0 then - part i else part i) out) [] [0..<?n]"
    using assms(1,4) unfolding distribute_micros_def weight Let_def assigned leftover ceiling_of_int part_def W_def [symmetric]
    by (simp add: distinct_remainder_order)
  also have "\<dots> = map (\<lambda>i. (ms_key (?ps ! i), if micros < 0 then - part i else part i)) [0..<?n]"
  proof -
    have "map (\<lambda>i. ms_key (?ps ! i)) [0..<?n] = map fst ws"
      by (rule nth_equalityI) (simp_all add: provisional_share_def Let_def)
    then show ?thesis using fold_update_values [of "[]" "\<lambda>i. ms_key (?ps ! i)" "[0..<?n]"] assms(2) by simp
  qed
  also have "\<dots> = map (\<lambda>i. (fst (ws ! i), (if micros < 0 then -1 else 1) * (fs ! i + (if i \<in> ?R then 1 else 0)))) [0..<?n]"
    by (rule map_cong) (auto simp: part provisional_share_def Let_def)
  finally show ?thesis using R card by blast
qed

lemma sum_signed: "sum_list (map (\<lambda>x. (s :: int) * f x) xs) = s * sum_list (map f xs)"
  by (induction xs) (simp_all add: algebra_simps)

lemma distribute_micros_sum:
  assumes "ws \<noteq> []" "distinct (map fst ws)" "\<And>w. w \<in> snd ` set ws \<Longrightarrow> 0 \<le> w"
    and "0 < sum_list (map snd ws)" "sum_list (map snd ws) \<le> 2 ^ 53" "\<bar>micros\<bar> < 2 ^ 51"
  shows "sum_list (map snd (distribute_micros lc micros ws)) = micros"
    and "map fst (distribute_micros lc micros ws) = map fst ws"
proof -
  let ?fs = "map (\<lambda>kw. \<lfloor>float_share \<bar>micros\<bar> (snd kw) (sum_list (map snd ws))\<rfloor>) ws"
  obtain R where R: "R \<subseteq> {0..<length ws}" "int (card R) = \<bar>micros\<bar> - sum_list ?fs"
    "distribute_micros lc micros ws
        = map (\<lambda>i. (fst (ws ! i), (if micros < 0 then -1 else 1) * (?fs ! i + (if i \<in> R then 1 else 0)))) [0..<length ws]"
    using distribute_micros_cases [OF assms, of lc] by blast
  have "sum_list (map (\<lambda>i. if i \<in> R then 1 else 0) [0..<length ws]) = int (card R)"
    using R(1) finite_subset [OF R(1)] by (simp add: sum_list_distinct_conv_sum_set sum.If_cases Int_absorb1)
  moreover have "sum_list (map (\<lambda>i. ?fs ! i) [0..<length ws]) = sum_list ?fs"
    by (metis length_map map_nth)
  ultimately have "sum_list (map (\<lambda>i. ?fs ! i + (if i \<in> R then 1 else 0)) [0..<length ws]) = \<bar>micros\<bar>"
    using R(2) by (simp only: sum_list_addf)
  then show "sum_list (map snd (distribute_micros lc micros ws)) = micros"
    unfolding R(3) by (simp add: o_def sum_signed del: nth_map split del: if_split) simp
  show "map fst (distribute_micros lc micros ws) = map fst ws"
    unfolding R(3) by (rule nth_equalityI) simp_all
qed

lemma distribute_micros_near:
  assumes "ws \<noteq> []" "distinct (map fst ws)" "\<And>w. w \<in> snd ` set ws \<Longrightarrow> 0 \<le> w"
    and "0 < sum_list (map snd ws)" "sum_list (map snd ws) \<le> 2 ^ 53" "\<bar>micros\<bar> < 2 ^ 51"
    and i: "i < length ws"
  defines "W \<equiv> sum_list (map snd ws)"
  shows "\<exists>v. distribute_micros lc micros ws ! i = (fst (ws ! i), v) \<and> (micros < 0 \<longrightarrow> v \<le> 0) \<and> (0 \<le> micros \<longrightarrow> 0 \<le> v)
    \<and> \<bar>of_int v - of_int (micros * snd (ws ! i)) / (of_int W :: rat)\<bar> < 2"
proof -
  let ?m = "\<bar>micros\<bar>" and ?s = "if micros < 0 then - 1 else 1 :: int" and ?w = "snd (ws ! i)"
  let ?fs = "map (\<lambda>kw. \<lfloor>float_share ?m (snd kw) W\<rfloor>) ws"
  obtain R where "distribute_micros lc micros ws
        = map (\<lambda>i. (fst (ws ! i), ?s * (?fs ! i + (if i \<in> R then 1 else 0)))) [0..<length ws]"
    using distribute_micros_cases [OF assms(1-6), of lc] unfolding W_def by blast
  then obtain b where v: "distribute_micros lc micros ws ! i = (fst (ws ! i), ?s * (\<lfloor>float_share ?m ?w W\<rfloor> + b))"
    and b: "0 \<le> b" "b \<le> 1" using i by (cases "i \<in> R") auto
  define q where "q = float_share ?m ?w W"
  define x where "x = (of_int (?m * ?w) / of_int W :: rat)"
  have w: "?w \<in> snd ` set ws" using i by simp
  have W: "0 < W" "W \<le> 2 ^ 53" "?w \<le> W"
    using assms(4,5) member_le_sum_list [of ?w "map snd ws"] assms(3) i by (auto simp: W_def)
  have near: "\<bar>q - x\<bar> \<le> x / 2 ^ 51"
    using assms(3) [OF w] W float_share_error [of ?m ?w W] by (simp add: q_def x_def)
  have x0: "0 \<le> x" using assms(3) [OF w] W by (simp add: x_def)
  have "?m * ?w \<le> ?m * W" using W(3) by (rule mult_left_mono) simp
  then have "(of_int (?m * ?w) :: rat) \<le> of_int (?m * W)" by (simp only: of_int_le_iff)
  then have "x \<le> of_int ?m" using W by (simp add: x_def divide_le_eq)
  also have "(of_int ?m :: rat) < of_int (2 ^ 51)" using assms(6) by (simp only: of_int_less_iff)
  finally have "x / 2 ^ 51 < 1" by (simp add: divide_less_eq)
  then have q: "q < x + 1" "x - 1 < q" "0 \<le> q" using near_bounds [OF near] x0 by (auto intro: order_trans [rotated])
  let ?v = "\<lfloor>q\<rfloor> + b"
  define F where "F = (of_int \<lfloor>q\<rfloor> :: rat)"
  have F: "F \<le> q" "q < F + 1" unfolding F_def by linarith+
  have "(0 :: rat) \<le> of_int b" "(of_int b :: rat) \<le> 1" using b by simp_all
  then have "\<bar>F + of_int b - x\<bar> < 2" using q F by (simp add: abs_less_iff)
  then have "\<bar>of_int ?v - x\<bar> < 2" by (simp add: F_def)
  moreover have "of_int (?s * ?v) - of_int (micros * ?w) / (of_int W :: rat) = of_int ?s * (of_int ?v - x)"
    by (simp add: x_def algebra_simps)
  ultimately have "\<bar>of_int (?s * ?v) - of_int (micros * ?w) / (of_int W :: rat)\<bar> < 2" by (simp add: abs_mult)
  moreover have "0 \<le> ?v" using q(3) b by simp
  ultimately show ?thesis using v unfolding q_def by (intro exI [of _ "?s * (\<lfloor>float_share ?m ?w W\<rfloor> + b)"]) auto
qed

text \<open>C33: distributing an amount of micro-dollars by weights conserves it although the shares are computed
  in floating point: below \<open>2 ^ 51\<close> micro-dollars the parts add up to exactly the amount, each is of its sign
  and lies within two micro-dollars of the exact share, and the keys are those of the weights in order.\<close>

theorem distribute_micros_conserves:
  assumes "ws \<noteq> []" "distinct (map fst ws)" "\<forall>w \<in> snd ` set ws. 0 \<le> w"
    and "0 < sum_list (map snd ws)" "sum_list (map snd ws) \<le> 2 ^ 53" "\<bar>micros\<bar> < 2 ^ 51"
  shows "sum_list (map snd (distribute_micros lc micros ws)) = micros
    \<and> map fst (distribute_micros lc micros ws) = map fst ws
    \<and> (\<forall>i < length ws. let v = snd (distribute_micros lc micros ws ! i) in
         (micros < 0 \<longrightarrow> v \<le> 0) \<and> (0 \<le> micros \<longrightarrow> 0 \<le> v)
         \<and> \<bar>of_int v - of_int (micros * snd (ws ! i)) / (of_int (sum_list (map snd ws)) :: rat)\<bar> < 2)"
proof (intro conjI allI impI)
  have nonneg: "\<And>w. w \<in> snd ` set ws \<Longrightarrow> 0 \<le> w" using assms(3) by blast
  note A = assms(1,2) nonneg assms(4-6)
  show "sum_list (map snd (distribute_micros lc micros ws)) = micros"
    "map fst (distribute_micros lc micros ws) = map fst ws" using distribute_micros_sum [OF A] by auto
  show "let v = snd (distribute_micros lc micros ws ! i) in
         (micros < 0 \<longrightarrow> v \<le> 0) \<and> (0 \<le> micros \<longrightarrow> 0 \<le> v)
         \<and> \<bar>of_int v - of_int (micros * snd (ws ! i)) / (of_int (sum_list (map snd ws)) :: rat)\<bar> < 2" if "i < length ws" for i
    using distribute_micros_near [OF A that, of lc] by (auto simp: Let_def)
qed

theorem distribute_micros_conserves_witness:
  "sum_list (map snd (distribute_micros code_unit_cmp (- 100) [(''a'', 333333), (''b'', 333333), (''c'', 333334)])) = - 100"
  using distribute_micros_conserves [of "[(''a'', 333333), (''b'', 333333), (''c'', 333334)]" "- 100" code_unit_cmp]
  by simp

end
