(* ===== verification/AllocApply.thy ===== *)
theory AllocApply
  imports AllocShares
begin

text \<open>
  The allocation engine (\<open>src/src/alloc/apply.ts\<close>): rows of spend are claimed by the first rule in force,
  direct and split rules pay their targets, shared pools follow the direct payments, and what no rule can
  place stays unallocated with a reason.  A bucket is keyed by rule id and version; the source joins the two
  with a NUL, and the decimal text of a number holds none, so a pair is the same key.
\<close>

section \<open>Buckets\<close>

text \<open>Addition of two numbers that hold integers.\<close>

definition int_add :: "int \<Rightarrow> int \<Rightarrow> int" where
  "int_add a b = \<lfloor>num_add (of_int a) (of_int b)\<rfloor>"

definition row_micros :: "rat \<Rightarrow> int" where
  "row_micros cost = math_round (num_mult cost 1000000)"

definition collapse_basis :: "string list \<Rightarrow> string" where
  "collapse_basis bases = (case to_set bases of [] \<Rightarrow> ''none'' | [b] \<Rightarrow> b | _ \<Rightarrow> ''mixed'')"

record micro_bucket =
  mb_micros :: int
  mb_count :: int
  mb_bases :: "string list"
  mb_projects :: "(string \<times> int) list"

definition new_bucket :: micro_bucket where
  "new_bucket = \<lparr>mb_micros = 0, mb_count = 0, mb_bases = [], mb_projects = []\<rparr>"

definition add_project :: "(string \<times> int) list \<Rightarrow> string \<Rightarrow> int \<Rightarrow> (string \<times> int) list" where
  "add_project ps p m = AList.update p (int_add (case map_of ps p of None \<Rightarrow> 0 | Some x \<Rightarrow> x) m) ps"

definition add_row :: "micro_bucket \<Rightarrow> alloc_row \<Rightarrow> micro_bucket" where
  "add_row b w =
     \<lparr>mb_micros = int_add (mb_micros b) (row_micros (ar_cost w)), mb_count = mb_count b + 1,
      mb_bases = set_add (ar_basis w) (mb_bases b),
      mb_projects = add_project (mb_projects b) (ar_project w) (row_micros (ar_cost w))\<rparr>"

definition top_projects :: "(string \<Rightarrow> string \<Rightarrow> int) \<Rightarrow> micro_bucket \<Rightarrow> nat \<Rightarrow> (string \<times> int) list" where
  "top_projects lc b limit =
     take limit (sort_by (\<lambda>x y. or_cmp (snd y - snd x) (lc (fst x) (fst y))) (mb_projects b))"

section \<open>Placing the rows\<close>

type_synonym rule_key = "string \<times> rat"
type_synonym rule_buckets = "(rule_key \<times> alloc_rule \<times> micro_bucket) list"

record alloc_places =
  pl_total :: int
  pl_claimed :: rule_buckets
  pl_pools :: rule_buckets
  pl_unmatched :: micro_bucket
  pl_archived :: micro_bucket

definition no_places :: alloc_places where
  "no_places = \<lparr>pl_total = 0, pl_claimed = [], pl_pools = [], pl_unmatched = new_bucket, pl_archived = new_bucket\<rparr>"

definition add_to_rule :: "rule_buckets \<Rightarrow> alloc_rule \<Rightarrow> alloc_row \<Rightarrow> rule_buckets" where
  "add_to_rule bs r w =
     (let key = (ru_id r, ru_version r);
          (rule, bucket) = (case map_of bs key of None \<Rightarrow> (r, new_bucket) | Some entry \<Rightarrow> entry)
      in AList.update key (rule, add_row bucket w) bs)"

definition place_row :: "alloc_rule list \<Rightarrow> string list \<Rightarrow> alloc_places \<Rightarrow> alloc_row \<Rightarrow> alloc_places" where
  "place_row ordered archived P w =
     (let P = P\<lparr>pl_total := int_add (pl_total P) (row_micros (ar_cost w))\<rparr> in
      case List.find (\<lambda>r. rule_applies_at r (ar_ts w) \<and> matches_row r w) ordered of
        None \<Rightarrow> P\<lparr>pl_unmatched := add_row (pl_unmatched P) w\<rparr>
      | Some r \<Rightarrow>
          if ru_method r \<noteq> pool_method \<and> list_ex (\<lambda>t. at_centre t \<in> set archived) (ru_targets r)
          then P\<lparr>pl_archived := add_row (pl_archived P) w\<rparr>
          else if ru_method r = pool_method then P\<lparr>pl_pools := add_to_rule (pl_pools P) r w\<rparr>
          else P\<lparr>pl_claimed := add_to_rule (pl_claimed P) r w\<rparr>)"

section \<open>The two passes\<close>

record alloc_line =
  al_centre :: string
  al_rule :: string
  al_version :: rat
  al_method :: string
  al_parts :: int
  al_micros :: int
  al_count :: int
  al_basis :: string

type_synonym line_state = "alloc_line list \<times> (string \<times> int) list"

definition direct_line :: "alloc_rule \<Rightarrow> micro_bucket \<Rightarrow> (string \<times> int) list \<Rightarrow> line_state \<Rightarrow> alloc_target \<Rightarrow> line_state res" where
  "direct_line r b split st t =
     bindE (target_parts t) (\<lambda>parts.
       let paid = (case map_of split (at_centre t) of None \<Rightarrow> 0 | Some m \<Rightarrow> m)
       in Inr (fst st @ [\<lparr>al_centre = at_centre t, al_rule = ru_id r, al_version = ru_version r, al_method = ru_method r,
                          al_parts = parts, al_micros = paid, al_count = mb_count b, al_basis = collapse_basis (mb_bases b)\<rparr>],
               add_project (snd st) (at_centre t) paid))"

definition direct_pass :: "(string \<Rightarrow> string \<Rightarrow> int) \<Rightarrow> line_state \<Rightarrow> rule_key \<times> alloc_rule \<times> micro_bucket \<Rightarrow> line_state res" where
  "direct_pass lc st entry =
     (let r = fst (snd entry); b = snd (snd entry) in
      bindE (mapE (\<lambda>t. bindE (target_parts t) (\<lambda>p. Inr (at_centre t, p))) (ru_targets r)) (\<lambda>ws.
        foldE (direct_line r b (distribute_micros lc (mb_micros b) ws)) st (ru_targets r)))"

definition merge_bucket :: "micro_bucket \<Rightarrow> micro_bucket \<Rightarrow> micro_bucket" where
  "merge_bucket a b =
     \<lparr>mb_micros = int_add (mb_micros a) (mb_micros b), mb_count = mb_count a + mb_count b,
      mb_bases = fold set_add (mb_bases b) (mb_bases a),
      mb_projects = foldl (\<lambda>ps pm. add_project ps (fst pm) (snd pm)) (mb_projects a) (mb_projects b)\<rparr>"

definition pool_parts :: "(string \<times> int) list \<Rightarrow> int \<Rightarrow> int" where
  "pool_parts drivers weight =
     (let driver_total = num_sum (map (\<lambda>d. of_int (snd d)) drivers)
      in if 0 < driver_total then math_round (num_mult (num_div (of_int weight) driver_total) (of_int ratio_scale)) else 0)"

definition pool_line :: "(string \<times> int) list \<Rightarrow> (string \<times> int) list \<Rightarrow> alloc_rule \<Rightarrow> micro_bucket \<Rightarrow> string \<times> int \<Rightarrow> alloc_line" where
  "pool_line direct drivers r b share =
     \<lparr>al_centre = fst share, al_rule = ru_id r, al_version = ru_version r, al_method = ru_method r,
      al_parts = pool_parts drivers (case map_of direct (fst share) of None \<Rightarrow> 0 | Some m \<Rightarrow> m),
      al_micros = snd share, al_count = mb_count b, al_basis = collapse_basis (mb_bases b)\<rparr>"

definition pool_pass ::
    "(string \<Rightarrow> string \<Rightarrow> int) \<Rightarrow> (string \<times> int) list \<Rightarrow> alloc_line list \<times> micro_bucket \<Rightarrow> rule_key \<times> alloc_rule \<times> micro_bucket
      \<Rightarrow> alloc_line list \<times> micro_bucket" where
  "pool_pass lc direct st entry =
     (let r = fst (snd entry); b = snd (snd entry); drivers = filter (\<lambda>d. 0 < snd d) direct in
      if drivers = [] then (fst st, merge_bucket (snd st) b)
      else (fst st @ map (pool_line direct drivers r b)
                       (filter (\<lambda>share. snd share \<noteq> 0) (distribute_micros lc (mb_micros b) drivers)),
            snd st))"

section \<open>The run\<close>

record unallocated_line =
  ul_reason :: string
  ul_micros :: int
  ul_count :: int
  ul_basis :: string
  ul_projects :: "(string \<times> int) list"

definition push_unallocated ::
    "(string \<Rightarrow> string \<Rightarrow> int) \<Rightarrow> unallocated_line list \<Rightarrow> string \<times> micro_bucket \<Rightarrow> unallocated_line list" where
  "push_unallocated lc us rb =
     (let b = snd rb in
      if mb_count b = 0 \<and> mb_micros b = 0 then us
      else us @ [\<lparr>ul_reason = fst rb, ul_micros = mb_micros b, ul_count = mb_count b,
                  ul_basis = collapse_basis (mb_bases b), ul_projects = top_projects lc b 5\<rparr>])"

record centre_total =
  ct_micros :: int
  ct_count :: int
  ct_bases :: "string list"

definition add_centre :: "(string \<times> centre_total) list \<Rightarrow> alloc_line \<Rightarrow> (string \<times> centre_total) list" where
  "add_centre cs l =
     (let e = (case map_of cs (al_centre l) of None \<Rightarrow> \<lparr>ct_micros = 0, ct_count = 0, ct_bases = []\<rparr> | Some e \<Rightarrow> e)
      in AList.update (al_centre l)
           \<lparr>ct_micros = int_add (ct_micros e) (al_micros l), ct_count = ct_count e + al_count l,
            ct_bases = set_add (al_basis l) (ct_bases e)\<rparr> cs)"

definition by_cost_centre :: "(string \<Rightarrow> string \<Rightarrow> int) \<Rightarrow> alloc_line list \<Rightarrow> (string \<times> int \<times> int \<times> string) list" where
  "by_cost_centre lc ls =
     sort_by (\<lambda>x y. or_cmp (fst (snd y) - fst (snd x)) (lc (fst x) (fst y)))
       (map (\<lambda>(c, e). (c, ct_micros e, ct_count e, collapse_basis (ct_bases e))) (foldl add_centre [] ls))"

record allocation_run =
  run_start :: rat
  run_end :: rat
  run_total :: int
  run_allocated :: int
  run_unallocated :: int
  run_centres :: "(string \<times> int \<times> int \<times> string) list"
  run_lines :: "alloc_line list"
  run_rest :: "unallocated_line list"
  run_bases :: "string list"
  run_conserves :: bool
  run_truncated :: bool
  run_pruned :: "rat option"

definition apply_allocation ::
    "(string \<Rightarrow> string \<Rightarrow> int) \<Rightarrow> alloc_row list \<Rightarrow> alloc_rule list \<Rightarrow> cost_centre list \<Rightarrow> rat \<Rightarrow> rat \<Rightarrow> rat option
      \<Rightarrow> allocation_run res" where
  "apply_allocation lc rows rules centres period_start period_end pruned =
     (let ordered = order_rules lc rules;
          archived = map cc_id (filter (\<lambda>c. cc_archived c \<noteq> None) centres);
          P = foldl (place_row ordered archived) no_places rows
      in bindE (foldE (direct_pass lc) ([], []) (pl_claimed P)) (\<lambda>(direct_lines, direct).
         let (ls, no_driver) = foldl (pool_pass lc direct) (direct_lines, new_bucket) (pl_pools P);
             rest = foldl (push_unallocated lc) []
                      [(''no_matching_rule'', pl_unmatched P), (''no_driver_for_proportional_pool'', no_driver),
                       (''target_cost_centre_archived'', pl_archived P)];
             allocated = foldl (\<lambda>s l. int_add s (al_micros l)) 0 ls;
             unallocated = foldl (\<lambda>s u. int_add s (ul_micros u)) 0 rest
         in Inr \<lparr>run_start = period_start, run_end = period_end, run_total = pl_total P, run_allocated = allocated,
                 run_unallocated = unallocated, run_centres = by_cost_centre lc ls, run_lines = ls, run_rest = rest,
                 run_bases = sort (to_set (map ar_basis rows)),
                 run_conserves = (int_add allocated unallocated = pl_total P),
                 run_truncated = (case pruned of None \<Rightarrow> False | Some b \<Rightarrow> period_start < b), run_pruned = pruned\<rparr>))"

end
