(* ===== verification/AllocConserves.thy ===== *)
theory AllocConserves
  imports AllocApply
begin

text \<open>
  The properties of the allocation engine: a run over validated rules returns, conserves the total to the
  micro-dollar, and every line names a rule of the rule set and pays a cost centre that is not archived.
  All sums are carried out in doubles; \<open>row_mass\<close>, the sum of the magnitudes of the rows, bounds every
  intermediate amount.
\<close>

section \<open>Sums over buckets\<close>

lemma int_add_exact: "\<bar>a + b\<bar> \<le> 2 ^ 53 \<Longrightarrow> int_add a b = a + b"
  unfolding int_add_def by (simp only: num_add_int floor_of_int)

lemma sum_update:
  fixes f :: "'b \<Rightarrow> 'c :: ab_group_add"
  assumes "distinct (map fst al)"
  shows "sum_list (map (\<lambda>e. f (snd e)) (AList.update k v al))
    = sum_list (map (\<lambda>e. f (snd e)) al) - (case map_of al k of None \<Rightarrow> 0 | Some u \<Rightarrow> f u) + f v"
  using assms by (induction al) (auto simp: algebra_simps split: option.splits)

lemma set_update_subset: "set (AList.update k v al) \<subseteq> insert (k, v) (set al)"
  by (induction al) auto

lemma map_of_le_sum:
  fixes f :: "'b \<Rightarrow> int"
  assumes "map_of al k = Some v" "\<And>x. 0 \<le> f x"
  shows "f v \<le> sum_list (map (\<lambda>e. f (snd e)) al)"
proof -
  have "(k, v) \<in> set al" using assms(1) by (rule map_of_SomeD)
  then have "f v \<in> set (map (\<lambda>e. f (snd e)) al)" by force
  then show ?thesis using assms(2) by (intro member_le_sum_list) auto
qed

definition row_mass :: "alloc_row list \<Rightarrow> int" where
  "row_mass ws = sum_list (map (\<lambda>w. \<bar>row_micros (ar_cost w)\<bar>) ws)"

definition row_sum :: "alloc_row list \<Rightarrow> int" where
  "row_sum ws = sum_list (map (\<lambda>w. row_micros (ar_cost w)) ws)"

definition bucket_sum :: "rule_buckets \<Rightarrow> int" where
  "bucket_sum bs = sum_list (map (\<lambda>e. mb_micros (snd (snd e))) bs)"

definition bucket_mass :: "rule_buckets \<Rightarrow> int" where
  "bucket_mass bs = sum_list (map (\<lambda>e. \<bar>mb_micros (snd (snd e))\<bar>) bs)"

lemma row_sums_simps [simp]:
  "row_mass [] = 0" "row_mass (ws @ [w]) = row_mass ws + \<bar>row_micros (ar_cost w)\<bar>"
  "row_sum [] = 0" "row_sum (ws @ [w]) = row_sum ws + row_micros (ar_cost w)"
  "bucket_sum [] = 0" "bucket_mass [] = 0" "bucket_sum (e # bs) = mb_micros (snd (snd e)) + bucket_sum bs"
  "bucket_mass (e # bs) = \<bar>mb_micros (snd (snd e))\<bar> + bucket_mass bs"
  by (simp_all add: row_mass_def row_sum_def bucket_sum_def bucket_mass_def)

lemma mass_nonneg [simp]: "0 \<le> row_mass ws" "0 \<le> bucket_mass bs"
  by (auto simp: row_mass_def bucket_mass_def intro!: sum_list_nonneg)

lemma add_row_micros: "\<bar>mb_micros b\<bar> + \<bar>row_micros (ar_cost w)\<bar> \<le> 2 ^ 53 \<Longrightarrow>
  mb_micros (add_row b w) = mb_micros b + row_micros (ar_cost w)"
  by (simp add: add_row_def int_add_exact)

lemma add_to_rule_sums:
  assumes "distinct (map fst bs)" "bucket_mass bs + \<bar>row_micros (ar_cost w)\<bar> \<le> 2 ^ 53"
  shows "bucket_sum (add_to_rule bs r w) = bucket_sum bs + row_micros (ar_cost w)"
    "bucket_mass (add_to_rule bs r w) \<le> bucket_mass bs + \<bar>row_micros (ar_cost w)\<bar>"
    "distinct (map fst (add_to_rule bs r w))"
    "fst ` snd ` set (add_to_rule bs r w) \<subseteq> insert r (fst ` snd ` set bs)"
proof -
  let ?k = "(ru_id r, ru_version r)" and ?m = "row_micros (ar_cost w)"
  obtain rule b where entry: "(case map_of bs ?k of None \<Rightarrow> (r, new_bucket) | Some e \<Rightarrow> e) = (rule, b)"
    by (cases "case map_of bs ?k of None \<Rightarrow> (r, new_bucket) | Some e \<Rightarrow> e")
  have new: "add_to_rule bs r w = AList.update ?k (rule, add_row b w) bs"
    by (simp only: add_to_rule_def Let_def entry prod.case)
  have all: "\<bar>mb_micros b\<bar> \<le> bucket_mass bs \<and> rule \<in> insert r (fst ` snd ` set bs)
      \<and> (case map_of bs ?k of None \<Rightarrow> 0 | Some e \<Rightarrow> mb_micros (snd e)) = mb_micros b
      \<and> (case map_of bs ?k of None \<Rightarrow> 0 | Some e \<Rightarrow> \<bar>mb_micros (snd e)\<bar>) = \<bar>mb_micros b\<bar>"
  proof (cases "map_of bs ?k")
    case None
    then have "rule = r" "b = new_bucket" using entry by auto
    then show ?thesis
      by (simp add: None new_bucket_def)
  next
    case (Some e)
    then have e: "e = (rule, b)" using entry by simp
    have "(?k, e) \<in> set bs" using Some by (rule map_of_SomeD)
    then have "rule \<in> fst ` snd ` set bs" unfolding e by force
    moreover have "\<bar>mb_micros b\<bar> \<le> bucket_mass bs"
      using map_of_le_sum [OF Some, of "\<lambda>e. \<bar>mb_micros (snd e)\<bar>"] by (simp add: bucket_mass_def e)
    ultimately show ?thesis
      by (simp add: Some e)
  qed
  note old = all [THEN conjunct1] all [THEN conjunct2, THEN conjunct1] all [THEN conjunct2, THEN conjunct2, THEN conjunct1]
    all [THEN conjunct2, THEN conjunct2, THEN conjunct2]
  have m: "mb_micros (add_row b w) = mb_micros b + ?m" using old(1) assms(2) by (intro add_row_micros) simp
  show "bucket_sum (add_to_rule bs r w) = bucket_sum bs + ?m"
    unfolding new bucket_sum_def sum_update [OF assms(1), of "\<lambda>e. mb_micros (snd e)"] old(3) by (simp add: m)
  show "bucket_mass (add_to_rule bs r w) \<le> bucket_mass bs + \<bar>?m\<bar>"
    unfolding new bucket_mass_def sum_update [OF assms(1), of "\<lambda>e. \<bar>mb_micros (snd e)\<bar>"] old(4) by (simp add: m)
  show "distinct (map fst (add_to_rule bs r w))" using assms(1) by (simp add: new distinct_update)
  show "fst ` snd ` set (add_to_rule bs r w) \<subseteq> insert r (fst ` snd ` set bs)"
  proof -
    have "fst ` snd ` set (add_to_rule bs r w) \<subseteq> fst ` snd ` insert (?k, (rule, add_row b w)) (set bs)"
      unfolding new by (intro image_mono set_update_subset)
    also have "\<dots> = insert rule (fst ` snd ` set bs)" by simp
    also have "\<dots> \<subseteq> insert r (fst ` snd ` set bs)" using old(2) by blast
    finally show ?thesis .
  qed
qed

section \<open>Placing\<close>

definition payable :: "alloc_rule list \<Rightarrow> string list \<Rightarrow> alloc_rule \<Rightarrow> bool" where
  "payable rules archived r =
     (r \<in> set rules \<and> ru_method r \<noteq> pool_method \<and> (\<forall>t \<in> set (ru_targets r). at_centre t \<notin> set archived))"

definition placed :: "alloc_rule list \<Rightarrow> string list \<Rightarrow> alloc_row list \<Rightarrow> alloc_places \<Rightarrow> bool" where
  "placed rules archived ws P =
     (distinct (map fst (pl_claimed P)) \<and> distinct (map fst (pl_pools P)) \<and> pl_total P = row_sum ws
      \<and> bucket_sum (pl_claimed P) + bucket_sum (pl_pools P) + mb_micros (pl_unmatched P) + mb_micros (pl_archived P) = row_sum ws
      \<and> bucket_mass (pl_claimed P) + bucket_mass (pl_pools P) + \<bar>mb_micros (pl_unmatched P)\<bar> + \<bar>mb_micros (pl_archived P)\<bar> \<le> row_mass ws
      \<and> (\<forall>r \<in> fst ` snd ` set (pl_claimed P). payable rules archived r)
      \<and> (\<forall>r \<in> fst ` snd ` set (pl_pools P). r \<in> set rules))"

lemma row_sum_le_mass: "\<bar>row_sum ws\<bar> \<le> row_mass ws"
  unfolding row_sum_def row_mass_def by (induction ws) auto

lemma ball_insert_subset: "A \<subseteq> insert r B \<Longrightarrow> Q r \<Longrightarrow> \<forall>x \<in> B. Q x \<Longrightarrow> \<forall>x \<in> A. Q x"
  by blast

lemma place_row_placed:
  assumes P: "placed rules archived ws P" and mass: "row_mass (ws @ [w]) < 2 ^ 51" and rules: "set ordered \<subseteq> set rules"
  shows "placed rules archived (ws @ [w]) (place_row ordered archived P w)"
proof -
  let ?m = "row_micros (ar_cost w)"
  have total: "int_add (row_sum ws) ?m = row_sum ws + ?m"
    using mass row_sum_le_mass [of ws] by (simp add: int_add_exact)
  have m: "bucket_mass (pl_claimed P) + bucket_mass (pl_pools P) + \<bar>mb_micros (pl_unmatched P)\<bar> + \<bar>mb_micros (pl_archived P)\<bar> \<le> row_mass ws"
    using P by (simp add: placed_def)
  have room: "\<bar>mb_micros (pl_unmatched P)\<bar> + \<bar>?m\<bar> \<le> 2 ^ 53" "\<bar>mb_micros (pl_archived P)\<bar> + \<bar>?m\<bar> \<le> 2 ^ 53"
    "bucket_mass (pl_claimed P) + \<bar>?m\<bar> \<le> 2 ^ 53" "bucket_mass (pl_pools P) + \<bar>?m\<bar> \<le> 2 ^ 53"
    using power_increasing [of 51 53 "2 :: int"] m mass [unfolded row_sums_simps] mass_nonneg(2) [of "pl_claimed P"] mass_nonneg(2) [of "pl_pools P"]
    by linarith+
  have keys: "distinct (map fst (pl_claimed P))" "distinct (map fst (pl_pools P))" using P by (simp_all add: placed_def)
  show ?thesis
  proof (cases "List.find (\<lambda>r. rule_applies_at r (ar_ts w) \<and> matches_row r w) ordered")
    case None
    then show ?thesis using P by (auto simp: placed_def place_row_def total add_row_micros [OF room(1)])
  next
    case (Some r)
    then have r: "r \<in> set rules" using rules by (auto simp: find_Some_iff)
    consider (arch) "ru_method r \<noteq> pool_method \<and> list_ex (\<lambda>t. at_centre t \<in> set archived) (ru_targets r)"
      | (pool) "ru_method r = pool_method"
      | (claim) "payable rules archived r"
      using r by (auto simp: payable_def list_ex_iff)
    then show ?thesis
    proof cases
      case arch
      then show ?thesis using P by (auto simp: placed_def place_row_def Some total add_row_micros [OF room(2)])
    next
      case pool
      note A = add_to_rule_sums [OF keys(2) room(4), of r]
      have "\<forall>r \<in> fst ` snd ` set (add_to_rule (pl_pools P) r w). r \<in> set rules"
        by (rule ball_insert_subset [OF A(4)]) (use P r in \<open>simp_all add: placed_def\<close>)
      then show ?thesis using P pool A(1-3) by (simp add: placed_def place_row_def Some total)
    next
      case claim
      note A = add_to_rule_sums [OF keys(1) room(3), of r]
      have "\<forall>r \<in> fst ` snd ` set (add_to_rule (pl_claimed P) r w). payable rules archived r"
        by (rule ball_insert_subset [OF A(4)]) (use P claim in \<open>simp_all add: placed_def\<close>)
      moreover have "\<not> (ru_method r \<noteq> pool_method \<and> list_ex (\<lambda>t. at_centre t \<in> set archived) (ru_targets r))"
        "ru_method r \<noteq> pool_method" using claim by (auto simp: payable_def list_ex_iff)
      ultimately show ?thesis using P A(1-3) by (simp add: placed_def place_row_def Some total)
    qed
  qed
qed

lemma placing:
  assumes "row_mass ws < 2 ^ 51" "set ordered \<subseteq> set rules"
  shows "placed rules archived ws (foldl (place_row ordered archived) no_places ws)"
  using assms(1)
proof (induction ws rule: rev_induct)
  case Nil
  then show ?case by (simp add: placed_def no_places_def new_bucket_def)
next
  case (snoc w ws)
  then have "row_mass ws < 2 ^ 51" by simp
  then show ?case using place_row_placed [OF snoc.IH snoc.prems assms(2)] by simp
qed

section \<open>Validated rules\<close>

lemma round_double_nonneg: "0 \<le> x \<Longrightarrow> 0 \<le> round_double x"
proof -
  assume "0 \<le> x"
  then have "0 \<le> x / double_ulp x" using double_ulp_pos [of x] by (intro divide_nonneg_pos)
  then have "0 \<le> round_half_even (x / double_ulp x)" by (auto simp: round_half_even_def Let_def)
  then show ?thesis using less_imp_le [OF double_ulp_pos [of x]] by (simp add: round_double_def)
qed

lemma ratio_to_parts_nonneg: "ratio_to_parts l v = Inr p \<Longrightarrow> 0 \<le> p"
proof -
  assume p: "ratio_to_parts l v = Inr p"
  then obtain r where v: "v = JNum r" by (cases v) auto
  then have "0 \<le> r" "p = math_round (num_mult r (of_int ratio_scale))" using p by (auto simp: Let_def split: if_splits)
  moreover from this(1) have "0 \<le> num_mult r (of_int ratio_scale)"
    unfolding num_mult_def by (intro round_double_nonneg mult_nonneg_nonneg) (simp_all add: ratio_scale_def)
  ultimately show ?thesis by (simp add: math_round_def)
qed

lemma check_targets_distinct:
  "foldE check_target seen ts = Inr seen' \<Longrightarrow> distinct (map at_centre ts) \<and> set (map at_centre ts) \<inter> set seen = {}"
proof (induction ts arbitrary: seen)
  case Nil
  then show ?case by simp
next
  case (Cons t ts)
  then obtain seen1 where one: "check_target seen t = Inr seen1" "foldE check_target seen1 ts = Inr seen'" by auto
  from one(1) have "at_centre t \<notin> set seen" "seen1 = at_centre t # seen"
    by (auto simp: check_target_def split: if_splits)
  then have "at_centre t \<notin> set seen" "foldE check_target (at_centre t # seen) ts = Inr seen'" using one(2) by simp_all
  with Cons.IH [OF this(2)] show ?case by auto
qed

lemma split_parts:
  "foldE (\<lambda>parts t. bindE (target_parts t) (\<lambda>p. Inr (parts + p))) a ts = Inr s \<Longrightarrow>
    \<exists>ps. mapE target_parts ts = Inr ps \<and> s = a + sum_list ps"
proof (induction ts arbitrary: a)
  case Nil
  then show ?case by simp
next
  case (Cons t ts)
  then obtain p where p: "target_parts t = Inr p"
    "foldE (\<lambda>parts t. bindE (target_parts t) (\<lambda>p. Inr (parts + p))) (a + p) ts = Inr s" by auto
  from Cons.IH [OF p(2)] obtain ps where "mapE target_parts ts = Inr ps" "s = a + p + sum_list ps" by blast
  then show ?case using p(1) by auto
qed

lemma validated_parts:
  assumes "validate_rule r = Inr ()" "ru_method r \<noteq> pool_method"
  shows "\<exists>ps. mapE target_parts (ru_targets r) = Inr ps \<and> sum_list ps = ratio_scale"
    "distinct (map at_centre (ru_targets r))" "ru_targets r \<noteq> []"
proof -
  have checks: "ru_targets r \<noteq> []" "\<exists>s. foldE check_target [] (ru_targets r) = Inr s"
    "ru_method r = direct_method \<Longrightarrow> check_direct (ru_targets r) = Inr ()"
    "ru_method r \<noteq> direct_method \<Longrightarrow> ru_method r = split_method \<Longrightarrow> check_split (ru_targets r) = Inr ()"
    "ru_method r = direct_method \<or> ru_method r = split_method"
    using assms by (auto simp: validate_rule_def alloc_methods_def split: if_splits)
  show "ru_targets r \<noteq> []" by (rule checks(1))
  show "distinct (map at_centre (ru_targets r))" using checks(2) check_targets_distinct by blast
  show "\<exists>ps. mapE target_parts (ru_targets r) = Inr ps \<and> sum_list ps = ratio_scale"
  proof (cases "ru_method r = direct_method")
    case True
    then have "check_direct (ru_targets r) = Inr ()" by (rule checks(3))
    then obtain t where t: "ru_targets r = [t]" "ratio_to_parts ''direct ratio'' (at_ratio t) = Inr ratio_scale"
      by (auto simp: check_direct_def length_Suc_conv split: if_splits)
    then have "target_parts t = Inr ratio_scale"
      by (cases "at_ratio t") (auto simp: target_parts_def Let_def split: if_splits)
    then show ?thesis using t(1) by simp
  next
    case False
    then have "check_split (ru_targets r) = Inr ()" using checks(4,5) by blast
    then show ?thesis using split_parts [of 0 "ru_targets r"] by (auto simp: check_split_def split: if_splits)
  qed
qed

lemma target_weights:
  assumes "mapE target_parts ts = Inr ps"
  shows "mapE (\<lambda>t. bindE (target_parts t) (\<lambda>p. Inr (at_centre t, p))) ts = Inr (zip (map at_centre ts) ps)"
  using assms by (induction ts arbitrary: ps) auto

section \<open>The direct pass\<close>

definition line_sum :: "alloc_line list \<Rightarrow> int" where
  "line_sum ls = sum_list (map al_micros ls)"

definition line_mass :: "alloc_line list \<Rightarrow> int" where
  "line_mass ls = sum_list (map (\<lambda>l. \<bar>al_micros l\<bar>) ls)"

definition centre_mass :: "(string \<times> int) list \<Rightarrow> int" where
  "centre_mass ds = sum_list (map (\<lambda>d. \<bar>snd d\<bar>) ds)"

lemma line_sums_simps [simp]:
  "line_sum [] = 0" "line_sum (ls @ ks) = line_sum ls + line_sum ks" "line_sum [l] = al_micros l"
  "line_mass [] = 0" "line_mass (ls @ ks) = line_mass ls + line_mass ks" "line_mass [l] = \<bar>al_micros l\<bar>"
  "centre_mass [] = 0"
  by (simp_all add: line_sum_def line_mass_def centre_mass_def)

lemma centre_mass_nonneg: "0 \<le> centre_mass ds" and line_mass_nonneg: "0 \<le> line_mass ls"
  by (auto simp: centre_mass_def line_mass_def intro!: sum_list_nonneg)

lemma add_project_mass:
  assumes "distinct (map fst ds)" "centre_mass ds + \<bar>m\<bar> \<le> 2 ^ 53"
  shows "centre_mass (add_project ds c m) \<le> centre_mass ds + \<bar>m\<bar>" "distinct (map fst (add_project ds c m))"
    "fst ` set (add_project ds c m) = insert c (fst ` set ds)"
proof -
  let ?old = "case map_of ds c of None \<Rightarrow> 0 | Some x \<Rightarrow> x"
  have old: "\<bar>?old\<bar> \<le> centre_mass ds"
    using map_of_le_sum [of ds c _ abs] centre_mass_nonneg [of ds] by (auto simp: centre_mass_def split: option.splits)
  then have exact: "int_add ?old m = ?old + m" using assms(2) by (intro int_add_exact) simp
  have "(case map_of ds c of None \<Rightarrow> 0 | Some x \<Rightarrow> \<bar>x\<bar>) = \<bar>?old\<bar>" by (simp split: option.splits)
  then show "centre_mass (add_project ds c m) \<le> centre_mass ds + \<bar>m\<bar>"
    unfolding add_project_def exact using sum_update [OF assms(1), of abs c "?old + m"] by (simp add: centre_mass_def)
  show "distinct (map fst (add_project ds c m))" using assms(1) by (simp add: add_project_def distinct_update)
  show "fst ` set (add_project ds c m) = insert c (fst ` set ds)" by (simp add: add_project_def dom_update)
qed

lemma same_sign_mass:
  assumes "(\<forall>v \<in> set vs. 0 \<le> v) \<or> (\<forall>v \<in> set vs. v \<le> (0 :: int))"
  shows "sum_list (map abs vs) = \<bar>sum_list vs\<bar>"
  using assms
proof
  assume pos: "\<forall>v \<in> set vs. 0 \<le> v"
  then have "map abs vs = vs" by (intro map_idI) auto
  moreover have "0 \<le> sum_list vs" using pos by (intro sum_list_nonneg) auto
  ultimately show ?thesis by simp
next
  assume "\<forall>v \<in> set vs. v \<le> 0"
  then have "sum_list (map abs vs) = - sum_list vs \<and> sum_list vs \<le> 0" by (induction vs) auto
  then show ?thesis by simp
qed

lemma distribute_micros_mass:
  assumes "ws \<noteq> []" "distinct (map fst ws)" "\<And>w. w \<in> snd ` set ws \<Longrightarrow> 0 \<le> w"
    and "0 < sum_list (map snd ws)" "sum_list (map snd ws) \<le> 2 ^ 53" "\<bar>micros\<bar> < 2 ^ 51"
  shows "sum_list (map (\<lambda>d. \<bar>snd d\<bar>) (distribute_micros lc micros ws)) = \<bar>micros\<bar>"
proof -
  let ?ds = "distribute_micros lc micros ws"
  have len: "length ?ds = length ws" using distribute_micros_sum(2) [OF assms, of lc] by (metis length_map)
  have sign: "(micros < 0 \<longrightarrow> snd (?ds ! i) \<le> 0) \<and> (0 \<le> micros \<longrightarrow> 0 \<le> snd (?ds ! i))" if "i < length ws" for i
    using distribute_micros_near [OF assms that, of lc] by auto
  have "(\<forall>v \<in> set (map snd ?ds). 0 \<le> v) \<or> (\<forall>v \<in> set (map snd ?ds). v \<le> 0)"
  proof (cases "micros < 0")
    case True
    then have "\<forall>v \<in> set (map snd ?ds). v \<le> 0" using sign len by (simp add: all_set_conv_all_nth)
    then show ?thesis ..
  next
    case False
    then have "\<forall>v \<in> set (map snd ?ds). 0 \<le> v" using sign len by (simp add: all_set_conv_all_nth)
    then show ?thesis ..
  qed
  from same_sign_mass [OF this] show ?thesis using distribute_micros_sum(1) [OF assms, of lc] by (simp add: o_def)
qed

definition accountable :: "alloc_rule list \<Rightarrow> string list \<Rightarrow> alloc_line \<Rightarrow> bool" where
  "accountable rules archived l =
     ((\<exists>r \<in> set rules. al_rule l = ru_id r \<and> al_version l = ru_version r \<and> al_method l = ru_method r)
      \<and> al_centre l \<notin> set archived)"

definition paid :: "(string \<times> int) list \<Rightarrow> alloc_target \<Rightarrow> int" where
  "paid split t = (case map_of split (at_centre t) of None \<Rightarrow> 0 | Some m \<Rightarrow> m)"

lemma paid_split: "distinct (map fst split) \<Longrightarrow> map fst split = map at_centre ts \<Longrightarrow> map (paid split) ts = map snd split"
proof (rule nth_equalityI)
  assume split: "distinct (map fst split)" "map fst split = map at_centre ts"
  then have len: "length split = length ts" by (metis length_map)
  then show "length (map (paid split) ts) = length (map snd split)" by simp
  fix i assume "i < length (map (paid split) ts)"
  then have i: "i < length ts" "i < length split" using len by simp_all
  have "at_centre (ts ! i) = fst (split ! i)" using split(2) i by (metis nth_map)
  then have "map_of split (at_centre (ts ! i)) = Some (snd (split ! i))"
    using split(1) i(2) by (simp add: map_of_eq_Some_iff)
  then show "map (paid split) ts ! i = map snd split ! i" using i by (simp add: paid_def)
qed

lemma direct_lines:
  assumes "mapE target_parts ts = Inr ps" "distinct (map fst ds)"
    "centre_mass ds + sum_list (map (\<lambda>t. \<bar>paid split t\<bar>) ts) \<le> 2 ^ 53"
  shows "\<exists>ks ds'. foldE (direct_line r b split) (ls, ds) ts = Inr (ls @ ks, ds') \<and> map al_micros ks = map (paid split) ts
    \<and> map al_centre ks = map at_centre ts
    \<and> (\<forall>l \<in> set ks. al_rule l = ru_id r \<and> al_version l = ru_version r \<and> al_method l = ru_method r)
    \<and> distinct (map fst ds') \<and> centre_mass ds' \<le> centre_mass ds + sum_list (map (\<lambda>t. \<bar>paid split t\<bar>) ts)
    \<and> fst ` set ds' = fst ` set ds \<union> at_centre ` set ts"
  using assms
proof (induction ts arbitrary: ps ls ds)
  case Nil
  then show ?case by simp
next
  case (Cons t ts)
  then obtain p qs where p: "target_parts t = Inr p" "mapE target_parts ts = Inr qs" by auto
  let ?m = "paid split t" and ?rest = "sum_list (map (\<lambda>t. \<bar>paid split t\<bar>) ts)"
  have rest: "0 \<le> ?rest" by (intro sum_list_nonneg) auto
  then have fits: "centre_mass ds + \<bar>?m\<bar> \<le> 2 ^ 53" using Cons.prems(3) by simp
  note A = add_project_mass [OF Cons.prems(2) fits, of "at_centre t"]
  define l where "l = \<lparr>al_centre = at_centre t, al_rule = ru_id r, al_version = ru_version r, al_method = ru_method r,
    al_parts = p, al_micros = ?m, al_count = mb_count b, al_basis = collapse_basis (mb_bases b)\<rparr>"
  have step: "direct_line r b split (ls, ds) t = Inr (ls @ [l], add_project ds (at_centre t) ?m)"
    by (simp add: direct_line_def p(1) paid_def l_def Let_def)
  have "centre_mass (add_project ds (at_centre t) ?m) + ?rest \<le> 2 ^ 53" using A(1) Cons.prems(3) by simp
  from Cons.IH [OF p(2) A(2) this, of "ls @ [l]"] obtain ks ds' where
    IH: "foldE (direct_line r b split) (ls @ [l], add_project ds (at_centre t) ?m) ts = Inr ((ls @ [l]) @ ks, ds')"
      "map al_micros ks = map (paid split) ts" "map al_centre ks = map at_centre ts"
      "\<forall>l \<in> set ks. al_rule l = ru_id r \<and> al_version l = ru_version r \<and> al_method l = ru_method r"
      "distinct (map fst ds')" "centre_mass ds' \<le> centre_mass (add_project ds (at_centre t) ?m) + ?rest"
      "fst ` set ds' = fst ` set (add_project ds (at_centre t) ?m) \<union> at_centre ` set ts" by blast
  have "fst ` set ds' = fst ` set ds \<union> at_centre ` set (t # ts)" unfolding IH(7) A(3) by auto
  moreover have "centre_mass ds' \<le> centre_mass ds + sum_list (map (\<lambda>t. \<bar>paid split t\<bar>) (t # ts))" using IH(6) A(1) by simp
  ultimately show ?case using IH(1-5) step by (intro exI [of _ "l # ks"] exI [of _ ds']) (simp add: l_def)
qed

definition lines_ok :: "alloc_rule list \<Rightarrow> string list \<Rightarrow> int \<Rightarrow> int \<Rightarrow> line_state \<Rightarrow> bool" where
  "lines_ok rules archived s m st =
     (line_sum (fst st) = s \<and> line_mass (fst st) \<le> m \<and> centre_mass (snd st) \<le> m \<and> distinct (map fst (snd st))
      \<and> fst ` set (snd st) \<inter> set archived = {} \<and> (\<forall>l \<in> set (fst st). accountable rules archived l))"

lemma direct_pass_ok:
  assumes st: "lines_ok rules archived s m st" and e: "payable rules archived (fst (snd e))" "validate_rule (fst (snd e)) = Inr ()"
    and small: "m + \<bar>mb_micros (snd (snd e))\<bar> < 2 ^ 51"
  shows "\<exists>st'. direct_pass lc st e = Inr st'
    \<and> lines_ok rules archived (s + mb_micros (snd (snd e))) (m + \<bar>mb_micros (snd (snd e))\<bar>) st'"
proof -
  obtain k r b where [simp]: "e = (k, r, b)" by (cases e)
  obtain ls ds where [simp]: "st = (ls, ds)" by (cases st)
  have r: "r \<in> set rules" "ru_method r \<noteq> pool_method" "\<forall>t \<in> set (ru_targets r). at_centre t \<notin> set archived"
    using e(1) by (simp_all add: payable_def)
  obtain ps where ps: "mapE target_parts (ru_targets r) = Inr ps" "sum_list ps = ratio_scale"
    and ts: "distinct (map at_centre (ru_targets r))" "ru_targets r \<noteq> []"
    using validated_parts [of r] e(2) r(2) by auto
  let ?ws = "zip (map at_centre (ru_targets r)) ps" and ?m = "mb_micros b"
  have len: "length ps = length (ru_targets r)" using mapE_length [OF ps(1)] .
  have fst: "map fst ?ws = map at_centre (ru_targets r)" and snd: "map snd ?ws = ps" using len by simp_all
  have weights: "0 \<le> w" if "w \<in> snd ` set ?ws" for w
  proof -
    have "w \<in> set ps" using that by (metis set_map snd)
    then show ?thesis using mapE_set [OF ps(1)] ratio_to_parts_nonneg by (auto simp: target_parts_def)
  qed
  have m0: "0 \<le> m" using st line_mass_nonneg [of ls] by (simp add: lines_ok_def)
  then have bound: "\<bar>?m\<bar> < 2 ^ 51" using small by simp
  have A: "?ws \<noteq> []" "distinct (map fst ?ws)" "0 < sum_list (map snd ?ws)" "sum_list (map snd ?ws) \<le> 2 ^ 53"
    using ts len ps(2) unfolding fst snd by (auto simp: ratio_scale_def)
  note D = distribute_micros_sum [OF A(1,2) weights A(3,4) bound, of lc]
    and mass = distribute_micros_mass [OF A(1,2) weights A(3,4) bound, of lc]
  let ?split = "distribute_micros lc ?m ?ws"
  have paid_map: "map (paid ?split) (ru_targets r) = map snd ?split"
    using ts(1) D(2) unfolding fst by (intro paid_split) simp_all
  have "sum_list (map (\<lambda>t. \<bar>paid ?split t\<bar>) (ru_targets r)) = sum_list (map abs (map (paid ?split) (ru_targets r)))"
    by (simp add: o_def)
  also have "\<dots> = \<bar>?m\<bar>" unfolding paid_map using mass by (simp add: o_def)
  finally have paid_mass: "sum_list (map (\<lambda>t. \<bar>paid ?split t\<bar>) (ru_targets r)) = \<bar>?m\<bar>" .
  have ds: "distinct (map fst ds)" "centre_mass ds \<le> m" using st by (simp_all add: lines_ok_def)
  have fits: "centre_mass ds + sum_list (map (\<lambda>t. \<bar>paid ?split t\<bar>) (ru_targets r)) \<le> 2 ^ 53"
    unfolding paid_mass using ds(2) small by simp
  obtain ks ds' where L: "foldE (direct_line r b ?split) (ls, ds) (ru_targets r) = Inr (ls @ ks, ds')"
    "map al_micros ks = map (paid ?split) (ru_targets r)" "map al_centre ks = map at_centre (ru_targets r)"
    "\<forall>l \<in> set ks. al_rule l = ru_id r \<and> al_version l = ru_version r \<and> al_method l = ru_method r"
    "distinct (map fst ds')" "centre_mass ds' \<le> centre_mass ds + \<bar>?m\<bar>" "fst ` set ds' = fst ` set ds \<union> at_centre ` set (ru_targets r)"
    using direct_lines [OF ps(1) ds(1) fits, of r b ls] unfolding paid_mass by blast
  have "line_sum ks = ?m" using D(1) unfolding line_sum_def L(2) paid_map .
  moreover have "line_mass ks = sum_list (map abs (map al_micros ks))" by (simp add: line_mass_def o_def)
  then have "line_mass ks = \<bar>?m\<bar>" unfolding L(2) paid_map using mass by (simp add: o_def)
  moreover have "\<forall>l \<in> set ks. accountable rules archived l"
  proof
    fix l assume l: "l \<in> set ks"
    then have "al_centre l \<in> set (map al_centre ks)" by simp
    then have "al_centre l \<in> at_centre ` set (ru_targets r)" unfolding L(3) by simp
    then have "al_centre l \<notin> set archived" using r(3) by auto
    then show "accountable rules archived l" using L(4) l r(1) by (auto simp: accountable_def)
  qed
  moreover have "fst ` set ds' \<inter> set archived = {}" unfolding L(7) using st r(3) by (auto simp: lines_ok_def)
  ultimately have "lines_ok rules archived (s + ?m) (m + \<bar>?m\<bar>) (ls @ ks, ds')"
    using st L(5,6) ds(2) by (auto simp: lines_ok_def)
  moreover have "direct_pass lc st e = Inr (ls @ ks, ds')"
    using L(1) by (simp add: direct_pass_def target_weights [OF ps(1)])
  ultimately show ?thesis by simp
qed

lemma direct_passes:
  assumes "lines_ok rules archived s m st" "m + bucket_mass bs < 2 ^ 51"
    and "\<forall>r \<in> fst ` snd ` set bs. payable rules archived r" "\<forall>r \<in> set rules. validate_rule r = Inr ()"
  shows "\<exists>st'. foldE (direct_pass lc) st bs = Inr st' \<and> lines_ok rules archived (s + bucket_sum bs) (m + bucket_mass bs) st'"
  using assms
proof (induction bs arbitrary: s m st)
  case Nil
  then show ?case by simp
next
  case (Cons e bs)
  let ?m = "mb_micros (snd (snd e))"
  have e: "payable rules archived (fst (snd e))" using Cons.prems(3) by simp
  then have v: "validate_rule (fst (snd e)) = Inr ()" using Cons.prems(4) by (simp add: payable_def)
  have "m + \<bar>?m\<bar> < 2 ^ 51" using Cons.prems(2) mass_nonneg(2) [of bs] unfolding row_sums_simps by linarith
  from direct_pass_ok [OF Cons.prems(1) e v this, of lc] obtain st' where
    st': "direct_pass lc st e = Inr st'" "lines_ok rules archived (s + ?m) (m + \<bar>?m\<bar>) st'" by blast
  have "m + \<bar>?m\<bar> + bucket_mass bs < 2 ^ 51" "\<forall>r \<in> fst ` snd ` set bs. payable rules archived r"
    using Cons.prems(2,3) by simp_all
  from Cons.IH [OF st'(2) this Cons.prems(4)] show ?case using st'(1) by (simp add: add.assoc)
qed

section \<open>The pools\<close>

definition pools_ok :: "alloc_rule list \<Rightarrow> string list \<Rightarrow> int \<Rightarrow> int \<Rightarrow> alloc_line list \<times> micro_bucket \<Rightarrow> bool" where
  "pools_ok rules archived s m st =
     (line_sum (fst st) + mb_micros (snd st) = s \<and> line_mass (fst st) + \<bar>mb_micros (snd st)\<bar> \<le> m
      \<and> (\<forall>l \<in> set (fst st). accountable rules archived l))"

lemma sum_nonzero: "sum_list (map f (filter (\<lambda>x. f x \<noteq> 0) xs)) = sum_list (map f (xs :: (string \<times> int) list))"
  for f :: "string \<times> int \<Rightarrow> int"
  by (induction xs) auto

lemma pool_pass_ok:
  assumes st: "pools_ok rules archived s m st" and r: "fst (snd e) \<in> set rules"
    and ds: "distinct (map fst ds)" "centre_mass ds < 2 ^ 51" "fst ` set ds \<inter> set archived = {}"
    and small: "m + \<bar>mb_micros (snd (snd e))\<bar> < 2 ^ 51"
  shows "pools_ok rules archived (s + mb_micros (snd (snd e))) (m + \<bar>mb_micros (snd (snd e))\<bar>) (pool_pass lc ds st e)"
proof -
  obtain k r b where [simp]: "e = (k, r, b)" by (cases e)
  obtain ls nd where [simp]: "st = (ls, nd)" by (cases st)
  let ?drivers = "filter (\<lambda>d. 0 < snd d) ds" and ?m = "mb_micros b"
  have m: "line_mass ls + \<bar>mb_micros nd\<bar> \<le> m" using st by (simp add: pools_ok_def)
  show ?thesis
  proof (cases "?drivers = []")
    case True
    have "\<bar>mb_micros nd + ?m\<bar> \<le> 2 ^ 53" using m small line_mass_nonneg [of ls] by simp
    then have "mb_micros (merge_bucket nd b) = mb_micros nd + ?m" by (simp add: merge_bucket_def int_add_exact)
    then show ?thesis using st True by (auto simp: pools_ok_def pool_pass_def Let_def)
  next
    case False
    have pos: "0 < w" if "w \<in> snd ` set ?drivers" for w using that by auto
    have nonneg: "\<And>w. w \<in> snd ` set ?drivers \<Longrightarrow> 0 \<le> w" using pos by (rule less_imp_le)
    have "sum_list (map snd ?drivers) \<le> centre_mass ds"
      unfolding centre_mass_def by (induction ds) auto
    then have W: "sum_list (map snd ?drivers) \<le> 2 ^ 53" using ds(2) by simp
    obtain d rest where d: "?drivers = d # rest" using False by (cases ?drivers) auto
    have "0 < snd d" using pos unfolding d by simp
    moreover have "0 \<le> sum_list (map snd rest)" using nonneg unfolding d by (intro sum_list_nonneg) auto
    ultimately have W0: "0 < sum_list (map snd ?drivers)" unfolding d by simp
    have dist: "distinct (map fst ?drivers)" using ds(1) by (rule distinct_map_filter)
    have bound: "\<bar>?m\<bar> < 2 ^ 51" using m small line_mass_nonneg [of ls] by simp
    let ?shares = "distribute_micros lc ?m ?drivers"
    note D = distribute_micros_sum [OF False dist nonneg W0 W bound, of lc]
      and mass = distribute_micros_mass [OF False dist nonneg W0 W bound, of lc]
    let ?ks = "map (pool_line ds ?drivers r b) (filter (\<lambda>share. snd share \<noteq> 0) ?shares)"
    have micros: "al_micros (pool_line ds ?drivers r b share) = snd share" for share by (simp add: pool_line_def)
    have "line_sum ?ks = sum_list (map snd (filter (\<lambda>share. snd share \<noteq> 0) ?shares))"
      unfolding line_sum_def map_map o_def micros ..
    then have "line_sum ?ks = ?m" unfolding sum_nonzero by (rule trans [OF _ D(1)])
    moreover have "line_mass ?ks = sum_list (map (\<lambda>d. \<bar>snd d\<bar>) (filter (\<lambda>share. \<bar>snd share\<bar> \<noteq> 0) ?shares))"
      unfolding line_mass_def map_map o_def micros by simp
    then have "line_mass ?ks = \<bar>?m\<bar>" unfolding sum_nonzero by (rule trans [OF _ mass])
    moreover have "accountable rules archived l" if l: "l \<in> set ?ks" for l
    proof -
      obtain share where share: "share \<in> set ?shares" "l = pool_line ds ?drivers r b share" using l by auto
      have "fst share \<in> set (map fst ?shares)" using share(1) by simp
      also have "set (map fst ?shares) = set (map fst ?drivers)" using D(2) by (rule arg_cong)
      finally have "fst share \<in> fst ` set ds" by auto
      then show ?thesis using share(2) r ds(3) by (auto simp: accountable_def pool_line_def)
    qed
    ultimately show ?thesis using st False by (auto simp: pools_ok_def pool_pass_def Let_def)
  qed
qed

lemma pool_passes:
  assumes "pools_ok rules archived s m st" "\<forall>r \<in> fst ` snd ` set bs. r \<in> set rules"
    and "distinct (map fst ds)" "centre_mass ds < 2 ^ 51" "fst ` set ds \<inter> set archived = {}"
    and "m + bucket_mass bs < 2 ^ 51"
  shows "pools_ok rules archived (s + bucket_sum bs) (m + bucket_mass bs) (foldl (pool_pass lc ds) st bs)"
  using assms
proof (induction bs arbitrary: s m st)
  case Nil
  then show ?case by simp
next
  case (Cons e bs)
  let ?m = "mb_micros (snd (snd e))"
  have small: "m + \<bar>?m\<bar> < 2 ^ 51" using Cons.prems(6) mass_nonneg(2) [of bs] unfolding row_sums_simps by linarith
  have r: "fst (snd e) \<in> set rules" using Cons.prems(2) by simp
  note step = pool_pass_ok [OF Cons.prems(1) r Cons.prems(3-5) small, of lc]
  have "m + \<bar>?m\<bar> + bucket_mass bs < 2 ^ 51" "\<forall>r \<in> fst ` snd ` set bs. r \<in> set rules"
    using Cons.prems(2,6) by simp_all
  from Cons.IH [OF step this(2) Cons.prems(3-5) this(1)] show ?case by (simp add: add.assoc)
qed

section \<open>The run\<close>

lemma int_add_fold:
  assumes "\<bar>a\<bar> + sum_list (map (\<lambda>x. \<bar>f x\<bar>) xs) \<le> 2 ^ 53"
  shows "foldl (\<lambda>s x. int_add s (f x)) a xs = a + sum_list (map f xs)"
  using assms
proof (induction xs arbitrary: a)
  case Nil
  then show ?case by simp
next
  case (Cons x xs)
  have "0 \<le> sum_list (map (\<lambda>x. \<bar>f x\<bar>) xs)" by (intro sum_list_nonneg) auto
  then have "int_add a (f x) = a + f x" using Cons.prems by (intro int_add_exact) simp
  moreover have "\<bar>a + f x\<bar> + sum_list (map (\<lambda>x. \<bar>f x\<bar>) xs) \<le> 2 ^ 53" using Cons.prems by simp
  ultimately show ?case using Cons.IH [of "a + f x"] by simp
qed

lemma push_unallocated_sums:
  "sum_list (map ul_micros (push_unallocated lc us rb)) = sum_list (map ul_micros us) + mb_micros (snd rb)"
  "sum_list (map (\<lambda>u. \<bar>ul_micros u\<bar>) (push_unallocated lc us rb)) = sum_list (map (\<lambda>u. \<bar>ul_micros u\<bar>) us) + \<bar>mb_micros (snd rb)\<bar>"
  by (simp_all add: push_unallocated_def Let_def)

lemma set_order_rules [simp]: "set (order_rules lc rules) = set rules"
  by (simp add: order_rules_def)

definition archived_centres :: "cost_centre list \<Rightarrow> string list" where
  "archived_centres centres = map cc_id (filter (\<lambda>c. cc_archived c \<noteq> None) centres)"

lemma apply_allocation_run:
  assumes rules: "\<forall>r \<in> set rules. validate_rule r = Inr ()" and mass: "row_mass rows < 2 ^ 51"
  shows "\<exists>run. apply_allocation lc rows rules centres ps pe pruned = Inr run \<and> run_conserves run
    \<and> run_total run = row_sum rows \<and> run_allocated run = line_sum (run_lines run)
    \<and> run_unallocated run = sum_list (map ul_micros (run_rest run))
    \<and> run_total run = run_allocated run + run_unallocated run
    \<and> (\<forall>l \<in> set (run_lines run). accountable rules (archived_centres centres) l)"
proof -
  let ?arch = "archived_centres centres"
  define P where "P = foldl (place_row (order_rules lc rules) ?arch) no_places rows"
  have placed: "placed rules ?arch rows P" unfolding P_def using mass by (rule placing) simp
  define u a where "u = mb_micros (pl_unmatched P)" and "a = mb_micros (pl_archived P)"
  have sums: "pl_total P = row_sum rows" "bucket_sum (pl_claimed P) + bucket_sum (pl_pools P) + u + a = row_sum rows"
    "bucket_mass (pl_claimed P) + bucket_mass (pl_pools P) + \<bar>u\<bar> + \<bar>a\<bar> \<le> row_mass rows"
    "\<forall>r \<in> fst ` snd ` set (pl_claimed P). payable rules ?arch r" "\<forall>r \<in> fst ` snd ` set (pl_pools P). r \<in> set rules"
    using placed unfolding placed_def u_def a_def by blast+
  have nonneg: "0 \<le> bucket_mass (pl_claimed P)" "0 \<le> bucket_mass (pl_pools P)" by simp_all
  have start: "lines_ok rules ?arch 0 0 ([], [])" by (simp add: lines_ok_def)
  have "0 + bucket_mass (pl_claimed P) < 2 ^ 51" using sums(3) nonneg mass by linarith
  from direct_passes [OF start this sums(4) rules, of lc] obtain ls ds where
    direct: "foldE (direct_pass lc) ([], []) (pl_claimed P) = Inr (ls, ds)"
      "lines_ok rules ?arch (bucket_sum (pl_claimed P)) (bucket_mass (pl_claimed P)) (ls, ds)" by auto
  have pools0: "pools_ok rules ?arch (bucket_sum (pl_claimed P)) (bucket_mass (pl_claimed P)) (ls, new_bucket)"
    and ds: "distinct (map fst ds)" "centre_mass ds \<le> bucket_mass (pl_claimed P)" "fst ` set ds \<inter> set ?arch = {}"
    using direct(2) by (simp_all add: lines_ok_def pools_ok_def new_bucket_def)
  have "centre_mass ds < 2 ^ 51" "bucket_mass (pl_claimed P) + bucket_mass (pl_pools P) < 2 ^ 51"
    using ds(2) sums(3) nonneg mass by linarith+
  note pools = pool_passes [OF pools0 sums(5) ds(1) this(1) ds(3) this(2), of lc]
  obtain ks nd where final: "foldl (pool_pass lc ds) (ls, new_bucket) (pl_pools P) = (ks, nd)"
    by (cases "foldl (pool_pass lc ds) (ls, new_bucket) (pl_pools P)")
  have ok: "line_sum ks + mb_micros nd = bucket_sum (pl_claimed P) + bucket_sum (pl_pools P)"
    "line_mass ks + \<bar>mb_micros nd\<bar> \<le> bucket_mass (pl_claimed P) + bucket_mass (pl_pools P)"
    "\<forall>l \<in> set ks. accountable rules ?arch l"
    using pools unfolding final pools_ok_def by simp_all
  let ?rest = "foldl (push_unallocated lc) [] [(''no_matching_rule'', pl_unmatched P), (''no_driver_for_proportional_pool'', nd),
                       (''target_cost_centre_archived'', pl_archived P)]"
  have rest: "sum_list (map ul_micros ?rest) = u + mb_micros nd + a"
    "sum_list (map (\<lambda>x. \<bar>ul_micros x\<bar>) ?rest) = \<bar>u\<bar> + \<bar>mb_micros nd\<bar> + \<bar>a\<bar>"
    by (simp_all add: push_unallocated_sums u_def a_def)
  have p53: "row_mass rows < 2 ^ 53" using mass power_increasing [of 51 53 "2 :: int"] by linarith
  have m: "line_mass ks + \<bar>mb_micros nd\<bar> + \<bar>u\<bar> + \<bar>a\<bar> \<le> row_mass rows" "0 \<le> line_mass ks"
    using ok(2) sums(3) line_mass_nonneg by auto
  have "line_mass ks \<le> 2 ^ 53" using m p53 by linarith
  then have allocated: "foldl (\<lambda>s l. int_add s (al_micros l)) 0 ks = line_sum ks"
    using int_add_fold [of 0 al_micros ks] by (simp add: line_sum_def line_mass_def)
  have "\<bar>u\<bar> + \<bar>mb_micros nd\<bar> + \<bar>a\<bar> \<le> 2 ^ 53" using m p53 by linarith
  then have unallocated: "foldl (\<lambda>s x. int_add s (ul_micros x)) 0 ?rest = u + mb_micros nd + a"
    using int_add_fold [of 0 ul_micros ?rest] unfolding rest by simp
  have whole: "line_sum ks + (u + mb_micros nd + a) = row_sum rows" using ok(1) sums(2) by linarith
  moreover have "\<bar>row_sum rows\<bar> \<le> 2 ^ 53" using row_sum_le_mass [of rows] p53 by linarith
  ultimately have "int_add (line_sum ks) (u + mb_micros nd + a) = row_sum rows" by (simp add: int_add_exact)
  moreover have "apply_allocation lc rows rules centres ps pe pruned
      = Inr \<lparr>run_start = ps, run_end = pe, run_total = pl_total P, run_allocated = line_sum ks,
             run_unallocated = u + mb_micros nd + a, run_centres = by_cost_centre lc ks, run_lines = ks, run_rest = ?rest,
             run_bases = sort (to_set (map ar_basis rows)),
             run_conserves = (int_add (line_sum ks) (u + mb_micros nd + a) = pl_total P),
             run_truncated = (case pruned of None \<Rightarrow> False | Some b \<Rightarrow> ps < b), run_pruned = pruned\<rparr>"
    unfolding apply_allocation_def Let_def archived_centres_def [symmetric] P_def [symmetric] direct(1) bindE_simps
      prod.case final allocated unallocated ..
  ultimately show ?thesis using whole ok(3) rest(1) sums(1) by simp
qed

section \<open>Properties\<close>

text \<open>C32: a run over validated rules returns and conserves money exactly, although every share is computed in
  floating point: while the magnitudes of the rows add up to less than \<open>2 ^ 51\<close> micro-dollars, the total is
  the exact sum of the rows, it is what the lines and the unallocated remainder add up to, and the run says
  that it conserves.\<close>

theorem apply_allocation_conserves:
  assumes "\<forall>r \<in> set rules. validate_rule r = Inr ()"
    and "sum_list (map (\<lambda>w. \<bar>row_micros (ar_cost w)\<bar>) rows) < 2 ^ 51"
  shows "\<exists>run. apply_allocation lc rows rules centres ps pe pruned = Inr run \<and> run_conserves run
    \<and> run_total run = sum_list (map (\<lambda>w. row_micros (ar_cost w)) rows)
    \<and> run_allocated run = sum_list (map al_micros (run_lines run))
    \<and> run_unallocated run = sum_list (map ul_micros (run_rest run))
    \<and> run_total run = run_allocated run + run_unallocated run"
  using apply_allocation_run [of rules rows lc centres ps pe pruned] assms
  unfolding row_mass_def row_sum_def line_sum_def by blast

definition sample_rule :: "string \<Rightarrow> string \<Rightarrow> string \<Rightarrow> alloc_target list \<Rightarrow> alloc_rule" where
  "sample_rule i method project targets =
     \<lparr>ru_id = i, ru_version = 1, ru_method = method,
      ru_match = \<lparr>am_project = Some project, am_provider = None, am_model = None, am_source = None, am_user = None\<rparr>,
      ru_targets = targets, ru_priority = 1, ru_from = 0, ru_to = None, ru_revoked = None\<rparr>"

definition sample_rules :: "alloc_rule list" where
  "sample_rules =
     [sample_rule ''r1'' split_method ''app'' [\<lparr>at_centre = ''a'', at_ratio = JNum (1 / 4)\<rparr>, \<lparr>at_centre = ''b'', at_ratio = JNum (3 / 4)\<rparr>],
      sample_rule ''r2'' pool_method ''ops'' [\<lparr>at_centre = ''a'', at_ratio = JNum 0\<rparr>]]"

definition sample_row :: "string \<Rightarrow> rat \<Rightarrow> alloc_row" where
  "sample_row project cost =
     \<lparr>ar_project = project, ar_provider = ''p'', ar_model = ''m'', ar_source = None, ar_user = None, ar_ts = 5,
      ar_cost = cost, ar_basis = ''list''\<rparr>"

definition sample_rows :: "alloc_row list" where
  "sample_rows = [sample_row ''app'' (1 / 2), sample_row ''ops'' (1 / 4), sample_row ''lab'' (- 1 / 8)]"

lemma sample_rules_valid: "\<forall>r \<in> set sample_rules. validate_rule r = Inr ()"
  by code_simp

lemma sample_rows_mass: "sum_list (map (\<lambda>w. \<bar>row_micros (ar_cost w)\<bar>) sample_rows) = 875000"
  "sum_list (map (\<lambda>w. row_micros (ar_cost w)) sample_rows) = 625000"
  by code_simp+

theorem apply_allocation_conserves_witness:
  "\<exists>run. apply_allocation code_unit_cmp sample_rows sample_rules [] 0 10 None = Inr run \<and> run_total run = 625000
    \<and> run_allocated run + run_unallocated run = 625000"
  using apply_allocation_conserves [OF sample_rules_valid, of sample_rows code_unit_cmp "[]" 0 10 None]
  unfolding sample_rows_mass by auto

text \<open>C34: every line of a run is accountable: it names the id, the version and the method of a rule of the rule
  set, and it never pays a cost centre that is archived, through a pool no more than directly.\<close>

theorem allocation_lines_accountable:
  assumes "\<forall>r \<in> set rules. validate_rule r = Inr ()"
    and "sum_list (map (\<lambda>w. \<bar>row_micros (ar_cost w)\<bar>) rows) < 2 ^ 51"
    and "apply_allocation lc rows rules centres ps pe pruned = Inr run" "l \<in> set (run_lines run)"
  shows "(\<exists>r \<in> set rules. al_rule l = ru_id r \<and> al_version l = ru_version r \<and> al_method l = ru_method r)
    \<and> \<not> (\<exists>c \<in> set centres. cc_id c = al_centre l \<and> cc_archived c \<noteq> None)"
proof -
  have "accountable rules (archived_centres centres) l"
    using apply_allocation_run [OF assms(1), of rows lc centres ps pe pruned] assms(2-4) by (auto simp: row_mass_def)
  then show ?thesis by (auto simp: accountable_def archived_centres_def image_iff)
qed

definition one_rule :: "alloc_rule list" where
  "one_rule = [sample_rule ''r1'' direct_method ''app'' [\<lparr>at_centre = ''a'', at_ratio = JNum 1\<rparr>]]"

lemma one_rule_run:
  "case apply_allocation code_unit_cmp [sample_row ''app'' (1 / 2)] one_rule [] 0 10 None of
     Inl e \<Rightarrow> False | Inr run \<Rightarrow> run_lines run \<noteq> []"
  "\<forall>r \<in> set one_rule. validate_rule r = Inr ()"
  "sum_list (map (\<lambda>w. \<bar>row_micros (ar_cost w)\<bar>) [sample_row ''app'' (1 / 2)]) = 500000"
  by code_simp+

theorem allocation_lines_accountable_witness:
  "\<exists>run l. apply_allocation code_unit_cmp [sample_row ''app'' (1 / 2)] one_rule [] 0 10 None = Inr run
    \<and> l \<in> set (run_lines run) \<and> (\<exists>r \<in> set one_rule. al_rule l = ru_id r)"
proof -
  obtain run where run: "apply_allocation code_unit_cmp [sample_row ''app'' (1 / 2)] one_rule [] 0 10 None = Inr run"
    "run_lines run \<noteq> []" using one_rule_run(1) by (auto split: sum.splits)
  then have "hd (run_lines run) \<in> set (run_lines run)" by simp
  with allocation_lines_accountable [OF one_rule_run(2) _ run(1) this] show ?thesis
    using run(1) unfolding one_rule_run(3) by auto
qed

end
