(* ===== verification/ExactAlloc.thy ===== *)
theory ExactAlloc
  imports AllocApply Admissibility Rate
begin

text \<open>
  Exact allocation (\<open>src/src/alloc/exact.ts\<close>): the rules of \<open>rules.ts\<close> applied to amounts of exact money,
  with no conversion to a number.  Amounts are kept apart by identity, the pair of currency and economic
  basis; the source keys its maps with the two joined by a NUL, and with rule id and version before them,
  which is one-to-one because currencies are three capital letters and bases are names.  The rows come as raw
  values, the rules as records.  A bucket's list of rows, which nothing reads, is left out.
\<close>

section \<open>Rows and results\<close>

type_synonym ident = "string \<times> economic_basis"

record exact_row =
  xr_sources :: "string list"
  xr_amount :: money
  xr_project :: string
  xr_provider :: string
  xr_model :: string
  xr_source :: "string option"
  xr_user :: "string option"
  xr_ts :: int

record money_bucket =
  xb_currency :: string
  xb_basis :: economic_basis
  xb_amount :: money
  xb_sources :: "string list"

record exact_line =
  xl_centre :: string
  xl_rule :: string
  xl_version :: rat
  xl_method :: string
  xl_parts :: int
  xl_amount :: money
  xl_basis :: economic_basis
  xl_sources :: "string list"

record exact_rest =
  xu_reason :: string
  xu_amount :: money
  xu_basis :: economic_basis
  xu_sources :: "string list"
  xu_projects :: "(string \<times> money) list"

record exact_run =
  xa_start :: int
  xa_end :: int
  xa_run_at :: int
  xa_total :: "money_bucket list"
  xa_allocated :: "money_bucket list"
  xa_unallocated :: "money_bucket list"
  xa_lines :: "exact_line list"
  xa_rest :: "exact_rest list"
  xa_bases :: "string list"
  xa_unresolved :: "string list"
  xa_complete :: bool
  xa_conserves :: bool
  xa_excluded :: "string list"

definition exact_excluded_floor :: "string list" where
  "exact_excluded_floor = [''request_metered_spend'', ''budget_enforcement'', ''roi'', ''model_recommendations'']"

definition exact_allocation_claim_profile :: "bool \<Rightarrow> claim_profile" where
  "exact_allocation_claim_profile full =
     \<lparr>pf_epistemic = ESupported, pf_integrity = IntVerified, pf_authenticity = AuthSelfAsserted, pf_scope = ScConditional,
      pf_coverage = (if full then CovComplete else CovPartial), pf_measurement = MeasProxyUnvalidated, pf_causality = CauNone,
      pf_basis = MbAllocated, pf_finality = FinProvisional, pf_fitness = FitNotAssessed\<rparr>"

definition exact_excluded_from :: "bool \<Rightarrow> string list res" where
  "exact_excluded_from full = barred_uses (exact_allocation_claim_profile full) exact_excluded_floor"

definition with_unresolved_requests :: "exact_run \<Rightarrow> string list \<Rightarrow> exact_run res" where
  "with_unresolved_requests run ids =
     (let unresolved = sort (to_set ids); full = (unresolved = [])
      in bindE (exact_excluded_from full) (\<lambda>excluded.
           Inr (run\<lparr>xa_unresolved := unresolved, xa_complete := full, xa_excluded := excluded\<rparr>)))"

section \<open>Canonical rows\<close>

definition exact_row_keys :: "string list" where
  "exact_row_keys = [''sourceEventIds'', ''amount'', ''project'', ''provider'', ''model'', ''source'', ''user'', ''tsEpochMs'']"

definition exact_money_value :: "string \<Rightarrow> jsval \<Rightarrow> money res" where
  "exact_money_value label v =
     (case field ''coefficient'' v of
        JBigInt c \<Rightarrow>
          (if \<not> keys_are [''basis'', ''coefficient'', ''currency'', ''scale''] v
           then Inl (label @ '' contains unknown or missing Money fields'')
           else money_from_json (JObj [(''coefficient'', JStr (show_int c)), (''scale'', field ''scale'' v),
                                       (''currency'', field ''currency'' v), (''basis'', field ''basis'' v)]))
      | _ \<Rightarrow> Inl (label @ '' must be an exact Money value''))"

fun claim_sources :: "string list \<Rightarrow> jsval list \<Rightarrow> (string list \<times> string list) res" where
  "claim_sources seen [] = Inr (seen, [])"
| "claim_sources seen (v # vs) =
     (case v of
        JStr s \<Rightarrow>
          if trim s = [] then Inl ''exact allocation sourceEventIds must be non-empty''
          else if s \<in> set seen then Inl ''exact allocation source event is assigned more than once''
          else bindE (claim_sources (s # seen) vs) (\<lambda>(seen', ss). Inr (seen', s # ss))
      | _ \<Rightarrow> Inl ''exact allocation sourceEventIds must be non-empty'')"

definition trimmed_text :: "string \<Rightarrow> jsval \<Rightarrow> string res" where
  "trimmed_text label v =
     (case v of JStr s \<Rightarrow> if trim s = [] then Inl (label @ '' must be non-empty'') else Inr (trim s)
      | _ \<Rightarrow> Inl (label @ '' must be non-empty''))"

definition nullable_text :: "string \<Rightarrow> jsval \<Rightarrow> string option res" where
  "nullable_text label v =
     (case v of JStr s \<Rightarrow> Inr (Some s) | JNull \<Rightarrow> Inr None | JUndefined \<Rightarrow> Inr None
      | _ \<Rightarrow> Inl (label @ '' must be a string or null''))"

definition canonical_exact_row :: "int \<Rightarrow> int \<Rightarrow> string list \<times> exact_row list \<Rightarrow> jsval \<Rightarrow> (string list \<times> exact_row list) res" where
  "canonical_exact_row period_start period_end st v =
     (if \<not> is_object v then Inl ''exact allocation row must be an object''
      else if \<not> list_all (\<lambda>k. k \<in> set exact_row_keys) (keys_of v) then Inl ''exact allocation row contains unknown field''
      else case field ''sourceEventIds'' v of
        JArr ids \<Rightarrow>
          (if ids = [] then Inl ''exact allocation row requires source event ids''
           else bindE (claim_sources (fst st) ids) (\<lambda>(seen, sources).
             case safe_integer (field ''tsEpochMs'' v) of
               None \<Rightarrow> Inl ''exact allocation row is outside the requested period''
             | Some ts \<Rightarrow>
                 if ts < period_start \<or> period_end \<le> ts then Inl ''exact allocation row is outside the requested period''
                 else
                 bindE (trimmed_text ''project'' (field ''project'' v)) (\<lambda>project.
                 bindE (trimmed_text ''provider'' (field ''provider'' v)) (\<lambda>provider.
                 bindE (trimmed_text ''model'' (field ''model'' v)) (\<lambda>model.
                 bindE (nullable_text ''source'' (field ''source'' v)) (\<lambda>source.
                 bindE (nullable_text ''user'' (field ''user'' v)) (\<lambda>user.
                 bindE (exact_money_value ''exact allocation row amount'' (field ''amount'' v)) (\<lambda>amount.
                   Inr (seen, snd st @ [\<lparr>xr_sources = sources, xr_amount = amount, xr_project = project, xr_provider = provider,
                                         xr_model = model, xr_source = source, xr_user = user, xr_ts = ts\<rparr>])))))))))
      | _ \<Rightarrow> Inl ''exact allocation row requires source event ids'')"

definition canonical_exact_rows :: "jsval \<Rightarrow> jsval \<Rightarrow> jsval \<Rightarrow> (int \<times> int \<times> exact_row list) res" where
  "canonical_exact_rows rows period_start period_end =
     (case rows of
        JArr vs \<Rightarrow>
          (case (safe_integer period_start, safe_integer period_end) of
             (Some s, Some e) \<Rightarrow>
               if e \<le> s then Inl ''exact allocation period must be ordered safe timestamps''
               else bindE (foldE (canonical_exact_row s e) ([], []) vs) (\<lambda>(seen, rs). Inr (s, e, rs))
           | _ \<Rightarrow> Inl ''exact allocation period must be ordered safe timestamps'')
      | _ \<Rightarrow> Inl ''exact allocation rows must be an array'')"

section \<open>Buckets and maps\<close>

record exact_bucket =
  eb_amount :: money
  eb_sources :: "string list"
  eb_projects :: "(string \<times> money) list"

definition zero_money :: "string \<Rightarrow> economic_basis \<Rightarrow> money res" where
  "zero_money cur b = money ''0'' cur (basis_name b)"

definition empty_bucket :: "money \<Rightarrow> exact_bucket res" where
  "empty_bucket m = bindE (zero_money (currency m) (basis m)) (\<lambda>z. Inr \<lparr>eb_amount = z, eb_sources = [], eb_projects = []\<rparr>)"

definition add_keyed :: "'k \<Rightarrow> money \<Rightarrow> ('k \<times> money) list \<Rightarrow> ('k \<times> money) list res" where
  "add_keyed k m xs =
     bindE (case map_of xs k of None \<Rightarrow> Inr m | Some prior \<Rightarrow> add_money prior m) (\<lambda>s. Inr (AList.update k s xs))"

definition add_to_bucket :: "exact_bucket \<Rightarrow> exact_row \<Rightarrow> exact_bucket res" where
  "add_to_bucket b r =
     bindE (add_money (eb_amount b) (xr_amount r)) (\<lambda>a.
     bindE (add_keyed (xr_project r) (xr_amount r) (eb_projects b)) (\<lambda>ps.
       Inr \<lparr>eb_amount = a, eb_sources = eb_sources b @ xr_sources r, eb_projects = ps\<rparr>))"

type_synonym ident_map = "(ident \<times> money) list \<times> (ident \<times> string list) list"

definition add_amount :: "ident_map \<Rightarrow> money \<Rightarrow> string list \<Rightarrow> ident_map res" where
  "add_amount m a ids =
     (let key = money_ident a;
          seen = (case map_of (snd m) key of None \<Rightarrow> [] | Some ss \<Rightarrow> ss)
      in bindE (add_keyed key a (fst m)) (\<lambda>amounts.
           Inr (amounts, AList.update key (fold set_add ids seen) (snd m))))"

definition add_grouped :: "(ident \<times> exact_bucket) list \<Rightarrow> exact_row \<Rightarrow> (ident \<times> exact_bucket) list res" where
  "add_grouped gs r =
     (let key = money_ident (xr_amount r) in
      bindE (case map_of gs key of None \<Rightarrow> empty_bucket (xr_amount r) | Some b \<Rightarrow> Inr b) (\<lambda>b.
      bindE (add_to_bucket b r) (\<lambda>b'. Inr (AList.update key b' gs))))"

definition source_ids :: "exact_bucket \<Rightarrow> string list" where
  "source_ids b = sort (to_set (eb_sources b))"

text \<open>\<open>splitByWeights\<close>; whatever the conversion refuses is reported as a missing quantization policy.\<close>

definition weighted_share :: "money \<Rightarrow> int \<Rightarrow> (string \<times> money) list \<Rightarrow> string \<times> int \<Rightarrow> (string \<times> money) list res" where
  "weighted_share tot denom out cw =
     (case bindE (exact_rate (snd cw) denom (currency tot) (currency tot) JUndefined)
             (\<lambda>r. apply_exact_rate tot r (basis_name (basis tot))) of
        Inl e \<Rightarrow> Inl ''exact allocation requires an explicit quantization policy for a non-terminating share''
      | Inr m \<Rightarrow> Inr (AList.update (fst cw) m out))"

definition split_by_weights :: "money \<Rightarrow> (string \<times> int) list \<Rightarrow> (string \<times> money) list res" where
  "split_by_weights tot ws =
     (let positive = filter (\<lambda>cw. 0 < snd cw) ws; denom = sum_list (map snd positive)
      in if denom \<le> 0 then Inr [] else foldE (weighted_share tot denom) [] positive)"

definition bucket_order :: "(string \<Rightarrow> string \<Rightarrow> int) \<Rightarrow> money_bucket \<Rightarrow> money_bucket \<Rightarrow> int" where
  "bucket_order lc a b = or_cmp (lc (xb_currency a) (xb_currency b)) (lc (basis_name (xb_basis a)) (basis_name (xb_basis b)))"

definition as_bucket_map :: "(string \<Rightarrow> string \<Rightarrow> int) \<Rightarrow> ident_map \<Rightarrow> money_bucket list" where
  "as_bucket_map lc m =
     sort_by (bucket_order lc)
       (map (\<lambda>(key, a). \<lparr>xb_currency = fst key, xb_basis = snd key, xb_amount = a,
                         xb_sources = sort (case map_of (snd m) key of None \<Rightarrow> [] | Some ss \<Rightarrow> ss)\<rparr>) (fst m))"

text \<open>The comparator \<open>compareMoney(b, a)\<close> of the projects of one bucket, whose amounts share their identity.\<close>

definition project_order :: "(string \<Rightarrow> string \<Rightarrow> int) \<Rightarrow> string \<times> money \<Rightarrow> string \<times> money \<Rightarrow> int" where
  "project_order lc x y =
     or_cmp (case compare_money (snd y) (snd x) of Inl e \<Rightarrow> 0 | Inr k \<Rightarrow> k) (lc (fst x) (fst y))"

definition exact_top_projects :: "(string \<Rightarrow> string \<Rightarrow> int) \<Rightarrow> exact_bucket \<Rightarrow> (string \<times> money) list" where
  "exact_top_projects lc b = take 5 (sort_by (project_order lc) (eb_projects b))"

section \<open>Placing the rows\<close>

type_synonym exact_key = "string \<times> rat \<times> ident"
type_synonym exact_rule_buckets = "(exact_key \<times> alloc_rule \<times> exact_bucket) list"

record exact_places =
  xp_total :: ident_map
  xp_claimed :: exact_rule_buckets
  xp_pools :: exact_rule_buckets
  xp_unmatched :: "(ident \<times> exact_bucket) list"
  xp_archived :: "(ident \<times> exact_bucket) list"

definition no_exact_places :: exact_places where
  "no_exact_places = \<lparr>xp_total = ([], []), xp_claimed = [], xp_pools = [], xp_unmatched = [], xp_archived = []\<rparr>"

definition matching_row :: "exact_row \<Rightarrow> alloc_row" where
  "matching_row r =
     \<lparr>ar_project = xr_project r, ar_provider = xr_provider r, ar_model = xr_model r, ar_source = xr_source r, ar_user = xr_user r,
      ar_ts = of_int (xr_ts r), ar_cost = 0, ar_basis = basis_name (basis (xr_amount r))\<rparr>"

definition add_to_exact_rule :: "exact_rule_buckets \<Rightarrow> alloc_rule \<Rightarrow> exact_row \<Rightarrow> exact_rule_buckets res" where
  "add_to_exact_rule bs rule r =
     (let key = (ru_id rule, ru_version rule, money_ident (xr_amount r)) in
      bindE (case map_of bs key of None \<Rightarrow> bindE (empty_bucket (xr_amount r)) (\<lambda>b. Inr (rule, b)) | Some entry \<Rightarrow> Inr entry) (\<lambda>entry.
      bindE (add_to_bucket (snd entry) r) (\<lambda>b. Inr (AList.update key (fst entry, b) bs))))"

definition place_exact_row :: "alloc_rule list \<Rightarrow> string list \<Rightarrow> exact_places \<Rightarrow> exact_row \<Rightarrow> exact_places res" where
  "place_exact_row ordered archived P r =
     bindE (add_amount (xp_total P) (xr_amount r) (xr_sources r)) (\<lambda>t.
       case List.find (\<lambda>rule. rule_applies_at rule (of_int (xr_ts r)) \<and> matches_row rule (matching_row r)) ordered of
         None \<Rightarrow> bindE (add_grouped (xp_unmatched P) r) (\<lambda>g. Inr (P\<lparr>xp_total := t, xp_unmatched := g\<rparr>))
       | Some rule \<Rightarrow>
           if ru_method rule \<noteq> pool_method \<and> list_ex (\<lambda>tg. at_centre tg \<in> set archived) (ru_targets rule)
           then bindE (add_grouped (xp_archived P) r) (\<lambda>g. Inr (P\<lparr>xp_total := t, xp_archived := g\<rparr>))
           else if ru_method rule = pool_method
           then bindE (add_to_exact_rule (xp_pools P) rule r) (\<lambda>bs. Inr (P\<lparr>xp_total := t, xp_pools := bs\<rparr>))
           else bindE (add_to_exact_rule (xp_claimed P) rule r) (\<lambda>bs. Inr (P\<lparr>xp_total := t, xp_claimed := bs\<rparr>)))"

section \<open>The passes\<close>

record exact_state =
  xs_lines :: "exact_line list"
  xs_allocated :: ident_map
  xs_unallocated :: ident_map
  xs_drivers :: "(ident \<times> (string \<times> money) list) list"

definition no_exact_state :: exact_state where
  "no_exact_state = \<lparr>xs_lines = [], xs_allocated = ([], []), xs_unallocated = ([], []), xs_drivers = []\<rparr>"

definition rule_line :: "alloc_rule \<Rightarrow> exact_bucket \<Rightarrow> string \<Rightarrow> int \<Rightarrow> money \<Rightarrow> exact_line" where
  "rule_line rule b centre parts amount =
     \<lparr>xl_centre = centre, xl_rule = ru_id rule, xl_version = ru_version rule, xl_method = ru_method rule, xl_parts = parts,
      xl_amount = amount, xl_basis = basis (eb_amount b), xl_sources = source_ids b\<rparr>"

definition add_driver :: "(ident \<times> (string \<times> money) list) list \<Rightarrow> ident \<Rightarrow> string \<Rightarrow> money \<Rightarrow> (ident \<times> (string \<times> money) list) list res" where
  "add_driver ds i centre amount =
     (if coefficient amount \<le> 0 then Inr ds
      else bindE (add_keyed centre amount (case map_of ds i of None \<Rightarrow> [] | Some d \<Rightarrow> d)) (\<lambda>d. Inr (AList.update i d ds)))"

definition claimed_target ::
    "alloc_rule \<Rightarrow> exact_bucket \<Rightarrow> (string \<times> money) list \<Rightarrow> exact_state \<Rightarrow> alloc_target \<Rightarrow> exact_state res" where
  "claimed_target rule b split st t =
     bindE (case map_of split (at_centre t) of
              None \<Rightarrow> zero_money (currency (eb_amount b)) (basis (eb_amount b)) | Some m \<Rightarrow> Inr m) (\<lambda>amount.
     bindE (target_parts t) (\<lambda>parts.
     bindE (add_amount (xs_allocated st) amount (eb_sources b)) (\<lambda>al.
     bindE (add_driver (xs_drivers st) (money_ident (eb_amount b)) (at_centre t) amount) (\<lambda>ds.
       Inr (st\<lparr>xs_lines := xs_lines st @ [rule_line rule b (at_centre t) parts amount], xs_allocated := al, xs_drivers := ds\<rparr>)))))"

definition claimed_pass :: "exact_state \<Rightarrow> exact_key \<times> alloc_rule \<times> exact_bucket \<Rightarrow> exact_state res" where
  "claimed_pass st entry =
     (let rule = fst (snd entry); b = snd (snd entry) in
      bindE (mapE (\<lambda>t. bindE (target_parts t) (\<lambda>p. Inr (at_centre t, p))) (ru_targets rule)) (\<lambda>ws.
      bindE (split_by_weights (eb_amount b) ws) (\<lambda>split.
        foldE (claimed_target rule b split) st (ru_targets rule))))"

definition positive_drivers :: "exact_state \<Rightarrow> ident \<Rightarrow> (string \<times> money) list" where
  "positive_drivers st i = filter (\<lambda>d. 0 < coefficient (snd d)) (case map_of (xs_drivers st) i of None \<Rightarrow> [] | Some d \<Rightarrow> d)"

definition driver_weights :: "(string \<times> money) list \<Rightarrow> (string \<times> int) list" where
  "driver_weights ds =
     (let common = Max (set (map (\<lambda>d. scale (snd d)) ds))
      in map (\<lambda>d. (fst d, coefficient (snd d) * 10 ^ (common - scale (snd d)))) ds)"

definition pool_share ::
    "alloc_rule \<Rightarrow> exact_bucket \<Rightarrow> (string \<times> int) list \<Rightarrow> exact_state \<Rightarrow> string \<times> money \<Rightarrow> exact_state res" where
  "pool_share rule b weights st share =
     (let w = (case List.find (\<lambda>cw. fst cw = fst share) weights of None \<Rightarrow> 0 | Some cw \<Rightarrow> snd cw);
          parts = w * ratio_scale div sum_list (map snd weights)
      in bindE (add_amount (xs_allocated st) (snd share) (eb_sources b)) (\<lambda>al.
           Inr (st\<lparr>xs_lines := xs_lines st @ [rule_line rule b (fst share) parts (snd share)], xs_allocated := al\<rparr>)))"

definition exact_pool_pass :: "exact_state \<Rightarrow> exact_key \<times> alloc_rule \<times> exact_bucket \<Rightarrow> exact_state res" where
  "exact_pool_pass st entry =
     (let rule = fst (snd entry); b = snd (snd entry); drivers = positive_drivers st (money_ident (eb_amount b)) in
      if drivers = [] then bindE (add_amount (xs_unallocated st) (eb_amount b) (eb_sources b)) (\<lambda>u. Inr (st\<lparr>xs_unallocated := u\<rparr>))
      else let weights = driver_weights drivers in
           bindE (split_by_weights (eb_amount b) weights) (\<lambda>split. foldE (pool_share rule b weights) st split))"

definition rest_line :: "(string \<Rightarrow> string \<Rightarrow> int) \<Rightarrow> string \<Rightarrow> exact_bucket \<Rightarrow> exact_rest" where
  "rest_line lc reason b =
     \<lparr>xu_reason = reason, xu_amount = eb_amount b, xu_basis = basis (eb_amount b), xu_sources = source_ids b,
      xu_projects = exact_top_projects lc b\<rparr>"

definition append_unallocated ::
    "(string \<Rightarrow> string \<Rightarrow> int) \<Rightarrow> string \<Rightarrow> exact_rest list \<times> ident_map \<Rightarrow> ident \<times> exact_bucket \<Rightarrow> (exact_rest list \<times> ident_map) res" where
  "append_unallocated lc reason st g =
     bindE (add_amount (snd st) (eb_amount (snd g)) (eb_sources (snd g))) (\<lambda>u.
       Inr (fst st @ [rest_line lc reason (snd g)], u))"

text \<open>A pool without a driver was added to the unallocated amounts by the second pass already; the source
  tells so by looking for one of its source ids.\<close>

definition append_pool ::
    "(string \<Rightarrow> string \<Rightarrow> int) \<Rightarrow> (ident \<times> (string \<times> money) list) list \<Rightarrow> exact_rest list \<times> ident_map
      \<Rightarrow> exact_key \<times> alloc_rule \<times> exact_bucket \<Rightarrow> (exact_rest list \<times> ident_map) res" where
  "append_pool lc drivers st entry =
     (let b = snd (snd entry); i = money_ident (eb_amount b) in
      if (case map_of drivers i of None \<Rightarrow> True | Some d \<Rightarrow> d = []) then
        (let already = (case map_of (snd (snd st)) i of None \<Rightarrow> [] | Some ss \<Rightarrow> ss);
             rest = fst st @ [rest_line lc ''no_driver_for_proportional_pool'' b]
         in if list_ex (\<lambda>s. s \<in> set (eb_sources b)) already then Inr (rest, snd st)
            else bindE (add_amount (snd st) (eb_amount b) (eb_sources b)) (\<lambda>u. Inr (rest, u)))
      else Inr st)"

section \<open>The run\<close>

definition line_order :: "(string \<Rightarrow> string \<Rightarrow> int) \<Rightarrow> exact_line \<Rightarrow> exact_line \<Rightarrow> int" where
  "line_order lc a b =
     or_cmp (lc (currency (xl_amount a)) (currency (xl_amount b)))
       (or_cmp (lc (basis_name (basis (xl_amount a))) (basis_name (basis (xl_amount b))))
         (or_cmp (lc (xl_rule a) (xl_rule b)) (or_cmp (num_cmp (xl_version a) (xl_version b)) (lc (xl_centre a) (xl_centre b)))))"

definition rest_order :: "(string \<Rightarrow> string \<Rightarrow> int) \<Rightarrow> exact_rest \<Rightarrow> exact_rest \<Rightarrow> int" where
  "rest_order lc a b =
     or_cmp (lc (currency (xu_amount a)) (currency (xu_amount b)))
       (or_cmp (lc (basis_name (basis (xu_amount a))) (basis_name (basis (xu_amount b))))
         (or_cmp (lc (xu_reason a) (xu_reason b)) (lc (join_nul (xu_sources a)) (join_nul (xu_sources b)))))"

definition amount_or_zero :: "(ident \<times> money) list \<Rightarrow> ident \<Rightarrow> money res" where
  "amount_or_zero m i = (case map_of m i of None \<Rightarrow> zero_money (fst i) (snd i) | Some x \<Rightarrow> Inr x)"

definition check_identity :: "ident_map \<Rightarrow> ident_map \<Rightarrow> ident_map \<Rightarrow> bool \<Rightarrow> ident \<Rightarrow> bool res" where
  "check_identity tot al un conserves i =
     bindE (amount_or_zero (fst tot) i) (\<lambda>expected.
     bindE (amount_or_zero (fst al) i) (\<lambda>a.
     bindE (amount_or_zero (fst un) i) (\<lambda>u.
     bindE (add_money a u) (\<lambda>placed.
     bindE (compare_money expected placed) (\<lambda>k. Inr (if k \<noteq> 0 then False else conserves))))))"

definition check_rule_targets :: "string list \<Rightarrow> alloc_rule \<Rightarrow> unit res" where
  "check_rule_targets known rule =
     foldE (\<lambda>_ t. if at_centre t \<notin> set known then Inl ''exact allocation rule names an unknown cost centre'' else Inr ()) ()
       (ru_targets rule)"

definition apply_exact_allocation ::
    "(string \<Rightarrow> string \<Rightarrow> int) \<Rightarrow> jsval \<Rightarrow> alloc_rule list \<Rightarrow> cost_centre list \<Rightarrow> jsval \<Rightarrow> jsval \<Rightarrow> jsval \<Rightarrow> exact_run res" where
  "apply_exact_allocation lc raw_rows rules centres period_start period_end run_at =
     bindE (canonical_exact_rows raw_rows period_start period_end) (\<lambda>(ps, pe, rows).
     bindE (foldE (\<lambda>_. validate_rule) () rules) (\<lambda>_.
     case safe_integer run_at of
       None \<Rightarrow> Inl ''exact allocation runAt must be a safe timestamp''
     | Some at_ms \<Rightarrow>
     (let ordered = order_rules lc rules;
          archived = map cc_id (filter (\<lambda>c. cc_archived c \<noteq> None) centres);
          known = map cc_id centres
      in bindE (foldE (\<lambda>_. check_rule_targets known) () ordered) (\<lambda>_.
         bindE (foldE (place_exact_row ordered archived) no_exact_places rows) (\<lambda>P.
         bindE (foldE claimed_pass no_exact_state (xp_claimed P)) (\<lambda>st1.
         bindE (foldE exact_pool_pass st1 (xp_pools P)) (\<lambda>st2.
         bindE (foldE (append_unallocated lc ''no_matching_rule'') ([], xs_unallocated st2) (xp_unmatched P)) (\<lambda>u1.
         bindE (foldE (append_unallocated lc ''target_cost_centre_archived'') u1 (xp_archived P)) (\<lambda>u2.
         bindE (foldE (append_pool lc (xs_drivers st2)) u2 (xp_pools P)) (\<lambda>(rest, un).
         bindE (foldE (check_identity (xp_total P) (xs_allocated st2) un) True
                  (to_set (map fst (fst (xp_total P)) @ map fst (fst (xs_allocated st2)) @ map fst (fst un)))) (\<lambda>conserves.
         bindE (exact_excluded_from True) (\<lambda>excluded.
           Inr \<lparr>xa_start = ps, xa_end = pe, xa_run_at = at_ms, xa_total = as_bucket_map lc (xp_total P),
                xa_allocated = as_bucket_map lc (xs_allocated st2), xa_unallocated = as_bucket_map lc un,
                xa_lines = sort_by (line_order lc) (xs_lines st2), xa_rest = sort_by (rest_order lc) rest,
                xa_bases = sort (to_set (map (\<lambda>r. basis_name (basis (xr_amount r))) rows)), xa_unresolved = [],
                xa_complete = True, xa_conserves = conserves, xa_excluded = excluded\<rparr>))))))))))))"

end
