(* ===== verification/ExactJson.thy ===== *)
theory ExactJson
  imports ExactAlloc Events
begin

text \<open>
  The persisted form of an exact allocation run (\<open>src/src/alloc/exact.ts\<close>): its JSON form, the validator that
  recomputes conservation and lineage before a run is written or trusted, and the reader that rebuilds a run
  from a parsed body.  Canonical JSON text, its digest and the envelope around them are left out: the reader
  starts at the parsed value.  A run that reaches the validator is an object whose amounts are \<open>Money\<close> with a
  \<open>BigInt\<close> coefficient, the JSON form the same object with the text of the coefficient.
\<close>

section \<open>The two forms of a run\<close>

definition exact_trust :: string where
  "exact_trust = ''derived_allocation_of_exact_effective_charges''"

definition strings_form :: "string list \<Rightarrow> jsval" where
  "strings_form ss = JArr (map JStr ss)"

definition bucket_form :: "(money \<Rightarrow> jsval) \<Rightarrow> money_bucket \<Rightarrow> jsval" where
  "bucket_form mj b =
     JObj [(''currency'', JStr (xb_currency b)), (''basis'', JStr (basis_name (xb_basis b))), (''amount'', mj (xb_amount b)),
           (''sourceEventIds'', strings_form (xb_sources b))]"

definition line_form :: "(money \<Rightarrow> jsval) \<Rightarrow> exact_line \<Rightarrow> jsval" where
  "line_form mj l =
     JObj [(''costCentreId'', JStr (xl_centre l)), (''ruleId'', JStr (xl_rule l)), (''ruleVersion'', JNum (xl_version l)),
           (''method'', JStr (xl_method l)), (''ratioParts'', JNum (of_int (xl_parts l))), (''amount'', mj (xl_amount l)),
           (''sourceBasis'', JStr (basis_name (xl_basis l))), (''sourceEventIds'', strings_form (xl_sources l))]"

definition project_form :: "(money \<Rightarrow> jsval) \<Rightarrow> string \<times> money \<Rightarrow> jsval" where
  "project_form mj p = JObj [(''project'', JStr (fst p)), (''amount'', mj (snd p))]"

definition rest_form :: "(money \<Rightarrow> jsval) \<Rightarrow> exact_rest \<Rightarrow> jsval" where
  "rest_form mj u =
     JObj [(''reason'', JStr (xu_reason u)), (''amount'', mj (xu_amount u)), (''sourceBasis'', JStr (basis_name (xu_basis u))),
           (''sourceEventIds'', strings_form (xu_sources u)), (''topProjects'', JArr (map (project_form mj) (xu_projects u)))]"

definition run_form :: "(money \<Rightarrow> jsval) \<Rightarrow> exact_run \<Rightarrow> jsval" where
  "run_form mj r =
     JObj [(''periodStartMs'', JNum (of_int (xa_start r))), (''periodEndMs'', JNum (of_int (xa_end r))),
           (''runAtMs'', JNum (of_int (xa_run_at r))), (''totalByIdentity'', JArr (map (bucket_form mj) (xa_total r))),
           (''allocatedByIdentity'', JArr (map (bucket_form mj) (xa_allocated r))),
           (''unallocatedByIdentity'', JArr (map (bucket_form mj) (xa_unallocated r))),
           (''lines'', JArr (map (line_form mj) (xa_lines r))), (''unallocated'', JArr (map (rest_form mj) (xa_rest r))),
           (''sourceBases'', strings_form (xa_bases r)), (''unresolvedRequestIds'', strings_form (xa_unresolved r)),
           (''complete'', JBool (xa_complete r)), (''conserves'', JBool (xa_conserves r)), (''trust'', JStr exact_trust),
           (''excludedFrom'', strings_form (xa_excluded r))]"

definition exact_allocation_to_json :: "exact_run \<Rightarrow> jsval" where
  "exact_allocation_to_json r = run_form money_to_json r"

definition exact_run_object :: "exact_run \<Rightarrow> jsval" where
  "exact_run_object r = run_form money_object r"

section \<open>Field checks\<close>

definition result_keys :: "string list" where
  "result_keys =
     [''allocatedByIdentity'', ''complete'', ''conserves'', ''excludedFrom'', ''lines'', ''periodEndMs'', ''periodStartMs'', ''runAtMs'',
      ''sourceBases'', ''totalByIdentity'', ''unallocated'', ''unallocatedByIdentity'', ''unresolvedRequestIds'', ''trust'']"

definition bucket_keys :: "string list" where
  "bucket_keys = [''amount'', ''basis'', ''currency'', ''sourceEventIds'']"

definition line_keys :: "string list" where
  "line_keys = [''amount'', ''costCentreId'', ''method'', ''ratioParts'', ''ruleId'', ''ruleVersion'', ''sourceBasis'', ''sourceEventIds'']"

definition unallocated_keys :: "string list" where
  "unallocated_keys = [''amount'', ''reason'', ''sourceBasis'', ''sourceEventIds'', ''topProjects'']"

definition top_project_keys :: "string list" where
  "top_project_keys = [''amount'', ''project'']"

definition unallocated_reasons :: "string list" where
  "unallocated_reasons = [''no_matching_rule'', ''no_driver_for_proportional_pool'', ''target_cost_centre_archived'']"

definition exact_object :: "jsval \<Rightarrow> string \<Rightarrow> unit res" where
  "exact_object v label = (if is_object v then Inr () else Inl (label @ '' must be an object''))"

definition exact_fields :: "jsval \<Rightarrow> string list \<Rightarrow> string \<Rightarrow> unit res" where
  "exact_fields v expected label =
     (if keys_are expected v then Inr () else Inl (label @ '' contains unknown or missing fields''))"

definition exact_safe_integer :: "jsval \<Rightarrow> string \<Rightarrow> int res" where
  "exact_safe_integer v label =
     (case safe_integer v of None \<Rightarrow> Inl (label @ '' must be a safe integer'') | Some n \<Rightarrow> Inr n)"

fun text_value :: "string \<Rightarrow> jsval \<Rightarrow> string res" where
  "text_value label (JStr s) = (if trim s = [] then Inl (label @ '' must be a non-empty string'') else Inr s)"
| "text_value label _ = Inl (label @ '' must be a non-empty string'')"

fun string_items :: "string \<Rightarrow> string list \<Rightarrow> jsval list \<Rightarrow> string list res" where
  "string_items label seen [] = Inr []"
| "string_items label seen (v # vs) =
     bindE (text_value label v) (\<lambda>t.
       if t \<in> set seen then Inl (label @ '' contains duplicate source id'')
       else bindE (string_items label (t # seen) vs) (\<lambda>ts. Inr (t # ts)))"

definition string_array :: "string \<Rightarrow> bool \<Rightarrow> jsval \<Rightarrow> string list res" where
  "string_array label allow_empty v =
     (case v of
        JArr vs \<Rightarrow> if \<not> allow_empty \<and> vs = [] then Inl (label @ '' must be a non-empty string array'') else string_items label [] vs
      | _ \<Rightarrow> Inl (label @ '' must be a non-empty string array''))"

definition array_value :: "jsval \<Rightarrow> string \<Rightarrow> jsval list res" where
  "array_value v label = (case v of JArr vs \<Rightarrow> Inr vs | _ \<Rightarrow> Inl (label @ '' must be an array''))"

section \<open>The validator\<close>

text \<open>The truth value of \<open>complete\<close> before its type is checked; a number that is not finite, whichever it is, is
  refused by that check.\<close>

fun truthy :: "jsval \<Rightarrow> bool" where
  "truthy JUndefined = False"
| "truthy JNull = False"
| "truthy (JBool b) = b"
| "truthy (JNum r) = (r \<noteq> 0)"
| "truthy (JBigInt i) = (i \<noteq> 0)"
| "truthy (JStr s) = (s \<noteq> [])"
| "truthy _ = True"

definition add_aggregate :: "(ident \<times> money) list \<Rightarrow> money \<Rightarrow> (ident \<times> money) list res" where
  "add_aggregate m amount = add_keyed (money_ident amount) amount m"

definition aggregate_sources :: "(ident \<times> string list) list \<Rightarrow> money \<Rightarrow> string list \<Rightarrow> (ident \<times> string list) list" where
  "aggregate_sources m amount ids =
     AList.update (money_ident amount)
       (fold set_add ids (case map_of m (money_ident amount) of None \<Rightarrow> [] | Some ss \<Rightarrow> ss)) m"

definition amount_map_step :: "string \<Rightarrow> ident_map \<Rightarrow> jsval \<Rightarrow> ident_map res" where
  "amount_map_step label m v =
     bindE (exact_fields v bucket_keys label) (\<lambda>_.
     bindE (exact_money_value label (field ''amount'' v)) (\<lambda>amount.
       let key = money_ident amount in
       if map_of (fst m) key \<noteq> None then Inl (label @ '' contains duplicate currency/basis identity'')
       else if field ''currency'' v \<noteq> JStr (currency amount) \<or> field ''basis'' v \<noteq> JStr (basis_name (basis amount))
            then Inl (label @ '' identity does not match its Money amount'')
       else bindE (string_array label False (field ''sourceEventIds'' v)) (\<lambda>ids.
         Inr (AList.update key amount (fst m), AList.update key (to_set ids) (snd m)))))"

definition amount_map :: "jsval list \<Rightarrow> string \<Rightarrow> ident_map res" where
  "amount_map vs label = foldE (amount_map_step label) ([], []) vs"

fun same_source_set :: "string list option \<Rightarrow> string list option \<Rightarrow> bool" where
  "same_source_set l r =
     (sort (case l of None \<Rightarrow> [] | Some ss \<Rightarrow> ss) = sort (case r of None \<Rightarrow> [] | Some ss \<Rightarrow> ss))"

definition rule_metadata_ok :: "jsval \<Rightarrow> bool" where
  "rule_metadata_ok v =
     ((case field ''method'' v of JStr s \<Rightarrow> s \<in> set alloc_methods | _ \<Rightarrow> False)
      \<and> (case safe_integer (field ''ruleVersion'' v) of None \<Rightarrow> False | Some n \<Rightarrow> 1 \<le> n)
      \<and> (case safe_integer (field ''ratioParts'' v) of None \<Rightarrow> False | Some n \<Rightarrow> 0 \<le> n \<and> n \<le> ratio_scale))"

definition check_result_line :: "ident_map \<Rightarrow> jsval \<Rightarrow> ident_map res" where
  "check_result_line m v =
     bindE (exact_fields v line_keys ''lines'') (\<lambda>_.
     bindE (exact_money_value ''lines'' (field ''amount'' v)) (\<lambda>amount.
       if field ''sourceBasis'' v \<noteq> JStr (basis_name (basis amount)) then Inl ''lines source basis does not match its Money amount''
       else if \<not> rule_metadata_ok v then Inl ''lines has invalid rule metadata''
       else bindE (string_array ''lines'' False (field ''sourceEventIds'' v)) (\<lambda>ids.
            bindE (add_aggregate (fst m) amount) (\<lambda>amounts. Inr (amounts, aggregate_sources (snd m) amount ids)))))"

definition check_result_project :: "money \<Rightarrow> jsval \<Rightarrow> unit res" where
  "check_result_project amount v =
     (if \<not> (case field ''project'' v of JStr s \<Rightarrow> trim s \<noteq> [] | _ \<Rightarrow> False) then Inl ''topProjects is malformed''
      else bindE (exact_fields v top_project_keys ''topProjects'') (\<lambda>_.
           bindE (exact_money_value ''topProjects'' (field ''amount'' v)) (\<lambda>m.
             if currency m \<noteq> currency amount \<or> basis m \<noteq> basis amount then Inl ''topProjects identity mismatch'' else Inr ())))"

definition check_result_rest :: "ident_map \<Rightarrow> jsval \<Rightarrow> ident_map res" where
  "check_result_rest m v =
     bindE (exact_fields v unallocated_keys ''unallocated'') (\<lambda>_.
     bindE (exact_money_value ''unallocated'' (field ''amount'' v)) (\<lambda>amount.
       if field ''sourceBasis'' v \<noteq> JStr (basis_name (basis amount))
          \<or> \<not> (case field ''reason'' v of JStr s \<Rightarrow> s \<in> set unallocated_reasons | _ \<Rightarrow> False)
       then Inl ''unallocated has invalid identity/reason''
       else bindE (string_array ''unallocated'' False (field ''sourceEventIds'' v)) (\<lambda>ids.
            bindE (array_value (field ''topProjects'' v) ''topProjects'') (\<lambda>ps.
            bindE (foldE (\<lambda>_. check_result_project amount) () ps) (\<lambda>_.
            bindE (add_aggregate (fst m) amount) (\<lambda>amounts. Inr (amounts, aggregate_sources (snd m) amount ids)))))))"

definition check_totals ::
    "ident_map \<Rightarrow> ident_map \<Rightarrow> ident_map \<Rightarrow> ident_map \<Rightarrow> ident_map \<Rightarrow> unit \<Rightarrow> ident \<Rightarrow> unit res" where
  "check_totals tot al un ls us u i =
     bindE (amount_or_zero (fst tot) i) (\<lambda>expected.
     bindE (amount_or_zero (fst al) i) (\<lambda>expected_al.
     bindE (amount_or_zero (fst un) i) (\<lambda>expected_un.
     bindE (amount_or_zero (fst ls) i) (\<lambda>actual_al.
     bindE (amount_or_zero (fst us) i) (\<lambda>actual_un.
     bindE (compare_money expected_al actual_al) (\<lambda>k1.
     bindE (if k1 \<noteq> 0 then Inr k1 else compare_money expected_un actual_un) (\<lambda>k2.
       if k1 \<noteq> 0 \<or> k2 \<noteq> 0 then Inl ''exact allocation result identity does not match its line totals''
       else bindE (add_money actual_al actual_un) (\<lambda>placed.
            bindE (compare_money expected placed) (\<lambda>k.
              if k \<noteq> 0 then Inl ''exact allocation result identity does not conserve''
              else if \<not> same_source_set (map_of (snd tot) i)
                     (Some (to_set ((case map_of (snd ls) i of None \<Rightarrow> [] | Some ss \<Rightarrow> ss)
                                    @ (case map_of (snd us) i of None \<Rightarrow> [] | Some ss \<Rightarrow> ss))))
                   then Inl ''exact allocation result identity source lineage does not cover its total''
              else if \<not> same_source_set (map_of (snd al) i) (map_of (snd ls) i)
                   then Inl ''exact allocation result identity allocated lineage diverges''
              else if \<not> same_source_set (map_of (snd un) i) (map_of (snd us) i)
                   then Inl ''exact allocation result identity unallocated lineage diverges''
              else Inr ())))))))))"

definition bases_match :: "ident_map \<Rightarrow> jsval list \<Rightarrow> bool" where
  "bases_match tot vs =
     (case as_strings ''sourceBases'' vs of
        Inl e \<Rightarrow> False
      | Inr bs \<Rightarrow> length (to_set bs) = length bs \<and> list_all (\<lambda>b. b \<in> set (map basis_name economic_bases)) (to_set bs)
          \<and> sort (to_set bs) = sort (to_set (map (\<lambda>e. basis_name (basis (snd e))) (fst tot))))"

definition check_status :: "jsval \<Rightarrow> unit res" where
  "check_status v =
     (case (field ''complete'' v, field ''conserves'' v) of
        (JBool complete', JBool conserves) \<Rightarrow>
          (if \<not> conserves then Inl ''exact allocation result is not conserving''
           else bindE (string_array ''unresolvedRequestIds'' True (field ''unresolvedRequestIds'' v)) (\<lambda>unresolved.
             if complete' \<noteq> (unresolved = []) then Inl ''exact allocation result completeness disagrees with unresolved requests''
             else Inr ()))
      | _ \<Rightarrow> Inl ''exact allocation result status is invalid'')"

definition check_result_head :: "jsval \<Rightarrow> unit res" where
  "check_result_head v =
     bindE (exact_object v ''exact allocation result'') (\<lambda>_.
     bindE (exact_fields v result_keys ''exact allocation result'') (\<lambda>_.
       case (safe_integer (field ''periodStartMs'' v), safe_integer (field ''periodEndMs'' v)) of
         (Some s, Some e) \<Rightarrow>
           (if e \<le> s then Inl ''exact allocation result period is not ordered''
            else if safe_integer (field ''runAtMs'' v) = None then Inl ''exact allocation result runAt must be a safe timestamp''
            else Inr ())
       | _ \<Rightarrow> Inl ''exact allocation result period is not ordered''))"

definition validate_exact_allocation_result :: "jsval \<Rightarrow> unit res" where
  "validate_exact_allocation_result v =
     bindE (check_result_head v) (\<lambda>_.
     case (field ''totalByIdentity'' v, field ''allocatedByIdentity'' v, field ''unallocatedByIdentity'' v, field ''lines'' v,
           field ''unallocated'' v, field ''sourceBases'' v, field ''unresolvedRequestIds'' v, field ''excludedFrom'' v) of
       (JArr tots, JArr als, JArr uns, JArr lines, JArr rest, JArr bases, JArr unresolved, JArr excluded) \<Rightarrow>
         (if field ''trust'' v \<noteq> JStr exact_trust then Inl ''exact allocation result trust is invalid''
          else
          bindE (exact_excluded_from (truthy (field ''complete'' v))) (\<lambda>expected.
          if excluded \<noteq> map JStr expected then Inl ''exact allocation result excludedFrom is invalid''
          else
          bindE (check_status v) (\<lambda>_.
          bindE (amount_map tots ''totalByIdentity'') (\<lambda>tot.
          bindE (amount_map als ''allocatedByIdentity'') (\<lambda>al.
          bindE (amount_map uns ''unallocatedByIdentity'') (\<lambda>un.
          bindE (foldE check_result_line ([], []) lines) (\<lambda>ls.
          bindE (foldE check_result_rest ([], []) rest) (\<lambda>us.
          bindE (foldE (check_totals tot al un ls us) ()
                   (to_set (map fst (fst tot) @ map fst (fst al) @ map fst (fst un) @ map fst (fst ls) @ map fst (fst us)))) (\<lambda>_.
            if bases_match tot bases then Inr () else Inl ''exact allocation result sourceBases diverge from total identities''))))))))
          )
     | _ \<Rightarrow> Inl ''exact allocation result arrays are malformed'')"

section \<open>The reader\<close>

definition parsed_money :: "jsval \<Rightarrow> string \<Rightarrow> money res" where
  "parsed_money v label =
     bindE (exact_object v label) (\<lambda>_.
     bindE (exact_fields v [''coefficient'', ''scale'', ''currency'', ''basis''] label) (\<lambda>_. money_from_json v))"

definition parsed_bucket :: "string \<Rightarrow> jsval \<Rightarrow> money_bucket res" where
  "parsed_bucket label v =
     bindE (exact_object v label) (\<lambda>_.
     bindE (exact_fields v bucket_keys label) (\<lambda>_.
     bindE (parsed_money (field ''amount'' v) label) (\<lambda>amount.
     bindE (text_value label (field ''currency'' v)) (\<lambda>cur.
     bindE (text_value label (field ''basis'' v)) (\<lambda>b.
       if cur \<noteq> currency amount \<or> b \<noteq> basis_name (basis amount) then Inl (label @ '' identity does not match its Money amount'')
       else bindE (string_array label False (field ''sourceEventIds'' v)) (\<lambda>ids.
         Inr \<lparr>xb_currency = cur, xb_basis = basis amount, xb_amount = amount, xb_sources = ids\<rparr>))))))"

definition parsed_line :: "jsval \<Rightarrow> exact_line res" where
  "parsed_line v =
     bindE (exact_object v ''lines'') (\<lambda>_.
     bindE (exact_fields v line_keys ''lines'') (\<lambda>_.
     bindE (parsed_money (field ''amount'' v) ''lines'') (\<lambda>amount.
     bindE (text_value ''method'' (field ''method'' v)) (\<lambda>how.
       if how \<notin> set alloc_methods then Inl ''lines.method is invalid''
       else
     bindE (text_value ''sourceBasis'' (field ''sourceBasis'' v)) (\<lambda>b.
       if b \<noteq> basis_name (basis amount) then Inl ''lines.sourceBasis does not match its Money amount''
       else
     bindE (exact_safe_integer (field ''ratioParts'' v) ''ratioParts'') (\<lambda>parts.
       if parts < 0 \<or> ratio_scale < parts then Inl ''lines.ratioParts is outside the ratio range''
       else
     bindE (exact_safe_integer (field ''ruleVersion'' v) ''ruleVersion'') (\<lambda>version.
       if version < 1 then Inl ''lines.ruleVersion must be positive''
       else
     bindE (text_value ''costCentreId'' (field ''costCentreId'' v)) (\<lambda>centre.
     bindE (text_value ''ruleId'' (field ''ruleId'' v)) (\<lambda>rule.
     bindE (string_array ''lines'' False (field ''sourceEventIds'' v)) (\<lambda>ids.
       Inr \<lparr>xl_centre = centre, xl_rule = rule, xl_version = of_int version, xl_method = how, xl_parts = parts,
            xl_amount = amount, xl_basis = basis amount, xl_sources = ids\<rparr>))))))))))"

definition parsed_project :: "jsval \<Rightarrow> (string \<times> money) res" where
  "parsed_project v =
     bindE (exact_object v ''topProjects'') (\<lambda>_.
     bindE (exact_fields v top_project_keys ''topProjects'') (\<lambda>_.
     bindE (text_value ''project'' (field ''project'' v)) (\<lambda>p.
     bindE (parsed_money (field ''amount'' v) ''topProjects'') (\<lambda>m. Inr (p, m)))))"

definition parsed_unallocated :: "jsval \<Rightarrow> exact_rest res" where
  "parsed_unallocated v =
     bindE (exact_object v ''unallocated'') (\<lambda>_.
     bindE (exact_fields v unallocated_keys ''unallocated'') (\<lambda>_.
     bindE (parsed_money (field ''amount'' v) ''unallocated'') (\<lambda>amount.
     bindE (text_value ''sourceBasis'' (field ''sourceBasis'' v)) (\<lambda>b.
     bindE (text_value ''reason'' (field ''reason'' v)) (\<lambda>reason.
       if reason \<notin> set unallocated_reasons then Inl ''unallocated.reason is invalid''
       else if b \<noteq> basis_name (basis amount) then Inl ''unallocated.sourceBasis does not match its Money amount''
       else
     bindE (array_value (field ''topProjects'' v) ''topProjects'') (\<lambda>vs.
     bindE (mapE parsed_project vs) (\<lambda>ps.
       if \<not> list_all (\<lambda>p. currency (snd p) = currency amount \<and> basis (snd p) = basis amount) ps
       then Inl ''topProjects currency/basis mismatch''
       else
     bindE (string_array ''unallocated'' False (field ''sourceEventIds'' v)) (\<lambda>ids.
       Inr \<lparr>xu_reason = reason, xu_amount = amount, xu_basis = basis amount, xu_sources = ids, xu_projects = ps\<rparr>))))))))"

definition parsed_bases :: "jsval \<Rightarrow> string list res" where
  "parsed_bases v =
     bindE (string_array ''sourceBases'' True v) (\<lambda>bs.
       if list_all (\<lambda>b. b \<in> set (map basis_name economic_bases)) bs then Inr bs else Inl ''sourceBases contains an unsupported basis'')"

definition exact_allocation_from_json :: "jsval \<Rightarrow> exact_run res" where
  "exact_allocation_from_json v =
     bindE (exact_object v ''exact allocation run body'') (\<lambda>_.
     bindE (exact_fields v result_keys ''exact allocation run body'') (\<lambda>_.
     bindE (array_value (field ''totalByIdentity'' v) ''totalByIdentity'') (\<lambda>tots.
     bindE (mapE (parsed_bucket ''totalByIdentity'') tots) (\<lambda>tot.
     bindE (array_value (field ''allocatedByIdentity'' v) ''allocatedByIdentity'') (\<lambda>als.
     bindE (mapE (parsed_bucket ''allocatedByIdentity'') als) (\<lambda>al.
     bindE (array_value (field ''unallocatedByIdentity'' v) ''unallocatedByIdentity'') (\<lambda>uns.
     bindE (mapE (parsed_bucket ''unallocatedByIdentity'') uns) (\<lambda>un.
     bindE (array_value (field ''lines'' v) ''lines'') (\<lambda>line_vals.
     bindE (mapE parsed_line line_vals) (\<lambda>ls.
     bindE (array_value (field ''unallocated'' v) ''unallocated'') (\<lambda>rest_vals.
     bindE (mapE parsed_unallocated rest_vals) (\<lambda>us.
     case (field ''sourceBases'' v, field ''unresolvedRequestIds'' v, field ''excludedFrom'' v) of
       (JArr _, JArr _, JArr _) \<Rightarrow>
         bindE (parsed_bases (field ''sourceBases'' v)) (\<lambda>bs.
         bindE (string_array ''unresolvedRequestIds'' True (field ''unresolvedRequestIds'' v)) (\<lambda>unresolved.
         bindE (string_array ''excludedFrom'' True (field ''excludedFrom'' v)) (\<lambda>excluded.
         case (field ''complete'' v, field ''conserves'' v) of
           (JBool full, JBool conserves) \<Rightarrow>
             if field ''trust'' v \<noteq> JStr exact_trust then Inl ''exact allocation run status/trust is invalid''
             else
             bindE (exact_excluded_from full) (\<lambda>expected.
             if join_nul excluded \<noteq> join_nul expected then Inl ''exact allocation run excludedFrom is invalid''
             else if full \<noteq> (unresolved = []) then Inl ''exact allocation run completeness disagrees with unresolved requests''
             else if \<not> conserves then Inl ''exact allocation run is not conserving''
             else
             bindE (exact_safe_integer (field ''periodStartMs'' v) ''periodStartMs'') (\<lambda>ps.
             bindE (exact_safe_integer (field ''periodEndMs'' v) ''periodEndMs'') (\<lambda>pe.
             if pe \<le> ps then Inl ''exact allocation run period is not ordered''
             else
             bindE (exact_safe_integer (field ''runAtMs'' v) ''runAtMs'') (\<lambda>at_ms.
             let run = \<lparr>xa_start = ps, xa_end = pe, xa_run_at = at_ms, xa_total = tot, xa_allocated = al, xa_unallocated = un,
                        xa_lines = ls, xa_rest = us, xa_bases = bs, xa_unresolved = unresolved, xa_complete = full,
                        xa_conserves = conserves, xa_excluded = expected\<rparr>
             in bindE (validate_exact_allocation_result (exact_run_object run)) (\<lambda>_. Inr run)))))
         | _ \<Rightarrow> Inl ''exact allocation run status/trust is invalid'')))
     | _ \<Rightarrow> Inl ''exact allocation run arrays are malformed''))))))))))))"

section \<open>The close binding of a run\<close>

definition hex_char :: "char \<Rightarrow> bool" where
  "hex_char c = (is_digit c \<or> c \<in> set ''abcdef'')"

definition validate_exact_allocation_close_binding :: "jsval \<Rightarrow> rat \<Rightarrow> rat \<Rightarrow> unit res" where
  "validate_exact_allocation_close_binding v ps pe =
     (if \<not> is_object v then Inl ''exact allocation close binding must be an object''
      else if field ''periodStartMs'' v \<noteq> JNum ps \<or> field ''periodEndMs'' v \<noteq> JNum pe
           then Inl ''exact allocation close binding period does not match its result''
      else if \<not> (case field ''finalizationId'' v of JStr s \<Rightarrow> trim s \<noteq> [] | _ \<Rightarrow> False)
           then Inl ''exact allocation close binding finalizationId must be non-empty''
      else if \<not> (case field ''projectionDigest'' v of JStr s \<Rightarrow> length s = 64 \<and> list_all hex_char s | _ \<Rightarrow> False)
           then Inl ''exact allocation close binding projectionDigest must be a lowercase SHA-256 digest''
      else case safe_integer (field ''eventCount'' v) of
             None \<Rightarrow> Inl ''exact allocation close binding eventCount must be a non-negative safe integer''
           | Some n \<Rightarrow> if n < 0 then Inl ''exact allocation close binding eventCount must be a non-negative safe integer'' else Inr ())"

end
