(* ===== verification/ExactProps.thy ===== *)
theory ExactProps
  imports ExactAlloc AllocConserves Evaluation
begin

text \<open>
  Exact allocation conserves money: by identity of currency and basis, the rows, the lines and the
  unallocated remainder are worth the same, so a run that returns conserves and says so.
\<close>

section \<open>What amounts are worth\<close>

definition worth :: "ident \<Rightarrow> money \<Rightarrow> rat" where
  "worth i m = (if money_ident m = i then money_value m else 0)"

definition held :: "ident \<Rightarrow> (ident \<times> money) list \<Rightarrow> rat" where
  "held i xs = (case map_of xs i of None \<Rightarrow> 0 | Some m \<Rightarrow> money_value m)"

definition amounts_ok :: "(ident \<times> money) list \<Rightarrow> bool" where
  "amounts_ok xs = (distinct (map fst xs) \<and> (\<forall>e \<in> set xs. money_ident (snd e) = fst e \<and> canonical_money (snd e)))"

definition sources_of :: "(ident \<times> string list) list \<Rightarrow> ident \<Rightarrow> string list" where
  "sources_of ss i = (case map_of ss i of None \<Rightarrow> [] | Some s \<Rightarrow> s)"

lemma amounts_ok_Nil [simp]: "amounts_ok []" "held i [] = 0" "sources_of [] i = []"
  by (simp_all add: amounts_ok_def held_def sources_of_def)

lemma amounts_ok_lookup: "amounts_ok xs \<Longrightarrow> map_of xs k = Some m \<Longrightarrow> money_ident m = k \<and> canonical_money m"
  by (force simp: amounts_ok_def dest: map_of_SomeD)

lemma held_sum:
  assumes "amounts_ok xs"
  shows "sum_list (map (\<lambda>e. worth i (snd e)) xs) = held i xs"
  using assms
proof (induction xs)
  case Nil
  then show ?case by simp
next
  case (Cons e xs)
  obtain k m where [simp]: "e = (k, m)" by (cases e)
  have ok: "amounts_ok xs" "money_ident m = k" "k \<notin> fst ` set xs" using Cons.prems by (auto simp: amounts_ok_def)
  then have "map_of xs k = None" by (simp add: map_of_eq_None_set)
  then have "held k xs = 0" by (simp add: held_def)
  then show ?case using Cons.IH [OF ok(1)] ok(2) by (auto simp: held_def worth_def)
qed

lemma canonical_currency: "canonical_money m \<Longrightarrow> assert_currency (currency m) = Inr (currency m)"
  by (simp add: canonical_money_def)

lemma add_money_worth:
  assumes "add_money a b = Inr c" "canonical_money a"
  shows "canonical_money c" "money_ident c = money_ident a" "money_ident b = money_ident a" "worth i c = worth i a + worth i b"
    "money_value c = money_value a + money_value b"
  using add_money_Inr [OF assms(1)] canonical_currency [OF assms(2)] by (simp_all add: worth_def)

lemma zero_money_Inr:
  assumes "zero_money cur b = Inr z"
  shows "money_value z = 0" "money_ident z = (cur, b)" "canonical_money z" "worth i z = 0"
proof -
  have m: "money ''0'' cur (basis_name b) = Inr z" using assms by (simp add: zero_money_def)
  have z: "canonical_money z" "currency z = cur" "basis z = b" using money_Inr [OF m] by simp_all
  then have "assert_currency cur = Inr cur" using canonical_currency by blast
  then have "money_value z = 0" using assms by (auto simp: zero_money_def money_zero money_value_def)
  with z show "money_value z = 0" "money_ident z = (cur, b)" "canonical_money z" "worth i z = 0"
    by (simp_all add: money_ident_def worth_def)
qed

lemma add_keyed_ok:
  assumes "add_keyed (money_ident m) m xs = Inr ys" "amounts_ok xs" "canonical_money m"
  shows "amounts_ok ys" "held i ys = held i xs + worth i m"
proof -
  obtain s where s: "(case map_of xs (money_ident m) of None \<Rightarrow> Inr m | Some prior \<Rightarrow> add_money prior m) = Inr s"
    "ys = AList.update (money_ident m) s xs" using assms(1) by (auto simp: add_keyed_def)
  have new: "money_ident s = money_ident m \<and> canonical_money s \<and> money_value s = held (money_ident m) xs + money_value m"
  proof (cases "map_of xs (money_ident m)")
    case None
    then show ?thesis using s(1) assms(3) by (simp add: held_def)
  next
    case (Some prior)
    then have "add_money prior m = Inr s" using s(1) by simp
    from add_money_worth(1,2,5) [OF this] show ?thesis using Some amounts_ok_lookup [OF assms(2) Some] by (simp add: held_def)
  qed
  have "\<forall>e \<in> set xs. money_ident (snd e) = fst e \<and> canonical_money (snd e)" using assms(2) by (simp add: amounts_ok_def)
  from ball_insert_subset [OF set_update_subset _ this, of "money_ident m" s] new
  have "\<forall>e \<in> set ys. money_ident (snd e) = fst e \<and> canonical_money (snd e)" unfolding s(2) by simp
  then show "amounts_ok ys" using assms(2) by (simp add: amounts_ok_def s(2) distinct_update)
  show "held i ys = held i xs + worth i m"
  proof (cases "i = money_ident m")
    case True
    then show ?thesis using new by (simp add: held_def s(2) worth_def update_conv')
  next
    case False
    then show ?thesis by (simp add: held_def s(2) worth_def update_conv')
  qed
qed

lemma add_amount_ok:
  assumes "add_amount M a ids = Inr N" "amounts_ok (fst M)" "canonical_money a"
  shows "amounts_ok (fst N)" "held i (fst N) = held i (fst M) + worth i a"
    "set (sources_of (snd N) j) = set (sources_of (snd M) j) \<union> (if j = money_ident a then set ids else {})"
proof -
  obtain xs where xs: "add_keyed (money_ident a) a (fst M) = Inr xs"
    "N = (xs, AList.update (money_ident a) (fold set_add ids (sources_of (snd M) (money_ident a))) (snd M))"
    using assms(1) by (auto simp: add_amount_def Let_def sources_of_def)
  show "amounts_ok (fst N)" "held i (fst N) = held i (fst M) + worth i a"
    using add_keyed_ok [OF xs(1) assms(2,3)] xs(2) by simp_all
  show "set (sources_of (snd N) j) = set (sources_of (snd M) j) \<union> (if j = money_ident a then set ids else {})"
    unfolding xs(2) by (auto simp: sources_of_def update_conv')
qed

lemma add_amount_keeps:
  assumes "add_amount M a ids = Inr N" "amounts_ok (fst M)" "canonical_money a"
    and "\<forall>b \<in> set bs. set (eb_sources b) \<subseteq> set (sources_of (snd M) (money_ident (eb_amount b)))"
  shows "\<forall>b \<in> set bs. set (eb_sources b) \<subseteq> set (sources_of (snd N) (money_ident (eb_amount b)))"
proof
  fix b assume "b \<in> set bs"
  then have "set (eb_sources b) \<subseteq> set (sources_of (snd M) (money_ident (eb_amount b)))" using assms(4) by blast
  also have "\<dots> \<subseteq> set (sources_of (snd N) (money_ident (eb_amount b)))" unfolding add_amount_ok(3) [OF assms(1-3)] by blast
  finally show "set (eb_sources b) \<subseteq> set (sources_of (snd N) (money_ident (eb_amount b)))" .
qed

section \<open>Buckets\<close>

definition row_fine :: "exact_row \<Rightarrow> bool" where
  "row_fine r = (canonical_money (xr_amount r) \<and> xr_sources r \<noteq> [])"

definition bucket_fine :: "ident \<Rightarrow> exact_bucket \<Rightarrow> bool" where
  "bucket_fine k b = (canonical_money (eb_amount b) \<and> money_ident (eb_amount b) = k \<and> eb_sources b \<noteq> [])"

definition rows_worth :: "ident \<Rightarrow> exact_row list \<Rightarrow> rat" where
  "rows_worth i rs = sum_list (map (\<lambda>r. worth i (xr_amount r)) rs)"

definition groups_worth :: "ident \<Rightarrow> (ident \<times> exact_bucket) list \<Rightarrow> rat" where
  "groups_worth i gs = sum_list (map (\<lambda>e. worth i (eb_amount (snd e))) gs)"

definition rules_worth :: "ident \<Rightarrow> exact_rule_buckets \<Rightarrow> rat" where
  "rules_worth i bs = sum_list (map (\<lambda>e. worth i (eb_amount (snd (snd e)))) bs)"

definition groups_ok :: "(ident \<times> exact_bucket) list \<Rightarrow> bool" where
  "groups_ok gs = (distinct (map fst gs) \<and> (\<forall>(k, b) \<in> set gs. bucket_fine k b))"

definition rules_ok :: "(alloc_rule \<Rightarrow> bool) \<Rightarrow> exact_rule_buckets \<Rightarrow> bool" where
  "rules_ok Q bs = (distinct (map fst bs) \<and> (\<forall>(k, rule, b) \<in> set bs. bucket_fine (snd (snd k)) b \<and> Q rule))"

lemma worth_Nil [simp]:
  "rows_worth i [] = 0" "groups_worth i [] = 0" "rules_worth i [] = 0" "groups_ok []" "rules_ok Q []"
  "rows_worth i (rs @ [r]) = rows_worth i rs + worth i (xr_amount r)"
  "groups_worth i (g # gs) = worth i (eb_amount (snd g)) + groups_worth i gs"
  "rules_worth i (e # bs) = worth i (eb_amount (snd (snd e))) + rules_worth i bs"
  by (simp_all add: rows_worth_def groups_worth_def rules_worth_def groups_ok_def rules_ok_def)

lemma bucket_step:
  assumes "add_to_bucket b r = Inr b'" "canonical_money (eb_amount b)" "row_fine r"
  shows "bucket_fine (money_ident (xr_amount r)) b'" "worth i (eb_amount b') = worth i (eb_amount b) + worth i (xr_amount r)"
    "eb_sources b' = eb_sources b @ xr_sources r"
proof -
  have add: "add_money (eb_amount b) (xr_amount r) = Inr (eb_amount b')" and src: "eb_sources b' = eb_sources b @ xr_sources r"
    using assms(1) by (auto simp: add_to_bucket_def)
  note W = add_money_worth [OF add assms(2)]
  show "bucket_fine (money_ident (xr_amount r)) b'" using W(1-3) src assms(3) by (simp add: bucket_fine_def row_fine_def)
  show "worth i (eb_amount b') = worth i (eb_amount b) + worth i (xr_amount r)" by (rule W(4))
  show "eb_sources b' = eb_sources b @ xr_sources r" by (rule src)
qed

lemma empty_bucket_Inr:
  assumes "empty_bucket m = Inr b"
  shows "canonical_money (eb_amount b)" "worth i (eb_amount b) = 0"
proof -
  obtain z where z: "zero_money (currency m) (basis m) = Inr z" "eb_amount b = z" using assms by (auto simp: empty_bucket_def)
  show "canonical_money (eb_amount b)" "worth i (eb_amount b) = 0"
    using zero_money_Inr(3,4) [OF z(1)] unfolding z(2) by simp_all
qed

lemma add_grouped_ok:
  assumes "add_grouped gs r = Inr gs'" "groups_ok gs" "row_fine r"
  shows "groups_ok gs'" "groups_worth i gs' = groups_worth i gs + worth i (xr_amount r)"
proof -
  let ?k = "money_ident (xr_amount r)"
  obtain b b' where b: "(case map_of gs ?k of None \<Rightarrow> empty_bucket (xr_amount r) | Some b \<Rightarrow> Inr b) = Inr b"
    "add_to_bucket b r = Inr b'" "gs' = AList.update ?k b' gs" using assms(1) by (auto simp: add_grouped_def Let_def)
  have old: "canonical_money (eb_amount b)" "worth i (eb_amount b) = (case map_of gs ?k of None \<Rightarrow> 0 | Some b \<Rightarrow> worth i (eb_amount b))" for i
  proof -
    show "canonical_money (eb_amount b)"
      using b(1) empty_bucket_Inr(1) assms(2) by (auto simp: groups_ok_def bucket_fine_def split: option.splits dest: map_of_SomeD)
    show "worth i (eb_amount b) = (case map_of gs ?k of None \<Rightarrow> 0 | Some b \<Rightarrow> worth i (eb_amount b))"
      using b(1) empty_bucket_Inr(2) by (cases "map_of gs ?k") simp_all
  qed
  note step = bucket_step [OF b(2) old(1) assms(3)]
  show "groups_ok gs'" using assms(2) step(1) set_update_subset [of ?k b' gs] unfolding b(3) groups_ok_def
    by (fastforce simp: distinct_update)
  have "distinct (map fst gs)" using assms(2) by (simp add: groups_ok_def)
  from sum_update [OF this, of "\<lambda>b. worth i (eb_amount b)" ?k b']
  show "groups_worth i gs' = groups_worth i gs + worth i (xr_amount r)"
    using step(2) [of i] old(2) [of i] unfolding b(3) groups_worth_def by (simp split: option.splits)
qed

lemma add_to_exact_rule_ok:
  assumes "add_to_exact_rule bs rule r = Inr bs'" "rules_ok Q bs" "row_fine r" "Q rule"
  shows "rules_ok Q bs'" "rules_worth i bs' = rules_worth i bs + worth i (xr_amount r)"
proof -
  let ?k = "(ru_id rule, ru_version rule, money_ident (xr_amount r))"
  obtain e b' where e: "(case map_of bs ?k of None \<Rightarrow> bindE (empty_bucket (xr_amount r)) (\<lambda>b. Inr (rule, b)) | Some entry \<Rightarrow> Inr entry) = Inr e"
    "add_to_bucket (snd e) r = Inr b'" "bs' = AList.update ?k (fst e, b') bs" using assms(1) by (auto simp: add_to_exact_rule_def Let_def)
  have old: "canonical_money (eb_amount (snd e))" "Q (fst e)"
    "worth i (eb_amount (snd e)) = (case map_of bs ?k of None \<Rightarrow> 0 | Some e \<Rightarrow> worth i (eb_amount (snd e)))" for i
  proof -
    show "canonical_money (eb_amount (snd e))" "Q (fst e)"
      using e(1) empty_bucket_Inr(1) assms(2,4) by (auto simp: rules_ok_def bucket_fine_def split: option.splits dest: map_of_SomeD)
    show "worth i (eb_amount (snd e)) = (case map_of bs ?k of None \<Rightarrow> 0 | Some e \<Rightarrow> worth i (eb_amount (snd e)))"
    proof (cases "map_of bs ?k")
      case None
      then obtain b0 where "empty_bucket (xr_amount r) = Inr b0" "e = (rule, b0)" using e(1) by auto
      then show ?thesis using None empty_bucket_Inr(2) by simp
    next
      case (Some entry)
      then show ?thesis using e(1) by simp
    qed
  qed
  note step = bucket_step [OF e(2) old(1) assms(3)]
  show "rules_ok Q bs'" using assms(2) step(1) old(2) set_update_subset [of ?k "(fst e, b')" bs] unfolding e(3) rules_ok_def
    by (fastforce simp: distinct_update)
  have "distinct (map fst bs)" using assms(2) by (simp add: rules_ok_def)
  from sum_update [OF this, of "\<lambda>e. worth i (eb_amount (snd e))" ?k "(fst e, b')"]
  show "rules_worth i bs' = rules_worth i bs + worth i (xr_amount r)"
    using step(2) [of i] old(3) [of i] unfolding e(3) rules_worth_def by (simp split: option.splits)
qed

section \<open>Placing the rows\<close>

definition direct_rule :: "alloc_rule list \<Rightarrow> string list \<Rightarrow> alloc_rule \<Rightarrow> bool" where
  "direct_rule rules archived r =
     (r \<in> set rules \<and> ru_method r \<noteq> pool_method \<and> (\<forall>t \<in> set (ru_targets r). at_centre t \<notin> set archived))"

definition pool_rule :: "alloc_rule list \<Rightarrow> alloc_rule \<Rightarrow> bool" where
  "pool_rule rules r = (r \<in> set rules)"

definition exact_placed :: "alloc_rule list \<Rightarrow> string list \<Rightarrow> exact_row list \<Rightarrow> exact_places \<Rightarrow> bool" where
  "exact_placed rules archived rows P =
     (amounts_ok (fst (xp_total P)) \<and> (\<forall>i. held i (fst (xp_total P)) = rows_worth i rows)
      \<and> rules_ok (direct_rule rules archived) (xp_claimed P) \<and> rules_ok (pool_rule rules) (xp_pools P)
      \<and> groups_ok (xp_unmatched P) \<and> groups_ok (xp_archived P)
      \<and> (\<forall>i. rules_worth i (xp_claimed P) + rules_worth i (xp_pools P) + groups_worth i (xp_unmatched P)
             + groups_worth i (xp_archived P) = rows_worth i rows))"

lemma place_exact_row_placed:
  assumes P: "exact_placed rules archived rows P" and ordered: "set ordered \<subseteq> set rules" and r: "row_fine r"
    and step: "place_exact_row ordered archived P r = Inr P'"
  shows "exact_placed rules archived (rows @ [r]) P'"
proof -
  obtain t where t: "add_amount (xp_total P) (xr_amount r) (xr_sources r) = Inr t"
    using step by (auto simp: place_exact_row_def)
  note T = add_amount_ok(1,2) [OF t]
  have canonical: "canonical_money (xr_amount r)" using r by (simp add: row_fine_def)
  let ?hit = "List.find (\<lambda>rule. rule_applies_at rule (of_int (xr_ts r)) \<and> matches_row rule (matching_row r)) ordered"
  show ?thesis
  proof (cases ?hit)
    case None
    then obtain g where g: "add_grouped (xp_unmatched P) r = Inr g" "P' = P\<lparr>xp_total := t, xp_unmatched := g\<rparr>"
      using step t by (auto simp: place_exact_row_def)
    show ?thesis using P T canonical add_grouped_ok [OF g(1) _ r] unfolding g(2) by (simp add: exact_placed_def algebra_simps)
  next
    case (Some rule)
    then have mem: "rule \<in> set rules" using ordered by (auto simp: find_Some_iff)
    consider (arch) "ru_method rule \<noteq> pool_method" "list_ex (\<lambda>tg. at_centre tg \<in> set archived) (ru_targets rule)"
      | (pool) "ru_method rule = pool_method"
      | (direct) "ru_method rule \<noteq> pool_method" "\<not> list_ex (\<lambda>tg. at_centre tg \<in> set archived) (ru_targets rule)"
      by blast
    then show ?thesis
    proof cases
      case arch
      then obtain g where g: "add_grouped (xp_archived P) r = Inr g" "P' = P\<lparr>xp_total := t, xp_archived := g\<rparr>"
        using step t Some by (auto simp: place_exact_row_def)
      show ?thesis using P T canonical add_grouped_ok [OF g(1) _ r] unfolding g(2) by (simp add: exact_placed_def algebra_simps)
    next
      case pool
      then obtain bs where bs: "add_to_exact_rule (xp_pools P) rule r = Inr bs" "P' = P\<lparr>xp_total := t, xp_pools := bs\<rparr>"
        using step t Some by (auto simp: place_exact_row_def)
      have Q: "pool_rule rules rule" using mem by (simp add: pool_rule_def)
      show ?thesis using P T canonical add_to_exact_rule_ok [where Q = "pool_rule rules", OF bs(1) _ r Q] unfolding bs(2) by (simp add: exact_placed_def algebra_simps)
    next
      case direct
      then obtain bs where bs: "add_to_exact_rule (xp_claimed P) rule r = Inr bs" "P' = P\<lparr>xp_total := t, xp_claimed := bs\<rparr>"
        using step t Some by (auto simp: place_exact_row_def)
      have Q: "direct_rule rules archived rule" using mem direct by (auto simp: direct_rule_def list_ex_iff)
      show ?thesis using P T canonical add_to_exact_rule_ok [where Q = "direct_rule rules archived", OF bs(1) _ r Q] unfolding bs(2) by (simp add: exact_placed_def algebra_simps)
    qed
  qed
qed

lemma exact_placing:
  assumes "foldE (place_exact_row ordered archived) P rs = Inr P'" "exact_placed rules archived rows P"
    and "set ordered \<subseteq> set rules" "\<forall>r \<in> set rs. row_fine r"
  shows "exact_placed rules archived (rows @ rs) P'"
  using assms
proof (induction rs arbitrary: rows P)
  case Nil
  then show ?case by simp
next
  case (Cons r rs)
  then obtain P1 where P1: "place_exact_row ordered archived P r = Inr P1"
    "foldE (place_exact_row ordered archived) P1 rs = Inr P'" by auto
  have "row_fine r" using Cons.prems(4) by simp
  from Cons.IH [OF P1(2) place_exact_row_placed [OF Cons.prems(2,3) this P1(1)] Cons.prems(3)] Cons.prems(4)
  show ?case by simp
qed

lemma no_exact_places_placed: "exact_placed rules archived [] no_exact_places"
  by (simp add: exact_placed_def no_exact_places_def)

section \<open>Splitting an amount\<close>

lemma sum_positive:
  "(\<And>e. e \<in> set xs \<Longrightarrow> 0 \<le> f e) \<Longrightarrow> sum_list (map f (filter (\<lambda>e. 0 < f e) xs)) = (sum_list (map f xs) :: int)"
  by (induction xs) (auto simp: order.antisym)

definition share_of :: "money \<Rightarrow> int \<Rightarrow> int \<Rightarrow> money \<Rightarrow> bool" where
  "share_of tot denom w m =
     (canonical_money m \<and> money_ident m = money_ident tot \<and> money_value m = money_value tot * of_int w / of_int denom)"

lemma weighted_share_Inr:
  assumes "weighted_share tot denom out (c, w) = Inr out'"
  shows "\<exists>m. out' = AList.update c m out \<and> share_of tot denom w m"
proof -
  obtain r m where r: "exact_rate w denom (currency tot) (currency tot) JUndefined = Inr r"
    "apply_exact_rate tot r (basis_name (basis tot)) = Inr m" "out' = AList.update c m out"
    using assms by (auto simp: weighted_share_def split: sum.splits)
  note R = exact_rate_Inr(1-5) [OF r(1)]
  have "0 < denominator r" using R(2) by (simp add: canonical_rate_def)
  from apply_exact_rate_cases(1) [OF this r(2)] R have "share_of tot denom w m"
    by (simp add: share_of_def money_ident_iff)
  then show ?thesis using r(3) by blast
qed

lemma weighted_shares:
  assumes "foldE (weighted_share tot denom) out ws = Inr out'" "distinct (map fst out @ map fst ws)"
  shows "\<exists>ms. out' = out @ zip (map fst ws) ms \<and> list_all2 (\<lambda>cw m. share_of tot denom (snd cw) m) ws ms"
  using assms
proof (induction ws arbitrary: out)
  case Nil
  then show ?case by simp
next
  case (Cons cw ws)
  obtain c w where [simp]: "cw = (c, w)" by (cases cw)
  obtain out1 where out1: "weighted_share tot denom out (c, w) = Inr out1" "foldE (weighted_share tot denom) out1 ws = Inr out'"
    using Cons.prems(1) by auto
  obtain m where m: "out1 = AList.update c m out" "share_of tot denom w m" using weighted_share_Inr [OF out1(1)] by blast
  have "c \<notin> fst ` set out" using Cons.prems(2) by auto
  then have new: "out1 = out @ [(c, m)]" using m(1) by (simp add: update_new)
  have "distinct (map fst out1 @ map fst ws)" using Cons.prems(2) unfolding new by auto
  from Cons.IH [OF out1(2) this] obtain ms where "out' = out1 @ zip (map fst ws) ms"
    "list_all2 (\<lambda>cw m. share_of tot denom (snd cw) m) ws ms" by blast
  then show ?case using m(2) new by (intro exI [of _ "m # ms"]) simp
qed

lemma shares_sum:
  assumes "list_all2 (\<lambda>cw m. share_of tot denom (snd cw) m) ws ms"
  shows "sum_list (map money_value ms) = money_value tot * of_int (sum_list (map snd ws)) / of_int denom"
  using assms by (induction ws ms rule: list_all2_induct) (auto simp: share_of_def add_divide_distrib distrib_left)

lemma split_by_weights_Inr:
  assumes "split_by_weights tot ws = Inr out" "distinct (map fst ws)" "0 < sum_list (map snd (filter (\<lambda>cw. 0 < snd cw) ws))"
  shows "map fst out = map fst (filter (\<lambda>cw. 0 < snd cw) ws)" "sum_list (map (\<lambda>e. money_value (snd e)) out) = money_value tot"
    "\<forall>e \<in> set out. canonical_money (snd e) \<and> money_ident (snd e) = money_ident tot"
proof -
  let ?ws = "filter (\<lambda>cw. 0 < snd cw) ws"
  let ?d = "sum_list (map snd ?ws)"
  have "foldE (weighted_share tot ?d) [] ?ws = Inr out" using assms(1,3) by (simp add: split_by_weights_def Let_def)
  from weighted_shares [OF this] assms(2) obtain ms where ms: "out = zip (map fst ?ws) ms"
    "list_all2 (\<lambda>cw m. share_of tot ?d (snd cw) m) ?ws ms" by (auto simp: distinct_map_filter)
  have len: "length ms = length ?ws" using ms(2) by (simp add: list_all2_lengthD)
  then show "map fst out = map fst ?ws" using ms(1) by simp
  have "map (\<lambda>e. money_value (snd e)) out = map money_value ms" using ms(1) len by (simp add: map_snd_zip flip: map_map [of money_value snd, unfolded o_def])
  then show "sum_list (map (\<lambda>e. money_value (snd e)) out) = money_value tot" using shares_sum [OF ms(2)] assms(3) by simp
  have "share_of tot ?d (snd (?ws ! j)) (ms ! j)" if "j < length ms" for j using ms(2) that by (simp add: list_all2_conv_all_nth)
  then show "\<forall>e \<in> set out. canonical_money (snd e) \<and> money_ident (snd e) = money_ident tot"
    unfolding ms(1) by (auto simp: set_zip share_of_def)
qed

section \<open>The direct pass\<close>

definition lines_worth :: "ident \<Rightarrow> exact_line list \<Rightarrow> rat" where
  "lines_worth i ls = sum_list (map (\<lambda>l. worth i (xl_amount l)) ls)"

definition line_fine :: "alloc_rule list \<Rightarrow> string list \<Rightarrow> exact_line \<Rightarrow> bool" where
  "line_fine rules archived l =
     ((\<exists>r \<in> set rules. xl_rule l = ru_id r \<and> xl_version l = ru_version r \<and> xl_method l = ru_method r)
      \<and> xl_centre l \<notin> set archived)"

definition driver_fine :: "string list \<Rightarrow> ident \<Rightarrow> string \<times> money \<Rightarrow> bool" where
  "driver_fine archived k e =
     (canonical_money (snd e) \<and> money_ident (snd e) = k \<and> 0 < coefficient (snd e) \<and> fst e \<notin> set archived)"

definition drivers_ok :: "string list \<Rightarrow> (ident \<times> (string \<times> money) list) list \<Rightarrow> bool" where
  "drivers_ok archived ds =
     (\<forall>k d. map_of ds k = Some d \<longrightarrow> d \<noteq> [] \<and> distinct (map fst d) \<and> (\<forall>e \<in> set d. driver_fine archived k e))"

definition paid_exactly :: "alloc_rule list \<Rightarrow> string list \<Rightarrow> (ident \<Rightarrow> rat) \<Rightarrow> exact_state \<Rightarrow> bool" where
  "paid_exactly rules archived s st =
     (amounts_ok (fst (xs_allocated st)) \<and> (\<forall>i. lines_worth i (xs_lines st) = s i \<and> held i (fst (xs_allocated st)) = s i)
      \<and> (\<forall>l \<in> set (xs_lines st). line_fine rules archived l) \<and> drivers_ok archived (xs_drivers st))"

lemma lines_worth_simps [simp]:
  "lines_worth i [] = 0" "lines_worth i (ls @ [l]) = lines_worth i ls + worth i (xl_amount l)"
  by (simp_all add: lines_worth_def)

lemma positive_coefficient: "0 < coefficient m \<longleftrightarrow> 0 < money_value m"
  by (simp add: money_value_def zero_less_divide_iff)

lemma add_keyed_driver:
  assumes "add_keyed c m d = Inr d'" "distinct (map fst d)" "\<forall>e \<in> set d. driver_fine archived k e" "driver_fine archived k (c, m)"
  shows "d' \<noteq> [] \<and> distinct (map fst d') \<and> (\<forall>e \<in> set d'. driver_fine archived k e)"
proof -
  obtain s where s: "(case map_of d c of None \<Rightarrow> Inr m | Some prior \<Rightarrow> add_money prior m) = Inr s" "d' = AList.update c s d"
    using assms(1) by (auto simp: add_keyed_def)
  have "driver_fine archived k (c, s)"
  proof (cases "map_of d c")
    case None
    then show ?thesis using s(1) assms(4) by simp
  next
    case (Some prior)
    then have prior: "driver_fine archived k (c, prior)" using assms(3) by (auto dest: map_of_SomeD)
    have "add_money prior m = Inr s" using s(1) Some by simp
    from add_money_worth(1,2,5) [OF this] prior assms(4) show ?thesis
      by (simp add: driver_fine_def positive_coefficient)
  qed
  from ball_insert_subset [OF set_update_subset this assms(3)] have "\<forall>e \<in> set d'. driver_fine archived k e" unfolding s(2) .
  moreover have "d' \<noteq> []" unfolding s(2) by (cases d) auto
  moreover have "distinct (map fst d')" unfolding s(2) using assms(2) by (rule distinct_update)
  ultimately show ?thesis by blast
qed

lemma add_driver_ok:
  assumes "add_driver ds k c m = Inr ds'" "drivers_ok archived ds" "canonical_money m" "money_ident m = k" "c \<notin> set archived"
  shows "drivers_ok archived ds'"
proof (cases "coefficient m \<le> 0")
  case True
  then show ?thesis using assms(1,2) by (simp add: add_driver_def)
next
  case False
  let ?d = "case map_of ds k of None \<Rightarrow> [] | Some d \<Rightarrow> d"
  obtain d where d: "add_keyed c m ?d = Inr d" "ds' = AList.update k d ds" using False assms(1) by (auto simp: add_driver_def)
  have old: "distinct (map fst ?d)" "\<forall>e \<in> set ?d. driver_fine archived k e"
  proof -
    have "distinct (map fst ?d) \<and> (\<forall>e \<in> set ?d. driver_fine archived k e)"
    proof (cases "map_of ds k")
      case (Some d)
      then have "distinct (map fst d) \<and> (\<forall>e \<in> set d. driver_fine archived k e)"
        using assms(2) unfolding drivers_ok_def by blast
      then show ?thesis using Some by simp
    qed simp
    then show "distinct (map fst ?d)" "\<forall>e \<in> set ?d. driver_fine archived k e" by blast+
  qed
  have "driver_fine archived k (c, m)" using assms(3-5) False by (simp add: driver_fine_def)
  from add_keyed_driver [OF d(1) old this] show ?thesis
    using assms(2) unfolding d(2) drivers_ok_def by (auto simp: update_conv')
qed

definition split_value :: "(string \<times> money) list \<Rightarrow> alloc_target \<Rightarrow> rat" where
  "split_value split t = (case map_of split (at_centre t) of None \<Rightarrow> 0 | Some m \<Rightarrow> money_value m)"

lemma split_values:
  assumes "distinct (map fst split)" "distinct (map at_centre ts)" "set (map fst split) \<subseteq> set (map at_centre ts)"
  shows "sum_list (map (split_value split) ts) = sum_list (map (\<lambda>e. money_value (snd e)) split)"
proof -
  define g where "g c = (case map_of split c of None \<Rightarrow> 0 | Some m \<Rightarrow> money_value m)" for c
  have "sum_list (map (split_value split) ts) = sum_list (map g (map at_centre ts))"
    unfolding g_def split_value_def map_map o_def ..
  also have "\<dots> = sum g (set (map at_centre ts))" using assms(2) by (rule sum_list_distinct_conv_sum_set)
  also have "\<dots> = sum g (set (map fst split))"
  proof (intro sum.mono_neutral_right ballI)
    fix c assume "c \<in> set (map at_centre ts) - set (map fst split)"
    then have "map_of split c = None" by (simp add: map_of_eq_None_set)
    then show "g c = 0" by (simp add: g_def)
  qed (use assms(3) in simp_all)
  also have "\<dots> = sum_list (map g (map fst split))" by (rule sum_list_distinct_conv_sum_set [OF assms(1), symmetric])
  also have "map g (map fst split) = map (\<lambda>e. money_value (snd e)) split"
    unfolding map_map
  proof (rule map_cong [OF refl])
    fix e assume "e \<in> set split"
    then have "map_of split (fst e) = Some (snd e)" using assms(1) by simp
    then show "(g \<circ> fst) e = money_value (snd e)" by (simp add: g_def)
  qed
  finally show ?thesis .
qed

lemma claimed_target_paid:
  assumes st: "paid_exactly rules archived s st" and step: "claimed_target rule b split st t = Inr st'"
    and rule: "direct_rule rules archived rule" "t \<in> set (ru_targets rule)" and b: "bucket_fine k b"
    and split: "\<forall>e \<in> set split. canonical_money (snd e) \<and> money_ident (snd e) = k"
  shows "paid_exactly rules archived (\<lambda>i. s i + (if i = k then split_value split t else 0)) st'
    \<and> xs_unallocated st' = xs_unallocated st"
proof -
  obtain m parts al ds where m: "(case map_of split (at_centre t) of None \<Rightarrow> zero_money (currency (eb_amount b)) (basis (eb_amount b))
        | Some m \<Rightarrow> Inr m) = Inr m"
    and al: "add_amount (xs_allocated st) m (eb_sources b) = Inr al"
    and ds: "add_driver (xs_drivers st) (money_ident (eb_amount b)) (at_centre t) m = Inr ds"
    and st': "st' = st\<lparr>xs_lines := xs_lines st @ [rule_line rule b (at_centre t) parts m], xs_allocated := al, xs_drivers := ds\<rparr>"
    using step by (auto simp: claimed_target_def)
  have k: "money_ident (eb_amount b) = k" using b by (simp add: bucket_fine_def)
  have M: "canonical_money m \<and> money_ident m = k \<and> money_value m = split_value split t"
  proof (cases "map_of split (at_centre t)")
    case None
    then have "zero_money (currency (eb_amount b)) (basis (eb_amount b)) = Inr m" using m by simp
    from zero_money_Inr(1-3) [OF this] show ?thesis using None k by (simp add: split_value_def money_ident_def)
  next
    case (Some x)
    then have "x = m" using m by simp
    with Some have "(at_centre t, m) \<in> set split" by (simp add: map_of_SomeD)
    from bspec [OF split this] show ?thesis using Some \<open>x = m\<close> by (simp add: split_value_def)
  qed
  have centre: "at_centre t \<notin> set archived" using rule by (simp add: direct_rule_def)
  have "drivers_ok archived ds"
    using add_driver_ok [OF ds _ _ _ centre] st M k by (simp add: paid_exactly_def)
  moreover have "line_fine rules archived (rule_line rule b (at_centre t) parts m)"
    using rule centre by (auto simp: line_fine_def rule_line_def direct_rule_def)
  moreover have "worth i (xl_amount (rule_line rule b (at_centre t) parts m)) = (if i = k then split_value split t else 0)"
    "worth i m = (if i = k then split_value split t else 0)" for i
    using M by (auto simp: worth_def rule_line_def)
  moreover have "amounts_ok (fst al)" "held i (fst al) = held i (fst (xs_allocated st)) + worth i m" for i
    using add_amount_ok(1,2) [OF al] st M by (simp_all add: paid_exactly_def)
  ultimately show ?thesis using st by (simp add: paid_exactly_def st')
qed

lemma claimed_targets_paid:
  assumes "foldE (claimed_target rule b split) st ts = Inr st'" "paid_exactly rules archived s st"
    and "direct_rule rules archived rule" "set ts \<subseteq> set (ru_targets rule)" "bucket_fine k b"
    and "\<forall>e \<in> set split. canonical_money (snd e) \<and> money_ident (snd e) = k"
  shows "paid_exactly rules archived (\<lambda>i. s i + (if i = k then sum_list (map (split_value split) ts) else 0)) st'
    \<and> xs_unallocated st' = xs_unallocated st"
  using assms
proof (induction ts arbitrary: s st)
  case Nil
  then show ?case by (simp cong: if_cong)
next
  case (Cons t ts)
  then obtain st1 where st1: "claimed_target rule b split st t = Inr st1" "foldE (claimed_target rule b split) st1 ts = Inr st'"
    by auto
  have t: "t \<in> set (ru_targets rule)" "set ts \<subseteq> set (ru_targets rule)" using Cons.prems(4) by auto
  from claimed_target_paid [OF Cons.prems(2) st1(1) Cons.prems(3) t(1) Cons.prems(5,6)]
  have one: "paid_exactly rules archived (\<lambda>i. s i + (if i = k then split_value split t else 0)) st1"
    "xs_unallocated st1 = xs_unallocated st" by auto
  from Cons.IH [OF st1(2) one(1) Cons.prems(3) t(2) Cons.prems(5,6)] one(2) show ?case by (simp add: add.assoc if_distrib cong: if_cong)
qed

lemma claimed_pass_paid:
  assumes st: "paid_exactly rules archived s st" and step: "claimed_pass st (k, rule, b) = Inr st'"
    and rule: "direct_rule rules archived rule" "validate_rule rule = Inr ()" and b: "bucket_fine (snd (snd k)) b"
  shows "paid_exactly rules archived (\<lambda>i. s i + worth i (eb_amount b)) st' \<and> xs_unallocated st' = xs_unallocated st"
proof -
  have meth: "ru_method rule \<noteq> pool_method" using rule(1) by (simp add: direct_rule_def)
  note V = validated_parts [OF rule(2) meth]
  obtain ps where ps: "mapE target_parts (ru_targets rule) = Inr ps" "sum_list ps = ratio_scale" using V(1) by blast
  let ?ws = "zip (map at_centre (ru_targets rule)) ps"
  have len: "length ps = length (ru_targets rule)" using ps(1) by (rule mapE_length)
  obtain split where split: "split_by_weights (eb_amount b) ?ws = Inr split"
    "foldE (claimed_target rule b split) st (ru_targets rule) = Inr st'"
    using step ps(1) target_weights [OF ps(1)] by (auto simp: claimed_pass_def Let_def)
  have keys: "map fst ?ws = map at_centre (ru_targets rule)" using len by simp
  have nonneg: "0 \<le> p" if "p \<in> set ps" for p
    using mapE_set [OF ps(1) that] ratio_to_parts_nonneg by (auto simp: target_parts_def)
  have "sum_list (map snd (filter (\<lambda>cw. 0 < snd cw) ?ws)) = sum_list (map snd ?ws)"
    using nonneg by (intro sum_positive) (auto dest: set_zip_rightD)
  also have "\<dots> = ratio_scale" using len ps(2) by simp
  finally have pos: "0 < sum_list (map snd (filter (\<lambda>cw. 0 < snd cw) ?ws))" by (simp add: ratio_scale_def)
  have "distinct (map fst ?ws)" using keys V(2) by simp
  note S = split_by_weights_Inr [OF split(1) this pos]
  have k: "money_ident (eb_amount b) = snd (snd k)" using b by (simp add: bucket_fine_def)
  have "\<forall>e \<in> set split. canonical_money (snd e) \<and> money_ident (snd e) = snd (snd k)" using S(3) k by simp
  from claimed_targets_paid [OF split(2) st rule(1) order_refl b this]
  have paid: "paid_exactly rules archived (\<lambda>i. s i + (if i = snd (snd k) then sum_list (map (split_value split) (ru_targets rule)) else 0)) st'"
    "xs_unallocated st' = xs_unallocated st" by auto
  have "distinct (map fst split)" unfolding S(1) using \<open>distinct (map fst ?ws)\<close> by (rule distinct_map_filter)
  moreover have "set (map fst split) \<subseteq> set (map at_centre (ru_targets rule))" unfolding S(1) by (auto dest: set_zip_leftD)
  ultimately have "sum_list (map (split_value split) (ru_targets rule)) = money_value (eb_amount b)"
    using split_values V(2) S(2) by simp
  then have "(\<lambda>i. s i + (if i = snd (snd k) then sum_list (map (split_value split) (ru_targets rule)) else 0))
      = (\<lambda>i. s i + worth i (eb_amount b))"
    using k by (auto simp: worth_def)
  then show ?thesis using paid by simp
qed

lemma claimed_passes_paid:
  assumes "foldE claimed_pass st bs = Inr st'" "paid_exactly rules archived s st"
    and "\<forall>(k, rule, b) \<in> set bs. bucket_fine (snd (snd k)) b \<and> direct_rule rules archived rule"
    and "\<forall>rule \<in> set rules. validate_rule rule = Inr ()"
  shows "paid_exactly rules archived (\<lambda>i. s i + rules_worth i bs) st' \<and> xs_unallocated st' = xs_unallocated st"
  using assms
proof (induction bs arbitrary: s st)
  case Nil
  then show ?case by simp
next
  case (Cons e bs)
  obtain k rule b where [simp]: "e = (k, rule, b)" by (cases e)
  obtain st1 where st1: "claimed_pass st (k, rule, b) = Inr st1" "foldE claimed_pass st1 bs = Inr st'" using Cons.prems(1) by auto
  have e: "bucket_fine (snd (snd k)) b" "direct_rule rules archived rule" using Cons.prems(3) by simp_all
  then have "validate_rule rule = Inr ()" using Cons.prems(4) by (simp add: direct_rule_def)
  from claimed_pass_paid [OF Cons.prems(2) st1(1) e(2) this e(1)]
  have one: "paid_exactly rules archived (\<lambda>i. s i + worth i (eb_amount b)) st1" "xs_unallocated st1 = xs_unallocated st" by auto
  have "\<forall>(k, rule, b) \<in> set bs. bucket_fine (snd (snd k)) b \<and> direct_rule rules archived rule" using Cons.prems(3) by simp
  from Cons.IH [OF st1(2) one(1) this Cons.prems(4)] one(2) show ?case by (simp add: add.assoc)
qed

section \<open>The pools\<close>

definition driven :: "(ident \<times> (string \<times> money) list) list \<Rightarrow> exact_bucket \<Rightarrow> bool" where
  "driven ds b = (map_of ds (money_ident (eb_amount b)) \<noteq> None)"

definition pooled ::
    "(ident \<times> (string \<times> money) list) list \<Rightarrow> exact_bucket list \<Rightarrow> (ident \<Rightarrow> rat) \<Rightarrow> exact_state \<Rightarrow> bool" where
  "pooled ds bs u st =
     (xs_drivers st = ds \<and> amounts_ok (fst (xs_unallocated st)) \<and> (\<forall>i. held i (fst (xs_unallocated st)) = u i)
      \<and> (\<forall>b \<in> set bs. set (eb_sources b) \<subseteq> set (sources_of (snd (xs_unallocated st)) (money_ident (eb_amount b)))))"

lemma pool_share_paid:
  assumes st: "paid_exactly rules archived s st" and step: "pool_share rule b ws st share = Inr st'"
    and rule: "rule \<in> set rules" "fst share \<notin> set archived"
    and share: "canonical_money (snd share)" "money_ident (snd share) = k"
  shows "paid_exactly rules archived (\<lambda>i. s i + (if i = k then money_value (snd share) else 0)) st'
    \<and> xs_unallocated st' = xs_unallocated st \<and> xs_drivers st' = xs_drivers st"
proof -
  obtain parts al where al: "add_amount (xs_allocated st) (snd share) (eb_sources b) = Inr al"
    and st': "st' = st\<lparr>xs_lines := xs_lines st @ [rule_line rule b (fst share) parts (snd share)], xs_allocated := al\<rparr>"
    using step by (auto simp: pool_share_def Let_def)
  have "line_fine rules archived (rule_line rule b (fst share) parts (snd share))"
    using rule by (auto simp: line_fine_def rule_line_def)
  moreover have "worth i (xl_amount (rule_line rule b (fst share) parts (snd share))) = (if i = k then money_value (snd share) else 0)"
    "worth i (snd share) = (if i = k then money_value (snd share) else 0)" for i
    using share by (auto simp: worth_def rule_line_def)
  moreover have "amounts_ok (fst al)" "held i (fst al) = held i (fst (xs_allocated st)) + worth i (snd share)" for i
    using add_amount_ok(1,2) [OF al] st share by (simp_all add: paid_exactly_def)
  ultimately show ?thesis using st by (simp add: paid_exactly_def st')
qed

lemma pool_shares_paid:
  assumes "foldE (pool_share rule b ws) st shares = Inr st'" "paid_exactly rules archived s st" "rule \<in> set rules"
    and "\<forall>share \<in> set shares. fst share \<notin> set archived \<and> canonical_money (snd share) \<and> money_ident (snd share) = k"
  shows "paid_exactly rules archived (\<lambda>i. s i + (if i = k then sum_list (map (\<lambda>e. money_value (snd e)) shares) else 0)) st'
    \<and> xs_unallocated st' = xs_unallocated st \<and> xs_drivers st' = xs_drivers st"
  using assms
proof (induction shares arbitrary: s st)
  case Nil
  then show ?case by (simp cong: if_cong)
next
  case (Cons share shares)
  then obtain st1 where st1: "pool_share rule b ws st share = Inr st1" "foldE (pool_share rule b ws) st1 shares = Inr st'"
    by auto
  have share: "fst share \<notin> set archived" "canonical_money (snd share)" "money_ident (snd share) = k" using Cons.prems(4) by simp_all
  from pool_share_paid [OF Cons.prems(2) st1(1) Cons.prems(3) share]
  have one: "paid_exactly rules archived (\<lambda>i. s i + (if i = k then money_value (snd share) else 0)) st1"
    "xs_unallocated st1 = xs_unallocated st \<and> xs_drivers st1 = xs_drivers st" by blast+
  have "\<forall>share \<in> set shares. fst share \<notin> set archived \<and> canonical_money (snd share) \<and> money_ident (snd share) = k"
    using Cons.prems(4) by simp
  from Cons.IH [OF st1(2) one(1) Cons.prems(3) this] one(2) show ?case by (simp add: add.assoc if_distrib cong: if_cong)
qed

lemma positive_drivers_all:
  assumes "drivers_ok archived (xs_drivers st)"
  shows "positive_drivers st k = (case map_of (xs_drivers st) k of None \<Rightarrow> [] | Some d \<Rightarrow> d)"
proof (cases "map_of (xs_drivers st) k")
  case (Some d)
  then have "\<forall>e \<in> set d. driver_fine archived k e" using assms unfolding drivers_ok_def by blast
  then show ?thesis using Some by (simp add: positive_drivers_def driver_fine_def)
qed (simp add: positive_drivers_def)

lemma sum_list_positive: "xs \<noteq> [] \<Longrightarrow> \<forall>x \<in> set xs. 0 < f x \<Longrightarrow> 0 < (sum_list (map f xs) :: int)"
  by (induction xs rule: list_nonempty_induct) auto

lemma driver_weights_facts:
  assumes "\<forall>e \<in> set d. driver_fine archived k e"
  shows "map fst (driver_weights d) = map fst d" "\<forall>cw \<in> set (driver_weights d). 0 < snd cw"
  using assms by (auto simp: driver_weights_def driver_fine_def Let_def)

lemma driven_pool_pass:
  assumes step: "exact_pool_pass st (key, rule, b) = Inr st'" and ds: "drivers_ok archived (xs_drivers st)"
    and b: "driven (xs_drivers st) b"
  obtains ws split where "foldE (pool_share rule b ws) st split = Inr st'" "ws \<noteq> []" "\<forall>cw \<in> set ws. 0 < snd cw" "split \<noteq> []"
    "sum_list (map (\<lambda>e. money_value (snd e)) split) = money_value (eb_amount b)"
    "\<forall>share \<in> set split. fst share \<notin> set archived \<and> canonical_money (snd share)
       \<and> money_ident (snd share) = money_ident (eb_amount b)"
proof -
  let ?k = "money_ident (eb_amount b)"
  obtain d where d: "map_of (xs_drivers st) ?k = Some d" using b by (auto simp: driven_def)
  then have D: "d \<noteq> []" "distinct (map fst d)" "\<forall>e \<in> set d. driver_fine archived ?k e"
    using ds unfolding drivers_ok_def by blast+
  have drivers: "positive_drivers st ?k = d" using positive_drivers_all [OF ds] d by simp
  let ?ws = "driver_weights d"
  obtain split where split: "split_by_weights (eb_amount b) ?ws = Inr split" "foldE (pool_share rule b ?ws) st split = Inr st'"
    using step drivers D(1) by (auto simp: exact_pool_pass_def Let_def)
  note W = driver_weights_facts [OF D(3)]
  have pos: "filter (\<lambda>cw. 0 < snd cw) ?ws = ?ws" using W(2) by (simp add: filter_id_conv)
  have ws: "?ws \<noteq> []" using W(1) D(1) by (metis map_is_Nil_conv)
  then have "0 < sum_list (map snd (filter (\<lambda>cw. 0 < snd cw) ?ws))"
    using sum_list_positive [OF _ W(2)] unfolding pos by blast
  from split_by_weights_Inr [OF split(1) _ this] W(1) D(2)
  have S: "map fst split = map fst d" "sum_list (map (\<lambda>e. money_value (snd e)) split) = money_value (eb_amount b)"
    "\<forall>e \<in> set split. canonical_money (snd e) \<and> money_ident (snd e) = ?k" by (simp_all add: pos)
  have "fst share \<notin> set archived" if "share \<in> set split" for share
  proof -
    have "fst share \<in> set (map fst split)" using that by simp
    then show ?thesis using D(3) unfolding S(1) by (auto simp: driver_fine_def)
  qed
  then have "\<forall>share \<in> set split. fst share \<notin> set archived \<and> canonical_money (snd share) \<and> money_ident (snd share) = ?k"
    using S(3) by blast
  moreover have "split \<noteq> []" using S(1) D(1) by auto
  ultimately show thesis using that split(2) ws W(2) S(2) by blast
qed

lemma undriven_pool_pass:
  assumes "exact_pool_pass st (key, rule, b) = Inr st'" "drivers_ok archived (xs_drivers st)" "\<not> driven (xs_drivers st) b"
  obtains un where "add_amount (xs_unallocated st) (eb_amount b) (eb_sources b) = Inr un" "st' = st\<lparr>xs_unallocated := un\<rparr>"
proof -
  have "positive_drivers st (money_ident (eb_amount b)) = []"
    using positive_drivers_all [OF assms(2)] assms(3) by (simp add: driven_def)
  then show thesis using assms(1) that by (auto simp: exact_pool_pass_def Let_def)
qed

lemma exact_pool_pass_ok:
  assumes st: "paid_exactly rules archived s st" "pooled ds bs u st" and step: "exact_pool_pass st (key, rule, b) = Inr st'"
    and rule: "rule \<in> set rules" and b: "bucket_fine k b"
  shows "if driven ds b then paid_exactly rules archived (\<lambda>i. s i + worth i (eb_amount b)) st' \<and> pooled ds bs u st'
    else paid_exactly rules archived s st' \<and> pooled ds (b # bs) (\<lambda>i. u i + worth i (eb_amount b)) st'"
proof (cases "driven ds b")
  case True
  let ?k = "money_ident (eb_amount b)"
  have ds: "xs_drivers st = ds" "drivers_ok archived (xs_drivers st)" using st by (auto simp: pooled_def paid_exactly_def)
  obtain ws split where split: "foldE (pool_share rule b ws) st split = Inr st'"
    "sum_list (map (\<lambda>e. money_value (snd e)) split) = money_value (eb_amount b)"
    "\<forall>share \<in> set split. fst share \<notin> set archived \<and> canonical_money (snd share) \<and> money_ident (snd share) = ?k"
    using driven_pool_pass [OF step ds(2)] True ds(1) by metis
  from pool_shares_paid [OF split(1) st(1) rule split(3)]
  have paid: "paid_exactly rules archived (\<lambda>i. s i + (if i = ?k then money_value (eb_amount b) else 0)) st'"
    "xs_unallocated st' = xs_unallocated st" "xs_drivers st' = xs_drivers st" unfolding split(2) by blast+
  have "(\<lambda>i. s i + (if i = ?k then money_value (eb_amount b) else 0)) = (\<lambda>i. s i + worth i (eb_amount b))"
    by (auto simp: worth_def)
  then show ?thesis using True paid st(2) by (simp add: pooled_def)
next
  case False
  have ds: "xs_drivers st = ds" "drivers_ok archived (xs_drivers st)" using st by (auto simp: pooled_def paid_exactly_def)
  obtain un where un: "add_amount (xs_unallocated st) (eb_amount b) (eb_sources b) = Inr un" "st' = st\<lparr>xs_unallocated := un\<rparr>"
    using undriven_pool_pass [OF step ds(2)] False ds(1) by metis
  have "amounts_ok (fst (xs_unallocated st))" "canonical_money (eb_amount b)" using st(2) b by (auto simp: pooled_def bucket_fine_def)
  note U = add_amount_ok [OF un(1) this] and keeps = add_amount_keeps [OF un(1) this, of bs]
  have "set (eb_sources b) \<subseteq> set (sources_of (snd un) (money_ident (eb_amount b)))" unfolding U(3) by simp
  then have "pooled ds (b # bs) (\<lambda>i. u i + worth i (eb_amount b)) st'"
    using U(1,2) keeps ds(1) st(2) unfolding pooled_def un(2) by simp
  then show ?thesis using False st(1) un(2) by (simp add: paid_exactly_def)
qed

lemma exact_pool_passes:
  assumes "foldE exact_pool_pass st bs = Inr st'" "paid_exactly rules archived s st" "pooled ds seen u st"
    and "\<forall>(k, rule, b) \<in> set bs. bucket_fine (snd (snd k)) b \<and> rule \<in> set rules"
  shows "paid_exactly rules archived (\<lambda>i. s i + rules_worth i (filter (\<lambda>e. driven ds (snd (snd e))) bs)) st'
    \<and> (\<exists>fin. pooled ds fin (\<lambda>i. u i + rules_worth i (filter (\<lambda>e. \<not> driven ds (snd (snd e))) bs)) st'
         \<and> (\<forall>e \<in> set bs. \<not> driven ds (snd (snd e)) \<longrightarrow> snd (snd e) \<in> set fin) \<and> set seen \<subseteq> set fin)"
  using assms
proof (induction bs arbitrary: s u st seen)
  case Nil
  then show ?case by auto
next
  case (Cons e bs)
  obtain k rule b where e [simp]: "e = (k, rule, b)" by (cases e)
  obtain st1 where st1: "exact_pool_pass st (k, rule, b) = Inr st1" "foldE exact_pool_pass st1 bs = Inr st'" using Cons.prems(1) by auto
  have fine: "bucket_fine (snd (snd k)) b" "rule \<in> set rules" using Cons.prems(4) by simp_all
  have rest: "\<forall>(k, rule, b) \<in> set bs. bucket_fine (snd (snd k)) b \<and> rule \<in> set rules" using Cons.prems(4) by simp
  note one = exact_pool_pass_ok [OF Cons.prems(2,3) st1(1) fine(2,1)]
  show ?case
  proof (cases "driven ds b")
    case True
    then have "paid_exactly rules archived (\<lambda>i. s i + worth i (eb_amount b)) st1" "pooled ds seen u st1" using one by simp_all
    from Cons.IH [OF st1(2) this rest] True show ?thesis by (simp add: add.assoc)
  next
    case False
    then have "paid_exactly rules archived s st1" "pooled ds (b # seen) (\<lambda>i. u i + worth i (eb_amount b)) st1" using one by simp_all
    from Cons.IH [OF st1(2) this rest] False show ?thesis by (auto simp: add.assoc)
  qed
qed

section \<open>The unallocated remainder\<close>

definition rest_worth :: "ident \<Rightarrow> exact_rest list \<Rightarrow> rat" where
  "rest_worth i us = sum_list (map (\<lambda>u. worth i (xu_amount u)) us)"

lemma rest_worth_simps [simp]:
  "rest_worth i [] = 0" "rest_worth i (us @ [u]) = rest_worth i us + worth i (xu_amount u)"
  by (simp_all add: rest_worth_def)

definition remains :: "(ident \<Rightarrow> rat) \<Rightarrow> (ident \<Rightarrow> rat) \<Rightarrow> exact_bucket list \<Rightarrow> exact_rest list \<times> ident_map \<Rightarrow> bool" where
  "remains r h bs ru =
     (amounts_ok (fst (snd ru)) \<and> (\<forall>i. rest_worth i (fst ru) = r i \<and> held i (fst (snd ru)) = h i)
      \<and> (\<forall>b \<in> set bs. set (eb_sources b) \<subseteq> set (sources_of (snd (snd ru)) (money_ident (eb_amount b)))))"

lemma append_unallocated_all:
  assumes "foldE (append_unallocated lc reason) ru gs = Inr ru'" "remains r h bs ru" "\<forall>(k, b) \<in> set gs. bucket_fine k b"
  shows "remains (\<lambda>i. r i + groups_worth i gs) (\<lambda>i. h i + groups_worth i gs) bs ru'"
  using assms
proof (induction gs arbitrary: r h ru)
  case Nil
  then show ?case by simp
next
  case (Cons g gs)
  obtain k b where g [simp]: "g = (k, b)" by (cases g)
  obtain ru1 where ru1: "append_unallocated lc reason ru (k, b) = Inr ru1" "foldE (append_unallocated lc reason) ru1 gs = Inr ru'"
    using Cons.prems(1) by auto
  obtain un where un: "add_amount (snd ru) (eb_amount b) (eb_sources b) = Inr un" "ru1 = (fst ru @ [rest_line lc reason b], un)"
    using ru1(1) by (auto simp: append_unallocated_def)
  have A: "amounts_ok (fst (snd ru))" "canonical_money (eb_amount b)"
    using Cons.prems(2,3) by (auto simp: remains_def bucket_fine_def)
  note U = add_amount_ok [OF un(1) A]
  have "remains (\<lambda>i. r i + worth i (eb_amount b)) (\<lambda>i. h i + worth i (eb_amount b)) bs ru1"
    using U(1,2) Cons.prems(2) add_amount_keeps [OF un(1) A, of bs] unfolding remains_def un(2) fst_conv snd_conv
    by (simp add: rest_line_def)
  moreover have "\<forall>(k, b) \<in> set gs. bucket_fine k b" using Cons.prems(3) by simp
  ultimately have "remains (\<lambda>i. r i + worth i (eb_amount b) + groups_worth i gs) (\<lambda>i. h i + worth i (eb_amount b) + groups_worth i gs) bs ru'"
    by (rule Cons.IH [OF ru1(2)])
  then show ?case by (simp add: add.assoc)
qed

lemma append_pool_ok:
  assumes step: "append_pool lc ds ru (key, rule, b) = Inr ru'" and ru: "remains r h bs ru"
    and ds: "drivers_ok archived ds" and b: "bucket_fine k b" "\<not> driven ds b \<Longrightarrow> b \<in> set bs"
  shows "remains (\<lambda>i. r i + (if driven ds b then 0 else worth i (eb_amount b))) h bs ru'"
proof (cases "driven ds b")
  case True
  then obtain d where d: "map_of ds (money_ident (eb_amount b)) = Some d" by (auto simp: driven_def)
  then have "d \<noteq> []" using ds unfolding drivers_ok_def by blast
  then show ?thesis using True step ru d by (simp add: append_pool_def Let_def)
next
  case False
  then have none: "map_of ds (money_ident (eb_amount b)) = None" by (simp add: driven_def)
  let ?already = "sources_of (snd (snd ru)) (money_ident (eb_amount b))"
  have "set (eb_sources b) \<subseteq> set ?already" using b(2) [OF False] ru by (simp add: remains_def)
  moreover have "eb_sources b \<noteq> []" using b(1) by (simp add: bucket_fine_def)
  ultimately have "list_ex (\<lambda>s. s \<in> set (eb_sources b)) ?already"
    unfolding list_ex_iff by (meson hd_in_set subsetD)
  then have "ru' = (fst ru @ [rest_line lc ''no_driver_for_proportional_pool'' b], snd ru)"
    using step none by (simp add: append_pool_def Let_def sources_of_def)
  then show ?thesis using False ru by (simp add: remains_def rest_line_def)
qed

lemma append_pools:
  assumes "foldE (append_pool lc ds) ru ps = Inr ru'" "remains r h bs ru" "drivers_ok archived ds"
    and "\<forall>(k, rule, b) \<in> set ps. bucket_fine (snd (snd k)) b \<and> rule \<in> set rules"
    and "\<forall>e \<in> set ps. \<not> driven ds (snd (snd e)) \<longrightarrow> snd (snd e) \<in> set bs"
  shows "remains (\<lambda>i. r i + rules_worth i (filter (\<lambda>e. \<not> driven ds (snd (snd e))) ps)) h bs ru'"
  using assms
proof (induction ps arbitrary: r ru)
  case Nil
  then show ?case by simp
next
  case (Cons e ps)
  obtain k rule b where e [simp]: "e = (k, rule, b)" by (cases e)
  obtain ru1 where ru1: "append_pool lc ds ru (k, rule, b) = Inr ru1" "foldE (append_pool lc ds) ru1 ps = Inr ru'"
    using Cons.prems(1) by auto
  have fine: "bucket_fine (snd (snd k)) b" "\<not> driven ds b \<Longrightarrow> b \<in> set bs" using Cons.prems(4,5) by simp_all
  have tail: "\<forall>(k, rule, b) \<in> set ps. bucket_fine (snd (snd k)) b \<and> rule \<in> set rules"
    "\<forall>e \<in> set ps. \<not> driven ds (snd (snd e)) \<longrightarrow> snd (snd e) \<in> set bs" using Cons.prems(4,5) by simp_all
  from append_pool_ok [OF ru1(1) Cons.prems(2,3) fine]
  have "remains (\<lambda>i. r i + (if driven ds b then 0 else worth i (eb_amount b))) h bs ru1" .
  from Cons.IH [OF ru1(2) this Cons.prems(3) tail] show ?case by (cases "driven ds b") (simp_all add: add.assoc)
qed

section \<open>The run\<close>

lemma amount_or_zero_Inr:
  assumes "amount_or_zero xs i = Inr m" "amounts_ok xs"
  shows "money_value m = held i xs \<and> money_ident m = i \<and> canonical_money m"
proof (cases "map_of xs i")
  case None
  then have z: "zero_money (fst i) (snd i) = Inr m" using assms(1) by (simp add: amount_or_zero_def)
  show ?thesis using zero_money_Inr(1-3) [OF z] None by (simp add: held_def)
next
  case (Some x)
  then show ?thesis using assms(1) amounts_ok_lookup [OF assms(2) Some] by (simp add: amount_or_zero_def held_def)
qed

lemma check_identity_true:
  assumes "check_identity t a u c i = Inr c'" "amounts_ok (fst t)" "amounts_ok (fst a)" "amounts_ok (fst u)"
    and "held i (fst t) = held i (fst a) + held i (fst u)"
  shows "c' = c"
proof -
  obtain expected am um placed k where m: "amount_or_zero (fst t) i = Inr expected" "amount_or_zero (fst a) i = Inr am"
    "amount_or_zero (fst u) i = Inr um" "add_money am um = Inr placed" "compare_money expected placed = Inr k"
    "c' = (if k \<noteq> 0 then False else c)" using assms(1) by (auto simp: check_identity_def)
  have "money_value expected = money_value placed"
    using amount_or_zero_Inr m(1-3) assms(2-5) add_money_Inr(1) [OF m(4)] by simp
  then have "k = 0" using compare_money_Inr(2) [OF m(5)] by simp
  then show ?thesis using m(6) by simp
qed

lemma canonical_rows_fine:
  assumes "canonical_exact_rows raw ps pe = Inr (s, e, rows)"
  shows "\<forall>r \<in> set rows. row_fine r"
proof -
  obtain vs seen where vs: "foldE (canonical_exact_row s e) ([], []) vs = Inr (seen, rows)"
    using assms by (auto simp: canonical_exact_rows_def split: jsval.splits option.splits if_splits prod.splits)
  have "\<forall>r \<in> set (snd (seen, rows)). row_fine r"
  proof (rule foldE_invariant [OF _ _ vs])
    fix st v st' assume st: "\<forall>r \<in> set (snd st). row_fine r" and step: "canonical_exact_row s e st v = Inr st'"
    obtain ids seen' sources amount r where r: "field ''sourceEventIds'' v = JArr ids" "ids \<noteq> []"
      "claim_sources (fst st) ids = Inr (seen', sources)" "exact_money_value ''exact allocation row amount'' (field ''amount'' v) = Inr amount"
      "st' = (seen', snd st @ [r])" "xr_sources r = sources" "xr_amount r = amount"
      using step by (auto simp: canonical_exact_row_def split: jsval.splits option.splits if_splits prod.splits)
    have "canonical_money amount" using r(4) money_from_json_Inr(1)
      by (auto simp: exact_money_value_def split: jsval.splits if_splits)
    moreover have "sources \<noteq> []" using r(2,3) by (cases ids) (auto split: jsval.splits if_splits prod.splits)
    ultimately show "\<forall>r \<in> set (snd st'). row_fine r" using st r(5-7) by (simp add: row_fine_def)
  qed simp
  then show ?thesis by simp
qed

lemma bucket_map_worth:
  assumes "amounts_ok (fst m)"
  shows "sum_list (map (\<lambda>x. worth i (xb_amount x)) (as_bucket_map lc m)) = held i (fst m)"
proof -
  have "sum_list (map (\<lambda>x. worth i (xb_amount x)) (as_bucket_map lc m)) = sum_list (map (\<lambda>e. worth i (snd e)) (fst m))"
    unfolding as_bucket_map_def sum_list_sort_by by (simp add: o_def split_def)
  then show ?thesis using held_sum [OF assms] by simp
qed

lemma check_identities:
  assumes "foldE (check_identity t a u) True is = Inr c" "amounts_ok (fst t)" "amounts_ok (fst a)" "amounts_ok (fst u)"
    and "\<And>i. held i (fst t) = held i (fst a) + held i (fst u)"
  shows "c"
proof -
  have "c = True"
    by (rule foldE_invariant [where P = "\<lambda>c. c = True", OF _ refl assms(1)]) (use check_identity_true assms(2-5) in blast)
  then show ?thesis by simp
qed

lemma validated_all:
  "foldE (\<lambda>_. validate_rule) u rules = Inr v \<Longrightarrow> \<forall>r \<in> set rules. validate_rule r = Inr ()"
  by (induction rules arbitrary: u) auto

lemma rules_worth_split: "rules_worth i bs = rules_worth i (filter Q bs) + rules_worth i (filter (\<lambda>e. \<not> Q e) bs)"
  by (induction bs) (simp_all add: algebra_simps)

lemma exact_run_passes:
  assumes "apply_exact_allocation lc raw rules centres ps pe run_at = Inr run"
  obtains s e rows at_ms P st1 st2 u1 u2 rest un conserves excluded where
    "\<forall>r \<in> set rules. validate_rule r = Inr ()"
    "foldE (place_exact_row (order_rules lc rules) (archived_centres centres)) no_exact_places rows = Inr P"
    "foldE claimed_pass no_exact_state (xp_claimed P) = Inr st1"
    "canonical_exact_rows raw ps pe = Inr (s, e, rows)" "safe_integer run_at = Some at_ms" "exact_excluded_from True = Inr excluded"
    "foldE exact_pool_pass st1 (xp_pools P) = Inr st2"
    "foldE (append_unallocated lc ''no_matching_rule'') ([], xs_unallocated st2) (xp_unmatched P) = Inr u1"
    "foldE (append_unallocated lc ''target_cost_centre_archived'') u1 (xp_archived P) = Inr u2"
    "foldE (append_pool lc (xs_drivers st2)) u2 (xp_pools P) = Inr (rest, un)"
    "foldE (check_identity (xp_total P) (xs_allocated st2) un) True
       (to_set (map fst (fst (xp_total P)) @ map fst (fst (xs_allocated st2)) @ map fst (fst un))) = Inr conserves"
    "run = \<lparr>xa_start = s, xa_end = e, xa_run_at = at_ms, xa_total = as_bucket_map lc (xp_total P),
       xa_allocated = as_bucket_map lc (xs_allocated st2), xa_unallocated = as_bucket_map lc un,
       xa_lines = sort_by (line_order lc) (xs_lines st2), xa_rest = sort_by (rest_order lc) rest,
       xa_bases = sort (to_set (map (\<lambda>r. basis_name (basis (xr_amount r))) rows)), xa_unresolved = [],
       xa_complete = True, xa_conserves = conserves, xa_excluded = excluded\<rparr>"
proof -
  obtain s e rows v at_ms P st1 st2 u1 u2 rest un conserves excluded where v: "foldE (\<lambda>_. validate_rule) () rules = Inr v"
    and steps: "foldE (place_exact_row (order_rules lc rules) (archived_centres centres)) no_exact_places rows = Inr P"
    "foldE claimed_pass no_exact_state (xp_claimed P) = Inr st1"
    "canonical_exact_rows raw ps pe = Inr (s, e, rows)" "safe_integer run_at = Some at_ms" "exact_excluded_from True = Inr excluded"
    "foldE exact_pool_pass st1 (xp_pools P) = Inr st2"
    "foldE (append_unallocated lc ''no_matching_rule'') ([], xs_unallocated st2) (xp_unmatched P) = Inr u1"
    "foldE (append_unallocated lc ''target_cost_centre_archived'') u1 (xp_archived P) = Inr u2"
    "foldE (append_pool lc (xs_drivers st2)) u2 (xp_pools P) = Inr (rest, un)"
    "foldE (check_identity (xp_total P) (xs_allocated st2) un) True
       (to_set (map fst (fst (xp_total P)) @ map fst (fst (xs_allocated st2)) @ map fst (fst un))) = Inr conserves"
    "run = \<lparr>xa_start = s, xa_end = e, xa_run_at = at_ms, xa_total = as_bucket_map lc (xp_total P),
       xa_allocated = as_bucket_map lc (xs_allocated st2), xa_unallocated = as_bucket_map lc un,
       xa_lines = sort_by (line_order lc) (xs_lines st2), xa_rest = sort_by (rest_order lc) rest,
       xa_bases = sort (to_set (map (\<lambda>r. basis_name (basis (xr_amount r))) rows)), xa_unresolved = [],
       xa_complete = True, xa_conserves = conserves, xa_excluded = excluded\<rparr>"
    using assms unfolding apply_exact_allocation_def Let_def archived_centres_def [symmetric]
    by (elim bindE_InrE prod.exhaust; auto split: option.splits prod.splits)
  show thesis by (rule that [OF validated_all [OF v] steps])
qed

lemma claimed_rows_paid:
  assumes rows: "canonical_exact_rows raw ps pe = Inr (s, e, rows)" and valid: "\<forall>r \<in> set rules. validate_rule r = Inr ()"
    and P: "foldE (place_exact_row (order_rules lc rules) archived) no_exact_places rows = Inr P"
    and st1: "foldE claimed_pass no_exact_state (xp_claimed P) = Inr st1"
  shows "exact_placed rules archived rows P" "paid_exactly rules archived (\<lambda>i. rules_worth i (xp_claimed P)) st1"
    "xs_unallocated st1 = ([], [])"
proof -
  have "exact_placed rules archived ([] @ rows) P"
    by (rule exact_placing [OF P no_exact_places_placed _ canonical_rows_fine [OF rows]]) simp
  then show placed: "exact_placed rules archived rows P" by simp
  have start: "paid_exactly rules archived (\<lambda>i. 0) no_exact_state" "xs_unallocated no_exact_state = ([], [])"
    by (simp_all add: paid_exactly_def no_exact_state_def drivers_ok_def)
  have "\<forall>(k, rule, b) \<in> set (xp_claimed P). bucket_fine (snd (snd k)) b \<and> direct_rule rules archived rule"
    using placed by (simp add: exact_placed_def rules_ok_def)
  from claimed_passes_paid [OF st1 start(1) this valid] start(2)
  show "paid_exactly rules archived (\<lambda>i. rules_worth i (xp_claimed P)) st1" "xs_unallocated st1 = ([], [])" by auto
qed

lemma exact_run_facts:
  assumes "apply_exact_allocation lc raw rules centres ps pe run_at = Inr run"
  shows "\<exists>s e rows. canonical_exact_rows raw ps pe = Inr (s, e, rows) \<and> xa_conserves run
    \<and> (\<forall>i. rows_worth i rows = lines_worth i (xa_lines run) + rest_worth i (xa_rest run)
         \<and> sum_list (map (\<lambda>x. worth i (xb_amount x)) (xa_total run)) = rows_worth i rows
         \<and> sum_list (map (\<lambda>x. worth i (xb_amount x)) (xa_allocated run)) = lines_worth i (xa_lines run)
         \<and> sum_list (map (\<lambda>x. worth i (xb_amount x)) (xa_unallocated run)) = rest_worth i (xa_rest run))
    \<and> (\<forall>l \<in> set (xa_lines run). line_fine rules (archived_centres centres) l)"
proof -
  let ?arch = "archived_centres centres"
  obtain s e rows at_ms P st1 st2 u1 u2 rest un conserves excluded where
    valid: "\<forall>r \<in> set rules. validate_rule r = Inr ()"
    and P: "foldE (place_exact_row (order_rules lc rules) ?arch) no_exact_places rows = Inr P"
    and st1: "foldE claimed_pass no_exact_state (xp_claimed P) = Inr st1"
    and rows: "canonical_exact_rows raw ps pe = Inr (s, e, rows)"
    and head: "safe_integer run_at = Some at_ms" "exact_excluded_from True = Inr excluded"
    and st2: "foldE exact_pool_pass st1 (xp_pools P) = Inr st2"
    and u1: "foldE (append_unallocated lc ''no_matching_rule'') ([], xs_unallocated st2) (xp_unmatched P) = Inr u1"
    and u2: "foldE (append_unallocated lc ''target_cost_centre_archived'') u1 (xp_archived P) = Inr u2"
    and u3: "foldE (append_pool lc (xs_drivers st2)) u2 (xp_pools P) = Inr (rest, un)"
    and c: "foldE (check_identity (xp_total P) (xs_allocated st2) un) True
              (to_set (map fst (fst (xp_total P)) @ map fst (fst (xs_allocated st2)) @ map fst (fst un))) = Inr conserves"
    and run: "run = \<lparr>xa_start = s, xa_end = e, xa_run_at = at_ms, xa_total = as_bucket_map lc (xp_total P),
                xa_allocated = as_bucket_map lc (xs_allocated st2), xa_unallocated = as_bucket_map lc un,
                xa_lines = sort_by (line_order lc) (xs_lines st2), xa_rest = sort_by (rest_order lc) rest,
                xa_bases = sort (to_set (map (\<lambda>r. basis_name (basis (xr_amount r))) rows)), xa_unresolved = [],
                xa_complete = True, xa_conserves = conserves, xa_excluded = excluded\<rparr>"
    by (rule exact_run_passes [OF assms])
  note claimed = claimed_rows_paid [OF rows valid P st1]
  from claimed(1) have placed: "amounts_ok (fst (xp_total P))" "\<And>i. held i (fst (xp_total P)) = rows_worth i rows"
    "rules_ok (pool_rule rules) (xp_pools P)" "groups_ok (xp_unmatched P)" "groups_ok (xp_archived P)"
    "\<And>i. rules_worth i (xp_claimed P) + rules_worth i (xp_pools P) + groups_worth i (xp_unmatched P)
       + groups_worth i (xp_archived P) = rows_worth i rows"
    unfolding exact_placed_def by blast+
  note paid1 = claimed(2,3)
  let ?ds = "xs_drivers st1"
  have pooled: "pooled ?ds [] (\<lambda>i. 0) st1" using paid1(2) by (simp add: pooled_def)
  have pools: "\<forall>(k, rule, b) \<in> set (xp_pools P). bucket_fine (snd (snd k)) b \<and> rule \<in> set rules"
    using placed(3) by (simp add: rules_ok_def pool_rule_def)
  from exact_pool_passes [OF st2 paid1(1) pooled pools] obtain fin where
    paid2: "paid_exactly rules ?arch (\<lambda>i. rules_worth i (xp_claimed P) + rules_worth i (filter (\<lambda>e. driven ?ds (snd (snd e))) (xp_pools P))) st2"
    and fin: "pooled ?ds fin (\<lambda>i. rules_worth i (filter (\<lambda>e. \<not> driven ?ds (snd (snd e))) (xp_pools P))) st2"
      "\<forall>e \<in> set (xp_pools P). \<not> driven ?ds (snd (snd e)) \<longrightarrow> snd (snd e) \<in> set fin"
    by auto
  have ds2: "xs_drivers st2 = ?ds" "drivers_ok ?arch ?ds" using fin(1) paid1(1) by (simp_all add: pooled_def paid_exactly_def)
  let ?un = "\<lambda>i. rules_worth i (filter (\<lambda>e. \<not> driven ?ds (snd (snd e))) (xp_pools P))"
  have none: "remains (\<lambda>i. 0) ?un fin ([], xs_unallocated st2)" using fin(1) by (simp add: remains_def pooled_def)
  have gs: "\<forall>(k, b) \<in> set (xp_unmatched P). bucket_fine k b" "\<forall>(k, b) \<in> set (xp_archived P). bucket_fine k b"
    using placed(4,5) by (simp_all add: groups_ok_def)
  note both = append_unallocated_all [OF u2 append_unallocated_all [OF u1 none gs(1)] gs(2)]
  from append_pools [OF u3 [unfolded ds2(1)] both ds2(2) pools fin(2)]
  have final: "amounts_ok (fst un)" "\<And>i. rest_worth i rest = groups_worth i (xp_unmatched P) + groups_worth i (xp_archived P) + ?un i"
    "\<And>i. held i (fst un) = ?un i + groups_worth i (xp_unmatched P) + groups_worth i (xp_archived P)"
    unfolding remains_def fst_conv snd_conv add_0_left by blast+
  have split: "rules_worth i (xp_pools P) = rules_worth i (filter (\<lambda>e. driven ?ds (snd (snd e))) (xp_pools P)) + ?un i" for i
    by (rule rules_worth_split)
  have lines: "amounts_ok (fst (xs_allocated st2))" "\<And>i. held i (fst (xs_allocated st2)) = lines_worth i (xs_lines st2)"
    "\<And>i. lines_worth i (xs_lines st2) = rules_worth i (xp_claimed P) + rules_worth i (filter (\<lambda>e. driven ?ds (snd (snd e))) (xp_pools P))"
    "\<forall>l \<in> set (xs_lines st2). line_fine rules ?arch l" using paid2 unfolding paid_exactly_def by auto
  have whole: "rows_worth i rows = lines_worth i (xs_lines st2) + rest_worth i rest" for i
    using placed(6) [of i] split [of i] lines(3) [of i] final(2) [of i] by simp
  have "held i (fst (xp_total P)) = held i (fst (xs_allocated st2)) + held i (fst un)" for i
    using placed(2) [of i] lines(2) [of i] whole [of i] final(2,3) [of i] by simp
  from check_identities [OF c placed(1) lines(1) final(1) this] have conserves .
  moreover have "lines_worth i (xa_lines run) = lines_worth i (xs_lines st2)" "rest_worth i (xa_rest run) = rest_worth i rest" for i
    unfolding run by (simp_all add: lines_worth_def rest_worth_def sum_list_sort_by)
  ultimately show ?thesis
    using rows whole bucket_map_worth [OF placed(1)] bucket_map_worth [OF lines(1)] bucket_map_worth [OF final(1)]
      placed(2) lines(2,4) final(2,3)
    by (intro exI [of _ s] exI [of _ e] exI [of _ rows]) (simp add: run)
qed

section \<open>Properties\<close>

text \<open>C37: an exact run that returns conserves money and says so.  For every currency and basis the rows, as
  canonicalised, are worth exactly what the lines and the unallocated remainder are worth together, the three
  totals by identity repeat these sums, and every line names a rule of the rule set with its version and
  method and pays no archived cost centre.\<close>

theorem exact_allocation_conserves:
  assumes "apply_exact_allocation lc raw rules centres ps pe run_at = Inr run"
  shows "\<exists>s e rows. canonical_exact_rows raw ps pe = Inr (s, e, rows) \<and> xa_conserves run
    \<and> (\<forall>i. sum_list (map (\<lambda>r. worth i (xr_amount r)) rows)
             = sum_list (map (\<lambda>l. worth i (xl_amount l)) (xa_lines run)) + sum_list (map (\<lambda>u. worth i (xu_amount u)) (xa_rest run))
         \<and> sum_list (map (\<lambda>x. worth i (xb_amount x)) (xa_total run)) = sum_list (map (\<lambda>r. worth i (xr_amount r)) rows)
         \<and> sum_list (map (\<lambda>x. worth i (xb_amount x)) (xa_allocated run)) = sum_list (map (\<lambda>l. worth i (xl_amount l)) (xa_lines run))
         \<and> sum_list (map (\<lambda>x. worth i (xb_amount x)) (xa_unallocated run)) = sum_list (map (\<lambda>u. worth i (xu_amount u)) (xa_rest run)))
    \<and> (\<forall>l \<in> set (xa_lines run).
         (\<exists>r \<in> set rules. xl_rule l = ru_id r \<and> xl_version l = ru_version r \<and> xl_method l = ru_method r)
         \<and> \<not> (\<exists>c \<in> set centres. cc_id c = xl_centre l \<and> cc_archived c \<noteq> None))"
proof -
  have line: "(\<exists>r \<in> set rules. xl_rule l = ru_id r \<and> xl_version l = ru_version r \<and> xl_method l = ru_method r)
      \<and> \<not> (\<exists>c \<in> set centres. cc_id c = xl_centre l \<and> cc_archived c \<noteq> None)"
    if "line_fine rules (archived_centres centres) l" for l
    using that by (auto simp: line_fine_def archived_centres_def image_iff)
  then show ?thesis
    using exact_run_facts [OF assms] unfolding rows_worth_def lines_worth_def rest_worth_def by blast
qed

definition exact_sample_row :: "string \<Rightarrow> string \<Rightarrow> int \<Rightarrow> nat \<Rightarrow> jsval" where
  "exact_sample_row i proj c s =
     JObj [(''sourceEventIds'', JArr [JStr i]),
           (''amount'', JObj [(''coefficient'', JBigInt c), (''scale'', JNum (of_nat s)), (''currency'', JStr ''USD''), (''basis'', JStr ''list'')]),
           (''project'', JStr proj), (''provider'', JStr ''p''), (''model'', JStr ''m''), (''source'', JNull),
           (''user'', JNull), (''tsEpochMs'', JNum 5)]"

definition exact_sample_rows :: jsval where
  "exact_sample_rows = JArr [exact_sample_row ''e1'' ''app'' 15 1, exact_sample_row ''e2'' ''ops'' 1 0, exact_sample_row ''e3'' ''lab'' (- 3) 1]"

definition sample_centres :: "cost_centre list" where
  "sample_centres = map (\<lambda>i. \<lparr>cc_id = i, cc_name = JStr i, cc_owner = None, cc_archived = None\<rparr>) [''a'', ''b'']"

lemma exact_sample_run:
  "case apply_exact_allocation code_unit_cmp exact_sample_rows sample_rules sample_centres (JNum 0) (JNum 10) (JNum 11) of
     Inl e \<Rightarrow> False
   | Inr run \<Rightarrow> length (xa_lines run) = 4 \<and> length (xa_rest run) < 4
       \<and> list_all (\<lambda>l. \<bar>coefficient (xl_amount l)\<bar> < 10000) (xa_lines run) \<and> list_all (\<lambda>u. \<bar>coefficient (xu_amount u)\<bar> < 10000) (xa_rest run)"
  by code_simp

theorem exact_allocation_conserves_witness:
  "\<exists>run. apply_exact_allocation code_unit_cmp exact_sample_rows sample_rules sample_centres (JNum 0) (JNum 10) (JNum 11) = Inr run
    \<and> length (xa_lines run) = 4 \<and> xa_conserves run"
proof -
  obtain run where run: "apply_exact_allocation code_unit_cmp exact_sample_rows sample_rules sample_centres (JNum 0) (JNum 10) (JNum 11) = Inr run"
    "length (xa_lines run) = 4" using exact_sample_run by (auto split: sum.splits)
  from exact_allocation_conserves [OF run(1)] show ?thesis using run by blast
qed

end
