(* ===== verification/ExactRecords.thy ===== *)
theory ExactRecords
  imports ExactJson ExactProps
begin

text \<open>
  What the validator of exact runs establishes, and that a validated run survives its JSON form.
\<close>

section \<open>Values of the two forms\<close>

lemma show_int_same: "show_int a = show_int b \<longleftrightarrow> a = b"
  by (metis read_show_int)

lemma exact_money_object: "exact_money_value l (money_object m) = Inr m' \<longleftrightarrow> m' = m \<and> canonical_money m"
proof
  assume "exact_money_value l (money_object m) = Inr m'"
  then have j: "money_from_json (JObj [(''coefficient'', JStr (show_int (coefficient m))), (''scale'', JNum (of_nat (scale m))),
      (''currency'', JStr (currency m)), (''basis'', JStr (basis_name (basis m)))]) = Inr m'"
    by (simp add: exact_money_value_def money_object_def split: if_splits)
  then show "m' = m \<and> canonical_money m"
    using money_from_json_Inr [OF j] by (cases m; cases m') (simp add: show_int_same)
next
  assume "m' = m \<and> canonical_money m"
  then show "exact_money_value l (money_object m) = Inr m'"
    using money_json_roundtrip [of m] by (simp add: exact_money_value_def money_object_def keys_are_def money_to_json_def)
qed

lemma parsed_money_json: "canonical_money m \<Longrightarrow> parsed_money (money_to_json m) l = Inr m"
  using money_json_roundtrip [of m]
  by (simp add: parsed_money_def exact_object_def exact_fields_def keys_are_def money_to_json_def)

definition texts_ok :: "string list \<Rightarrow> bool" where
  "texts_ok ss = (distinct ss \<and> (\<forall>s \<in> set ss. trim s \<noteq> []))"

lemma string_items_iff:
  "string_items l seen (map JStr ss) = Inr ids \<longleftrightarrow> ids = ss \<and> texts_ok ss \<and> set ss \<inter> set seen = {}"
  by (induction ss arbitrary: seen ids) (auto simp: texts_ok_def bindE_Inr_iff)

lemma string_array_iff:
  "string_array l e (strings_form ss) = Inr ids \<longleftrightarrow> ids = ss \<and> texts_ok ss \<and> (e \<or> ss \<noteq> [])"
  by (auto simp: string_array_def strings_form_def string_items_iff)

lemma text_value_iff [simp]: "text_value l (JStr s) = Inr t \<longleftrightarrow> t = s \<and> trim s \<noteq> []"
  by auto

lemma basis_text: "trim (basis_name b) \<noteq> []"
  by (cases b) (simp_all add: trim_def js_space_def)

lemma trim_spaceless:
  assumes "\<forall>c \<in> set s. \<not> js_space c"
  shows "trim s = s"
proof -
  have "dropWhile js_space s = s" using assms by (cases s) auto
  moreover have "dropWhile js_space (rev s) = rev s" using assms by (cases s rule: rev_cases) auto
  ultimately show ?thesis by (simp add: trim_def)
qed

lemma canonical_currency_text:
  assumes "canonical_money m"
  shows "trim (currency m) \<noteq> []"
proof -
  have m: "length (currency m) = 3" "list_all (\<lambda>x. 65 \<le> (of_char x :: nat) \<and> (of_char x :: nat) \<le> 90) (currency m)"
    using assms by (auto simp: canonical_money_def assert_currency_def split: if_splits)
  then have "\<forall>x \<in> set (currency m). \<not> js_space x" by (auto simp: list_all_iff js_space_def)
  from trim_spaceless [OF this] show ?thesis using m(1) by auto
qed

lemmas forms = bucket_form_def line_form_def rest_form_def project_form_def run_form_def

lemma form_keys [simp]:
  "keys_are bucket_keys (bucket_form mj b)" "keys_are line_keys (line_form mj l)"
  "keys_are unallocated_keys (rest_form mj u)" "keys_are top_project_keys (project_form mj p)"
  "keys_are result_keys (run_form mj r)"
  by (simp_all add: forms keys_are_def bucket_keys_def line_keys_def unallocated_keys_def top_project_keys_def result_keys_def)

lemma form_objects [simp]:
  "is_object (bucket_form mj b)" "is_object (line_form mj l)" "is_object (rest_form mj u)" "is_object (project_form mj p)"
  "is_object (run_form mj r)"
  by (simp_all add: forms)

section \<open>Aggregates\<close>

definition lineage :: "ident \<Rightarrow> (money \<times> string list) list \<Rightarrow> string set" where
  "lineage i xs = (\<Union>x \<in> set xs. if money_ident (fst x) = i then set (snd x) else {})"

definition pairs_worth :: "ident \<Rightarrow> (money \<times> string list) list \<Rightarrow> rat" where
  "pairs_worth i xs = sum_list (map (\<lambda>x. worth i (fst x)) xs)"

definition gathers :: "ident_map \<Rightarrow> (money \<times> string list) list \<Rightarrow> bool" where
  "gathers m xs =
     (amounts_ok (fst m) \<and> fst ` set (fst m) = money_ident ` fst ` set xs
      \<and> (\<forall>i. held i (fst m) = pairs_worth i xs \<and> set (sources_of (snd m) i) = lineage i xs))"

lemma gathersD: "gathers m xs \<Longrightarrow> held i (fst m) = pairs_worth i xs"
  "gathers m xs \<Longrightarrow> set (sources_of (snd m) i) = lineage i xs"
  unfolding gathers_def by blast+

lemma gathers_Nil: "gathers ([], []) []"
  by (simp add: gathers_def pairs_worth_def lineage_def)

lemma update_keys: "fst ` set (AList.update k v al) = insert k (fst ` set al)"
  by (induction al) auto

lemma gathers_snoc:
  assumes "gathers m xs" "amounts_ok (fst n)" "fst ` set (fst n) = insert (money_ident a) (fst ` set (fst m))"
    and "\<And>i. held i (fst n) = held i (fst m) + worth i a"
    and "\<And>i. set (sources_of (snd n) i) = set (sources_of (snd m) i) \<union> (if i = money_ident a then set ids else {})"
  shows "gathers n (xs @ [(a, ids)])"
  using assms by (auto simp: gathers_def pairs_worth_def lineage_def split: if_splits)

lemma gathers_add_amount:
  assumes "gathers m xs" "add_amount m a ids = Inr n" "canonical_money a"
  shows "gathers n (xs @ [(a, ids)])"
proof -
  have ok: "amounts_ok (fst m)" using assms(1) by (simp add: gathers_def)
  have "fst ` set (fst n) = insert (money_ident a) (fst ` set (fst m))"
  proof -
    obtain s where "fst n = AList.update (money_ident a) s (fst m)"
      using assms(2) by (auto simp: add_amount_def add_keyed_def Let_def)
    then show ?thesis by (simp add: update_keys)
  qed
  then show ?thesis using add_amount_ok [OF assms(2) ok assms(3)] by (intro gathers_snoc [OF assms(1)]) simp_all
qed

lemma aggregate_is_add_amount:
  "bindE (add_aggregate (fst m) a) (\<lambda>amounts. Inr (amounts, aggregate_sources (snd m) a ids)) = add_amount m a ids"
  by (simp add: add_aggregate_def aggregate_sources_def add_amount_def Let_def)

lemma gathers_fold:
  assumes "\<And>m x n ys. x \<in> set xs \<Longrightarrow> gathers m ys \<Longrightarrow> f m (form x) = Inr n \<Longrightarrow> gathers n (ys @ [pair x]) \<and> Q x"
    and "foldE f m (map form xs) = Inr n" "gathers m ys"
  shows "gathers n (ys @ map pair xs) \<and> (\<forall>x \<in> set xs. Q x)"
  using assms
proof (induction xs arbitrary: m ys)
  case Nil
  then show ?case by simp
next
  case (Cons x xs)
  then obtain m' where m': "f m (form x) = Inr m'" "foldE f m' (map form xs) = Inr n" by auto
  have x: "gathers m' (ys @ [pair x]) \<and> Q x" using Cons.prems(1) [OF _ Cons.prems(3) m'(1)] by simp
  have "gathers n ((ys @ [pair x]) @ map pair xs) \<and> (\<forall>x \<in> set xs. Q x)"
    using Cons.prems(1) m'(2) x by (intro Cons.IH) auto
  then show ?case using x by simp
qed

definition bucket_pair :: "money_bucket \<Rightarrow> money \<times> string list" where
  "bucket_pair b = (xb_amount b, xb_sources b)"

definition line_pair :: "exact_line \<Rightarrow> money \<times> string list" where
  "line_pair l = (xl_amount l, xl_sources l)"

definition rest_pair :: "exact_rest \<Rightarrow> money \<times> string list" where
  "rest_pair u = (xu_amount u, xu_sources u)"

definition bucket_valid :: "money_bucket \<Rightarrow> bool" where
  "bucket_valid b =
     (canonical_money (xb_amount b) \<and> money_ident (xb_amount b) = (xb_currency b, xb_basis b)
      \<and> texts_ok (xb_sources b) \<and> xb_sources b \<noteq> [])"

definition line_valid :: "exact_line \<Rightarrow> bool" where
  "line_valid l =
     (canonical_money (xl_amount l) \<and> basis (xl_amount l) = xl_basis l \<and> rule_metadata_ok (line_form money_object l)
      \<and> texts_ok (xl_sources l) \<and> xl_sources l \<noteq> [])"

definition rest_valid :: "exact_rest \<Rightarrow> bool" where
  "rest_valid u =
     (canonical_money (xu_amount u) \<and> basis (xu_amount u) = xu_basis u \<and> xu_reason u \<in> set unallocated_reasons
      \<and> texts_ok (xu_sources u) \<and> xu_sources u \<noteq> []
      \<and> (\<forall>p \<in> set (xu_projects u). trim (fst p) \<noteq> [] \<and> canonical_money (snd p) \<and> money_ident (snd p) = money_ident (xu_amount u)))"

lemma amount_map_gathers:
  assumes "amount_map (map (bucket_form money_object) bs) l = Inr m"
  shows "gathers m (map bucket_pair bs) \<and> (\<forall>b \<in> set bs. bucket_valid b)"
proof -
  have "gathers m ([] @ map bucket_pair bs) \<and> (\<forall>b \<in> set bs. bucket_valid b)"
  proof (rule gathers_fold [OF _ assms [unfolded amount_map_def] gathers_Nil])
    fix m b n ys assume m: "gathers m ys" and step: "amount_map_step l m (bucket_form money_object b) = Inr n"
    let ?a = "xb_amount b"
    have f: "field ''amount'' (bucket_form money_object b) = money_object ?a" "field ''currency'' (bucket_form money_object b) = JStr (xb_currency b)"
      "field ''basis'' (bucket_form money_object b) = JStr (basis_name (xb_basis b))"
      "field ''sourceEventIds'' (bucket_form money_object b) = strings_form (xb_sources b)" by (simp_all add: bucket_form_def)
    from step have new: "canonical_money ?a" "map_of (fst m) (money_ident ?a) = None" "xb_currency b = currency ?a" "xb_basis b = basis ?a"
      "texts_ok (xb_sources b)" "xb_sources b \<noteq> []"
      "n = (AList.update (money_ident ?a) ?a (fst m), AList.update (money_ident ?a) (to_set (xb_sources b)) (snd m))"
      by (auto simp: amount_map_step_def exact_fields_def f exact_money_object string_array_iff Let_def split: if_splits)
    have ok: "amounts_ok (fst m)" using m by (simp add: gathers_def)
    have "money_ident ?a \<notin> money_ident ` fst ` set ys" using m new(2) by (simp add: gathers_def map_of_eq_None_set)
    then have "money_ident (fst x) \<noteq> money_ident ?a" if "x \<in> set ys" for x using that by (metis imageI)
    then have "lineage (money_ident ?a) ys = {}" by (simp add: lineage_def)
    then have old: "sources_of (snd m) (money_ident ?a) = []" using gathersD(2) [OF m, of "money_ident ?a"] by simp
    have keyed: "add_keyed (money_ident ?a) ?a (fst m) = Inr (fst n)" using new(2,7) by (simp add: add_keyed_def)
    have src: "set (sources_of (snd n) i) = set (sources_of (snd m) i) \<union> (if i = money_ident ?a then set (xb_sources b) else {})" for i
    proof -
      have "sources_of (snd n) i = (if i = money_ident ?a then to_set (xb_sources b) else sources_of (snd m) i)"
        using new(7) by (simp add: sources_of_def update_conv')
      then show ?thesis using old by simp
    qed
    have keys: "fst ` set (fst n) = insert (money_ident ?a) (fst ` set (fst m))" using new(7) by (simp add: update_keys)
    have "gathers n (ys @ [bucket_pair b])"
      unfolding bucket_pair_def using add_keyed_ok [OF keyed ok new(1)] keys src by (intro gathers_snoc [OF m]) simp_all
    then show "gathers n (ys @ [bucket_pair b]) \<and> bucket_valid b" using new by (simp add: bucket_valid_def money_ident_def)
  qed
  then show ?thesis by simp
qed

lemma result_lines_gather:
  assumes "foldE check_result_line ([], []) (map (line_form money_object) ls) = Inr m"
  shows "gathers m (map line_pair ls) \<and> (\<forall>l \<in> set ls. line_valid l)"
proof -
  have "gathers m ([] @ map line_pair ls) \<and> (\<forall>l \<in> set ls. line_valid l)"
  proof (rule gathers_fold [OF _ assms gathers_Nil])
    fix m l n ys assume m: "gathers m ys" and step: "check_result_line m (line_form money_object l) = Inr n"
    have f: "field ''amount'' (line_form money_object l) = money_object (xl_amount l)"
      "field ''sourceBasis'' (line_form money_object l) = JStr (basis_name (xl_basis l))"
      "field ''sourceEventIds'' (line_form money_object l) = strings_form (xl_sources l)" by (simp_all add: line_form_def)
    from step have new: "canonical_money (xl_amount l)" "basis (xl_amount l) = xl_basis l" "rule_metadata_ok (line_form money_object l)"
      "texts_ok (xl_sources l)" "xl_sources l \<noteq> []" "add_amount m (xl_amount l) (xl_sources l) = Inr n"
      unfolding check_result_line_def aggregate_is_add_amount
      by (auto simp: exact_fields_def f exact_money_object string_array_iff split: if_splits)
    show "gathers n (ys @ [line_pair l]) \<and> line_valid l"
      using gathers_add_amount [OF m new(6,1)] new by (simp add: line_pair_def line_valid_def)
  qed
  then show ?thesis by simp
qed

lemma check_result_project_iff:
  "check_result_project amount (project_form money_object p) = Inr () \<longleftrightarrow>
     trim (fst p) \<noteq> [] \<and> canonical_money (snd p) \<and> money_ident (snd p) = money_ident amount"
proof -
  have f: "field ''amount'' (project_form money_object p) = money_object (snd p)"
    "field ''project'' (project_form money_object p) = JStr (fst p)" by (simp_all add: project_form_def)
  show ?thesis
    by (auto simp: check_result_project_def f exact_fields_def exact_money_object money_ident_iff bindE_Inr_iff split: if_splits)
qed

lemma foldE_units: "foldE f () xs = Inr () \<longleftrightarrow> (\<forall>x \<in> set xs. f () x = Inr ())"
  by (induction xs) auto

lemma result_rest_gather:
  assumes "foldE check_result_rest ([], []) (map (rest_form money_object) us) = Inr m"
  shows "gathers m (map rest_pair us) \<and> (\<forall>u \<in> set us. rest_valid u)"
proof -
  have "gathers m ([] @ map rest_pair us) \<and> (\<forall>u \<in> set us. rest_valid u)"
  proof (rule gathers_fold [OF _ assms gathers_Nil])
    fix m u n ys assume m: "gathers m ys" and step: "check_result_rest m (rest_form money_object u) = Inr n"
    have f: "field ''amount'' (rest_form money_object u) = money_object (xu_amount u)"
      "field ''sourceBasis'' (rest_form money_object u) = JStr (basis_name (xu_basis u))"
      "field ''reason'' (rest_form money_object u) = JStr (xu_reason u)"
      "field ''topProjects'' (rest_form money_object u) = JArr (map (project_form money_object) (xu_projects u))"
      "field ''sourceEventIds'' (rest_form money_object u) = strings_form (xu_sources u)" by (simp_all add: rest_form_def)
    from step have new: "canonical_money (xu_amount u)" "basis (xu_amount u) = xu_basis u" "xu_reason u \<in> set unallocated_reasons"
      "texts_ok (xu_sources u)" "xu_sources u \<noteq> []" "add_amount m (xu_amount u) (xu_sources u) = Inr n"
      "foldE (\<lambda>_. check_result_project (xu_amount u)) () (map (project_form money_object) (xu_projects u)) = Inr ()"
      unfolding check_result_rest_def aggregate_is_add_amount
      by (auto simp: exact_fields_def f exact_money_object string_array_iff array_value_def split: if_splits)
    have "\<forall>p \<in> set (xu_projects u). trim (fst p) \<noteq> [] \<and> canonical_money (snd p) \<and> money_ident (snd p) = money_ident (xu_amount u)"
      using new(7) unfolding foldE_units by (simp add: check_result_project_iff)
    then show "gathers n (ys @ [rest_pair u]) \<and> rest_valid u"
      using gathers_add_amount [OF m new(6,1)] new by (simp add: rest_pair_def rest_valid_def)
  qed
  then show ?thesis by simp
qed

section \<open>What validation establishes\<close>

lemma same_source_set_iff:
  "same_source_set l r \<Longrightarrow> set (case l of None \<Rightarrow> [] | Some ss \<Rightarrow> ss) = set (case r of None \<Rightarrow> [] | Some ss \<Rightarrow> ss)"
  by (metis same_source_set.simps set_sort)

lemma check_totals_Inr:
  assumes "check_totals tot al un ls us u i = Inr ()"
    and ok: "amounts_ok (fst tot)" "amounts_ok (fst al)" "amounts_ok (fst un)" "amounts_ok (fst ls)" "amounts_ok (fst us)"
  shows "held i (fst al) = held i (fst ls)" "held i (fst un) = held i (fst us)" "held i (fst tot) = held i (fst ls) + held i (fst us)"
    "set (sources_of (snd tot) i) = set (sources_of (snd ls) i) \<union> set (sources_of (snd us) i)"
    "set (sources_of (snd al) i) = set (sources_of (snd ls) i)" "set (sources_of (snd un) i) = set (sources_of (snd us) i)"
proof -
  obtain t a n l r placed where m: "amount_or_zero (fst tot) i = Inr t" "amount_or_zero (fst al) i = Inr a"
    "amount_or_zero (fst un) i = Inr n" "amount_or_zero (fst ls) i = Inr l" "amount_or_zero (fst us) i = Inr r"
    "compare_money a l = Inr 0" "compare_money n r = Inr 0" "add_money l r = Inr placed" "compare_money t placed = Inr 0"
    and s: "same_source_set (map_of (snd tot) i) (Some (to_set (sources_of (snd ls) i @ sources_of (snd us) i)))"
      "same_source_set (map_of (snd al) i) (map_of (snd ls) i)" "same_source_set (map_of (snd un) i) (map_of (snd us) i)"
    using assms(1) unfolding check_totals_def sources_of_def by (auto split: if_splits)
  have v: "money_value t = held i (fst tot)" "money_value a = held i (fst al)" "money_value n = held i (fst un)"
    "money_value l = held i (fst ls)" "money_value r = held i (fst us)"
    using amount_or_zero_Inr m(1-5) ok by blast+
  show "held i (fst al) = held i (fst ls)" "held i (fst un) = held i (fst us)"
    using compare_money_zero [OF m(6)] compare_money_zero [OF m(7)] v by simp_all
  show "held i (fst tot) = held i (fst ls) + held i (fst us)"
    using compare_money_zero [OF m(9)] add_money_Inr(1) [OF m(8)] v by simp
  show "set (sources_of (snd tot) i) = set (sources_of (snd ls) i) \<union> set (sources_of (snd us) i)"
    using same_source_set_iff [OF s(1)] by (simp add: sources_of_def)
  show "set (sources_of (snd al) i) = set (sources_of (snd ls) i)" "set (sources_of (snd un) i) = set (sources_of (snd us) i)"
    using same_source_set_iff [OF s(2)] same_source_set_iff [OF s(3)] by (simp_all add: sources_of_def)
qed

lemma gathers_absent:
  assumes "gathers m xs" "i \<notin> fst ` set (fst m)"
  shows "held i (fst m) = 0" "sources_of (snd m) i = []"
proof -
  show "held i (fst m) = 0" using assms(2) by (simp add: held_def map_of_eq_None_set [THEN iffD2])
  have "money_ident (fst x) \<noteq> i" if "x \<in> set xs" for x using assms that by (auto simp: gathers_def)
  then have "lineage i xs = {}" by (simp add: lineage_def)
  then show "sources_of (snd m) i = []" using gathersD(2) [OF assms(1), of i] by simp
qed

definition run_valid :: "exact_run \<Rightarrow> bool" where
  "run_valid run =
     (xa_start run < xa_end run \<and> safe_int (xa_start run) \<and> safe_int (xa_end run) \<and> safe_int (xa_run_at run)
      \<and> xa_conserves run \<and> (xa_complete run \<longleftrightarrow> xa_unresolved run = []) \<and> texts_ok (xa_unresolved run)
      \<and> exact_excluded_from (xa_complete run) = Inr (xa_excluded run)
      \<and> (\<forall>b \<in> set (xa_total run) \<union> set (xa_allocated run) \<union> set (xa_unallocated run). bucket_valid b)
      \<and> (\<forall>l \<in> set (xa_lines run). line_valid l) \<and> (\<forall>u \<in> set (xa_rest run). rest_valid u)
      \<and> distinct (xa_bases run) \<and> set (xa_bases run) \<subseteq> set (map basis_name economic_bases))"

definition balanced :: "exact_run \<Rightarrow> ident \<Rightarrow> bool" where
  "balanced run i =
     (let tot = map bucket_pair (xa_total run); al = map bucket_pair (xa_allocated run); un = map bucket_pair (xa_unallocated run);
          ls = map line_pair (xa_lines run); us = map rest_pair (xa_rest run)
      in pairs_worth i al = pairs_worth i ls \<and> pairs_worth i un = pairs_worth i us
         \<and> pairs_worth i tot = pairs_worth i ls + pairs_worth i us
         \<and> lineage i al = lineage i ls \<and> lineage i un = lineage i us \<and> lineage i tot = lineage i ls \<union> lineage i us)"

lemma as_strings_texts: "as_strings l (map JStr ss) = Inr ss"
  by (induction ss) simp_all

lemma validated_run:
  assumes "validate_exact_allocation_result (exact_run_object run) = Inr ()"
  shows "run_valid run" "balanced run i"
proof -
  let ?v = "exact_run_object run"
  have f: "field ''totalByIdentity'' ?v = JArr (map (bucket_form money_object) (xa_total run))"
    "field ''allocatedByIdentity'' ?v = JArr (map (bucket_form money_object) (xa_allocated run))"
    "field ''unallocatedByIdentity'' ?v = JArr (map (bucket_form money_object) (xa_unallocated run))"
    "field ''lines'' ?v = JArr (map (line_form money_object) (xa_lines run))"
    "field ''unallocated'' ?v = JArr (map (rest_form money_object) (xa_rest run))"
    "field ''sourceBases'' ?v = JArr (map JStr (xa_bases run))"
    "field ''unresolvedRequestIds'' ?v = JArr (map JStr (xa_unresolved run))"
    "field ''excludedFrom'' ?v = JArr (map JStr (xa_excluded run))"
    "field ''complete'' ?v = JBool (xa_complete run)" "field ''conserves'' ?v = JBool (xa_conserves run)"
    "field ''periodStartMs'' ?v = JNum (of_int (xa_start run))" "field ''periodEndMs'' ?v = JNum (of_int (xa_end run))"
    "field ''runAtMs'' ?v = JNum (of_int (xa_run_at run))"
    by (simp_all add: exact_run_object_def run_form_def strings_form_def)
  have g: "field ''unresolvedRequestIds'' ?v = strings_form (xa_unresolved run)" by (simp add: f strings_form_def)
  obtain expected tot al un ls us where
    head: "check_result_head ?v = Inr ()" and status: "check_status ?v = Inr ()"
    and excluded: "exact_excluded_from (xa_complete run) = Inr expected" "map JStr (xa_excluded run) = map JStr expected"
    and maps: "amount_map (map (bucket_form money_object) (xa_total run)) ''totalByIdentity'' = Inr tot"
      "amount_map (map (bucket_form money_object) (xa_allocated run)) ''allocatedByIdentity'' = Inr al"
      "amount_map (map (bucket_form money_object) (xa_unallocated run)) ''unallocatedByIdentity'' = Inr un"
      "foldE check_result_line ([], []) (map (line_form money_object) (xa_lines run)) = Inr ls"
      "foldE check_result_rest ([], []) (map (rest_form money_object) (xa_rest run)) = Inr us"
    and totals: "foldE (check_totals tot al un ls us) ()
        (to_set (map fst (fst tot) @ map fst (fst al) @ map fst (fst un) @ map fst (fst ls) @ map fst (fst us))) = Inr ()"
    and bases: "bases_match tot (map JStr (xa_bases run))"
    using assms unfolding validate_exact_allocation_result_def f by (auto split: if_splits)
  note A = amount_map_gathers [OF maps(1)] and B = amount_map_gathers [OF maps(2)] and C = amount_map_gathers [OF maps(3)]
    and D = result_lines_gather [OF maps(4)] and E = result_rest_gather [OF maps(5)]
  have "xa_excluded run = expected" using excluded(2) by (simp add: inj_map_eq_map inj_def)
  moreover have "xa_start run < xa_end run \<and> safe_int (xa_start run) \<and> safe_int (xa_end run) \<and> safe_int (xa_run_at run)"
    using head by (auto simp: check_result_head_def f split: if_splits)
  moreover have "xa_conserves run \<and> (xa_complete run \<longleftrightarrow> xa_unresolved run = []) \<and> texts_ok (xa_unresolved run)"
    using status unfolding check_status_def f(9,10) g by (auto simp: string_array_iff split: if_splits)
  moreover have "distinct (xa_bases run) \<and> set (xa_bases run) \<subseteq> set (map basis_name economic_bases)"
  proof -
    have len: "length (to_set (xa_bases run)) = length (xa_bases run)"
      and names: "list_all (\<lambda>b. b \<in> set (map basis_name economic_bases)) (to_set (xa_bases run))"
      using bases by (simp_all add: bases_match_def as_strings_texts)
    have "card (set (xa_bases run)) = length (xa_bases run)" using len distinct_card [OF distinct_to_set, of "xa_bases run"] by simp
    then show ?thesis using names by (auto simp: list_all_iff intro: card_distinct)
  qed
  ultimately show "run_valid run" using A B C D E excluded(1) unfolding run_valid_def by blast
  have keys: "check_totals tot al un ls us () i = Inr ()"
    if "i \<in> set (map fst (fst tot) @ map fst (fst al) @ map fst (fst un) @ map fst (fst ls) @ map fst (fst us))" for i
    using totals that unfolding foldE_units set_to_set by blast
  have ok: "amounts_ok (fst tot)" "amounts_ok (fst al)" "amounts_ok (fst un)" "amounts_ok (fst ls)" "amounts_ok (fst us)"
    using A B C D E by (simp_all add: gathers_def)
  have "held i (fst al) = held i (fst ls) \<and> held i (fst un) = held i (fst us) \<and> held i (fst tot) = held i (fst ls) + held i (fst us)
    \<and> set (sources_of (snd tot) i) = set (sources_of (snd ls) i) \<union> set (sources_of (snd us) i)
    \<and> set (sources_of (snd al) i) = set (sources_of (snd ls) i) \<and> set (sources_of (snd un) i) = set (sources_of (snd us) i)"
  proof (cases "i \<in> set (map fst (fst tot) @ map fst (fst al) @ map fst (fst un) @ map fst (fst ls) @ map fst (fst us))")
    case True
    from check_totals_Inr [OF keys [OF this] ok] show ?thesis by blast
  next
    case False
    then show ?thesis
      using gathers_absent [OF A [THEN conjunct1], of i] gathers_absent [OF B [THEN conjunct1], of i] gathers_absent [OF C [THEN conjunct1], of i]
        gathers_absent [OF D [THEN conjunct1], of i] gathers_absent [OF E [THEN conjunct1], of i] by simp
  qed
  moreover note w = gathersD [OF A [THEN conjunct1], of i] gathersD [OF B [THEN conjunct1], of i] gathersD [OF C [THEN conjunct1], of i]
    gathersD [OF D [THEN conjunct1], of i] gathersD [OF E [THEN conjunct1], of i]
  ultimately show "balanced run i" unfolding balanced_def Let_def w [symmetric] by blast
qed

section \<open>Properties\<close>

text \<open>C38: the validator of exact runs is sound.  A run it accepts has an ordered period, claims completeness
  exactly when it discloses no unresolved request, carries exactly the exclusions its profile and the written
  floor derive, and says that it conserves; and for every currency and basis the recorded totals are worth
  exactly what its lines and remainder are worth, the total both together, with the same source events on
  each side.\<close>

theorem validated_exact_run_sound:
  assumes "validate_exact_allocation_result (exact_run_object run) = Inr ()"
  shows "xa_start run < xa_end run \<and> xa_conserves run \<and> (xa_complete run \<longleftrightarrow> xa_unresolved run = [])
    \<and> exact_excluded_from (xa_complete run) = Inr (xa_excluded run)
    \<and> (\<forall>l \<in> set (xa_lines run). 0 \<le> xl_parts l \<and> xl_parts l \<le> ratio_scale \<and> xl_method l \<in> set alloc_methods \<and> xl_sources l \<noteq> [])
    \<and> balanced run i"
proof -
  have line: "0 \<le> xl_parts l \<and> xl_parts l \<le> ratio_scale \<and> xl_method l \<in> set alloc_methods \<and> xl_sources l \<noteq> []"
    if "line_valid l" for l
  proof -
    have f: "field ''method'' (line_form money_object l) = JStr (xl_method l)"
      "field ''ratioParts'' (line_form money_object l) = JNum (of_int (xl_parts l))" by (simp_all add: line_form_def)
    show ?thesis using that by (auto simp: line_valid_def rule_metadata_ok_def f split: option.splits if_splits)
  qed
  show ?thesis using validated_run [OF assms] line unfolding run_valid_def by blast
qed

definition small_amount :: money where
  "small_amount = \<lparr>coefficient = 15, scale = 1, currency = ''USD'', basis = BList\<rparr>"

definition small_run :: exact_run where
  "small_run =
     (let b = \<lparr>xb_currency = ''USD'', xb_basis = BList, xb_amount = small_amount, xb_sources = [''e1'']\<rparr> in
      \<lparr>xa_start = 0, xa_end = 10, xa_run_at = 11, xa_total = [b], xa_allocated = [b], xa_unallocated = [],
       xa_lines = [\<lparr>xl_centre = ''a'', xl_rule = ''r1'', xl_version = 1, xl_method = direct_method, xl_parts = 1000000,
                    xl_amount = small_amount, xl_basis = BList, xl_sources = [''e1'']\<rparr>],
       xa_rest = [], xa_bases = [''list''], xa_unresolved = [], xa_complete = True, xa_conserves = True,
       xa_excluded = exact_excluded_floor\<rparr>)"

lemma small_run_valid: "validate_exact_allocation_result (exact_run_object small_run) = Inr ()"
  by code_simp

theorem validated_exact_run_sound_witness:
  "xa_start small_run < xa_end small_run \<and> balanced small_run (''USD'', BList)"
  using validated_exact_run_sound [OF small_run_valid, of "(''USD'', BList)"] by blast

lemma parsed_bucket_form: "bucket_valid b \<Longrightarrow> parsed_bucket l (bucket_form money_to_json b) = Inr b"
proof -
  assume b: "bucket_valid b"
  have f: "field ''amount'' (bucket_form money_to_json b) = money_to_json (xb_amount b)"
    "field ''currency'' (bucket_form money_to_json b) = JStr (xb_currency b)"
    "field ''basis'' (bucket_form money_to_json b) = JStr (basis_name (xb_basis b))"
    "field ''sourceEventIds'' (bucket_form money_to_json b) = strings_form (xb_sources b)" by (simp_all add: bucket_form_def)
  have "trim (xb_currency b) \<noteq> []" "trim (basis_name (xb_basis b)) \<noteq> []"
    using b canonical_currency_text [of "xb_amount b"] by (auto simp: bucket_valid_def money_ident_def basis_text)
  moreover have "string_array l False (strings_form (xb_sources b)) = Inr (xb_sources b)"
    using b by (simp add: string_array_iff bucket_valid_def)
  ultimately show ?thesis using b
    by (simp add: parsed_bucket_def exact_object_def exact_fields_def f parsed_money_json bucket_valid_def money_ident_def)
qed

lemma parsed_line_form:
  assumes "line_valid l" "trim (xl_centre l) \<noteq> []" "trim (xl_rule l) \<noteq> []"
  shows "parsed_line (line_form money_to_json l) = Inr l"
proof -
  have f: "field ''amount'' (line_form mj l) = mj (xl_amount l)"
    "field ''method'' (line_form mj l) = JStr (xl_method l)"
    "field ''sourceBasis'' (line_form mj l) = JStr (basis_name (xl_basis l))"
    "field ''ratioParts'' (line_form mj l) = JNum (of_int (xl_parts l))"
    "field ''ruleVersion'' (line_form mj l) = JNum (xl_version l)"
    "field ''costCentreId'' (line_form mj l) = JStr (xl_centre l)"
    "field ''ruleId'' (line_form mj l) = JStr (xl_rule l)"
    "field ''sourceEventIds'' (line_form mj l) = strings_form (xl_sources l)" for mj by (simp_all add: line_form_def)
  obtain n where n: "safe_integer (JNum (xl_version l)) = Some n" "1 \<le> n" "xl_version l = of_int n"
    and parts: "safe_integer (JNum (of_int (xl_parts l))) = Some (xl_parts l)" "0 \<le> xl_parts l" "xl_parts l \<le> ratio_scale"
    and meth: "xl_method l \<in> set alloc_methods"
    using assms(1) by (auto simp: line_valid_def rule_metadata_ok_def f split: option.splits if_splits) 
  have "trim (xl_method l) \<noteq> []" using meth
    by (auto simp: alloc_methods_def direct_method_def split_method_def pool_method_def trim_def js_space_def)
  moreover have "string_array ''lines'' False (strings_form (xl_sources l)) = Inr (xl_sources l)"
    using assms(1) by (simp add: string_array_iff line_valid_def)
  ultimately show ?thesis using assms n parts meth
    by (simp add: parsed_line_def exact_object_def exact_fields_def f parsed_money_json line_valid_def basis_text
        exact_safe_integer_def del: safe_integer.simps)
qed

lemma parsed_rest_form:
  assumes "rest_valid u"
  shows "parsed_unallocated (rest_form money_to_json u) = Inr u"
proof -
  have f: "field ''amount'' (rest_form mj u) = mj (xu_amount u)"
    "field ''sourceBasis'' (rest_form mj u) = JStr (basis_name (xu_basis u))"
    "field ''reason'' (rest_form mj u) = JStr (xu_reason u)"
    "field ''topProjects'' (rest_form mj u) = JArr (map (project_form mj) (xu_projects u))"
    "field ''sourceEventIds'' (rest_form mj u) = strings_form (xu_sources u)" for mj by (simp_all add: rest_form_def)
  have "parsed_project (project_form money_to_json p) = Inr p" if "p \<in> set (xu_projects u)" for p
  proof -
    have "trim (fst p) \<noteq> []" "canonical_money (snd p)" using assms that by (auto simp: rest_valid_def)
    moreover have "field ''project'' (project_form money_to_json p) = JStr (fst p)"
      "field ''amount'' (project_form money_to_json p) = money_to_json (snd p)" by (simp_all add: project_form_def)
    ultimately show ?thesis by (simp add: parsed_project_def exact_object_def exact_fields_def parsed_money_json)
  qed
  then have projects: "mapE parsed_project (map (project_form money_to_json) (xu_projects u)) = Inr (xu_projects u)"
    unfolding mapE_map by (rule mapE_fixed)
  have "list_all (\<lambda>p. currency (snd p) = currency (xu_amount u) \<and> basis (snd p) = basis (xu_amount u)) (xu_projects u)"
    using assms by (auto simp: rest_valid_def list_all_iff money_ident_iff)
  moreover have "trim (xu_reason u) \<noteq> []" using assms
    by (auto simp: rest_valid_def unallocated_reasons_def trim_def js_space_def)
  moreover have "string_array ''unallocated'' False (strings_form (xu_sources u)) = Inr (xu_sources u)"
    using assms by (simp add: string_array_iff rest_valid_def)
  ultimately show ?thesis using assms projects
    by (simp add: parsed_unallocated_def exact_object_def exact_fields_def f parsed_money_json rest_valid_def basis_text
        array_value_def)
qed

lemma run_form_fields:
  "field ''periodStartMs'' (run_form mj r) = JNum (of_int (xa_start r))" "field ''periodEndMs'' (run_form mj r) = JNum (of_int (xa_end r))"
  "field ''runAtMs'' (run_form mj r) = JNum (of_int (xa_run_at r))"
  "field ''totalByIdentity'' (run_form mj r) = JArr (map (bucket_form mj) (xa_total r))"
  "field ''allocatedByIdentity'' (run_form mj r) = JArr (map (bucket_form mj) (xa_allocated r))"
  "field ''unallocatedByIdentity'' (run_form mj r) = JArr (map (bucket_form mj) (xa_unallocated r))"
  "field ''lines'' (run_form mj r) = JArr (map (line_form mj) (xa_lines r))"
  "field ''unallocated'' (run_form mj r) = JArr (map (rest_form mj) (xa_rest r))"
  "field ''sourceBases'' (run_form mj r) = strings_form (xa_bases r)"
  "field ''unresolvedRequestIds'' (run_form mj r) = strings_form (xa_unresolved r)"
  "field ''complete'' (run_form mj r) = JBool (xa_complete r)" "field ''conserves'' (run_form mj r) = JBool (xa_conserves r)"
  "field ''trust'' (run_form mj r) = JStr exact_trust" "field ''excludedFrom'' (run_form mj r) = strings_form (xa_excluded r)"
  by (simp_all add: run_form_def)

lemma claim_use_texts: "texts_ok (filter P claim_uses)"
  unfolding texts_ok_def claim_uses_def by (auto simp: trim_def js_space_def)

lemma excluded_texts: "exact_excluded_from c = Inr es \<Longrightarrow> texts_ok es"
  by (auto simp: exact_excluded_from_def barred_uses_def Let_def claim_use_texts)

lemma from_json_validated: "exact_allocation_from_json v = Inr run \<Longrightarrow> validate_exact_allocation_result (exact_run_object run) = Inr ()"
  unfolding exact_allocation_from_json_def Let_def by (elim bindE_InrE; auto split: jsval.splits if_splits)

lemma validated_run_read:
  assumes "validate_exact_allocation_result (exact_run_object run) = Inr ()"
    and "\<forall>l \<in> set (xa_lines run). trim (xl_centre l) \<noteq> [] \<and> trim (xl_rule l) \<noteq> []"
  shows "exact_allocation_from_json (exact_allocation_to_json run) = Inr run"
proof -
  have valid: "run_valid run" by (rule validated_run [OF assms(1)])
  let ?v = "run_form money_to_json run"
  have tot: "mapE (parsed_bucket ''totalByIdentity'') (map (bucket_form money_to_json) (xa_total run)) = Inr (xa_total run)"
    and al: "mapE (parsed_bucket ''allocatedByIdentity'') (map (bucket_form money_to_json) (xa_allocated run)) = Inr (xa_allocated run)"
    and un: "mapE (parsed_bucket ''unallocatedByIdentity'') (map (bucket_form money_to_json) (xa_unallocated run)) = Inr (xa_unallocated run)"
    and ls: "mapE parsed_line (map (line_form money_to_json) (xa_lines run)) = Inr (xa_lines run)"
    and us: "mapE parsed_unallocated (map (rest_form money_to_json) (xa_rest run)) = Inr (xa_rest run)"
    unfolding mapE_map
    by (rule mapE_fixed, use valid assms(2) in \<open>simp add: run_valid_def parsed_bucket_form parsed_line_form parsed_rest_form\<close>)+
  have bases: "parsed_bases (strings_form (xa_bases run)) = Inr (xa_bases run)"
  proof -
    have "texts_ok (xa_bases run)" using valid basis_text by (auto simp: run_valid_def texts_ok_def)
    then show ?thesis using valid by (auto simp: parsed_bases_def string_array_iff run_valid_def list_all_iff bindE_Inr_iff)
  qed
  have unresolved: "string_array ''unresolvedRequestIds'' True (strings_form (xa_unresolved run)) = Inr (xa_unresolved run)"
    using valid by (simp add: string_array_iff run_valid_def)
  have excluded: "exact_excluded_from (xa_complete run) = Inr (xa_excluded run)" using valid unfolding run_valid_def by blast
  have barred: "string_array ''excludedFrom'' True (strings_form (xa_excluded run)) = Inr (xa_excluded run)"
    using excluded_texts [OF excluded] by (simp add: string_array_iff)
  have safe: "exact_safe_integer (JNum (of_int (xa_start run))) l = Inr (xa_start run)"
    "exact_safe_integer (JNum (of_int (xa_end run))) l = Inr (xa_end run)"
    "exact_safe_integer (JNum (of_int (xa_run_at run))) l = Inr (xa_run_at run)" for l
    using valid by (simp_all add: run_valid_def exact_safe_integer_def)
  have status: "\<not> xa_end run \<le> xa_start run" "xa_conserves run" "(xa_complete run = (xa_unresolved run \<noteq> [])) = False"
    using valid by (auto simp: run_valid_def)
  let ?R = "\<lparr>xa_start = xa_start run, xa_end = xa_end run, xa_run_at = xa_run_at run, xa_total = xa_total run,
      xa_allocated = xa_allocated run, xa_unallocated = xa_unallocated run, xa_lines = xa_lines run, xa_rest = xa_rest run,
      xa_bases = xa_bases run, xa_unresolved = xa_unresolved run, xa_complete = (xa_unresolved run = []), xa_conserves = True,
      xa_excluded = xa_excluded run\<rparr>"
  have whole: "?R = run" using status(2,3) by (cases run) simp
  have arrays: "array_value (JArr xs) l = Inr xs" for xs l by (simp add: array_value_def)
  have object: "exact_object ?v l = Inr ()" "exact_fields ?v result_keys l = Inr ()" for l
    by (simp_all add: exact_object_def exact_fields_def)
  have "exact_allocation_from_json ?v = bindE (validate_exact_allocation_result (exact_run_object ?R)) (\<lambda>_. Inr ?R)"
    unfolding exact_allocation_from_json_def run_form_fields object arrays bindE_simps tot al un ls us
    using status bases unresolved barred excluded safe by (simp add: strings_form_def Let_def)
  then show ?thesis unfolding whole assms(1) exact_allocation_to_json_def by simp
qed

text \<open>C39: an exact run survives its JSON form.  Reading returns validated runs only, and what is written of a
  validated run whose lines name their cost centre and rule is read back as the same run.\<close>

theorem exact_run_roundtrip:
  assumes "validate_exact_allocation_result (exact_run_object run) = Inr ()"
    and "\<forall>l \<in> set (xa_lines run). trim (xl_centre l) \<noteq> [] \<and> trim (xl_rule l) \<noteq> []"
  shows "exact_allocation_from_json (exact_allocation_to_json run) = Inr run
    \<and> (\<forall>v r. exact_allocation_from_json v = Inr r \<longrightarrow> validate_exact_allocation_result (exact_run_object r) = Inr ())"
  using validated_run_read [OF assms] from_json_validated by blast

theorem exact_run_roundtrip_witness:
  "exact_allocation_from_json (exact_allocation_to_json small_run) = Inr small_run"
proof -
  have "\<forall>l \<in> set (xa_lines small_run). trim (xl_centre l) \<noteq> [] \<and> trim (xl_rule l) \<noteq> []"
    by (simp add: small_run_def Let_def trim_def js_space_def)
  from exact_run_roundtrip [OF small_run_valid this] show ?thesis by blast
qed

end
