(* ===== verification/ExactAccepts.thy ===== *)
theory ExactAccepts
  imports ExactRecords
begin

text \<open>
  The validator of exact runs accepts every record that is valid and balanced, and what the engine returns
  is such a record.
\<close>

section \<open>Aggregates that fit\<close>

definition mass :: "(money \<times> string list) list \<Rightarrow> rat" where
  "mass xs = sum_list (map (\<lambda>x. \<bar>money_value (fst x)\<bar>) xs)"

definition room :: rat where
  "room = 10 ^ (max_money_coefficient_digits - max_money_scale)"

definition sources_ok :: "ident_map \<Rightarrow> bool" where
  "sources_ok m = (\<forall>i. distinct (sources_of (snd m) i))"

lemma mass_simps [simp]:
  "mass [] = 0" "mass (x # xs) = \<bar>money_value (fst x)\<bar> + mass xs" "mass (xs @ ys) = mass xs + mass ys"
  by (simp_all add: mass_def)

lemma pairs_mass_nonneg: "0 \<le> mass xs"
  unfolding mass_def by (induction xs) simp_all

lemma pairs_worth_mass: "\<bar>pairs_worth i xs\<bar> \<le> mass xs"
proof (induction xs)
  case (Cons x xs)
  have "pairs_worth i (x # xs) = worth i (fst x) + pairs_worth i xs" by (simp add: pairs_worth_def)
  moreover have "\<bar>worth i (fst x)\<bar> \<le> \<bar>money_value (fst x)\<bar>" by (simp add: worth_def)
  ultimately show ?case using Cons by simp
qed (simp add: pairs_worth_def)

lemma add_money_fits:
  assumes "canonical_money a" "canonical_money b" "money_ident a = money_ident b" "\<bar>money_value a\<bar> + \<bar>money_value b\<bar> < room"
  shows "\<exists>c. add_money a b = Inr c"
proof (rule ccontr)
  let ?s = "max (scale a) (scale b)"
  assume "\<not> ?thesis"
  then obtain e where "add_money a b = Inl e" by (cases "add_money a b") auto
  from add_money_refused [OF this assms(1,2)] assms(3)
  have big: "10 ^ max_money_coefficient_digits \<le> \<bar>(money_value a + money_value b) * 10 ^ ?s\<bar>" by simp
  have le: "max_money_scale \<le> max_money_coefficient_digits" by (simp add: max_money_scale_def max_money_coefficient_digits_def)
  have s: "?s \<le> max_money_scale" using assms(1,2) by (simp add: canonical_money_def)
  have "\<bar>(money_value a + money_value b) * 10 ^ ?s\<bar> \<le> \<bar>money_value a + money_value b\<bar> * 10 ^ max_money_scale"
    unfolding abs_mult using s by (intro mult_mono) (simp_all add: power_increasing)
  also have "\<dots> < room * 10 ^ max_money_scale"
    using assms(4) by (intro mult_strict_right_mono) simp_all
  also have "\<dots> = 10 ^ max_money_coefficient_digits"
    unfolding room_def power_add [symmetric] le_add_diff_inverse2 [OF le] ..
  finally show False using big by simp
qed

lemma add_amount_fits:
  assumes m: "gathers m xs" and a: "canonical_money a" and small: "mass xs + \<bar>money_value a\<bar> < room"
  shows "\<exists>n. add_amount m a ids = Inr n"
proof (cases "map_of (fst m) (money_ident a)")
  case None
  then show ?thesis by (simp add: add_amount_def add_keyed_def Let_def)
next
  case (Some prior)
  have ok: "amounts_ok (fst m)" using m by (simp add: gathers_def)
  have prior: "money_ident prior = money_ident a" "canonical_money prior" using amounts_ok_lookup [OF ok Some] by simp_all
  have "money_value prior = pairs_worth (money_ident a) xs" using gathersD(1) [OF m, of "money_ident a"] Some by (simp add: held_def)
  then have "\<bar>money_value prior\<bar> \<le> mass xs" using pairs_worth_mass by simp
  then have "\<bar>money_value prior\<bar> + \<bar>money_value a\<bar> < room" using small by simp
  from add_money_fits [OF prior(2) a prior(1) this] show ?thesis
    using Some by (auto simp: add_amount_def add_keyed_def Let_def)
qed

lemma add_amount_sources:
  assumes "add_amount m a ids = Inr n" "sources_ok m"
  shows "sources_ok n"
proof -
  let ?k = "money_ident a"
  obtain s where n: "snd n = AList.update ?k (fold set_add ids (sources_of (snd m) ?k)) (snd m)"
    using assms(1) by (auto simp: add_amount_def Let_def sources_of_def)
  have "sources_of (snd n) i = (if i = ?k then fold set_add ids (sources_of (snd m) ?k) else sources_of (snd m) i)" for i
    unfolding n by (simp add: sources_of_def update_conv')
  moreover have "distinct (sources_of (snd m) i)" for i using assms(2) unfolding sources_ok_def by blast
  ultimately show ?thesis unfolding sources_ok_def by (auto intro: distinct_fold_set_add)
qed

section \<open>The passes of the validator succeed\<close>

lemma total_fold:
  assumes "\<And>m x ys. x \<in> set xs \<Longrightarrow> gathers m ys \<Longrightarrow> sources_ok m \<Longrightarrow> mass (ys @ [pair x]) < room
      \<Longrightarrow> \<exists>n. f m (form x) = Inr n \<and> gathers n (ys @ [pair x]) \<and> sources_ok n"
    and "gathers m ys" "sources_ok m" "mass (ys @ map pair xs) < room"
  shows "\<exists>n. foldE f m (map form xs) = Inr n \<and> gathers n (ys @ map pair xs) \<and> sources_ok n"
  using assms
proof (induction xs arbitrary: m ys)
  case Nil
  then show ?case by simp
next
  case (Cons x xs)
  have small: "mass (ys @ [pair x]) < room" using Cons.prems(4) pairs_mass_nonneg [of "map pair xs"] by simp
  obtain n where n: "f m (form x) = Inr n" "gathers n (ys @ [pair x])" "sources_ok n"
    using Cons.prems(1) [OF _ Cons.prems(2,3) small] by auto
  have "mass ((ys @ [pair x]) @ map pair xs) < room" using Cons.prems(4) by simp
  from Cons.IH [OF _ n(2,3) this] Cons.prems(1) obtain n' where "foldE f n (map form xs) = Inr n'"
    "gathers n' ((ys @ [pair x]) @ map pair xs)" "sources_ok n'" by auto
  then show ?case using n(1) by simp
qed

lemma no_sources: "sources_ok ([], [])"
  by (simp add: sources_ok_def)

lemma result_lines_fit:
  assumes "\<forall>l \<in> set ls. line_valid l" "mass (map line_pair ls) < room"
  shows "\<exists>n. foldE check_result_line ([], []) (map (line_form money_object) ls) = Inr n \<and> gathers n (map line_pair ls) \<and> sources_ok n"
proof -
  have "\<exists>n. foldE check_result_line ([], []) (map (line_form money_object) ls) = Inr n \<and> gathers n ([] @ map line_pair ls) \<and> sources_ok n"
  proof (rule total_fold [OF _ gathers_Nil no_sources])
    fix m l ys assume l: "l \<in> set ls" and m: "gathers m ys" "sources_ok m" and small: "mass (ys @ [line_pair l]) < room"
    have f: "field ''amount'' (line_form money_object l) = money_object (xl_amount l)"
      "field ''sourceBasis'' (line_form money_object l) = JStr (basis_name (xl_basis l))"
      "field ''sourceEventIds'' (line_form money_object l) = strings_form (xl_sources l)" by (simp_all add: line_form_def)
    have v: "line_valid l" using assms(1) l by blast
    then have c: "canonical_money (xl_amount l)" by (simp add: line_valid_def)
    have "mass ys + \<bar>money_value (xl_amount l)\<bar> < room" using small by (simp add: line_pair_def)
    then obtain n where n: "add_amount m (xl_amount l) (xl_sources l) = Inr n"
      using add_amount_fits [OF m(1) c] by blast
    have "check_result_line m (line_form money_object l) = add_amount m (xl_amount l) (xl_sources l)"
      using v c unfolding check_result_line_def aggregate_is_add_amount f
      by (simp add: exact_fields_def exact_money_object [THEN iffD2] string_array_iff [THEN iffD2] line_valid_def)
    then show "\<exists>n. check_result_line m (line_form money_object l) = Inr n \<and> gathers n (ys @ [line_pair l]) \<and> sources_ok n"
      using n gathers_add_amount [OF m(1) n c] add_amount_sources [OF n m(2)] by (simp add: line_pair_def)
  qed (simp add: assms(2))
  then show ?thesis by simp
qed

lemma result_rest_fits:
  assumes "\<forall>u \<in> set us. rest_valid u" "mass (map rest_pair us) < room"
  shows "\<exists>n. foldE check_result_rest ([], []) (map (rest_form money_object) us) = Inr n \<and> gathers n (map rest_pair us) \<and> sources_ok n"
proof -
  have "\<exists>n. foldE check_result_rest ([], []) (map (rest_form money_object) us) = Inr n \<and> gathers n ([] @ map rest_pair us) \<and> sources_ok n"
  proof (rule total_fold [OF _ gathers_Nil no_sources])
    fix m u ys assume u: "u \<in> set us" and m: "gathers m ys" "sources_ok m" and small: "mass (ys @ [rest_pair u]) < room"
    have f: "field ''amount'' (rest_form money_object u) = money_object (xu_amount u)"
      "field ''sourceBasis'' (rest_form money_object u) = JStr (basis_name (xu_basis u))"
      "field ''reason'' (rest_form money_object u) = JStr (xu_reason u)"
      "field ''topProjects'' (rest_form money_object u) = JArr (map (project_form money_object) (xu_projects u))"
      "field ''sourceEventIds'' (rest_form money_object u) = strings_form (xu_sources u)" by (simp_all add: rest_form_def)
    have v: "rest_valid u" using assms(1) u by blast
    then have c: "canonical_money (xu_amount u)" by (simp add: rest_valid_def)
    have "mass ys + \<bar>money_value (xu_amount u)\<bar> < room" using small by (simp add: rest_pair_def)
    then obtain n where n: "add_amount m (xu_amount u) (xu_sources u) = Inr n"
      using add_amount_fits [OF m(1) c] by blast
    have projects: "foldE (\<lambda>_. check_result_project (xu_amount u)) () (map (project_form money_object) (xu_projects u)) = Inr ()"
      using v unfolding foldE_units by (simp add: check_result_project_iff rest_valid_def)
    have "check_result_rest m (rest_form money_object u) = add_amount m (xu_amount u) (xu_sources u)"
      using v c projects unfolding check_result_rest_def aggregate_is_add_amount f
      by (simp add: exact_fields_def exact_money_object [THEN iffD2] string_array_iff [THEN iffD2] rest_valid_def array_value_def)
    then show "\<exists>n. check_result_rest m (rest_form money_object u) = Inr n \<and> gathers n (ys @ [rest_pair u]) \<and> sources_ok n"
      using n gathers_add_amount [OF m(1) n c] add_amount_sources [OF n m(2)] by (simp add: rest_pair_def)
  qed (simp add: assms(2))
  then show ?thesis by simp
qed

lemma amount_map_fits:
  assumes "\<forall>b \<in> set bs. bucket_valid b" "distinct (map (\<lambda>b. money_ident (xb_amount b)) bs)"
  shows "\<exists>n. amount_map (map (bucket_form money_object) bs) l = Inr n \<and> sources_ok n"
proof -
  have "\<exists>n. foldE (amount_map_step l) m (map (bucket_form money_object) bs) = Inr n \<and> sources_ok n"
    if "sources_ok m" "fst ` set (fst m) \<inter> (\<lambda>b. money_ident (xb_amount b)) ` set bs = {}" for m
    using assms that
  proof (induction bs arbitrary: m)
    case Nil
    then show ?case by simp
  next
    case (Cons b bs)
    let ?a = "xb_amount b"
    have f: "field ''amount'' (bucket_form money_object b) = money_object ?a" "field ''currency'' (bucket_form money_object b) = JStr (xb_currency b)"
      "field ''basis'' (bucket_form money_object b) = JStr (basis_name (xb_basis b))"
      "field ''sourceEventIds'' (bucket_form money_object b) = strings_form (xb_sources b)" by (simp_all add: bucket_form_def)
    have v: "bucket_valid b" using Cons.prems(1) by simp
    have fresh: "map_of (fst m) (money_ident ?a) = None" using Cons.prems(4) by (auto simp: map_of_eq_None_set)
    let ?n = "(AList.update (money_ident ?a) ?a (fst m), AList.update (money_ident ?a) (to_set (xb_sources b)) (snd m))"
    have step: "amount_map_step l m (bucket_form money_object b) = Inr ?n"
      using v fresh unfolding amount_map_step_def f
      by (simp add: exact_fields_def exact_money_object [THEN iffD2] string_array_iff [THEN iffD2] bucket_valid_def money_ident_def Let_def)
    have "sources_ok ?n" using Cons.prems(3) by (simp add: sources_ok_def sources_of_def update_conv')
    moreover have "fst ` set (fst ?n) \<inter> (\<lambda>b. money_ident (xb_amount b)) ` set bs = {}"
      using Cons.prems(2,4) by (auto simp: update_keys)
    ultimately show ?case using Cons.IH [of ?n] Cons.prems(1,2) step by simp
  qed
  from this [OF no_sources] show ?thesis by (simp add: amount_map_def)
qed

section \<open>A valid and balanced run is accepted\<close>

lemma sorted_same: "distinct xs \<Longrightarrow> distinct ys \<Longrightarrow> set xs = set ys \<Longrightarrow> sort xs = (sort ys :: 'b :: linorder list)"
  by (rule sorted_distinct_set_unique) simp_all

lemma same_source_set_same:
  assumes "distinct (sources_of m i)" "distinct (sources_of n i)" "set (sources_of m i) = set (sources_of n i)"
  shows "same_source_set (map_of m i) (map_of n i)"
  using sorted_same [OF assms] by (simp add: sources_of_def)

lemma zero_money_defined: "canonical_money m \<Longrightarrow> \<exists>z. zero_money (currency m) (basis m) = Inr z"
  using money_zero [of "currency m" "basis m"] canonical_currency [of m] by (auto simp: zero_money_def)

lemma amount_or_zero_defined:
  assumes "amounts_ok xs" "i = money_ident m" "canonical_money m"
  shows "\<exists>a. amount_or_zero xs i = Inr a \<and> canonical_money a \<and> money_ident a = i \<and> money_value a = held i xs"
proof (cases "map_of xs i")
  case None
  obtain z where z: "zero_money (currency m) (basis m) = Inr z" using zero_money_defined [OF assms(3)] by blast
  then show ?thesis using None zero_money_Inr(1-3) [OF z] assms(2) by (simp add: amount_or_zero_def held_def money_ident_def)
next
  case (Some a)
  then show ?thesis using amounts_ok_lookup [OF assms(1) Some] by (simp add: amount_or_zero_def held_def)
qed

lemma check_totals_fits:
  assumes ok: "amounts_ok (fst tot)" "amounts_ok (fst al)" "amounts_ok (fst un)" "amounts_ok (fst ls)" "amounts_ok (fst us)"
    and src: "sources_ok tot" "sources_ok al" "sources_ok un" "sources_ok ls" "sources_ok us"
    and i: "i = money_ident m" "canonical_money m" and fits: "\<bar>held i (fst ls)\<bar> + \<bar>held i (fst us)\<bar> < room"
    and worth: "held i (fst al) = held i (fst ls)" "held i (fst un) = held i (fst us)" "held i (fst tot) = held i (fst ls) + held i (fst us)"
    and lin: "set (sources_of (snd tot) i) = set (sources_of (snd ls) i) \<union> set (sources_of (snd us) i)"
      "set (sources_of (snd al) i) = set (sources_of (snd ls) i)" "set (sources_of (snd un) i) = set (sources_of (snd us) i)"
  shows "check_totals tot al un ls us () i = Inr ()"
proof -
  note defined = amount_or_zero_defined [OF _ i]
  obtain t a n l r where m: "amount_or_zero (fst tot) i = Inr t" "amount_or_zero (fst al) i = Inr a"
    "amount_or_zero (fst un) i = Inr n" "amount_or_zero (fst ls) i = Inr l" "amount_or_zero (fst us) i = Inr r"
    and c: "canonical_money t" "canonical_money a" "canonical_money n" "canonical_money l" "canonical_money r"
    and k: "money_ident t = i" "money_ident a = i" "money_ident n = i" "money_ident l = i" "money_ident r = i"
    and v: "money_value t = held i (fst tot)" "money_value a = held i (fst al)" "money_value n = held i (fst un)"
      "money_value l = held i (fst ls)" "money_value r = held i (fst us)"
    using defined [OF ok(1)] defined [OF ok(2)] defined [OF ok(3)] defined [OF ok(4)] defined [OF ok(5)] by blast
  have fits': "\<bar>money_value l\<bar> + \<bar>money_value r\<bar> < room" and same: "money_ident l = money_ident r" using fits v k by simp_all
  obtain p where p: "add_money l r = Inr p" using add_money_fits [OF c(4,5) same fits'] by blast
  note P = add_money_worth(1,2,5) [OF p c(4)]
  have cmp: "compare_money a l = Inr 0" "compare_money n r = Inr 0" "compare_money t p = Inr 0"
    using compare_money_total [of a l] compare_money_total [of n r] compare_money_total [of t p] c k v worth P by simp_all
  let ?ids = "to_set (sources_of (snd ls) i @ sources_of (snd us) i)"
  have "sort (sources_of (snd tot) i) = sort ?ids"
    using src(1) lin(1) by (intro sorted_same) (simp_all only: sources_ok_def distinct_to_set set_to_set set_append)
  then have "same_source_set (map_of (snd tot) i) (Some ?ids)" by (simp add: sources_of_def)
  moreover have "same_source_set (map_of (snd al) i) (map_of (snd ls) i)" "same_source_set (map_of (snd un) i) (map_of (snd us) i)"
    using src lin by (auto simp only: sources_ok_def intro!: same_source_set_same)
  ultimately show ?thesis
    unfolding check_totals_def m bindE_simps cmp p by (simp add: sources_of_def del: same_source_set.simps)
qed

lemma bases_match_same:
  assumes "distinct bs" "set bs \<subseteq> set (map basis_name economic_bases)" "amounts_ok (fst tot)"
    and "set bs = (\<lambda>i. basis_name (snd i)) ` fst ` set (fst tot)"
  shows "bases_match tot (map JStr bs)"
proof -
  have "set bs = set (map (\<lambda>e. basis_name (basis (snd e))) (fst tot))"
  proof -
    have "snd (fst e) = basis (snd e)" if "e \<in> set (fst tot)" for e
    proof -
      have "money_ident (snd e) = fst e" using assms(3) that by (simp add: amounts_ok_def)
      then show ?thesis by (metis money_ident_def snd_conv)
    qed
    then show ?thesis unfolding assms(4) set_map image_image by (intro image_cong) simp_all
  qed
  then have "sort (to_set bs) = sort (to_set (map (\<lambda>e. basis_name (basis (snd e))) (fst tot)))"
    by (intro sorted_same) (simp_all add: distinct_to_set)
  then show ?thesis using assms(1,2) by (simp add: bases_match_def as_strings_texts to_set_distinct list_all_iff subset_iff)
qed

lemma valid_run_accepted:
  assumes valid: "run_valid run" and balanced: "\<And>i. balanced run i"
    and keys: "distinct (map (\<lambda>b. money_ident (xb_amount b)) (xa_total run))" "distinct (map (\<lambda>b. money_ident (xb_amount b)) (xa_allocated run))"
      "distinct (map (\<lambda>b. money_ident (xb_amount b)) (xa_unallocated run))"
    and bases: "set (xa_bases run) = (\<lambda>b. basis_name (xb_basis b)) ` set (xa_total run)"
    and fits: "mass (map line_pair (xa_lines run)) + mass (map rest_pair (xa_rest run)) < room"
  shows "validate_exact_allocation_result (exact_run_object run) = Inr ()"
proof -
  let ?v = "exact_run_object run"
  have f: "field ''totalByIdentity'' ?v = JArr (map (bucket_form money_object) (xa_total run))"
    "field ''allocatedByIdentity'' ?v = JArr (map (bucket_form money_object) (xa_allocated run))"
    "field ''unallocatedByIdentity'' ?v = JArr (map (bucket_form money_object) (xa_unallocated run))"
    "field ''lines'' ?v = JArr (map (line_form money_object) (xa_lines run))"
    "field ''unallocated'' ?v = JArr (map (rest_form money_object) (xa_rest run))"
    "field ''sourceBases'' ?v = JArr (map JStr (xa_bases run))"
    "field ''unresolvedRequestIds'' ?v = strings_form (xa_unresolved run)"
    "field ''excludedFrom'' ?v = JArr (map JStr (xa_excluded run))"
    "field ''complete'' ?v = JBool (xa_complete run)" "field ''conserves'' ?v = JBool (xa_conserves run)"
    "field ''periodStartMs'' ?v = JNum (of_int (xa_start run))" "field ''periodEndMs'' ?v = JNum (of_int (xa_end run))"
    "field ''runAtMs'' ?v = JNum (of_int (xa_run_at run))" "field ''trust'' ?v = JStr exact_trust"
    by (simp_all add: exact_run_object_def run_form_def strings_form_def)
  have V: "\<forall>b \<in> set (xa_total run). bucket_valid b" "\<forall>b \<in> set (xa_allocated run). bucket_valid b"
    "\<forall>b \<in> set (xa_unallocated run). bucket_valid b" "\<forall>l \<in> set (xa_lines run). line_valid l" "\<forall>u \<in> set (xa_rest run). rest_valid u"
    "exact_excluded_from (xa_complete run) = Inr (xa_excluded run)"
    using valid unfolding run_valid_def by blast+
  obtain tot al un where maps: "amount_map (map (bucket_form money_object) (xa_total run)) ''totalByIdentity'' = Inr tot"
      "amount_map (map (bucket_form money_object) (xa_allocated run)) ''allocatedByIdentity'' = Inr al"
      "amount_map (map (bucket_form money_object) (xa_unallocated run)) ''unallocatedByIdentity'' = Inr un"
    and src: "sources_ok tot" "sources_ok al" "sources_ok un"
    using amount_map_fits [OF V(1) keys(1)] amount_map_fits [OF V(2) keys(2)] amount_map_fits [OF V(3) keys(3)] by blast
  have small: "mass (map line_pair (xa_lines run)) < room" "mass (map rest_pair (xa_rest run)) < room"
    using fits pairs_mass_nonneg [of "map line_pair (xa_lines run)"] pairs_mass_nonneg [of "map rest_pair (xa_rest run)"] by simp_all
  obtain ls us where lines: "foldE check_result_line ([], []) (map (line_form money_object) (xa_lines run)) = Inr ls"
      "gathers ls (map line_pair (xa_lines run))" "sources_ok ls"
    and rest: "foldE check_result_rest ([], []) (map (rest_form money_object) (xa_rest run)) = Inr us"
      "gathers us (map rest_pair (xa_rest run))" "sources_ok us"
    using result_lines_fit [OF V(4) small(1)] result_rest_fits [OF V(5) small(2)] by blast
  note A = amount_map_gathers [OF maps(1), THEN conjunct1] and B = amount_map_gathers [OF maps(2), THEN conjunct1]
    and C = amount_map_gathers [OF maps(3), THEN conjunct1]
  have ok: "amounts_ok (fst tot)" "amounts_ok (fst al)" "amounts_ok (fst un)" "amounts_ok (fst ls)" "amounts_ok (fst us)"
    using A B C lines(2) rest(2) by (simp_all add: gathers_def)
  let ?keys = "map fst (fst tot) @ map fst (fst al) @ map fst (fst un) @ map fst (fst ls) @ map fst (fst us)"
  have checks: "check_totals tot al un ls us () i = Inr ()" if "i \<in> set ?keys" for i
  proof -
    have "i \<in> fst ` (set (fst tot) \<union> set (fst al) \<union> set (fst un) \<union> set (fst ls) \<union> set (fst us))"
      using that by (simp add: image_Un)
    then obtain e where "e \<in> set (fst tot) \<union> set (fst al) \<union> set (fst un) \<union> set (fst ls) \<union> set (fst us)" "fst e = i"
      by blast
    then have e: "i = money_ident (snd e)" "canonical_money (snd e)" using ok by (auto simp: amounts_ok_def)
    have "\<bar>held i (fst ls)\<bar> + \<bar>held i (fst us)\<bar> < room"
      using pairs_worth_mass [of i "map line_pair (xa_lines run)"] pairs_worth_mass [of i "map rest_pair (xa_rest run)"] fits
      unfolding gathersD(1) [OF lines(2)] gathersD(1) [OF rest(2)] by linarith
    moreover note w = gathersD [OF A, of i] gathersD [OF B, of i] gathersD [OF C, of i] gathersD [OF lines(2), of i] gathersD [OF rest(2), of i]
    ultimately show ?thesis
      using balanced [of i] unfolding balanced_def Let_def w [symmetric]
      by (intro check_totals_fits [OF ok src lines(3) rest(3) e]) blast+
  qed
  have "set (xa_bases run) = (\<lambda>i. basis_name (snd i)) ` fst ` set (fst tot)"
  proof -
    have "fst ` set (fst tot) = (\<lambda>b. (xb_currency b, xb_basis b)) ` set (xa_total run)"
      using A V(1) unfolding gathers_def by (force simp: bucket_pair_def bucket_valid_def image_image)
    then show ?thesis unfolding bases by (simp add: image_image)
  qed
  then have "bases_match tot (map JStr (xa_bases run))"
    using bases_match_same [OF _ _ ok(1)] valid unfolding run_valid_def by blast
  moreover have "foldE (check_totals tot al un ls us) () (to_set ?keys) = Inr ()"
    unfolding foldE_units set_to_set using checks by blast
  moreover have "check_result_head ?v = Inr ()"
    using valid unfolding check_result_head_def f by (simp add: exact_run_object_def exact_object_def exact_fields_def run_valid_def)
  moreover have "check_status ?v = Inr ()"
    using valid unfolding check_status_def f by (simp add: string_array_iff [THEN iffD2] run_valid_def)
  ultimately show ?thesis
    unfolding validate_exact_allocation_result_def f using maps lines(1) rest(1) V(6) by (simp add: strings_form_def)
qed

end
