(* ===== verification/ExactLineage.thy ===== *)
theory ExactLineage
  imports ExactAccepts
begin

text \<open>
  What the exact engine returns is a valid and balanced record: through placing, direct pass, pools and
  remainder, every total gathers exactly the amounts and the source events of the lines it stands for, and
  no source event of a row is lost.  So the validator accepts every run of the engine whose amounts fit.
\<close>

section \<open>Buckets and what they own\<close>

definition row_pair :: "exact_row \<Rightarrow> money \<times> string list" where
  "row_pair r = (xr_amount r, xr_sources r)"

definition held_pair :: "exact_bucket \<Rightarrow> money \<times> string list" where
  "held_pair b = (eb_amount b, eb_sources b)"

definition row_sound :: "exact_row \<Rightarrow> bool" where
  "row_sound r = (row_fine r \<and> (\<forall>s \<in> set (xr_sources r). trim s \<noteq> []) \<and> trim (xr_project r) \<noteq> [])"

definition bucket_open :: "ident \<Rightarrow> exact_bucket \<Rightarrow> bool" where
  "bucket_open k b =
     (canonical_money (eb_amount b) \<and> money_ident (eb_amount b) = k \<and> (\<forall>s \<in> set (eb_sources b). trim s \<noteq> [])
      \<and> (\<forall>p \<in> set (eb_projects b). trim (fst p) \<noteq> [] \<and> canonical_money (snd p) \<and> money_ident (snd p) = k))"

definition bucket_sound :: "ident \<Rightarrow> exact_bucket \<Rightarrow> bool" where
  "bucket_sound k b = (bucket_open k b \<and> eb_sources b \<noteq> [])"

definition owned :: "ident \<Rightarrow> exact_bucket \<Rightarrow> string set" where
  "owned i b = lineage i [held_pair b]"

definition groups_owned :: "ident \<Rightarrow> (ident \<times> exact_bucket) list \<Rightarrow> string set" where
  "groups_owned i gs = (\<Union>e \<in> set gs. owned i (snd e))"

definition rules_owned :: "ident \<Rightarrow> exact_rule_buckets \<Rightarrow> string set" where
  "rules_owned i bs = (\<Union>e \<in> set bs. owned i (snd (snd e)))"

definition groups_sound :: "(ident \<times> exact_bucket) list \<Rightarrow> bool" where
  "groups_sound gs = (\<forall>e \<in> set gs. bucket_sound (fst e) (snd e))"

definition rules_sound :: "exact_rule_buckets \<Rightarrow> bool" where
  "rules_sound bs = (\<forall>e \<in> set bs. bucket_sound (snd (snd (fst e))) (snd (snd e)))"

lemma lineage_simps [simp]:
  "lineage i [] = {}" "lineage i (x # xs) = (if money_ident (fst x) = i then set (snd x) else {}) \<union> lineage i xs"
  "lineage i (xs @ ys) = lineage i xs \<union> lineage i ys"
  by (auto simp: lineage_def)

lemma pairs_worth_append: "pairs_worth i (xs @ ys) = pairs_worth i xs + pairs_worth i ys"
  by (simp add: pairs_worth_def)

lemma owned_simp [simp]: "owned i b = (if money_ident (eb_amount b) = i then set (eb_sources b) else {})"
  by (simp add: owned_def held_pair_def)

lemma lineage_held: "lineage i (map (\<lambda>e. held_pair (f e)) es) = (\<Union>e \<in> set es. owned i (f e))"
  by (induction es) (simp_all add: held_pair_def)

lemma update_union:
  "(\<And>v. map_of al k = Some v \<Longrightarrow> f v \<subseteq> f w) \<Longrightarrow> (\<Union>e \<in> set (AList.update k w al). f (snd e)) = (\<Union>e \<in> set al. f (snd e)) \<union> f w"
  by (induction al) (auto split: if_splits)

lemma empty_bucket_open:
  assumes "empty_bucket m = Inr b"
  shows "bucket_open (money_ident m) b" "eb_sources b = []"
proof -
  obtain z where z: "zero_money (currency m) (basis m) = Inr z" "b = \<lparr>eb_amount = z, eb_sources = [], eb_projects = []\<rparr>"
    using assms by (auto simp: empty_bucket_def)
  show "bucket_open (money_ident m) b" "eb_sources b = []"
    using zero_money_Inr(2,3) [OF z(1)] unfolding z(2) by (simp_all add: bucket_open_def money_ident_def)
qed

lemma bucket_grow:
  assumes step: "add_to_bucket b r = Inr b'" and b: "bucket_open (money_ident (xr_amount r)) b" and r: "row_sound r"
  shows "bucket_sound (money_ident (xr_amount r)) b'" "eb_sources b' = eb_sources b @ xr_sources r"
proof -
  let ?k = "money_ident (xr_amount r)"
  obtain a ps where a: "add_money (eb_amount b) (xr_amount r) = Inr a"
    and ps: "add_keyed (xr_project r) (xr_amount r) (eb_projects b) = Inr ps"
    and b': "b' = \<lparr>eb_amount = a, eb_sources = eb_sources b @ xr_sources r, eb_projects = ps\<rparr>"
    using step by (auto simp: add_to_bucket_def)
  show src: "eb_sources b' = eb_sources b @ xr_sources r" by (simp add: b')
  have open_b: "canonical_money (eb_amount b)" "money_ident (eb_amount b) = ?k" "\<forall>s \<in> set (eb_sources b). trim s \<noteq> []"
    "\<forall>p \<in> set (eb_projects b). trim (fst p) \<noteq> [] \<and> canonical_money (snd p) \<and> money_ident (snd p) = ?k"
    using b unfolding bucket_open_def by blast+
  have row: "canonical_money (xr_amount r)" "xr_sources r \<noteq> []" "\<forall>s \<in> set (xr_sources r). trim s \<noteq> []" "trim (xr_project r) \<noteq> []"
    using r unfolding row_sound_def row_fine_def by blast+
  obtain s where s: "(case map_of (eb_projects b) (xr_project r) of None \<Rightarrow> Inr (xr_amount r) | Some prior \<Rightarrow> add_money prior (xr_amount r)) = Inr s"
    "ps = AList.update (xr_project r) s (eb_projects b)" using ps by (auto simp: add_keyed_def)
  have "canonical_money s \<and> money_ident s = ?k"
  proof (cases "map_of (eb_projects b) (xr_project r)")
    case None
    then show ?thesis using s(1) row(1) by simp
  next
    case (Some prior)
    have "canonical_money prior \<and> money_ident prior = ?k" using bspec [OF open_b(4) map_of_SomeD [OF Some]] by simp
    moreover have "add_money prior (xr_amount r) = Inr s" using s(1) Some by simp
    ultimately show ?thesis using add_money_worth(1,2) by metis
  qed
  then have "trim (fst (xr_project r, s)) \<noteq> [] \<and> canonical_money (snd (xr_project r, s)) \<and> money_ident (snd (xr_project r, s)) = ?k"
    using row(4) by simp
  from ball_insert_subset [OF set_update_subset this open_b(4)]
  have "\<forall>p \<in> set ps. trim (fst p) \<noteq> [] \<and> canonical_money (snd p) \<and> money_ident (snd p) = ?k" unfolding s(2) .
  then show "bucket_sound ?k b'"
    using add_money_worth(1,2) [OF a open_b(1)] open_b(2,3) row(2,3) unfolding bucket_sound_def bucket_open_def b' by auto
qed

lemma add_grouped_sound:
  assumes "add_grouped gs r = Inr gs'" "groups_sound gs" "row_sound r"
  shows "groups_sound gs'" "groups_owned i gs' = groups_owned i gs \<union> lineage i [row_pair r]"
proof -
  let ?k = "money_ident (xr_amount r)"
  obtain b b' where b: "(case map_of gs ?k of None \<Rightarrow> empty_bucket (xr_amount r) | Some b \<Rightarrow> Inr b) = Inr b"
    "add_to_bucket b r = Inr b'" "gs' = AList.update ?k b' gs" using assms(1) by (auto simp: add_grouped_def Let_def)
  have old: "bucket_open ?k b \<and> (map_of gs ?k = Some b \<or> (map_of gs ?k = None \<and> eb_sources b = []))"
  proof (cases "map_of gs ?k")
    case None
    then show ?thesis using b(1) empty_bucket_open by simp
  next
    case (Some v)
    have "bucket_sound ?k v" using bspec [OF assms(2) [unfolded groups_sound_def] map_of_SomeD [OF Some]] by simp
    then show ?thesis using b(1) Some by (simp add: bucket_sound_def)
  qed
  note new = bucket_grow [OF b(2) _ assms(3)]
  have sound: "bucket_sound ?k b'" "eb_sources b' = eb_sources b @ xr_sources r" using new old by blast+
  then have k: "money_ident (eb_amount b') = ?k" "money_ident (eb_amount b) = ?k" using old by (simp_all add: bucket_sound_def bucket_open_def)
  have "bucket_sound (fst (?k, b')) (snd (?k, b'))" using sound(1) by simp
  from ball_insert_subset [OF set_update_subset this assms(2) [unfolded groups_sound_def]]
  show "groups_sound gs'" unfolding groups_sound_def b(3) .
  have "owned i v \<subseteq> owned i b'" if "map_of gs ?k = Some v" for v
  proof -
    have "v = b" using old that by auto
    then show ?thesis using sound(2) k by auto
  qed
  from update_union [of gs ?k "owned i", OF this] have "groups_owned i gs' = groups_owned i gs \<union> owned i b'"
    unfolding groups_owned_def b(3) .
  moreover have "owned i b \<subseteq> groups_owned i gs"
    using old unfolding groups_owned_def by (auto dest: map_of_SomeD)
  ultimately show "groups_owned i gs' = groups_owned i gs \<union> lineage i [row_pair r]"
    using sound(2) k by (auto simp: row_pair_def)
qed

lemma add_to_exact_rule_sound:
  assumes "add_to_exact_rule bs rule r = Inr bs'" "rules_sound bs" "row_sound r"
  shows "rules_sound bs'" "rules_owned i bs' = rules_owned i bs \<union> lineage i [row_pair r]"
proof -
  let ?m = "money_ident (xr_amount r)" let ?k = "(ru_id rule, ru_version rule, ?m)"
  obtain e b' where e: "(case map_of bs ?k of None \<Rightarrow> bindE (empty_bucket (xr_amount r)) (\<lambda>b. Inr (rule, b)) | Some entry \<Rightarrow> Inr entry) = Inr e"
    "add_to_bucket (snd e) r = Inr b'" "bs' = AList.update ?k (fst e, b') bs" using assms(1) by (auto simp: add_to_exact_rule_def Let_def)
  have old: "bucket_open ?m (snd e) \<and> (map_of bs ?k = Some e \<or> (map_of bs ?k = None \<and> eb_sources (snd e) = []))"
  proof (cases "map_of bs ?k")
    case None
    then show ?thesis using e(1) empty_bucket_open by auto
  next
    case (Some v)
    have "bucket_sound ?m (snd v)" using bspec [OF assms(2) [unfolded rules_sound_def] map_of_SomeD [OF Some]] by simp
    then show ?thesis using e(1) Some by (simp add: bucket_sound_def)
  qed
  note new = bucket_grow [OF e(2) _ assms(3)]
  have sound: "bucket_sound ?m b'" "eb_sources b' = eb_sources (snd e) @ xr_sources r" using new old by blast+
  then have k: "money_ident (eb_amount b') = ?m" "money_ident (eb_amount (snd e)) = ?m" using old by (simp_all add: bucket_sound_def bucket_open_def)
  have "bucket_sound (snd (snd (fst (?k, fst e, b')))) (snd (snd (?k, fst e, b')))" using sound(1) by simp
  from ball_insert_subset [OF set_update_subset this assms(2) [unfolded rules_sound_def]]
  show "rules_sound bs'" unfolding rules_sound_def e(3) .
  have "owned i (snd v) \<subseteq> owned i (snd (fst e, b'))" if "map_of bs ?k = Some v" for v
  proof -
    have "v = e" using old that by auto
    then show ?thesis using sound(2) k by auto
  qed
  from update_union [of bs ?k "\<lambda>v. owned i (snd v)", OF this] have "rules_owned i bs' = rules_owned i bs \<union> owned i b'"
    unfolding rules_owned_def e(3) snd_conv .
  moreover have "owned i (snd e) \<subseteq> rules_owned i bs"
    using old unfolding rules_owned_def by (auto dest: map_of_SomeD intro: rev_bexI)
  ultimately show "rules_owned i bs' = rules_owned i bs \<union> lineage i [row_pair r]"
    using sound(2) k by (auto simp: row_pair_def)
qed

section \<open>Placing the rows\<close>

definition placed_sound :: "exact_row list \<Rightarrow> exact_places \<Rightarrow> bool" where
  "placed_sound rows P =
     (gathers (xp_total P) (map row_pair rows) \<and> sources_ok (xp_total P)
      \<and> rules_sound (xp_claimed P) \<and> rules_sound (xp_pools P) \<and> groups_sound (xp_unmatched P) \<and> groups_sound (xp_archived P)
      \<and> (\<forall>i. lineage i (map row_pair rows) = rules_owned i (xp_claimed P) \<union> rules_owned i (xp_pools P)
            \<union> groups_owned i (xp_unmatched P) \<union> groups_owned i (xp_archived P)))"

lemma place_exact_row_sound:
  assumes P: "placed_sound rows P" and r: "row_sound r" and step: "place_exact_row ordered archived P r = Inr P'"
  shows "placed_sound (rows @ [r]) P'"
proof -
  obtain t where t: "add_amount (xp_total P) (xr_amount r) (xr_sources r) = Inr t"
    using step by (auto simp: place_exact_row_def)
  have P': "(\<exists>g. add_grouped (xp_unmatched P) r = Inr g \<and> P' = P\<lparr>xp_total := t, xp_unmatched := g\<rparr>)
      \<or> (\<exists>g. add_grouped (xp_archived P) r = Inr g \<and> P' = P\<lparr>xp_total := t, xp_archived := g\<rparr>)
      \<or> (\<exists>rule bs. add_to_exact_rule (xp_pools P) rule r = Inr bs \<and> P' = P\<lparr>xp_total := t, xp_pools := bs\<rparr>)
      \<or> (\<exists>rule bs. add_to_exact_rule (xp_claimed P) rule r = Inr bs \<and> P' = P\<lparr>xp_total := t, xp_claimed := bs\<rparr>)"
    using step t unfolding place_exact_row_def by (auto split: option.splits if_splits; blast)
  have old: "gathers (xp_total P) (map row_pair rows)" "sources_ok (xp_total P)" using P by (simp_all add: placed_sound_def)
  have "canonical_money (xr_amount r)" using r by (simp add: row_sound_def row_fine_def)
  then have tot: "gathers t (map row_pair (rows @ [r]))" "sources_ok t"
    using gathers_add_amount [OF old(1) t] add_amount_sources [OF t old(2)] by (simp_all add: row_pair_def)
  from P' show ?thesis
  proof (elim disjE exE conjE)
    fix g assume g: "add_grouped (xp_unmatched P) r = Inr g" "P' = P\<lparr>xp_total := t, xp_unmatched := g\<rparr>"
    show ?thesis using P tot add_grouped_sound [OF g(1) _ r] unfolding g(2) placed_sound_def by (auto simp del: lineage_simps(2))
  next
    fix g assume g: "add_grouped (xp_archived P) r = Inr g" "P' = P\<lparr>xp_total := t, xp_archived := g\<rparr>"
    show ?thesis using P tot add_grouped_sound [OF g(1) _ r] unfolding g(2) placed_sound_def by (auto simp del: lineage_simps(2))
  next
    fix rule bs assume g: "add_to_exact_rule (xp_pools P) rule r = Inr bs" "P' = P\<lparr>xp_total := t, xp_pools := bs\<rparr>"
    show ?thesis using P tot add_to_exact_rule_sound [OF g(1) _ r] unfolding g(2) placed_sound_def by (auto simp del: lineage_simps(2))
  next
    fix rule bs assume g: "add_to_exact_rule (xp_claimed P) rule r = Inr bs" "P' = P\<lparr>xp_total := t, xp_claimed := bs\<rparr>"
    show ?thesis using P tot add_to_exact_rule_sound [OF g(1) _ r] unfolding g(2) placed_sound_def by (auto simp del: lineage_simps(2))
  qed
qed

lemma exact_placing_sound:
  assumes "foldE (place_exact_row ordered archived) P rs = Inr P'" "placed_sound rows P" "\<forall>r \<in> set rs. row_sound r"
  shows "placed_sound (rows @ rs) P'"
  using assms
proof (induction rs arbitrary: rows P)
  case Nil
  then show ?case by simp
next
  case (Cons r rs)
  then obtain P1 where P1: "place_exact_row ordered archived P r = Inr P1"
    "foldE (place_exact_row ordered archived) P1 rs = Inr P'" by auto
  have r: "row_sound r" "\<forall>r \<in> set rs. row_sound r" using Cons.prems(3) by simp_all
  from Cons.IH [OF P1(2) place_exact_row_sound [OF Cons.prems(2) r(1) P1(1)] r(2)] show ?case by simp
qed

lemma no_places_sound: "placed_sound [] no_exact_places"
  by (simp add: placed_sound_def no_exact_places_def gathers_Nil no_sources rules_sound_def groups_sound_def rules_owned_def groups_owned_def)

lemma claimed_texts: "claim_sources seen vs = Inr (seen', ss) \<Longrightarrow> \<forall>s \<in> set ss. trim s \<noteq> []"
  by (induction vs arbitrary: seen seen' ss) (auto split: jsval.splits if_splits prod.splits)

lemma canonical_rows_sound:
  assumes "canonical_exact_rows raw ps pe = Inr (s, e, rows)"
  shows "\<forall>r \<in> set rows. row_sound r" "s < e" "safe_int s" "safe_int e"
proof -
  obtain vs seen where vs: "foldE (canonical_exact_row s e) ([], []) vs = Inr (seen, rows)"
    and period: "safe_integer ps = Some s" "safe_integer pe = Some e" "s < e"
    using assms by (auto simp: canonical_exact_rows_def split: jsval.splits option.splits if_splits prod.splits)
  show "s < e" "safe_int s" "safe_int e" using period safe_integer_Some by blast+
  have "\<forall>r \<in> set (snd (seen, rows)). (\<forall>s \<in> set (xr_sources r). trim s \<noteq> []) \<and> trim (xr_project r) \<noteq> []"
  proof (rule foldE_invariant [OF _ _ vs])
    fix st v st' assume st: "\<forall>r \<in> set (snd st). (\<forall>s \<in> set (xr_sources r). trim s \<noteq> []) \<and> trim (xr_project r) \<noteq> []"
      and step: "canonical_exact_row s e st v = Inr st'"
    obtain ids seen' sources proj r where r: "claim_sources (fst st) ids = Inr (seen', sources)"
      "trimmed_text ''project'' (field ''project'' v) = Inr proj" "st' = (seen', snd st @ [r])" "xr_sources r = sources" "xr_project r = proj"
      using step by (auto simp: canonical_exact_row_def split: jsval.splits option.splits if_splits prod.splits)
    have "trim proj \<noteq> []" using r(2) by (auto simp: trimmed_text_def split: jsval.splits if_splits)
    then show "\<forall>r \<in> set (snd st'). (\<forall>s \<in> set (xr_sources r). trim s \<noteq> []) \<and> trim (xr_project r) \<noteq> []"
      using st claimed_texts [OF r(1)] r(3-5) by simp
  qed simp
  then show "\<forall>r \<in> set rows. row_sound r" using canonical_rows_fine [OF assms] by (simp add: row_sound_def)
qed

section \<open>The lines of the direct pass\<close>

definition rule_sound :: "alloc_rule \<Rightarrow> bool" where
  "rule_sound r = (ru_method r \<in> set alloc_methods \<and> safe_num (ru_version r) \<and> 1 \<le> ru_version r)"

definition lines_sound :: "exact_state \<Rightarrow> bool" where
  "lines_sound st =
     (gathers (xs_allocated st) (map line_pair (xs_lines st)) \<and> sources_ok (xs_allocated st) \<and> (\<forall>l \<in> set (xs_lines st). line_valid l))"

definition lines_own :: "ident \<Rightarrow> exact_state \<Rightarrow> string set" where
  "lines_own i st = lineage i (map line_pair (xs_lines st))"

lemma validated_rule_sound: "validate_rule r = Inr () \<Longrightarrow> rule_sound r"
  by (auto simp: validate_rule_def rule_sound_def split: if_splits)

lemma source_ids_texts: "bucket_sound k b \<Longrightarrow> texts_ok (source_ids b) \<and> source_ids b \<noteq> [] \<and> set (source_ids b) = set (eb_sources b)"
proof -
  assume b: "bucket_sound k b"
  have s: "set (source_ids b) = set (eb_sources b)" "distinct (source_ids b)" by (simp_all add: source_ids_def distinct_to_set)
  then have "source_ids b \<noteq> []" using b by (auto simp: bucket_sound_def)
  then show ?thesis using s b by (simp add: texts_ok_def bucket_sound_def bucket_open_def)
qed

lemma rule_line_valid:
  assumes "rule_sound rule" "bucket_sound k b" "canonical_money m" "money_ident m = k" "0 \<le> p" "p \<le> ratio_scale"
  shows "line_valid (rule_line rule b c p m)"
proof -
  have k: "basis m = basis (eb_amount b)" using assms(2,4) by (auto simp: bucket_sound_def bucket_open_def money_ident_def)
  have f: "field ''method'' (line_form money_object (rule_line rule b c p m)) = JStr (ru_method rule)"
    "field ''ratioParts'' (line_form money_object (rule_line rule b c p m)) = JNum (of_int p)"
    "field ''ruleVersion'' (line_form money_object (rule_line rule b c p m)) = JNum (ru_version rule)"
    by (simp_all add: line_form_def rule_line_def)
  have "safe_int p" using assms(5,6) by (simp add: safe_int_def ratio_scale_def max_safe_def)
  moreover have "1 \<le> \<lfloor>ru_version rule\<rfloor>" using assms(1) by (simp add: rule_sound_def le_floor_iff)
  ultimately have "rule_metadata_ok (line_form money_object (rule_line rule b c p m))"
    using assms(1,5,6) unfolding rule_metadata_ok_def f by (simp add: rule_sound_def safe_num_def)
  then show ?thesis using source_ids_texts [OF assms(2)] assms(3) k by (simp add: line_valid_def rule_line_def)
qed

lemma line_added:
  assumes st: "lines_sound st" and al: "add_amount (xs_allocated st) m (eb_sources b) = Inr al" and m: "canonical_money m"
    and l: "line_valid l" "xl_amount l = m" "set (xl_sources l) = set (eb_sources b)"
    and st': "xs_allocated st' = al" "xs_lines st' = xs_lines st @ [l]"
  shows "lines_sound st'"
proof -
  have "gathers al (map line_pair (xs_lines st) @ [(m, eb_sources b)])"
    using gathers_add_amount [OF _ al m] st by (simp add: lines_sound_def)
  then have "gathers al (map line_pair (xs_lines st'))"
    using l(2,3) unfolding st' gathers_def by (simp add: line_pair_def pairs_worth_def)
  then show ?thesis using add_amount_sources [OF al] st l(1) unfolding lines_sound_def st' by simp
qed

lemma claimed_target_sound:
  assumes st: "lines_sound st" and step: "claimed_target rule b split st t = Inr st'"
    and rule: "rule_sound rule" and b: "bucket_sound k b" and parts: "\<And>p. target_parts t = Inr p \<Longrightarrow> 0 \<le> p \<and> p \<le> ratio_scale"
    and split: "\<forall>e \<in> set split. canonical_money (snd e) \<and> money_ident (snd e) = k"
  shows "lines_sound st'" "lines_own i st' = lines_own i st \<union> owned i b" "xs_unallocated st' = xs_unallocated st"
proof -
  obtain m p al ds where m: "(case map_of split (at_centre t) of None \<Rightarrow> zero_money (currency (eb_amount b)) (basis (eb_amount b))
        | Some m \<Rightarrow> Inr m) = Inr m"
    and p: "target_parts t = Inr p" and al: "add_amount (xs_allocated st) m (eb_sources b) = Inr al"
    and st': "st' = st\<lparr>xs_lines := xs_lines st @ [rule_line rule b (at_centre t) p m], xs_allocated := al, xs_drivers := ds\<rparr>"
    using step by (auto simp: claimed_target_def)
  have k: "money_ident (eb_amount b) = k" using b by (simp add: bucket_sound_def bucket_open_def)
  have M: "canonical_money m \<and> money_ident m = k"
  proof (cases "map_of split (at_centre t)")
    case None
    then have "zero_money (currency (eb_amount b)) (basis (eb_amount b)) = Inr m" using m by simp
    from zero_money_Inr(2,3) [OF this] show ?thesis using k by (simp add: money_ident_def)
  next
    case (Some x)
    then have "x = m" using m by simp
    then show ?thesis using bspec [OF split map_of_SomeD [OF Some]] by simp
  qed
  let ?l = "rule_line rule b (at_centre t) p m"
  have l: "line_valid ?l" "xl_amount ?l = m" "set (xl_sources ?l) = set (eb_sources b)"
    using rule_line_valid [OF rule b] M parts [OF p] source_ids_texts [OF b] by (simp_all add: rule_line_def)
  show "lines_sound st'" by (rule line_added [OF st al _ l]) (simp_all add: st' M)
  show "xs_unallocated st' = xs_unallocated st" by (simp add: st')
  show "lines_own i st' = lines_own i st \<union> owned i b"
    using l(2,3) M k by (simp add: st' lines_own_def line_pair_def)
qed

lemma claimed_targets_sound:
  assumes "foldE (claimed_target rule b split) st ts = Inr st'" "lines_sound st" "rule_sound rule" "bucket_sound k b"
    and "\<forall>t \<in> set ts. \<forall>p. target_parts t = Inr p \<longrightarrow> 0 \<le> p \<and> p \<le> ratio_scale"
    and "\<forall>e \<in> set split. canonical_money (snd e) \<and> money_ident (snd e) = k"
  shows "lines_sound st' \<and> lines_own i st' = lines_own i st \<union> (if ts = [] then {} else owned i b) \<and> xs_unallocated st' = xs_unallocated st"
  using assms
proof (induction ts arbitrary: st)
  case Nil
  then show ?case by simp
next
  case (Cons t ts)
  then obtain st1 where st1: "claimed_target rule b split st t = Inr st1" "foldE (claimed_target rule b split) st1 ts = Inr st'"
    by auto
  have t: "\<And>p. target_parts t = Inr p \<Longrightarrow> 0 \<le> p \<and> p \<le> ratio_scale"
    "\<forall>t \<in> set ts. \<forall>p. target_parts t = Inr p \<longrightarrow> 0 \<le> p \<and> p \<le> ratio_scale" using Cons.prems(5) by simp_all
  note one = claimed_target_sound [OF Cons.prems(2) st1(1) Cons.prems(3,4) t(1) Cons.prems(6)]
  from Cons.IH [OF st1(2) one(1) Cons.prems(3,4) t(2) Cons.prems(6)] one(2) [of i] one(3)
  show ?case by (auto simp del: owned_simp)
qed

lemma member_le_sum_int: "\<forall>y \<in> set xs. 0 \<le> y \<Longrightarrow> x \<in> set xs \<Longrightarrow> x \<le> (sum_list xs :: int)"
proof (induction xs)
  case (Cons y ys)
  have "0 \<le> sum_list ys" using Cons.prems(1) by (intro sum_list_nonneg) simp
  then show ?case using Cons by auto
qed simp

lemma parts_in_range:
  assumes "mapE target_parts ts = Inr ps" "sum_list ps = ratio_scale" "t \<in> set ts" "target_parts t = Inr p"
  shows "0 \<le> p \<and> p \<le> ratio_scale"
proof -
  have nonneg: "0 \<le> q" if "q \<in> set ps" for q
    using mapE_set [OF assms(1) that] ratio_to_parts_nonneg by (auto simp: target_parts_def)
  obtain j where j: "j < length ts" "ts ! j = t" using assms(3) by (auto simp: in_set_conv_nth)
  then have "ps ! j = p" "j < length ps" using mapE_nth [OF assms(1) j(1)] mapE_length [OF assms(1)] assms(4) by simp_all
  then have "p \<in> set ps" by auto
  then show ?thesis using nonneg member_le_sum_int [of ps p] assms(2) by auto
qed

lemma claimed_pass_sound:
  assumes st: "lines_sound st" and step: "claimed_pass st (k, rule, b) = Inr st'"
    and rule: "direct_rule rules archived rule" "validate_rule rule = Inr ()" and b: "bucket_sound (snd (snd k)) b"
  shows "lines_sound st'" "lines_own i st' = lines_own i st \<union> owned i b" "xs_unallocated st' = xs_unallocated st"
proof -
  have meth: "ru_method rule \<noteq> pool_method" using rule(1) by (simp add: direct_rule_def)
  note V = validated_parts [OF rule(2) meth]
  obtain ps where ps: "mapE target_parts (ru_targets rule) = Inr ps" "sum_list ps = ratio_scale" using V(1) by blast
  let ?ws = "zip (map at_centre (ru_targets rule)) ps"
  obtain split where split: "split_by_weights (eb_amount b) ?ws = Inr split"
    "foldE (claimed_target rule b split) st (ru_targets rule) = Inr st'"
    using step ps(1) target_weights [OF ps(1)] by (auto simp: claimed_pass_def Let_def)
  have keys: "distinct (map fst ?ws)" using V(2) mapE_length [OF ps(1)] by simp
  have "\<forall>e \<in> set split. canonical_money (snd e) \<and> money_ident (snd e) = snd (snd k)"
  proof (cases "sum_list (map snd (filter (\<lambda>cw. 0 < snd cw) ?ws)) \<le> 0")
    case True
    then show ?thesis using split(1) by (simp add: split_by_weights_def Let_def)
  next
    case False
    then have "0 < sum_list (map snd (filter (\<lambda>cw. 0 < snd cw) ?ws))" by linarith
    from split_by_weights_Inr(3) [OF split(1) keys this] show ?thesis using b by (simp add: bucket_sound_def bucket_open_def)
  qed
  from claimed_targets_sound [OF split(2) st validated_rule_sound [OF rule(2)] b _ this, of i] V(3) parts_in_range [OF ps]
  show "lines_sound st'" "lines_own i st' = lines_own i st \<union> owned i b" "xs_unallocated st' = xs_unallocated st"
    by (simp_all del: owned_simp)
qed

lemma claimed_passes_sound:
  assumes "foldE claimed_pass st bs = Inr st'" "lines_sound st" "rules_sound bs"
    and "\<forall>(k, rule, b) \<in> set bs. direct_rule rules archived rule" "\<forall>rule \<in> set rules. validate_rule rule = Inr ()"
  shows "lines_sound st' \<and> lines_own i st' = lines_own i st \<union> rules_owned i bs \<and> xs_unallocated st' = xs_unallocated st"
  using assms
proof (induction bs arbitrary: st)
  case Nil
  then show ?case by (simp add: rules_owned_def)
next
  case (Cons e bs)
  obtain k rule b where e [simp]: "e = (k, rule, b)" by (cases e)
  obtain st1 where st1: "claimed_pass st (k, rule, b) = Inr st1" "foldE claimed_pass st1 bs = Inr st'" using Cons.prems(1) by auto
  have fine: "bucket_sound (snd (snd k)) b" "rules_sound bs" "direct_rule rules archived rule"
    "\<forall>(k, rule, b) \<in> set bs. direct_rule rules archived rule" using Cons.prems(3,4) by (simp_all add: rules_sound_def)
  then have "validate_rule rule = Inr ()" using Cons.prems(5) by (simp add: direct_rule_def)
  note one = claimed_pass_sound [OF Cons.prems(2) st1(1) fine(3) this fine(1)]
  have "rules_owned i (e # bs) = owned i b \<union> rules_owned i bs" by (simp add: rules_owned_def)
  with Cons.IH [OF st1(2) one(1) fine(2,4) Cons.prems(5)] one(2) [of i] one(3) show ?case by (auto simp del: owned_simp)
qed

section \<open>The lines of the pools\<close>

lemma weight_parts:
  assumes "\<forall>cw \<in> set ws. (0 :: int) < snd cw" "ws \<noteq> []"
  shows "0 \<le> (case List.find (\<lambda>cw. fst cw = c) ws of None \<Rightarrow> 0 | Some cw \<Rightarrow> snd cw) * ratio_scale div sum_list (map snd ws)
    \<and> (case List.find (\<lambda>cw. fst cw = c) ws of None \<Rightarrow> 0 | Some cw \<Rightarrow> snd cw) * ratio_scale div sum_list (map snd ws) \<le> ratio_scale"
proof -
  let ?w = "case List.find (\<lambda>cw. fst cw = c) ws of None \<Rightarrow> 0 | Some cw \<Rightarrow> snd cw"
  let ?d = "sum_list (map snd ws)"
  have d: "0 < ?d" using sum_list_positive [OF assms(2,1)] .
  have w: "0 \<le> ?w \<and> ?w \<le> ?d"
  proof (cases "List.find (\<lambda>cw. fst cw = c) ws")
    case (Some cw)
    then have "cw \<in> set ws" by (auto simp: find_Some_iff)
    then have "snd cw \<in> set (map snd ws)" "0 < snd cw" using assms(1) by auto
    moreover have "\<forall>x \<in> set (map snd ws). 0 \<le> x" using assms(1) by auto
    ultimately show ?thesis using Some member_le_sum_int [of "map snd ws" "snd cw"] by auto
  qed (use d in simp)
  then have "?w * ratio_scale div ?d \<le> ?d * ratio_scale div ?d"
    using d by (intro zdiv_mono1 mult_right_mono) (simp_all add: ratio_scale_def)
  also have "\<dots> = ratio_scale" using d by simp
  finally show ?thesis using w d by (simp add: pos_imp_zdiv_nonneg_iff ratio_scale_def)
qed

lemma pool_shares_sound:
  assumes "foldE (pool_share rule b ws) st shares = Inr st'" "lines_sound st" "rule_sound rule" "bucket_sound k b"
    and "\<forall>cw \<in> set ws. 0 < snd cw" "ws \<noteq> []" "\<forall>share \<in> set shares. canonical_money (snd share) \<and> money_ident (snd share) = k"
  shows "lines_sound st' \<and> lines_own i st' = lines_own i st \<union> (if shares = [] then {} else owned i b)
    \<and> xs_unallocated st' = xs_unallocated st \<and> xs_drivers st' = xs_drivers st"
  using assms
proof (induction shares arbitrary: st)
  case Nil
  then show ?case by simp
next
  case (Cons share shares)
  let ?p = "(case List.find (\<lambda>cw. fst cw = fst share) ws of None \<Rightarrow> 0 | Some cw \<Rightarrow> snd cw) * ratio_scale div sum_list (map snd ws)"
  obtain st1 where step: "pool_share rule b ws st share = Inr st1" "foldE (pool_share rule b ws) st1 shares = Inr st'"
    using Cons.prems(1) by auto
  obtain al where st1: "add_amount (xs_allocated st) (snd share) (eb_sources b) = Inr al"
    "st1 = st\<lparr>xs_lines := xs_lines st @ [rule_line rule b (fst share) ?p (snd share)], xs_allocated := al\<rparr>"
    using step(1) by (auto simp: pool_share_def Let_def)
  have k: "money_ident (eb_amount b) = k" using Cons.prems(4) by (simp add: bucket_sound_def bucket_open_def)
  have M: "canonical_money (snd share)" "money_ident (snd share) = k" using Cons.prems(7) by simp_all
  let ?l = "rule_line rule b (fst share) ?p (snd share)"
  have l: "line_valid ?l" "xl_amount ?l = snd share" "set (xl_sources ?l) = set (eb_sources b)"
    using rule_line_valid [OF Cons.prems(3,4) M] weight_parts [OF Cons.prems(5,6)] source_ids_texts [OF Cons.prems(4)]
    by (simp_all add: rule_line_def)
  have one: "lines_sound st1" "lines_own i st1 = lines_own i st \<union> owned i b" "xs_unallocated st1 = xs_unallocated st"
    "xs_drivers st1 = xs_drivers st" for i
  proof -
    show "lines_sound st1" by (rule line_added [OF Cons.prems(2) st1(1) M(1) l]) (simp_all add: st1(2))
    show "lines_own i st1 = lines_own i st \<union> owned i b" using l(2,3) M(2) k by (simp add: st1(2) lines_own_def line_pair_def)
  qed (simp_all add: st1(2))
  have "\<forall>share \<in> set shares. canonical_money (snd share) \<and> money_ident (snd share) = k" using Cons.prems(7) by simp
  from Cons.IH [OF step(2) one(1) Cons.prems(3-6) this] one(2) [of i] one(3,4) show ?case by (auto simp del: owned_simp)
qed

lemma exact_pool_passes_sound:
  assumes "foldE exact_pool_pass st bs = Inr st'" "lines_sound st" "xs_drivers st = ds" "drivers_ok archived ds"
    and "gathers (xs_unallocated st) ys" "sources_ok (xs_unallocated st)" "rules_sound bs" "\<forall>e \<in> set bs. rule_sound (fst (snd e))"
  shows "lines_sound st' \<and> xs_drivers st' = ds \<and> sources_ok (xs_unallocated st')
    \<and> gathers (xs_unallocated st') (ys @ map (\<lambda>e. held_pair (snd (snd e))) (filter (\<lambda>e. \<not> driven ds (snd (snd e))) bs))
    \<and> lines_own i st' = lines_own i st \<union> rules_owned i (filter (\<lambda>e. driven ds (snd (snd e))) bs)"
  using assms
proof (induction bs arbitrary: st ys)
  case Nil
  then show ?case by (simp add: rules_owned_def)
next
  case (Cons e bs)
  obtain k rule b where e [simp]: "e = (k, rule, b)" by (cases e)
  obtain st1 where st1: "exact_pool_pass st (k, rule, b) = Inr st1" "foldE exact_pool_pass st1 bs = Inr st'" using Cons.prems(1) by auto
  have fine: "bucket_sound (snd (snd k)) b" "rules_sound bs" "rule_sound rule" "\<forall>e \<in> set bs. rule_sound (fst (snd e))"
    using Cons.prems(7,8) by (simp_all add: rules_sound_def)
  then have b: "money_ident (eb_amount b) = snd (snd k)" "canonical_money (eb_amount b)" by (simp_all add: bucket_sound_def bucket_open_def)
  note ds = Cons.prems(4) [folded Cons.prems(3)]
  show ?case
  proof (cases "driven ds b")
    case True
    obtain ws split where split: "foldE (pool_share rule b ws) st split = Inr st1" "ws \<noteq> []" "\<forall>cw \<in> set ws. 0 < snd cw" "split \<noteq> []"
      "\<forall>share \<in> set split. canonical_money (snd share) \<and> money_ident (snd share) = snd (snd k)"
      using driven_pool_pass [OF st1(1) ds] True Cons.prems(3) b by metis
    from pool_shares_sound [OF split(1) Cons.prems(2) fine(3,1) split(3,2,5), of i]
    have one: "lines_sound st1" "lines_own i st1 = lines_own i st \<union> owned i b" "xs_unallocated st1 = xs_unallocated st"
      "xs_drivers st1 = ds" using split(4) Cons.prems(3) by simp_all
    have rest: "gathers (xs_unallocated st1) ys" "sources_ok (xs_unallocated st1)" using Cons.prems(5,6) one(3) by simp_all
    have "rules_owned i (filter (\<lambda>e. driven ds (snd (snd e))) (e # bs))
        = owned i b \<union> rules_owned i (filter (\<lambda>e. driven ds (snd (snd e))) bs)" using True by (simp add: rules_owned_def)
    with Cons.IH [OF st1(2) one(1,4) Cons.prems(4) rest fine(2,4)] True one(2) show ?thesis by (auto simp del: owned_simp)
  next
    case False
    obtain un where un: "add_amount (xs_unallocated st) (eb_amount b) (eb_sources b) = Inr un" "st1 = st\<lparr>xs_unallocated := un\<rparr>"
      using undriven_pool_pass [OF st1(1) ds] False Cons.prems(3) by metis
    have one: "lines_sound st1" "xs_drivers st1 = ds" "\<And>i. lines_own i st1 = lines_own i st"
      using Cons.prems(2,3) by (simp_all add: un(2) lines_sound_def lines_own_def)
    have rest: "gathers (xs_unallocated st1) (ys @ [held_pair b])" "sources_ok (xs_unallocated st1)"
      using gathers_add_amount [OF Cons.prems(5) un(1) b(2)] add_amount_sources [OF un(1) Cons.prems(6)] by (simp_all add: un(2) held_pair_def)
    from Cons.IH [OF st1(2) one(1,2) Cons.prems(4) rest fine(2,4)] False show ?thesis
      unfolding one(3) by simp
  qed
qed

section \<open>The remainder\<close>

lemma append_unallocated_sound:
  assumes "foldE (append_unallocated lc reason) ru gs = Inr ru'" "gathers (snd ru) ys" "sources_ok (snd ru)" "groups_sound gs"
  shows "fst ru' = fst ru @ map (\<lambda>g. rest_line lc reason (snd g)) gs \<and> gathers (snd ru') (ys @ map (\<lambda>g. held_pair (snd g)) gs)
    \<and> sources_ok (snd ru')"
  using assms
proof (induction gs arbitrary: ru ys)
  case Nil
  then show ?case by simp
next
  case (Cons g gs)
  obtain ru1 where ru1: "append_unallocated lc reason ru g = Inr ru1" "foldE (append_unallocated lc reason) ru1 gs = Inr ru'"
    using Cons.prems(1) by auto
  obtain un where un: "add_amount (snd ru) (eb_amount (snd g)) (eb_sources (snd g)) = Inr un"
    "ru1 = (fst ru @ [rest_line lc reason (snd g)], un)" using ru1(1) by (auto simp: append_unallocated_def)
  have g: "canonical_money (eb_amount (snd g))" "groups_sound gs"
    using Cons.prems(4) by (simp_all add: groups_sound_def bucket_sound_def bucket_open_def)
  have "gathers (snd ru1) (ys @ [held_pair (snd g)])" "sources_ok (snd ru1)"
    using gathers_add_amount [OF Cons.prems(2) un(1) g(1)] add_amount_sources [OF un(1) Cons.prems(3)] by (simp_all add: un(2) held_pair_def)
  from Cons.IH [OF ru1(2) this g(2)] show ?case by (simp add: un(2))
qed

lemma append_pools_sound:
  assumes "foldE (append_pool lc ds) ru ps = Inr ru'" "drivers_ok archived ds" "gathers (snd ru) ys" "rules_sound ps"
    and "\<forall>e \<in> set ps. \<not> driven ds (snd (snd e)) \<longrightarrow> held_pair (snd (snd e)) \<in> set ys"
  shows "ru' = (fst ru @ map (\<lambda>e. rest_line lc ''no_driver_for_proportional_pool'' (snd (snd e)))
                  (filter (\<lambda>e. \<not> driven ds (snd (snd e))) ps), snd ru)"
  using assms
proof (induction ps arbitrary: ru)
  case Nil
  then show ?case by simp
next
  case (Cons e ps)
  obtain k rule b where e [simp]: "e = (k, rule, b)" by (cases e)
  obtain ru1 where ru1: "append_pool lc ds ru (k, rule, b) = Inr ru1" "foldE (append_pool lc ds) ru1 ps = Inr ru'" using Cons.prems(1) by auto
  have fine: "bucket_sound (snd (snd k)) b" "rules_sound ps"
    "\<forall>e \<in> set ps. \<not> driven ds (snd (snd e)) \<longrightarrow> held_pair (snd (snd e)) \<in> set ys"
    using Cons.prems(4,5) by (simp_all add: rules_sound_def)
  show ?case
  proof (cases "driven ds b")
    case True
    then obtain d where d: "map_of ds (money_ident (eb_amount b)) = Some d" by (auto simp: driven_def)
    then have "d \<noteq> []" using Cons.prems(2) unfolding drivers_ok_def by blast
    then have "ru1 = ru" using ru1(1) d by (simp add: append_pool_def Let_def)
    then show ?thesis using Cons.IH [OF _ Cons.prems(2,3) fine(2,3)] ru1(2) True by simp
  next
    case False
    then have none: "map_of ds (money_ident (eb_amount b)) = None" by (simp add: driven_def)
    have "held_pair b \<in> set ys" using Cons.prems(5) False by simp
    then have "set (eb_sources b) \<subseteq> lineage (money_ident (eb_amount b)) ys" by (force simp: lineage_def held_pair_def)
    then have "set (eb_sources b) \<subseteq> set (sources_of (snd (snd ru)) (money_ident (eb_amount b)))"
      using gathersD(2) [OF Cons.prems(3)] by simp
    moreover have "eb_sources b \<noteq> []" using fine(1) by (simp add: bucket_sound_def)
    ultimately have "list_ex (\<lambda>s. s \<in> set (eb_sources b)) (sources_of (snd (snd ru)) (money_ident (eb_amount b)))"
      unfolding list_ex_iff by (meson hd_in_set subsetD)
    then have one: "ru1 = (fst ru @ [rest_line lc ''no_driver_for_proportional_pool'' b], snd ru)"
      using ru1(1) none by (simp add: append_pool_def Let_def sources_of_def)
    then have "gathers (snd ru1) ys" using Cons.prems(3) by simp
    from Cons.IH [OF ru1(2) Cons.prems(2) this fine(2,3)] False show ?thesis by (simp add: one)
  qed
qed

lemma rest_line_valid:
  assumes "bucket_sound k b" "reason \<in> set unallocated_reasons"
  shows "rest_valid (rest_line lc reason b)"
proof -
  have "set (exact_top_projects lc b) \<subseteq> set (eb_projects b)"
    unfolding exact_top_projects_def by (metis set_sort_by set_take_subset)
  then have "\<forall>p \<in> set (exact_top_projects lc b). trim (fst p) \<noteq> [] \<and> canonical_money (snd p) \<and> money_ident (snd p) = k"
    using assms(1) unfolding bucket_sound_def bucket_open_def by blast
  moreover have "money_ident (eb_amount b) = k" "canonical_money (eb_amount b)" using assms(1) by (simp_all add: bucket_sound_def bucket_open_def)
  ultimately show ?thesis using source_ids_texts [OF assms(1)] assms(2) by (simp add: rest_valid_def rest_line_def)
qed

lemma rest_lines_pairs: "lineage i (map rest_pair (map (\<lambda>g. rest_line lc reason (f g)) gs)) = lineage i (map (\<lambda>g. held_pair (f g)) gs)"
  "pairs_worth i (map rest_pair (map (\<lambda>g. rest_line lc reason (f g)) gs)) = pairs_worth i (map (\<lambda>g. held_pair (f g)) gs)"
  by (induction gs) (simp_all add: rest_pair_def rest_line_def held_pair_def source_ids_def pairs_worth_def)

section \<open>The totals of the record\<close>

lemma sorted_pairs: "lineage i (map f (sort_by c xs)) = lineage i (map f xs)" "pairs_worth i (map f (sort_by c xs)) = pairs_worth i (map f xs)"
  by (simp_all add: lineage_def pairs_worth_def sum_list_sort_by)

lemma lineage_map: "lineage i (map f xs) = (\<Union>x \<in> set xs. if money_ident (fst (f x)) = i then set (snd (f x)) else {})"
  by (auto simp: lineage_def)

lemma as_buckets_valid:
  assumes m: "gathers m xs" "sources_ok m" and xs: "\<forall>x \<in> set xs. snd x \<noteq> [] \<and> (\<forall>s \<in> set (snd x). trim s \<noteq> [])"
  shows "\<forall>b \<in> set (as_bucket_map lc m). bucket_valid b" "distinct (map (\<lambda>b. money_ident (xb_amount b)) (as_bucket_map lc m))"
    "pairs_worth i (map bucket_pair (as_bucket_map lc m)) = pairs_worth i xs"
    "lineage i (map bucket_pair (as_bucket_map lc m)) = lineage i xs"
    "(\<lambda>b. (xb_currency b, xb_basis b)) ` set (as_bucket_map lc m) = money_ident ` fst ` set xs"
proof -
  define bk where "bk e = \<lparr>xb_currency = fst (fst e), xb_basis = snd (fst e), xb_amount = snd e, xb_sources = sort (sources_of (snd m) (fst e))\<rparr>"
    for e :: "ident \<times> money"
  have buckets: "as_bucket_map lc m = sort_by (bucket_order lc) (map bk (fst m))"
    unfolding as_bucket_map_def bk_def sources_of_def by (simp add: split_def)
  have ok: "amounts_ok (fst m)" "fst ` set (fst m) = money_ident ` fst ` set xs" using m(1) by (simp_all add: gathers_def)
  have entry: "bucket_valid (bk e)" "money_ident (xb_amount (bk e)) = fst e" if "e \<in> set (fst m)" for e
  proof -
    have e: "money_ident (snd e) = fst e" "canonical_money (snd e)" using ok(1) that by (simp_all add: amounts_ok_def)
    then show "money_ident (xb_amount (bk e)) = fst e" by (simp add: bk_def)
    have src: "set (sources_of (snd m) (fst e)) = lineage (fst e) xs" by (rule gathersD(2) [OF m(1)])
    have "fst e \<in> money_ident ` fst ` set xs" using that ok(2) by blast
    then obtain x where x: "x \<in> set xs" "money_ident (fst x) = fst e" by auto
    then have "set (snd x) \<subseteq> lineage (fst e) xs" by (auto simp: lineage_def)
    then have "sources_of (snd m) (fst e) \<noteq> []" using src xs x(1) by (metis list.set(1) set_empty subset_empty)
    then have some: "sort (sources_of (snd m) (fst e)) \<noteq> []" by (metis set_empty set_sort)
    have "\<forall>s \<in> lineage (fst e) xs. trim s \<noteq> []" using xs by (auto simp: lineage_def split: if_splits)
    moreover have "distinct (sources_of (snd m) (fst e))" using m(2) unfolding sources_ok_def by blast
    ultimately have "texts_ok (sort (sources_of (snd m) (fst e)))" using src by (simp add: texts_ok_def)
    then show "bucket_valid (bk e)" using e some unfolding bucket_valid_def by (simp add: bk_def)
  qed
  then show "\<forall>b \<in> set (as_bucket_map lc m). bucket_valid b" unfolding buckets by auto
  have idents: "map (\<lambda>b. money_ident (xb_amount b)) (map bk (fst m)) = map fst (fst m)" using entry(2) by simp
  have "distinct (map (\<lambda>b. money_ident (xb_amount b)) (map bk (fst m)))" using ok(1) unfolding idents by (simp add: amounts_ok_def)
  moreover have "mset (map (\<lambda>b. money_ident (xb_amount b)) (as_bucket_map lc m)) = mset (map (\<lambda>b. money_ident (xb_amount b)) (map bk (fst m)))"
    unfolding buckets by (metis mset_map mset_sort_by)
  ultimately show "distinct (map (\<lambda>b. money_ident (xb_amount b)) (as_bucket_map lc m))" by (metis mset_eq_imp_distinct_iff)
  have "pairs_worth i (map bucket_pair (as_bucket_map lc m)) = held i (fst m)"
    using bucket_map_worth [OF ok(1), of i lc] by (simp add: pairs_worth_def bucket_pair_def o_def)
  then show "pairs_worth i (map bucket_pair (as_bucket_map lc m)) = pairs_worth i xs" using gathersD(1) [OF m(1)] by simp
  have "lineage i (map bucket_pair (as_bucket_map lc m)) = lineage i (map (\<lambda>e. bucket_pair (bk e)) (fst m))"
    unfolding buckets sorted_pairs by (simp add: o_def)
  also have "\<dots> = (\<Union>e \<in> set (fst m). if fst e = i then set (sources_of (snd m) (fst e)) else {})"
    unfolding lineage_map using entry(2) by (intro SUP_cong) (simp_all add: bucket_pair_def, simp add: bk_def)
  also have "\<dots> = lineage i xs"
  proof (cases "i \<in> fst ` set (fst m)")
    case True
    then show ?thesis unfolding gathersD(2) [OF m(1)] by (auto split: if_splits)
  next
    case False
    have "lineage i xs = {}" using False unfolding ok(2) by (auto simp: lineage_def image_iff)
    then show ?thesis using False by (auto split: if_splits)
  qed
  finally show "lineage i (map bucket_pair (as_bucket_map lc m)) = lineage i xs" .
  have "(\<lambda>b. (xb_currency b, xb_basis b)) ` set (as_bucket_map lc m) = fst ` set (fst m)"
    unfolding buckets by (simp add: image_image bk_def)
  then show "(\<lambda>b. (xb_currency b, xb_basis b)) ` set (as_bucket_map lc m) = money_ident ` fst ` set xs" unfolding ok(2) .
qed

section \<open>What the engine returns\<close>

lemma centre_id_text: "is_cost_centre_id s \<Longrightarrow> trim s \<noteq> []"
proof -
  assume "is_cost_centre_id s"
  then have s: "s \<noteq> []" "\<forall>c \<in> set s. id_tail c" by (auto simp: is_cost_centre_id_def id_tail_def list_all_iff split: list.splits)
  have "\<not> js_space c" if "id_tail c" for c
    using that by (auto simp: id_tail_def id_head_def js_space_def is_digit_def)
  then have "trim s = s" using s(2) by (intro trim_spaceless) blast
  then show ?thesis using s(1) by simp
qed

lemma check_targets_ids: "foldE check_target seen ts = Inr seen' \<Longrightarrow> \<forall>t \<in> set ts. is_cost_centre_id (at_centre t)"
  by (induction ts arbitrary: seen) (auto simp: check_target_def split: if_splits)

lemma validated_centres: "validate_rule r = Inr () \<Longrightarrow> t \<in> set (ru_targets r) \<Longrightarrow> trim (at_centre t) \<noteq> []"
proof -
  assume "validate_rule r = Inr ()" "t \<in> set (ru_targets r)"
  then have "is_cost_centre_id (at_centre t)" by (auto simp: validate_rule_def split: if_splits dest!: check_targets_ids)
  then show ?thesis by (rule centre_id_text)
qed

text \<open>No line names a blank cost centre: a blank text is treated as one more archived centre, which no target names.\<close>

lemma named_centres:
  assumes valid: "\<forall>r \<in> set rules. validate_rule r = Inr ()" and placed: "exact_placed rules archived rows P"
    and st1: "foldE claimed_pass no_exact_state (xp_claimed P) = Inr st1" and st2: "foldE exact_pool_pass st1 (xp_pools P) = Inr st2"
    and l: "l \<in> set (xs_lines st2)"
  shows "trim (xl_centre l) \<noteq> []"
proof
  assume blank: "trim (xl_centre l) = []"
  let ?A = "[xl_centre l]"
  have start: "paid_exactly rules ?A (\<lambda>i. 0) no_exact_state" by (simp add: paid_exactly_def no_exact_state_def drivers_ok_def)
  have claimed: "\<forall>(k, rule, b) \<in> set (xp_claimed P). bucket_fine (snd (snd k)) b \<and> direct_rule rules archived rule"
    and pools: "\<forall>(k, rule, b) \<in> set (xp_pools P). bucket_fine (snd (snd k)) b \<and> rule \<in> set rules"
    using placed by (simp_all add: exact_placed_def rules_ok_def pool_rule_def)
  have "direct_rule rules ?A rule" if "direct_rule rules archived rule" for rule
    using that valid blank validated_centres by (fastforce simp: direct_rule_def)
  then have "\<forall>(k, rule, b) \<in> set (xp_claimed P). bucket_fine (snd (snd k)) b \<and> direct_rule rules ?A rule" using claimed by fast
  from claimed_passes_paid [OF st1 start this valid]
  have paid: "paid_exactly rules ?A (\<lambda>i. 0 + rules_worth i (xp_claimed P)) st1" "xs_unallocated st1 = ([], [])"
    by (simp_all add: no_exact_state_def)
  have "pooled (xs_drivers st1) [] (\<lambda>i. 0) st1" using paid(2) by (simp add: pooled_def)
  from exact_pool_passes [OF st2 paid(1) this pools] have "line_fine rules ?A l" using l unfolding paid_exactly_def by blast
  then show False by (simp add: line_fine_def)
qed

lemma pools_partition:
  "rules_owned i ps = rules_owned i (filter (\<lambda>e. Q e) ps) \<union> rules_owned i (filter (\<lambda>e. \<not> Q e) ps)"
  unfolding rules_owned_def by auto

definition left_over :: "(ident \<times> (string \<times> money) list) list \<Rightarrow> exact_places \<Rightarrow> (money \<times> string list) list" where
  "left_over ds P =
     (map (\<lambda>e. held_pair (snd (snd e))) (filter (\<lambda>e. \<not> driven ds (snd (snd e))) (xp_pools P)) @ map (\<lambda>g. held_pair (snd g)) (xp_unmatched P))
       @ map (\<lambda>g. held_pair (snd g)) (xp_archived P)"

lemma left_over_owned:
  "lineage i (left_over ds P) = rules_owned i (filter (\<lambda>e. \<not> driven ds (snd (snd e))) (xp_pools P))
     \<union> groups_owned i (xp_unmatched P) \<union> groups_owned i (xp_archived P)"
  unfolding left_over_def lineage_simps(3) lineage_held groups_owned_def rules_owned_def ..

lemma left_over_texts:
  assumes "rules_sound (xp_pools P)" "groups_sound (xp_unmatched P)" "groups_sound (xp_archived P)" "x \<in> set (left_over ds P)"
  shows "snd x \<noteq> [] \<and> (\<forall>s \<in> set (snd x). trim s \<noteq> [])"
proof -
  obtain k b where "bucket_sound k b" "x = held_pair b"
    using assms unfolding left_over_def rules_sound_def groups_sound_def by auto
  then show ?thesis by (simp add: held_pair_def bucket_sound_def bucket_open_def)
qed

lemma remainder_sound:
  assumes u1: "foldE (append_unallocated lc ''no_matching_rule'') ([], u) (xp_unmatched P) = Inr u1"
    and u2: "foldE (append_unallocated lc ''target_cost_centre_archived'') u1 (xp_archived P) = Inr u2"
    and u3: "foldE (append_pool lc ds) u2 (xp_pools P) = Inr (rest, un)"
    and u: "gathers u (map (\<lambda>e. held_pair (snd (snd e))) (filter (\<lambda>e. \<not> driven ds (snd (snd e))) (xp_pools P)))" "sources_ok u"
    and ds: "drivers_ok archived ds"
    and P: "rules_sound (xp_pools P)" "groups_sound (xp_unmatched P)" "groups_sound (xp_archived P)"
  shows "gathers un (left_over ds P)" "sources_ok un" "\<forall>u \<in> set rest. rest_valid u"
    "lineage i (map rest_pair rest) = lineage i (left_over ds P)" "pairs_worth i (map rest_pair rest) = pairs_worth i (left_over ds P)"
proof -
  let ?out = "filter (\<lambda>e. \<not> driven ds (snd (snd e))) (xp_pools P)"
  have start: "gathers (snd ([] :: exact_rest list, u)) (map (\<lambda>e. held_pair (snd (snd e))) ?out)" "sources_ok (snd ([] :: exact_rest list, u))"
    using u by simp_all
  note U1 = append_unallocated_sound [OF u1 start P(2)]
  note U2 = append_unallocated_sound [OF u2 U1 [THEN conjunct2, THEN conjunct1] U1 [THEN conjunct2, THEN conjunct2] P(3)]
  from U2 have g: "gathers (snd u2) (left_over ds P)" "sources_ok (snd u2)" unfolding left_over_def by blast+
  have "\<forall>e \<in> set (xp_pools P). \<not> driven ds (snd (snd e)) \<longrightarrow> held_pair (snd (snd e)) \<in> set (left_over ds P)"
    by (auto simp: left_over_def)
  note U3 = append_pools_sound [OF u3 ds g(1) P(1) this]
  then show "gathers un (left_over ds P)" "sources_ok un" using g by simp_all
  let ?line = "\<lambda>reason f. map (\<lambda>g. rest_line lc reason (f g))"
  have rest: "rest = (?line ''no_matching_rule'' snd (xp_unmatched P) @ ?line ''target_cost_centre_archived'' snd (xp_archived P))
      @ ?line ''no_driver_for_proportional_pool'' (\<lambda>e. snd (snd e)) ?out" using U1 U2 U3 by simp
  show "\<forall>u \<in> set rest. rest_valid u"
    using P unfolding rest by (auto simp: groups_sound_def rules_sound_def unallocated_reasons_def intro!: rest_line_valid)
  show "lineage i (map rest_pair rest) = lineage i (left_over ds P)"
    unfolding rest left_over_def map_append lineage_simps(3) rest_lines_pairs(1) by blast
  show "pairs_worth i (map rest_pair rest) = pairs_worth i (left_over ds P)"
    unfolding rest left_over_def map_append pairs_worth_append rest_lines_pairs(2) by simp
qed

lemma engine_lines:
  assumes P: "placed_sound rows P" and placed: "exact_placed rules archived rows P" and valid: "\<forall>r \<in> set rules. validate_rule r = Inr ()"
    and st1: "foldE claimed_pass no_exact_state (xp_claimed P) = Inr st1" and st2: "foldE exact_pool_pass st1 (xp_pools P) = Inr st2"
    and ds: "drivers_ok archived (xs_drivers st1)"
  shows "lines_sound st2" "xs_drivers st2 = xs_drivers st1" "sources_ok (xs_unallocated st2)"
    "gathers (xs_unallocated st2) (map (\<lambda>e. held_pair (snd (snd e))) (filter (\<lambda>e. \<not> driven (xs_drivers st1) (snd (snd e))) (xp_pools P)))"
    "lineage i (map row_pair rows) = lines_own i st2 \<union> lineage i (left_over (xs_drivers st1) P)"
proof -
  have sound: "rules_sound (xp_claimed P)" "rules_sound (xp_pools P)" using P by (simp_all add: placed_sound_def)
  have own: "lineage i (map row_pair rows) = rules_owned i (xp_claimed P) \<union> rules_owned i (xp_pools P)
      \<union> groups_owned i (xp_unmatched P) \<union> groups_owned i (xp_archived P)" using P unfolding placed_sound_def by blast
  have start: "lines_sound no_exact_state" "lines_own i no_exact_state = {}" "xs_unallocated no_exact_state = ([], [])"
    by (simp_all add: lines_sound_def lines_own_def no_exact_state_def gathers_Nil no_sources)
  have direct: "\<forall>(k, rule, b) \<in> set (xp_claimed P). direct_rule rules archived rule"
    using placed by (auto simp: exact_placed_def rules_ok_def)
  have pool_rules: "\<forall>e \<in> set (xp_pools P). rule_sound (fst (snd e))"
    using placed valid validated_rule_sound by (auto simp: exact_placed_def rules_ok_def pool_rule_def)
  from claimed_passes_sound [OF st1 start(1) sound(1) direct valid, of i] start(2,3)
  have L1: "lines_sound st1" "lines_own i st1 = rules_owned i (xp_claimed P)" "xs_unallocated st1 = ([], [])" by simp_all
  have "gathers (xs_unallocated st1) []" "sources_ok (xs_unallocated st1)" unfolding L1(3) by (rule gathers_Nil no_sources)+
  from exact_pool_passes_sound [OF st2 L1(1) refl ds this sound(2) pool_rules, of i]
  have L2: "lines_sound st2 \<and> xs_drivers st2 = xs_drivers st1 \<and> sources_ok (xs_unallocated st2)
      \<and> gathers (xs_unallocated st2) (map (\<lambda>e. held_pair (snd (snd e))) (filter (\<lambda>e. \<not> driven (xs_drivers st1) (snd (snd e))) (xp_pools P)))"
    "lines_own i st2 = lines_own i st1 \<union> rules_owned i (filter (\<lambda>e. driven (xs_drivers st1) (snd (snd e))) (xp_pools P))"
    unfolding append_Nil by blast+
  then show "lines_sound st2" "xs_drivers st2 = xs_drivers st1" "sources_ok (xs_unallocated st2)"
    "gathers (xs_unallocated st2) (map (\<lambda>e. held_pair (snd (snd e))) (filter (\<lambda>e. \<not> driven (xs_drivers st1) (snd (snd e))) (xp_pools P)))"
    by blast+
  show "lineage i (map row_pair rows) = lines_own i st2 \<union> lineage i (left_over (xs_drivers st1) P)"
    unfolding own L2(2) L1(2) left_over_owned pools_partition [of i "xp_pools P" "\<lambda>e. driven (xs_drivers st1) (snd (snd e))"] by blast
qed

lemma engine_parts:
  assumes returned: "apply_exact_allocation lc raw rules centres ps pe run_at = Inr run"
  obtains s e rows at_ms tot st ys rest un conserves excluded where
    "canonical_exact_rows raw ps pe = Inr (s, e, rows)" "safe_integer run_at = Some at_ms" "exact_excluded_from True = Inr excluded"
    "run = \<lparr>xa_start = s, xa_end = e, xa_run_at = at_ms, xa_total = as_bucket_map lc tot,
       xa_allocated = as_bucket_map lc (xs_allocated st), xa_unallocated = as_bucket_map lc un,
       xa_lines = sort_by (line_order lc) (xs_lines st), xa_rest = sort_by (rest_order lc) rest,
       xa_bases = sort (to_set (map (\<lambda>r. basis_name (basis (xr_amount r))) rows)), xa_unresolved = [],
       xa_complete = True, xa_conserves = conserves, xa_excluded = excluded\<rparr>"
    "gathers tot (map row_pair rows)" "sources_ok tot" "lines_sound st" "gathers un ys" "sources_ok un"
    "\<forall>x \<in> set ys. snd x \<noteq> [] \<and> (\<forall>s \<in> set (snd x). trim s \<noteq> [])" "\<forall>u \<in> set rest. rest_valid u"
    "\<forall>i. lineage i ys = lineage i (map rest_pair rest) \<and> pairs_worth i ys = pairs_worth i (map rest_pair rest)
       \<and> lineage i (map row_pair rows) = lineage i (map line_pair (xs_lines st)) \<union> lineage i (map rest_pair rest)"
    "\<forall>l \<in> set (xs_lines st). trim (xl_centre l) \<noteq> []"
proof -
  let ?arch = "archived_centres centres"
  obtain s e rows at_ms P st1 st2 u1 u2 rest un conserves excluded where
    valid: "\<forall>r \<in> set rules. validate_rule r = Inr ()"
    and P: "foldE (place_exact_row (order_rules lc rules) ?arch) no_exact_places rows = Inr P"
    and st1: "foldE claimed_pass no_exact_state (xp_claimed P) = Inr st1"
    and rows: "canonical_exact_rows raw ps pe = Inr (s, e, rows)"
    and head: "safe_integer run_at = Some at_ms" "exact_excluded_from True = Inr excluded"
    and st2: "foldE exact_pool_pass st1 (xp_pools P) = Inr st2"
    and u1: "foldE (append_unallocated lc ''no_matching_rule'') ([], xs_unallocated st2) (xp_unmatched P) = Inr u1"
    and u2: "foldE (append_unallocated lc ''target_cost_centre_archived'') u1 (xp_archived P) = Inr u2"
    and u3: "foldE (append_pool lc (xs_drivers st2)) u2 (xp_pools P) = Inr (rest, un)"
    and c: "foldE (check_identity (xp_total P) (xs_allocated st2) un) True
              (to_set (map fst (fst (xp_total P)) @ map fst (fst (xs_allocated st2)) @ map fst (fst un))) = Inr conserves"
    and run: "run = \<lparr>xa_start = s, xa_end = e, xa_run_at = at_ms, xa_total = as_bucket_map lc (xp_total P),
                xa_allocated = as_bucket_map lc (xs_allocated st2), xa_unallocated = as_bucket_map lc un,
                xa_lines = sort_by (line_order lc) (xs_lines st2), xa_rest = sort_by (rest_order lc) rest,
                xa_bases = sort (to_set (map (\<lambda>r. basis_name (basis (xr_amount r))) rows)), xa_unresolved = [],
                xa_complete = True, xa_conserves = conserves, xa_excluded = excluded\<rparr>"
    by (rule exact_run_passes [OF returned])
  note claimed = claimed_rows_paid [OF rows valid P st1]
  have P': "placed_sound rows P" using exact_placing_sound [OF P no_places_sound canonical_rows_sound(1) [OF rows]] by simp
  then have sound: "gathers (xp_total P) (map row_pair rows)" "sources_ok (xp_total P)"
    "rules_sound (xp_pools P)" "groups_sound (xp_unmatched P)" "groups_sound (xp_archived P)" by (simp_all add: placed_sound_def)
  have ds: "drivers_ok ?arch (xs_drivers st1)" using claimed(2) by (simp add: paid_exactly_def)
  note L = engine_lines [OF P' claimed(1) valid st1 st2 ds]
  note R = remainder_sound [OF u1 u2 u3 [unfolded L(2)] L(4,3) ds sound(3-5)]
  have own: "\<forall>i. lineage i (left_over (xs_drivers st1) P) = lineage i (map rest_pair rest)
      \<and> pairs_worth i (left_over (xs_drivers st1) P) = pairs_worth i (map rest_pair rest)
      \<and> lineage i (map row_pair rows) = lineage i (map line_pair (xs_lines st2)) \<union> lineage i (map rest_pair rest)"
    unfolding R(4,5) L(5) lines_own_def by blast
  have texts: "\<forall>x \<in> set (left_over (xs_drivers st1) P). snd x \<noteq> [] \<and> (\<forall>s \<in> set (snd x). trim s \<noteq> [])"
    using left_over_texts [OF sound(3-5)] by blast
  have "\<forall>l \<in> set (xs_lines st2). trim (xl_centre l) \<noteq> []" using named_centres [OF valid claimed(1) st1 st2] by blast
  from that [OF rows head run sound(1,2) L(1) R(1,2) texts R(3) own this] show thesis .
qed

lemma engine_run:
  assumes returned: "apply_exact_allocation lc raw rules centres ps pe run_at = Inr run"
  shows "run_valid run" "balanced run i" "xa_unresolved run = []"
    "distinct (map (\<lambda>b. money_ident (xb_amount b)) (xa_total run))" "distinct (map (\<lambda>b. money_ident (xb_amount b)) (xa_allocated run))"
    "distinct (map (\<lambda>b. money_ident (xb_amount b)) (xa_unallocated run))"
    "set (xa_bases run) = (\<lambda>b. basis_name (xb_basis b)) ` set (xa_total run)"
    "\<forall>l \<in> set (xa_lines run). trim (xl_centre l) \<noteq> [] \<and> (\<exists>r \<in> set rules. xl_rule l = ru_id r)"
proof -
  obtain s e rows at_ms tot st ys rest un conserves excluded where
    rows: "canonical_exact_rows raw ps pe = Inr (s, e, rows)"
    and head: "safe_integer run_at = Some at_ms" "exact_excluded_from True = Inr excluded"
    and run: "run = \<lparr>xa_start = s, xa_end = e, xa_run_at = at_ms, xa_total = as_bucket_map lc tot,
       xa_allocated = as_bucket_map lc (xs_allocated st), xa_unallocated = as_bucket_map lc un,
       xa_lines = sort_by (line_order lc) (xs_lines st), xa_rest = sort_by (rest_order lc) rest,
       xa_bases = sort (to_set (map (\<lambda>r. basis_name (basis (xr_amount r))) rows)), xa_unresolved = [],
       xa_complete = True, xa_conserves = conserves, xa_excluded = excluded\<rparr>"
    and tot: "gathers tot (map row_pair rows)" "sources_ok tot" and lines: "lines_sound st" and un: "gathers un ys" "sources_ok un"
    and texts: "\<forall>x \<in> set ys. snd x \<noteq> [] \<and> (\<forall>s \<in> set (snd x). trim s \<noteq> [])" and rest: "\<forall>u \<in> set rest. rest_valid u"
    and own: "\<forall>i. lineage i ys = lineage i (map rest_pair rest) \<and> pairs_worth i ys = pairs_worth i (map rest_pair rest)
       \<and> lineage i (map row_pair rows) = lineage i (map line_pair (xs_lines st)) \<union> lineage i (map rest_pair rest)"
    and centres: "\<forall>l \<in> set (xs_lines st). trim (xl_centre l) \<noteq> []"
    by (rule engine_parts [OF returned])
  have parts: "xa_total run = as_bucket_map lc tot" "xa_allocated run = as_bucket_map lc (xs_allocated st)" "xa_unallocated run = as_bucket_map lc un"
    "xa_lines run = sort_by (line_order lc) (xs_lines st)" "xa_rest run = sort_by (rest_order lc) rest"
    "xa_bases run = sort (to_set (map (\<lambda>r. basis_name (basis (xr_amount r))) rows))" "xa_start run = s" "xa_end run = e" "xa_run_at run = at_ms"
    "xa_unresolved run = []" "xa_complete run" "xa_excluded run = excluded"
    by (simp_all add: run)
  have T1: "\<forall>x \<in> set (map row_pair rows). snd x \<noteq> [] \<and> (\<forall>s \<in> set (snd x). trim s \<noteq> [])"
    using canonical_rows_sound(1) [OF rows] by (simp add: row_pair_def row_sound_def row_fine_def)
  have al: "gathers (xs_allocated st) (map line_pair (xs_lines st))" "sources_ok (xs_allocated st)" "\<forall>l \<in> set (xs_lines st). line_valid l"
    using lines unfolding lines_sound_def by blast+
  have T2: "\<forall>x \<in> set (map line_pair (xs_lines st)). snd x \<noteq> [] \<and> (\<forall>s \<in> set (snd x). trim s \<noteq> [])"
    using al(3) by (simp add: line_pair_def line_valid_def texts_ok_def)
  note B1 = as_buckets_valid [where lc = lc, OF tot T1] and B2 = as_buckets_valid [where lc = lc, OF al(1,2) T2] and B3 = as_buckets_valid [where lc = lc, OF un texts]
  show "xa_unresolved run = []" by (rule parts)
  show "distinct (map (\<lambda>b. money_ident (xb_amount b)) (xa_total run))" "distinct (map (\<lambda>b. money_ident (xb_amount b)) (xa_allocated run))"
    "distinct (map (\<lambda>b. money_ident (xb_amount b)) (xa_unallocated run))" unfolding parts by (rule B1(2) B2(2) B3(2))+
  have "(\<lambda>b. basis_name (xb_basis b)) ` set (xa_total run) = (\<lambda>i. basis_name (snd i)) ` (\<lambda>b. (xb_currency b, xb_basis b)) ` set (as_bucket_map lc tot)"
    unfolding parts by (simp add: image_image)
  also have "\<dots> = set (xa_bases run)" unfolding B1(5) parts by (simp add: image_image row_pair_def money_ident_def)
  finally show bases: "set (xa_bases run) = (\<lambda>b. basis_name (xb_basis b)) ` set (xa_total run)" ..
  have facts: "xa_conserves run" "\<forall>l \<in> set (xa_lines run). line_fine rules (archived_centres centres) l"
    "rows_worth i rows = lines_worth i (xa_lines run) + rest_worth i (xa_rest run)"
    using exact_run_facts [OF returned] unfolding rows by blast+
  show "\<forall>l \<in> set (xa_lines run). trim (xl_centre l) \<noteq> [] \<and> (\<exists>r \<in> set rules. xl_rule l = ru_id r)"
    using facts(2) centres unfolding parts set_sort_by line_fine_def by blast
  have worths: "pairs_worth i (map row_pair rows) = rows_worth i rows" "pairs_worth i (map line_pair (xs_lines st)) = lines_worth i (xa_lines run)"
    "pairs_worth i (map rest_pair rest) = rest_worth i (xa_rest run)"
    unfolding parts pairs_worth_def rows_worth_def lines_worth_def rest_worth_def sum_list_sort_by
    by (simp_all add: row_pair_def line_pair_def rest_pair_def o_def)
  show "balanced run i"
    using own [rule_format, of i] facts(3)
    unfolding balanced_def Let_def parts(1-5) sorted_pairs B1(3,4) B2(3,4) B3(3,4) worths by simp
  have "distinct (xa_bases run)" unfolding parts by (simp add: distinct_to_set)
  moreover have "set (xa_bases run) \<subseteq> set (map basis_name economic_bases)"
  proof -
    have "b \<in> set economic_bases" for b by (cases b) (simp_all add: economic_bases_def)
    then show ?thesis unfolding bases by auto
  qed
  moreover have "\<forall>b \<in> set (xa_total run) \<union> set (xa_allocated run) \<union> set (xa_unallocated run). bucket_valid b"
    unfolding parts using B1(1) B2(1) B3(1) by blast
  moreover have "\<forall>l \<in> set (xa_lines run). line_valid l" "\<forall>u \<in> set (xa_rest run). rest_valid u"
    unfolding parts set_sort_by by (rule al(3) rest)+
  moreover have "xa_start run < xa_end run" "safe_int (xa_start run)" "safe_int (xa_end run)" "safe_int (xa_run_at run)"
    unfolding parts using canonical_rows_sound(2-4) [OF rows] safe_integer_Some [OF head(1)] by blast+
  moreover have "exact_excluded_from (xa_complete run) = Inr (xa_excluded run)" "xa_complete run = (xa_unresolved run = [])" "texts_ok (xa_unresolved run)"
    using head(2) parts(10-12) by (simp_all add: texts_ok_def)
  ultimately show "run_valid run" using facts(1) unfolding run_valid_def by blast
qed

section \<open>Properties\<close>

text \<open>C40: what the exact engine returns can be recorded and read back.  A run of the engine, with whatever
  unresolved requests are then disclosed, is accepted by the validator, which recomputes conservation and
  source lineage from the record alone, as long as the magnitudes of its lines and remainder add up to a
  number that fits an amount at every scale; and when the rules have names, the reader gives the run back.\<close>

theorem engine_run_accepted:
  assumes "apply_exact_allocation lc raw rules centres ps pe run_at = Inr run"
    and "with_unresolved_requests run ids = Inr run'" "\<forall>u \<in> set ids. trim u \<noteq> []"
    and "sum_list (map (\<lambda>l. \<bar>money_value (xl_amount l)\<bar>) (xa_lines run)) + sum_list (map (\<lambda>u. \<bar>money_value (xu_amount u)\<bar>) (xa_rest run))
           < 10 ^ (max_money_coefficient_digits - max_money_scale)"
  shows "validate_exact_allocation_result (exact_run_object run') = Inr ()
    \<and> ((\<forall>r \<in> set rules. trim (ru_id r) \<noteq> []) \<longrightarrow> exact_allocation_from_json (exact_allocation_to_json run') = Inr run')"
proof -
  note R = engine_run [OF assms(1)]
  obtain excluded where excluded: "exact_excluded_from (sort (to_set ids) = []) = Inr excluded"
    and run': "run' = run\<lparr>xa_unresolved := sort (to_set ids), xa_complete := sort (to_set ids) = [], xa_excluded := excluded\<rparr>"
    using assms(2) by (auto simp: with_unresolved_requests_def Let_def)
  have "texts_ok (sort (to_set ids))" using assms(3) by (simp add: texts_ok_def distinct_to_set)
  then have valid: "run_valid run'" using R(1) excluded unfolding run_valid_def run' by simp
  have "balanced run' i" for i using R(2) [of i] unfolding balanced_def run' by simp
  moreover have "mass (map line_pair (xa_lines run')) + mass (map rest_pair (xa_rest run')) < room"
    using assms(4) by (simp add: mass_def room_def run' line_pair_def rest_pair_def o_def)
  ultimately have accepted: "validate_exact_allocation_result (exact_run_object run') = Inr ()"
    using R(4-7) by (intro valid_run_accepted [OF valid]) (simp_all add: run')
  moreover have "exact_allocation_from_json (exact_allocation_to_json run') = Inr run'" if "\<forall>r \<in> set rules. trim (ru_id r) \<noteq> []"
    using that R(8) by (intro validated_run_read [OF accepted]) (auto simp: run')
  ultimately show ?thesis by blast
qed

lemma sum_list_below: "\<forall>x \<in> set xs. f x \<le> c \<Longrightarrow> sum_list (map f xs) \<le> of_nat (length xs) * (c :: rat)"
  by (induction xs) (auto simp: algebra_simps)

lemma money_value_coefficient: "\<bar>money_value m\<bar> \<le> of_int \<bar>coefficient m\<bar>"
proof -
  have "(1 :: rat) \<le> 10 ^ scale m" by simp
  then have "\<bar>of_int (coefficient m)\<bar> / 10 ^ scale m \<le> (\<bar>of_int (coefficient m)\<bar> :: rat) / 1"
    by (intro divide_left_mono) simp_all
  then show ?thesis by (simp add: money_value_def)
qed

theorem engine_run_accepted_witness:
  "\<exists>run run'. apply_exact_allocation code_unit_cmp exact_sample_rows sample_rules sample_centres (JNum 0) (JNum 10) (JNum 11) = Inr run
    \<and> with_unresolved_requests run [''q1''] = Inr run' \<and> \<not> xa_complete run'
    \<and> exact_allocation_from_json (exact_allocation_to_json run') = Inr run'"
proof -
  obtain run where run: "apply_exact_allocation code_unit_cmp exact_sample_rows sample_rules sample_centres (JNum 0) (JNum 10) (JNum 11) = Inr run"
    and size: "length (xa_lines run) = 4" "length (xa_rest run) < 4" "list_all (\<lambda>l. \<bar>coefficient (xl_amount l)\<bar> < 10000) (xa_lines run)"
      "list_all (\<lambda>u. \<bar>coefficient (xu_amount u)\<bar> < 10000) (xa_rest run)"
    using exact_sample_run by (auto split: sum.splits)
  obtain excluded where "exact_excluded_from False = Inr excluded"
  proof -
    have "case exact_excluded_from False of Inl e \<Rightarrow> False | Inr x \<Rightarrow> True" by code_simp
    then show thesis using that by (auto split: sum.splits)
  qed
  moreover have "sort (to_set [''q1'']) = [''q1'']" by (simp add: to_set_def set_add_def)
  ultimately have unresolved: "with_unresolved_requests run [''q1''] = Inr (run\<lparr>xa_unresolved := [''q1''], xa_complete := False, xa_excluded := excluded\<rparr>)"
    by (simp add: with_unresolved_requests_def Let_def)
  have small: "\<bar>money_value m\<bar> \<le> 10000" if "\<bar>coefficient m\<bar> < 10000" for m
  proof -
    have "of_int \<bar>coefficient m\<bar> \<le> (10000 :: rat)" using that by linarith
    then show ?thesis using money_value_coefficient [of m] by linarith
  qed
  have "sum_list (map (\<lambda>l. \<bar>money_value (xl_amount l)\<bar>) (xa_lines run)) \<le> of_nat (length (xa_lines run)) * 10000"
    "sum_list (map (\<lambda>u. \<bar>money_value (xu_amount u)\<bar>) (xa_rest run)) \<le> of_nat (length (xa_rest run)) * 10000"
    using size(3,4) small by (intro sum_list_below; simp add: list_all_iff)+
  moreover have "of_nat (length (xa_rest run)) \<le> (4 :: rat)" using size(2) by simp
  ultimately have "sum_list (map (\<lambda>l. \<bar>money_value (xl_amount l)\<bar>) (xa_lines run)) + sum_list (map (\<lambda>u. \<bar>money_value (xu_amount u)\<bar>) (xa_rest run)) < 10 ^ 5"
    using size(1) by simp
  also have "(10 :: rat) ^ 5 \<le> 10 ^ (max_money_coefficient_digits - max_money_scale)"
    by (intro power_increasing) (simp_all add: max_money_coefficient_digits_def max_money_scale_def)
  finally have fits: "sum_list (map (\<lambda>l. \<bar>money_value (xl_amount l)\<bar>) (xa_lines run)) + sum_list (map (\<lambda>u. \<bar>money_value (xu_amount u)\<bar>) (xa_rest run))
      < 10 ^ (max_money_coefficient_digits - max_money_scale)" .
  have "\<forall>u \<in> set [''q1'']. trim u \<noteq> []" by (simp add: trim_def js_space_def)
  moreover have "\<forall>r \<in> set sample_rules. trim (ru_id r) \<noteq> []" by code_simp
  ultimately show ?thesis using engine_run_accepted [OF run unresolved _ fits] run unresolved by fastforce
qed

text \<open>Nothing validates the name of a rule.  A run whose line names a blank rule is accepted by the validator, so
  it is serialised, but its reader refuses it.\<close>

lemma blank_rule_unreadable:
  "validate_exact_allocation_result (exact_run_object (small_run\<lparr>xa_lines := map (xl_rule_update (\<lambda>_. [])) (xa_lines small_run)\<rparr>)) = Inr ()
    \<and> exact_allocation_from_json (exact_allocation_to_json (small_run\<lparr>xa_lines := map (xl_rule_update (\<lambda>_. [])) (xa_lines small_run)\<rparr>))
        = Inl ''ruleId must be a non-empty string''"
  by code_simp

end
