(* ===== verification/Spec2Isabelle.thy ===== *)
theory Spec2Isabelle
  imports LedgerProps LedgerSteps FxProps EpiState EpiScope HittingSets Evidence DerivationProps
    Admissibility AllocConserves ExactLineage
begin

text \<open>
  Verification development for Fiscus, an accounting kernel for the cost of AI work written in
  TypeScript.  The development models the three subsystems that carry its own logic, the exact economic
  kernel (\<open>src/src/economics\<close>), the epistemic kernel (\<open>src/src/epistemic\<close>) and the allocation of shared cost
  (\<open>src/src/alloc\<close>), as pure Isabelle functions, and proves what makes them correct.

  \<^bold>\<open>The program.\<close>  Economic facts are immutable events (a charge, an estimate, an allocation, a
  correction, a translation, a period close) with exact decimal amounts.  They are appended to a ledger
  of two SQLite tables; nothing is ever changed, and every read validates the graph of events it returns:
  references exist, are acyclic and causally ordered, reversals and credits stay inside what they take
  back, a charge is translated once per currency, a closed period is not falsified afterwards.  The
  constructors of \<open>corrections.ts\<close>, \<open>request.ts\<close> and \<open>fx.ts\<close> build events from amounts (\<open>money.ts\<close>),
  rates (\<open>rate.ts\<close>) and instants (\<open>time.ts\<close>); the ledger accepts or refuses them.  What the program may
  say about the world is kept apart from what it recorded: evidence supports or refutes propositions in a
  four-valued state (\<open>state.ts\<close>), a claim carries an ordered profile of how strong it is on each axis
  (\<open>profile.ts\<close>) at a scope and a grain (\<open>scope.ts\<close>, \<open>grain.ts\<close>), a derivation from one claim to another
  is legal only with a witness for every change that strengthens it (\<open>derivation.ts\<close>), and evidence,
  assumptions and claims form an acyclic dependency graph along which a revocation spreads (\<open>dag.ts\<close>,
  \<open>revocation.ts\<close>), and a use of a claim is admitted only when its profile meets the requirements of that use
  (\<open>admissibility.ts\<close>).  Versioned rules spread the cost of a period over cost centres, whole, by fixed ratios
  or in proportion to what was spread directly (\<open>rules.ts\<close>): once over spend kept as floating-point dollars
  (\<open>apply.ts\<close>), once over the exact effective charges of the ledger (\<open>exact.ts\<close>).

  \<^bold>\<open>Conventions.\<close>  A function that may throw returns \<open>'a res\<close>: \<open>Inl message\<close> or \<open>Inr value\<close>, and the
  checks come in the order of the source, so the message says which guard refused.  A TypeScript
  interface is a \<open>record\<close>, a union of string literals a \<open>datatype\<close> with a function to its text, an
  untyped argument a \<open>jsval\<close>.  Messages leave out what a template inserts, the index or the offending text.
  A \<open>BigInt\<close> is an \<open>int\<close>; no machine integer of the modelled code can wrap.  A finite \<open>number\<close> is the rational it
  denotes; where the code computes with numbers, \<open>Double\<close> rounds each result to 53 bits, ties to even.
  A \<open>Map\<close> is an association list and a \<open>Set\<close> a distinct list, both in insertion order, and an object is
  the list of its entries in enumeration order.  Where the source compares canonical values by the text
  of \<open>JSON.stringify\<close>, the model compares the values.  \<open>scope_val\<close> leaves out a constraint whose key is
  \<open>__proto__\<close>, as the assignment \<open>pairs[key] = value\<close> does.

  \<^bold>\<open>Parameters.\<close>  \<open>lc\<close> is \<open>localeCompare\<close>, of which the theorems assume at most that it is a consistent
  comparator (the locale \<open>comparator\<close>, interpreted on integers and on code units; the witnesses use code
  units).  It may rank different strings equal, as it does for canonically equivalent ones; where that
  matters, a theorem says so of the strings at hand and no others: that the order in which a rate book
  arrives is immaterial holds when the collation tells the ids of its observations apart (\<open>separates\<close>), and
  that a stored envelope is returned unchanged when it tells the keys of its scope apart (\<open>told_apart\<close>).  \<open>sha\<close> is SHA-256 of canonical JSON text, of which nothing is assumed.  \<open>now\<close> is the clock.

  \<^bold>\<open>Theories of the economic kernel.\<close>
  \<^item> \<open>Prelude\<close>, \<open>JsValue\<close>, \<open>Json\<close>: results, association lists, sorting with a comparator, the decimal text
    of integers, JavaScript values, \<open>immutableJson\<close>.
  \<^item> \<open>Money\<close> (\<open>money.ts\<close>): amounts, alignment of scales, addition, negation, comparison, parsing and
    printing.  An amount denotes a rational; addition and comparison are exact on it, canonical forms are
    unique and print and parse back.  The locale \<open>exact_amount\<close> is what ledger and close rely on.
  \<^item> \<open>EpiTime\<close>, \<open>IsoOrder\<close> (\<open>epistemic/time.ts\<close>): instants as milliseconds, the ISO-8601 calendar, half-open
    intervals, and when the order of the text is the order of time.
  \<^item> \<open>Rate\<close> (\<open>rate.ts\<close>): rates in lowest terms, exact application, observations and books of historical
    rates, the selection of the one observation in force.
  \<^item> \<open>Close\<close>, \<open>Events\<close> (\<open>close.ts\<close>, \<open>events.ts\<close>): period metadata and the digest body; the event record, its
    constructor and JSON form.
  \<^item> \<open>LedgerState\<close>, \<open>LedgerChecks\<close>, \<open>EconLedger\<close> (\<open>ledger.ts\<close>): the tables, the walks over references, each
    block of \<open>validateReferenceClosure\<close> and \<open>validateCloseEvent\<close>, and the public operations.  \<open>LedgerFacts\<close>
    derives what a successful read has established of every event, \<open>LedgerLaws\<close> lifts it to laws of the
    whole ledger, \<open>LedgerProps\<close>, \<open>LedgerClose\<close> and \<open>LedgerSteps\<close> state the properties, the last as
    invariants of the ledgers reachable by the public writes.  \<open>Evaluation\<close> holds the code equations and
    sample ledgers of the witnesses.
  \<^item> \<open>Corrections\<close>, \<open>Fx\<close>, \<open>FxProps\<close> (\<open>corrections.ts\<close>, \<open>request.ts\<close>, \<open>fx.ts\<close>): the constructors, and that
    what they build passes the checks of the ledger that need no store.

  \<^bold>\<open>Theories of the epistemic kernel.\<close>
  \<^item> \<open>EpiState\<close> (\<open>state.ts\<close>, \<open>profile.ts\<close>): evidence aggregation is a join in the information order of the
    four states, merging of profiles is a meet axis by axis.
  \<^item> \<open>EpiScope\<close> (\<open>scope.ts\<close>, \<open>grain.ts\<close>): the relation of scopes is the relation of their constraint maps;
    support between grains composes.
  \<^item> \<open>EpiEnvelope\<close>, \<open>Evidence\<close>, \<open>Claim\<close> (\<open>evidence.ts\<close>, \<open>claim.ts\<close>): the constructors return canonical envelopes
    only and return those unchanged.
  \<^item> \<open>Derivation\<close>, \<open>DerivationProps\<close> (\<open>derivation.ts\<close>): the constructor of derivations, exactly which changes
    need which witness, and that a chain of unwitnessed derivations only weakens.
  \<^item> \<open>Worklist\<close>, \<open>Revocation\<close> (\<open>revocation.ts\<close>): the breadth-first loops compute reachability; the locale
    \<open>worklist\<close> proves it once, its interpretations \<open>revoke\<close> and \<open>trace\<close> are the loops of the source.
  \<^item> \<open>Dag\<close>, \<open>DagFacts\<close>, \<open>DagProps\<close>, \<open>DagTrace\<close>, \<open>HittingSets\<close> (\<open>dag.ts\<close>): construction refuses exactly the
    invalid graphs, traversals are reachability, a revocation is explained by dependency paths, the
    hitting sets are the inclusion-minimal ones, and the cut sets agree with revocation.

  \<^item> \<open>Admissibility\<close> (\<open>admissibility.ts\<close>, \<open>claim-uses.ts\<close>): admission, the comparison of two claims for a use,
    which is that of a part-by-part preorder and agrees with admission, and the list of uses a profile is barred from, which bars exactly what the written floor or the
    vocabulary of uses bars.

  \<^bold>\<open>Theories of the allocation of shared cost.\<close>
  \<^item> \<open>Double\<close>: rounding to a double and the arithmetic on numbers built on it.
  \<^item> \<open>AllocRules\<close>, \<open>AllocShares\<close> (\<open>rules.ts\<close>): validation, versions and priorities of rules, the match of a row,
    parts per million, and \<open>distributeMicros\<close>, whose largest-remainder shares add up to the total.
  \<^item> \<open>AllocApply\<close>, \<open>AllocConserves\<close> (\<open>apply.ts\<close>): a run over floating-point rows; every micro-dollar of the rounded
    total is on one line or in the remainder, and every line is accounted for by a rule.
  \<^item> \<open>ExactAlloc\<close>, \<open>ExactProps\<close> (\<open>exact.ts\<close>): a run over exact charges; by currency and basis it conserves money
    exactly or refuses a share that does not terminate.
  \<^item> \<open>ExactJson\<close>, \<open>ExactRecords\<close> (\<open>exact.ts\<close>): the persisted form of a run, the validator that recomputes
    conservation and lineage from the record alone, and the reader.  \<open>ExactAccepts\<close> shows the validator
    complete for balanced records, \<open>ExactLineage\<close> follows the source events through the engine and concludes
    that whatever the engine returns is accepted and read back.

  \<^bold>\<open>Loops and bounds.\<close>  Recursions that are not structural are \<open>function\<close>s with a proved termination: the
  worklist loops by the number of unseen nodes, the walks over references by the events not yet visited,
  \<open>gcd_loop\<close> by its second argument, \<open>walk\<close> by the nodes not on the current path.  \<open>path_back\<close> follows
  the parents of a trace with the number of its entries as fuel: a parent was entered before its child, so
  a path never has more nodes than the table (\<open>traced_leads_back\<close>).  \<open>walk\<close> carries the limit on the
  number of paths of the source, 1024 from \<open>minimalSupportingSets\<close>.  The limits of \<open>money.ts\<close> and \<open>rate.ts\<close>
  on digits and scales are those of the source, and timestamps are bounded by \<open>max_time\<close>, the range of
  \<open>Date\<close>.  \<open>round_double\<close> has no largest value, so a computation that overflows to infinity is outside the
  model; the conservation of \<open>applyAllocation\<close> is stated below 2^51 micro-dollars, some two billion dollars,
  where sums of integral micro-dollars are exact.  A sum of exact amounts is refused above 16384 digits; that
  the validator accepts a run is stated for magnitudes below 10^15384, where no partial sum is refused.

  \<^bold>\<open>Not modelled.\<close>  The row digests of the ledger, their cache and the high-water marks
  (\<open>verifyStoredRecord\<close>, \<open>appendMark\<close>, \<open>appendedAfter\<close>) and the schema upgrade \<open>backfillSourceLinks\<close>: they
  protect bytes on disk, and the model keeps the events the bytes decode to.  For the same reason the
  envelope of an exact run, its canonical text and SHA-256 digest, is left out: the reader starts at the
  parsed body.  The allocation claims built from fixed texts (\<open>alloc/epistemic.ts\<close>), attribution edges and the
  views of \<open>economics\<close>, and the smaller modules of \<open>epistemic\<close> (abstract bounds, obligations, witnesses and
  ledger of issued claims).  SQLite itself, network, file, process and terminal code, the dashboard, and the
  statistical estimators over floating point.  Cyclic JavaScript values, accessors and prototypes other than
  the \<open>__proto__\<close> setter.
\<close>

end
